(* ===== verification/Prelude.thy ===== *)
theory Prelude
  imports
    Main
    "HOL-Library.AList"
    "HOL-Library.Sublist"
    "HOL-Library.List_Lexorder"
    "HOL-Library.Char_ord"
    "HOL-Library.Multiset"
begin

text \<open>
  What the component theories share: the error values of the Go code, the
  functions of the Go standard library it calls on strings, Go maps as
  association lists whose keys are distinct (the order of the list is one of
  the orders in which Go may iterate over the map), sets of strings, and the
  generic lemmas on the loops that fill such maps.
\<close>

section \<open>Collections of rewrite rules\<close>

named_theorems map_simps \<open>lookups in association lists built by the loops of the code\<close>
named_theorems string_simps \<open>the string functions of the Go library\<close>

section \<open>Errors\<close>

text \<open>
  An error is a value. The constructors are the API errors the code tells
  apart with \<open>kerrors.IsNotFound\<close>, \<open>IsConflict\<close> and so on; every other error
  is \<open>OtherErr\<close> with its message, or \<open>WrapErr\<close>, the value of \<open>errors.Wrap\<close>. \<open>AggregateErr\<close> is the value of
  \<open>utilerrors.NewAggregate\<close>, which is nil for an empty list.
\<close>

datatype gerror =
    NotFoundErr string
  | AlreadyExistsErr string
  | ConflictErr string
  | ForbiddenErr string
  | BadRequestErr string
  | InvalidErr string
  | InternalErr string
  | UnauthorizedErr string
  | DefaultDenyErr
  | OtherErr string
  | WrapErr string gerror
  | AggregateErr "gerror list"

definition NewAggregate :: "gerror list \<Rightarrow> gerror option" where
  "NewAggregate es = (if es = [] then None else Some (AggregateErr es))"

lemma NewAggregate_None [simp]: "NewAggregate es = None \<longleftrightarrow> es = []"
  by (simp add: NewAggregate_def)

fun IsNotFound :: "gerror \<Rightarrow> bool" where
  "IsNotFound (NotFoundErr _) = True"
| "IsNotFound (WrapErr _ e) = IsNotFound e"
| "IsNotFound _ = False"

fun IsAlreadyExists :: "gerror \<Rightarrow> bool" where
  "IsAlreadyExists (AlreadyExistsErr _) = True"
| "IsAlreadyExists (WrapErr _ e) = IsAlreadyExists e"
| "IsAlreadyExists _ = False"

fun IsConflict :: "gerror \<Rightarrow> bool" where
  "IsConflict (ConflictErr _) = True"
| "IsConflict (WrapErr _ e) = IsConflict e"
| "IsConflict _ = False"

section \<open>Strings\<close>

text \<open>Adding to a list what it does not contain yet.\<close>

definition add_new :: "'a \<Rightarrow> 'a list \<Rightarrow> 'a list" where
  "add_new x xs = (if x \<in> set xs then xs else xs @ [x])"

definition HasPrefix :: "string \<Rightarrow> string \<Rightarrow> bool" where
  [simp]: "HasPrefix s p = prefix p s"

definition HasSuffix :: "string \<Rightarrow> string \<Rightarrow> bool" where
  [simp]: "HasSuffix s p = suffix p s"

definition StrContains :: "string \<Rightarrow> string \<Rightarrow> bool" where
  [simp]: "StrContains s p = sublist p s"

definition TrimRight :: "string \<Rightarrow> string \<Rightarrow> string" where
  "TrimRight s cutset = rev (dropWhile (\<lambda>c. c \<in> set cutset) (rev s))"

definition TrimPrefix :: "string \<Rightarrow> string \<Rightarrow> string" where
  "TrimPrefix s p = (if prefix p s then drop (length p) s else s)"

text \<open>\<open>strings.SplitN(s, sep, 2)\<close> for a separator of one character that occurs in \<open>s\<close>.\<close>

definition SplitN2 :: "string \<Rightarrow> char \<Rightarrow> string \<times> string" where
  "SplitN2 s sep = (takeWhile (\<lambda>c. c \<noteq> sep) s, tl (dropWhile (\<lambda>c. c \<noteq> sep) s))"

text \<open>\<open>strings.Split(s, sep)\<close> for a separator of one character.\<close>

fun Split :: "string \<Rightarrow> char \<Rightarrow> string list" where
  "Split [] sep = [[]]"
| "Split (c # cs) sep =
     (if c = sep then [] # Split cs sep
      else case Split cs sep of [] \<Rightarrow> [[c]] | w # ws \<Rightarrow> (c # w) # ws)"

fun Join :: "string list \<Rightarrow> string \<Rightarrow> string" where
  "Join [] sep = []"
| "Join [s] sep = s"
| "Join (s # t # ss) sep = s @ sep @ Join (t # ss) sep"

definition char_lower :: "char \<Rightarrow> char" where
  "char_lower c = (if CHR ''A'' \<le> c \<and> c \<le> CHR ''Z'' then char_of (of_char c + 32 :: nat) else c)"

text \<open>\<open>strings.ToLower\<close> on ASCII strings.\<close>

definition ToLower :: "string \<Rightarrow> string" where
  "ToLower s = map char_lower s"

lemma Split_not_Nil [simp]: "Split s sep \<noteq> []"
  by (induction s) (auto split: list.splits)

lemma Join_Split: "Join (Split s sep) [sep] = s"
proof (induction s)
  case (Cons c cs)
  then show ?case
    by (cases "Split cs sep"; cases "tl (Split cs sep)") auto
qed simp

lemma Split_no_sep: "sep \<notin> set s \<Longrightarrow> Split s sep = [s]"
  by (induction s) auto

lemma Split_append_sep:
  "sep \<notin> set s \<Longrightarrow> Split (s @ sep # t) sep = s # Split t sep"
  by (induction s) auto

lemma sublist_singleton [string_simps]: "sublist [c] s \<longleftrightarrow> c \<in> set s"
  by (auto simp: sublist_def in_set_conv_decomp)

lemma SplitN2_join [string_simps]:
  "sep \<in> set s \<Longrightarrow> fst (SplitN2 s sep) @ sep # snd (SplitN2 s sep) = s"
  by (induction s) (auto simp: SplitN2_def)

lemma SplitN2_fst [string_simps]: "sep \<notin> set (fst (SplitN2 s sep))"
  by (auto simp: SplitN2_def dest: set_takeWhileD)

lemma SplitN2_unique:
  "sep \<notin> set a \<Longrightarrow> SplitN2 (a @ sep # b) sep = (a, b)"
  by (induction a) (auto simp: SplitN2_def)

lemma takeWhile_eq_replicate: "takeWhile (\<lambda>d. d = c) xs = replicate (length (takeWhile (\<lambda>d. d = c) xs)) c"
  by (induction xs) auto

lemma TrimRight_decomp: "\<exists>k. s = TrimRight s [c] @ replicate k c"
proof -
  have "s = rev (takeWhile (\<lambda>d. d = c) (rev s) @ dropWhile (\<lambda>d. d = c) (rev s))"
    by simp
  also have "\<dots> = TrimRight s [c] @ rev (takeWhile (\<lambda>d. d = c) (rev s))"
    by (simp add: TrimRight_def del: takeWhile_dropWhile_id)
  also have "rev (takeWhile (\<lambda>d. d = c) (rev s))
      = replicate (length (takeWhile (\<lambda>d. d = c) (rev s))) c"
    by (metis takeWhile_eq_replicate rev_replicate)
  finally show ?thesis by blast
qed

lemma prefix_TrimRight: "prefix (TrimRight s [c]) s"
  using TrimRight_decomp [of s c] by (metis prefixI)

text \<open>\<open>err.Error()\<close>: an aggregate lists the different messages of its leaves.\<close>

fun err_leaves :: "gerror \<Rightarrow> string list" where
  "err_leaves (AggregateErr es) = concat (map err_leaves es)"
| "err_leaves (NotFoundErr m) = [m]"
| "err_leaves (AlreadyExistsErr m) = [m]"
| "err_leaves (ConflictErr m) = [m]"
| "err_leaves (ForbiddenErr m) = [m]"
| "err_leaves (BadRequestErr m) = [m]"
| "err_leaves (InvalidErr m) = [m]"
| "err_leaves (InternalErr m) = [m]"
| "err_leaves (UnauthorizedErr m) = [m]"
| "err_leaves (OtherErr m) = [m]"
| "err_leaves (WrapErr m e) = [m @ '': '' @
     (case fold add_new (err_leaves e) [] of [x] \<Rightarrow> x | ms \<Rightarrow> if e = AggregateErr [] then [] else ''['' @ Join ms '', '' @ '']'')]"
| "err_leaves DefaultDenyErr = [''DEFAULT DENY'']"

definition err_msg :: "gerror \<Rightarrow> string" where
  "err_msg e = (case fold add_new (err_leaves e) [] of
     [m] \<Rightarrow> m | ms \<Rightarrow> (case e of AggregateErr [] \<Rightarrow> [] | _ \<Rightarrow> ''['' @ Join ms '', '' @ '']''))"

section \<open>Sets of strings\<close>

text \<open>\<open>sets.String\<close>: \<open>List\<close> returns the elements in ascending order.\<close>

type_synonym string_set = "string set"

definition ListSet :: "string_set \<Rightarrow> string list" where
  "ListSet s = sorted_list_of_set s"

section \<open>Maps\<close>

abbreviation put :: "'k \<Rightarrow> 'v \<Rightarrow> ('k \<times> 'v) list \<Rightarrow> ('k \<times> 'v) list" where
  "put \<equiv> AList.update"

abbreviation del :: "'k \<Rightarrow> ('k \<times> 'v) list \<Rightarrow> ('k \<times> 'v) list" where
  "del \<equiv> AList.delete"

abbreviation wf_map :: "('k \<times> 'v) list \<Rightarrow> bool" where
  "wf_map m \<equiv> distinct (map fst m)"

definition has_key :: "('k \<times> 'v) list \<Rightarrow> 'k \<Rightarrow> bool" where
  [simp]: "has_key m k \<longleftrightarrow> map_of m k \<noteq> None"

lemma map_of_put [map_simps]: "map_of (put k v m) q = (if q = k then Some v else map_of m q)"
  by (simp add: update_conv')

lemma map_of_del [map_simps]: "map_of (del k m) q = (if q = k then None else map_of m q)"
  by (simp add: delete_conv')

lemma wf_put [simp]: "wf_map (put k v m) \<longleftrightarrow> wf_map m"
proof
  show "wf_map m \<Longrightarrow> wf_map (put k v m)"
    by (simp add: distinct_update)
  show "wf_map (put k v m) \<Longrightarrow> wf_map m"
    by (induction m) (auto simp: update_keys split: if_splits)
qed

lemma wf_del: "wf_map m \<Longrightarrow> wf_map (del k m)"
  by (rule distinct_delete)

lemma keys_put [simp]: "fst ` set (put k v m) = insert k (fst ` set m)"
  by (induction m) auto

lemma map_of_conv_key: "map_of m k \<noteq> None \<longleftrightarrow> k \<in> fst ` set m"
  by (simp add: map_of_eq_None_iff)

lemma wf_fold_cond_put:
  assumes "wf_map m" and "\<And>x r. wf_map r \<Longrightarrow> wf_map (f x r)"
  shows "wf_map (fold f xs m)"
  using assms by (induction xs arbitrary: m) auto

text \<open>The loop \<open>for k, v := range xs \{ result[k] = f(k, v) \}\<close>.\<close>

lemma map_of_fold_put [map_simps]:
  assumes "wf_map xs"
  shows "map_of (fold (\<lambda>(k, v). put k (f k v)) xs m) q =
    (case map_of xs q of Some v \<Rightarrow> Some (f q v) | None \<Rightarrow> map_of m q)"
  using assms
proof (induction xs arbitrary: m)
  case (Cons x xs)
  obtain k v where x: "x = (k, v)" by force
  have "map_of xs k = None"
    using Cons.prems x by (simp add: map_of_eq_None_iff)
  with Cons x show ?case
    by (auto simp: map_of_put split: option.splits)
qed simp

text \<open>The same loop with a guard that skips some of the entries.\<close>

lemma map_of_fold_put_if [map_simps]:
  assumes "wf_map xs"
  shows "map_of (fold (\<lambda>(k, v) r. if P k v then put k (f k v) r else r) xs m) q =
    (case map_of xs q of Some v \<Rightarrow> if P q v then Some (f q v) else map_of m q | None \<Rightarrow> map_of m q)"
  using assms
proof (induction xs arbitrary: m)
  case (Cons x xs)
  obtain k v where x: "x = (k, v)" by force
  have "map_of xs k = None"
    using Cons.prems x by (simp add: map_of_eq_None_iff)
  with Cons x show ?case
    by (auto simp: map_of_put split: option.splits)
qed simp

text \<open>The loop \<open>for k, v := range xs \{ if _, found := result[k]; !found \{ result[k] = f(k, v) \} \}\<close>.\<close>

definition put_absent :: "('k \<Rightarrow> 'v \<Rightarrow> 'w) \<Rightarrow> ('k \<times> 'v) list \<Rightarrow> ('k \<times> 'w) list \<Rightarrow> ('k \<times> 'w) list" where
  "put_absent f xs m = fold (\<lambda>(k, v) r. if has_key r k then r else put k (f k v) r) xs m"

lemma map_of_put_absent [map_simps]:
  "map_of (put_absent f xs m) q =
    (case map_of m q of Some w \<Rightarrow> Some w | None \<Rightarrow> map_option (f q) (map_of xs q))"
  unfolding put_absent_def
proof (induction xs arbitrary: m)
  case (Cons x xs)
  then show ?case
    by (cases x) (auto simp: map_of_put split: option.splits)
qed (simp split: option.splits)

lemma wf_put_absent [simp]: "wf_map m \<Longrightarrow> wf_map (put_absent f xs m)"
  unfolding put_absent_def by (rule wf_fold_cond_put) (auto split: prod.splits)

lemma wf_fold_put: "wf_map m \<Longrightarrow> wf_map (fold (\<lambda>(k, v). put k (f k v)) xs m)"
  by (rule wf_fold_cond_put) (auto split: prod.splits)

lemma wf_fold_put_if:
  "wf_map m \<Longrightarrow> wf_map (fold (\<lambda>(k, v) r. if P k v then put k (f k v) r else r) xs m)"
  by (rule wf_fold_cond_put) (auto split: prod.splits)

lemma ex_values_map_of:
  "wf_map m \<Longrightarrow> (\<exists>v \<in> set (map snd m). P v) \<longleftrightarrow> (\<exists>k v. map_of m k = Some v \<and> P v)"
  by (force simp: map_of_eq_Some_iff)

lemma fold_cond_append:
  "fold (\<lambda>x acc. if P x then acc @ [f x] else acc) xs acc = acc @ map f (filter P xs)"
  by (induction xs arbitrary: acc) auto

lemma fold_filter_append:
  "fold (\<lambda>x acc. if P x then acc @ [x] else acc) xs acc = acc @ filter P xs"
  by (induction xs arbitrary: acc) auto

lemma fold_append_concat: "fold (\<lambda>x acc. acc @ f x) xs acc = acc @ concat (map f xs)"
  by (induction xs arbitrary: acc) auto

lemma length_dom_map_of: "wf_map m \<Longrightarrow> length m = card (dom (map_of m))"
  by (metis dom_map_of_conv_image_fst distinct_card length_map set_map)

lemma map_of_le_eq:
  assumes "wf_map a" "wf_map b" "length a = length b" "map_of a \<subseteq>\<^sub>m map_of b"
  shows "map_of a = map_of b"
proof -
  have "dom (map_of a) = dom (map_of b)"
    using assms by (intro card_subset_eq map_le_implies_dom_le)
      (simp_all add: finite_dom_map_of flip: length_dom_map_of)
  then show ?thesis
    using assms(4) by (metis map_le_antisym map_le_def)
qed

end
