(* ===== verification/ApiTypes.thy ===== *)
theory ApiTypes
  imports Prelude
begin

text \<open>
  The Kubernetes API types the code works on, with the fields it reads or
  writes. A quantity is an exact decimal; it is kept as an integer number of
  nano units, the smallest unit of \<open>resource.Quantity\<close>, so that
  \<open>Add\<close>, \<open>Sub\<close>, \<open>Neg\<close>, \<open>Cmp\<close> and \<open>Sign\<close> are the operations on integers.
\<close>

section \<open>Quantities and resource lists\<close>

type_synonym quantity = int
type_synonym resource_name = string
type_synonym resource_list = "(resource_name \<times> quantity) list"

definition NewQuantity :: "int \<Rightarrow> quantity" where
  "NewQuantity n = n * 10 ^ 9"

definition QCmp :: "quantity \<Rightarrow> quantity \<Rightarrow> int" where
  "QCmp a b = (if a < b then - 1 else if a = b then 0 else 1)"

lemma QCmp_simps [simp]:
  "QCmp a b = 0 \<longleftrightarrow> a = b" "QCmp a b = 1 \<longleftrightarrow> b < a"
  "QCmp a b \<le> 0 \<longleftrightarrow> a \<le> b" "0 < QCmp a b \<longleftrightarrow> b < a" "QCmp a b < 0 \<longleftrightarrow> a < b" "QCmp a a = 0"
  by (auto simp: QCmp_def)

text \<open>The value of a resource in a list, zero where it is absent.\<close>

definition amount :: "resource_list \<Rightarrow> resource_name \<Rightarrow> quantity" where
  "amount m k = (case map_of m k of Some v \<Rightarrow> v | None \<Rightarrow> 0)"

section \<open>Metadata\<close>

record owner_ref =
  ow_apiVersion :: string
  ow_kind :: string
  ow_name :: string
  ow_uid :: string
  ow_controller :: "bool option"

record obj_meta =
  om_name :: string
  om_generateName :: string
  om_namespace :: string
  om_labels :: "(string \<times> string) list"
  om_annotations :: "(string \<times> string) list"
  om_uid :: string
  om_resourceVersion :: string
  om_deletionTimestamp :: "int option"
  om_deletionGracePeriodSeconds :: "int option"
  om_ownerReferences :: "owner_ref list"

definition empty_meta :: obj_meta where
  "empty_meta = \<lparr>om_name = [], om_generateName = [], om_namespace = [], om_labels = [],
     om_annotations = [], om_uid = [], om_resourceVersion = [], om_deletionTimestamp = None,
     om_deletionGracePeriodSeconds = None, om_ownerReferences = []\<rparr>"

text \<open>\<open>metav1.GetControllerOf\<close>: the first owner reference that is the controller.\<close>

definition GetControllerOf :: "obj_meta \<Rightarrow> owner_ref option" where
  "GetControllerOf m = find (\<lambda>r. ow_controller r = Some True) (om_ownerReferences m)"

record group_resource =
  gr_group :: string
  gr_resource :: string

section \<open>Quota objects\<close>

record scope_req =
  sr_scopeName :: string
  sr_operator :: string
  sr_values :: "string list"

record quota_spec =
  qs_hard :: resource_list
  qs_scopes :: "string list"
  qs_scopeSelector :: "scope_req list option"

text \<open>In a quota status nil and empty maps differ, so both maps are options.\<close>

record quota_status =
  st_hard :: "resource_list option"
  st_used :: "resource_list option"

record resource_quota =
  rq_meta :: obj_meta
  rq_spec :: quota_spec
  rq_status :: quota_status

definition the_rl :: "resource_list option \<Rightarrow> resource_list" where
  "the_rl m = (case m of Some l \<Rightarrow> l | None \<Rightarrow> [])"

lemma the_rl_simps [simp]: "the_rl (Some l) = l" "the_rl None = []"
  by (simp_all add: the_rl_def)

section \<open>Workload objects\<close>

record container =
  c_requests :: resource_list
  c_limits :: resource_list

record pod =
  pod_meta :: obj_meta
  pod_containers :: "container list"
  pod_initContainers :: "container list"
  pod_activeDeadlineSeconds :: "int option"
  pod_priorityClassName :: string
  pod_phase :: string

record service =
  svc_meta :: obj_meta
  svc_ports :: nat
  svc_type :: string

record pvc =
  pvc_meta :: obj_meta
  pvc_storageClassName :: "string option"
  pvc_requests :: resource_list

text \<open>The objects a request may carry; \<open>OtherObj\<close> is a type that is none of the others, named by its Go type.\<close>

datatype runtime_object =
    PodObj pod
  | ServiceObj service
  | PvcObj pvc
  | MetaObj obj_meta
  | OtherObj string

section \<open>Admission attributes\<close>

datatype operation = CreateOp | UpdateOp | DeleteOp | ConnectOp

record attributes =
  at_name :: string
  at_namespace :: string
  at_groupResource :: group_resource
  at_subresource :: string
  at_operation :: operation
  at_object :: runtime_object
  at_oldObject :: "runtime_object option"
  at_dryRun :: bool

end
