(* ===== verification/ResourceLists.thy ===== *)
theory ResourceLists
  imports ApiTypes
begin

text \<open>
  \<open>kube/pkg/quota/v1/resources.go\<close> and \<open>interfaces.go\<close>: the arithmetic on
  resource lists on which quota accounting rests, and the usage calculation over
  a registry of evaluators. Each operation is specified by what it does to the
  lookup of a resource name.
\<close>

section \<open>Comparisons\<close>

definition Equals :: "resource_list \<Rightarrow> resource_list \<Rightarrow> bool" where
  "Equals a b =
    (if length a \<noteq> length b then False
     else list_all (\<lambda>(key, value1). case map_of b key of
            None \<Rightarrow> False
          | Some value2 \<Rightarrow> QCmp value1 value2 = 0) a)"

definition LessThanOrEqual :: "resource_list \<Rightarrow> resource_list \<Rightarrow> bool \<times> resource_name list" where
  "LessThanOrEqual a b =
    fold (\<lambda>(key, value) (result, resourceNames).
        case map_of a key of
          None \<Rightarrow> (result, resourceNames)
        | Some other \<Rightarrow>
            if QCmp other value > 0 then (False, resourceNames @ [key])
            else (result, resourceNames))
      b (True, [])"

definition IsZero_rl :: "resource_list \<Rightarrow> bool" where
  "IsZero_rl a = list_all (\<lambda>(k, v). QCmp v 0 = 0) a"

definition IsNegative :: "resource_list \<Rightarrow> resource_name list" where
  "IsNegative a = fold (\<lambda>(k, v) results. if QCmp v 0 < 0 then results @ [k] else results) a []"

section \<open>Arithmetic\<close>

definition Max_rl :: "resource_list \<Rightarrow> resource_list \<Rightarrow> resource_list" where
  "Max_rl a b =
    (let result = fold (\<lambda>(key, value). put key
           (case map_of b key of
              Some other \<Rightarrow> if QCmp value other \<le> 0 then other else value
            | None \<Rightarrow> value)) a []
     in put_absent (\<lambda>key value. value) b result)"

definition Add_rl :: "resource_list \<Rightarrow> resource_list \<Rightarrow> resource_list" where
  "Add_rl a b =
    (let result = fold (\<lambda>(key, value). put key
           (case map_of b key of Some other \<Rightarrow> value + other | None \<Rightarrow> value)) a []
     in put_absent (\<lambda>key value. value) b result)"

definition SubtractWithNonNegativeResult :: "resource_list \<Rightarrow> resource_list \<Rightarrow> resource_list" where
  "SubtractWithNonNegativeResult a b =
    (let result = fold (\<lambda>(key, value). put key
           (let quantity = (case map_of b key of Some other \<Rightarrow> value - other | None \<Rightarrow> value)
            in if QCmp quantity 0 > 0 then quantity else 0)) a []
     in put_absent (\<lambda>key value. 0) b result)"

definition Subtract_rl :: "resource_list \<Rightarrow> resource_list \<Rightarrow> resource_list" where
  "Subtract_rl a b =
    (let result = fold (\<lambda>(key, value). put key
           (case map_of b key of Some other \<Rightarrow> value - other | None \<Rightarrow> value)) a []
     in put_absent (\<lambda>key value. - value) b result)"

section \<open>Resource names\<close>

definition ToSet :: "resource_name list \<Rightarrow> string_set" where
  "ToSet resourceNames = fold insert resourceNames {}"

definition Mask_rl :: "resource_list \<Rightarrow> resource_name list \<Rightarrow> resource_list" where
  "Mask_rl resources names =
    (let nameSet = ToSet names
     in fold (\<lambda>(key, value) result. if key \<in> nameSet then put key value result else result) resources [])"

definition ResourceNames :: "resource_list \<Rightarrow> resource_name list" where
  "ResourceNames resources = map fst resources"

definition Contains_rn :: "resource_name list \<Rightarrow> resource_name \<Rightarrow> bool" where
  "Contains_rn items item = list_ex (\<lambda>i. i = item) items"

definition ContainsPrefix :: "string list \<Rightarrow> resource_name \<Rightarrow> bool" where
  "ContainsPrefix prefixSet item = list_ex (\<lambda>p. HasPrefix item p) prefixSet"

definition Intersection :: "resource_name list \<Rightarrow> resource_name list \<Rightarrow> resource_name list" where
  "Intersection a b = sort (fold (\<lambda>item result.
      if Contains_rn result item then result
      else if \<not> Contains_rn b item then result
      else result @ [item]) a [])"

definition Difference :: "resource_name list \<Rightarrow> resource_name list \<Rightarrow> resource_name list" where
  "Difference a b = sort (fold (\<lambda>item result.
      if Contains_rn b item \<or> Contains_rn result item then result
      else result @ [item]) a [])"

section \<open>Lemmas on the arithmetic\<close>

lemma map_of_Add [map_simps]:
  assumes "wf_map a"
  shows "map_of (Add_rl a b) k = (case (map_of a k, map_of b k) of
      (Some x, Some y) \<Rightarrow> Some (x + y) | (Some x, None) \<Rightarrow> Some x
    | (None, Some y) \<Rightarrow> Some y | (None, None) \<Rightarrow> None)"
  unfolding Add_rl_def Let_def map_of_put_absent map_of_fold_put [OF assms]
  by (simp split: option.splits)

lemma map_of_Max [map_simps]:
  assumes "wf_map a"
  shows "map_of (Max_rl a b) k = (case (map_of a k, map_of b k) of
      (Some x, Some y) \<Rightarrow> Some (max x y) | (Some x, None) \<Rightarrow> Some x
    | (None, Some y) \<Rightarrow> Some y | (None, None) \<Rightarrow> None)"
  unfolding Max_rl_def Let_def map_of_put_absent map_of_fold_put [OF assms]
  by (simp split: option.splits)

lemma map_of_Subtract [map_simps]:
  assumes "wf_map a"
  shows "map_of (Subtract_rl a b) k = (case (map_of a k, map_of b k) of
      (Some x, Some y) \<Rightarrow> Some (x - y) | (Some x, None) \<Rightarrow> Some x
    | (None, Some y) \<Rightarrow> Some (- y) | (None, None) \<Rightarrow> None)"
  unfolding Subtract_rl_def Let_def map_of_put_absent map_of_fold_put [OF assms]
  by (simp split: option.splits)

lemma map_of_SubtractNonNeg [map_simps]:
  assumes "wf_map a"
  shows "map_of (SubtractWithNonNegativeResult a b) k = (case (map_of a k, map_of b k) of
      (Some x, Some y) \<Rightarrow> Some (max 0 (x - y)) | (Some x, None) \<Rightarrow> Some (max 0 x)
    | (None, Some y) \<Rightarrow> Some 0 | (None, None) \<Rightarrow> None)"
  unfolding SubtractWithNonNegativeResult_def Let_def map_of_put_absent map_of_fold_put [OF assms]
  by (auto split: option.splits)

lemma wf_Add [simp]: "wf_map (Add_rl a b)"
  by (simp add: Add_rl_def Let_def wf_fold_put)

lemma wf_Max [simp]: "wf_map (Max_rl a b)"
  by (simp add: Max_rl_def Let_def wf_fold_put)

lemma wf_Subtract [simp]: "wf_map (Subtract_rl a b)"
  by (simp add: Subtract_rl_def Let_def wf_fold_put)

lemma wf_SubtractNonNeg [simp]: "wf_map (SubtractWithNonNegativeResult a b)"
  by (simp add: SubtractWithNonNegativeResult_def Let_def wf_fold_put)

lemma amount_Add [simp]: "wf_map a \<Longrightarrow> amount (Add_rl a b) k = amount a k + amount b k"
  by (simp add: amount_def map_of_Add split: option.splits)

lemma amount_Subtract [simp]: "wf_map a \<Longrightarrow> amount (Subtract_rl a b) k = amount a k - amount b k"
  by (simp add: amount_def map_of_Subtract split: option.splits)

lemma amount_Nil [simp]: "amount [] k = 0"
  by (simp add: amount_def)

section \<open>Lemmas on names\<close>

lemma ToSet_set [simp]: "ToSet xs = set xs"
proof -
  have "fold insert xs A = set xs \<union> A" for A
    by (induction xs arbitrary: A) auto
  then show ?thesis by (simp add: ToSet_def)
qed

lemma map_of_Mask [map_simps]:
  "wf_map m \<Longrightarrow> map_of (Mask_rl m names) k = (if k \<in> set names then map_of m k else None)"
  unfolding Mask_rl_def Let_def ToSet_set
  by (subst map_of_fold_put_if) (auto split: option.splits)

lemma wf_Mask [simp]: "wf_map (Mask_rl m names)"
  by (simp add: Mask_rl_def Let_def wf_fold_put_if)

lemma amount_Mask: "wf_map m \<Longrightarrow> amount (Mask_rl m names) k = (if k \<in> set names then amount m k else 0)"
  by (simp add: amount_def map_of_Mask)

lemma ResourceNames_set: "set (ResourceNames m) = fst ` set m"
  by (simp add: ResourceNames_def)

lemma Contains_rn_iff [simp]: "Contains_rn items item \<longleftrightarrow> item \<in> set items"
  by (auto simp: Contains_rn_def list_ex_iff)

lemma fold_dedup_filter:
  "distinct acc \<Longrightarrow>
   set (fold (\<lambda>x acc. if P x \<and> x \<notin> set acc then acc @ [x] else acc) xs acc) = set acc \<union> {x \<in> set xs. P x}
   \<and> distinct (fold (\<lambda>x acc. if P x \<and> x \<notin> set acc then acc @ [x] else acc) xs acc)"
  by (induction xs arbitrary: acc) auto

lemma Intersection_fold:
  "Intersection a b = sort (fold (\<lambda>x acc. if x \<in> set b \<and> x \<notin> set acc then acc @ [x] else acc) a [])"
  unfolding Intersection_def by (rule arg_cong [of _ _ sort], rule fold_cong) auto

lemma Difference_fold:
  "Difference a b = sort (fold (\<lambda>x acc. if x \<notin> set b \<and> x \<notin> set acc then acc @ [x] else acc) a [])"
  unfolding Difference_def by (rule arg_cong [of _ _ sort], rule fold_cong) auto

lemma set_Intersection [simp]: "set (Intersection a b) = set a \<inter> set b"
  using fold_dedup_filter [of "[]" "\<lambda>x. x \<in> set b" a] by (auto simp: Intersection_fold)

lemma set_Difference [simp]: "set (Difference a b) = set a - set b"
  using fold_dedup_filter [of "[]" "\<lambda>x. x \<notin> set b" a] by (auto simp: Difference_fold)

lemma distinct_Intersection: "distinct (Intersection a b)"
  using fold_dedup_filter [of "[]" "\<lambda>x. x \<in> set b" a] by (auto simp: Intersection_fold)

lemma distinct_Difference: "distinct (Difference a b)"
  using fold_dedup_filter [of "[]" "\<lambda>x. x \<notin> set b" a] by (auto simp: Difference_fold)

lemma sorted_Intersection: "sorted (Intersection a b)"
  by (simp add: Intersection_def)

lemma sorted_Difference: "sorted (Difference a b)"
  by (simp add: Difference_def)

lemma IsNegative_iff: "k \<in> set (IsNegative a) \<longleftrightarrow> (\<exists>v < 0. (k, v) \<in> set a)"
proof -
  have "IsNegative a = map fst (filter (\<lambda>(k, v). v < 0) a)"
    using fold_cond_append [of "\<lambda>(k, v). v < 0" fst a "[]"]
    by (simp add: IsNegative_def case_prod_unfold)
  then show ?thesis by force
qed

lemma LessThanOrEqual_eq:
  "LessThanOrEqual a b =
    (let exceeded = map fst (filter (\<lambda>(k, v). \<exists>x. map_of a k = Some x \<and> v < x) b)
     in (exceeded = [], exceeded))"
proof -
  have "fold (\<lambda>(key, value) (result, resourceNames).
        case map_of a key of
          None \<Rightarrow> (result, resourceNames)
        | Some other \<Rightarrow>
            if QCmp other value > 0 then (False, resourceNames @ [key])
            else (result, resourceNames)) b (r, ns) =
      (let exceeded = map fst (filter (\<lambda>(k, v). \<exists>x. map_of a k = Some x \<and> v < x) b)
       in (r \<and> exceeded = [], ns @ exceeded))" for r ns
    by (induction b arbitrary: r ns) (auto simp: Let_def split: option.splits)
  then show ?thesis by (simp add: LessThanOrEqual_def)
qed

lemma Mask_Nil [simp]: "Mask_rl [] names = []"
  by (simp add: Mask_rl_def)

lemma LessThanOrEqual_spec:
  assumes "wf_map b"
  shows "(fst (LessThanOrEqual a b) \<longleftrightarrow> (\<forall>k x v. map_of a k = Some x \<and> map_of b k = Some v \<longrightarrow> x \<le> v))
    \<and> set (snd (LessThanOrEqual a b)) = {k. \<exists>x v. map_of a k = Some x \<and> map_of b k = Some v \<and> v < x}"
proof -
  have mem: "k \<in> set (map fst (filter (\<lambda>(k, v). \<exists>x. map_of a k = Some x \<and> v < x) b)) \<longleftrightarrow>
      (\<exists>x v. map_of a k = Some x \<and> map_of b k = Some v \<and> v < x)" for k
  proof -
    have "k \<in> set (map fst (filter (\<lambda>(k, v). \<exists>x. map_of a k = Some x \<and> v < x) b)) \<longleftrightarrow>
        (\<exists>v. (k, v) \<in> set b \<and> (\<exists>x. map_of a k = Some x \<and> v < x))"
      by force
    then show ?thesis using assms by (auto simp: map_of_eq_Some_iff)
  qed
  have nil: "xs = [] \<longleftrightarrow> (\<forall>k. k \<notin> set xs)" for xs :: "string list"
    by (auto simp: ex_in_conv [symmetric] neq_Nil_conv)
  have "fst (LessThanOrEqual a b) \<longleftrightarrow>
      (\<forall>k. \<not> (\<exists>x v. map_of a k = Some x \<and> map_of b k = Some v \<and> v < x))"
    unfolding LessThanOrEqual_eq Let_def fst_conv nil mem ..
  moreover have "set (snd (LessThanOrEqual a b)) = {k. \<exists>x v. map_of a k = Some x \<and> map_of b k = Some v \<and> v < x}"
    unfolding LessThanOrEqual_eq Let_def snd_conv using mem by blast
  ultimately show ?thesis by (simp add: not_less) blast
qed

section \<open>Evaluators and their registry\<close>

record usage_stats_options =
  uso_Namespace :: string
  uso_Scopes :: "string list"
  uso_Resources :: "resource_name list"
  uso_ScopeSelector :: "scope_req list option"

text \<open>The interface \<open>Evaluator\<close>: one function per method.\<close>

record evaluator =
  ev_Constraints :: "resource_name list \<Rightarrow> runtime_object \<Rightarrow> gerror option"
  ev_GroupResource :: group_resource
  ev_Handles :: "attributes \<Rightarrow> bool"
  ev_Matches :: "resource_quota option \<Rightarrow> runtime_object \<Rightarrow> gerror + bool"
  ev_MatchingScopes :: "runtime_object \<Rightarrow> scope_req list \<Rightarrow> gerror + scope_req list"
  ev_UncoveredQuotaScopes :: "scope_req list \<Rightarrow> scope_req list \<Rightarrow> gerror + scope_req list"
  ev_MatchingResources :: "resource_name list \<Rightarrow> resource_name list"
  ev_Usage :: "runtime_object \<Rightarrow> gerror + resource_list"
  ev_UsageStats :: "usage_stats_options \<Rightarrow> gerror + resource_list"

text \<open>The registry is a map from group resources; its list of evaluators is in map order.\<close>

type_synonym quota_registry = "(group_resource \<times> evaluator) list"

definition NewRegistry :: "evaluator list \<Rightarrow> quota_registry" where
  "NewRegistry evaluators = fold (\<lambda>item. put (ev_GroupResource item) item) evaluators []"

definition Registry_Add :: "quota_registry \<Rightarrow> evaluator \<Rightarrow> quota_registry" where
  "Registry_Add r e = put (ev_GroupResource e) e r"

definition Registry_Remove :: "quota_registry \<Rightarrow> evaluator \<Rightarrow> quota_registry" where
  "Registry_Remove r e = del (ev_GroupResource e) r"

definition Registry_Get :: "quota_registry \<Rightarrow> group_resource \<Rightarrow> evaluator option" where
  "Registry_Get r gr = map_of r gr"

definition Registry_List :: "quota_registry \<Rightarrow> evaluator list" where
  "Registry_List r = map snd r"

section \<open>Calculating usage\<close>

definition CalculateUsage_step ::
  "string \<Rightarrow> string list \<Rightarrow> scope_req list option \<Rightarrow> evaluator \<Rightarrow>
   resource_name list \<times> gerror list \<times> resource_list \<Rightarrow> resource_name list \<times> gerror list \<times> resource_list"
where
  "CalculateUsage_step namespaceName scopes scopeSelector evaluator = (\<lambda>(matchedResources, errors, newUsage).
     let intersection = ev_MatchingResources evaluator matchedResources in
     if intersection = [] then (matchedResources, errors, newUsage)
     else case ev_UsageStats evaluator \<lparr>uso_Namespace = namespaceName, uso_Scopes = scopes,
                 uso_Resources = intersection, uso_ScopeSelector = scopeSelector\<rparr> of
            Inl err \<Rightarrow> (Difference matchedResources intersection, errors @ [err], newUsage)
          | Inr used \<Rightarrow> (matchedResources, errors, Add_rl newUsage used))"

definition CalculateUsage ::
  "string \<Rightarrow> string list \<Rightarrow> resource_list \<Rightarrow> quota_registry \<Rightarrow> scope_req list option \<Rightarrow>
   resource_list \<times> gerror option"
where
  "CalculateUsage namespaceName scopes hardLimits registry scopeSelector =
    (let hardResources = ResourceNames hardLimits;
         evaluators = Registry_List registry;
         potentialResources = fold (\<lambda>ev acc. acc @ ev_MatchingResources ev hardResources) evaluators [];
         matchedResources = Intersection hardResources potentialResources;
         (matchedResources, errors, newUsage) =
           fold (CalculateUsage_step namespaceName scopes scopeSelector) evaluators
             (matchedResources, [], [])
     in (Mask_rl newUsage matchedResources, NewAggregate errors))"

text \<open>
  What callers of an evaluator rely on: \<open>MatchingResources\<close> selects exactly the
  resources of its input the evaluator covers, and what an object is charged for
  is among them.
\<close>

locale evaluator_law =
  fixes ev :: evaluator and covers :: "resource_name \<Rightarrow> bool"
  assumes matching: "set (ev_MatchingResources ev rs) = {r \<in> set rs. covers r}"
      and usage_covered: "ev_Usage ev obj = Inr u \<Longrightarrow> k \<in> fst ` set u \<Longrightarrow> covers k"
      and usage_wf: "ev_Usage ev obj = Inr u \<Longrightarrow> wf_map u"
begin

lemma matching_subset: "set (ev_MatchingResources ev rs) \<subseteq> set rs"
  by (auto simp: matching)

lemma matching_Nil_iff: "ev_MatchingResources ev rs = [] \<longleftrightarrow> (\<forall>r \<in> set rs. \<not> covers r)"
  using matching [of rs] by (auto simp flip: set_empty)

lemma usage_matched:
  assumes "ev_Usage ev obj = Inr u" "k \<in> fst ` set u"
  shows "k \<in> set (ev_MatchingResources ev (ResourceNames u))"
  using assms usage_covered by (auto simp: matching ResourceNames_set)

lemma matching_idem: "set (ev_MatchingResources ev (ev_MatchingResources ev rs)) = set (ev_MatchingResources ev rs)"
  by (auto simp: matching)

end

lemma CalculateUsage_step_wf:
  "wf_map nu \<Longrightarrow> CalculateUsage_step n s ss ev (m, es, nu) = (m', es', nu') \<Longrightarrow> wf_map nu' \<and> set m' \<subseteq> set m"
  by (auto simp: CalculateUsage_step_def Let_def split: if_splits sum.splits)

lemma CalculateUsage_fold_wf:
  "wf_map nu \<Longrightarrow> fold (CalculateUsage_step n s ss) evs (m, es, nu) = (m', es', nu') \<Longrightarrow>
   wf_map nu' \<and> set m' \<subseteq> set m"
proof (induction evs arbitrary: m es nu)
  case (Cons ev evs)
  obtain m1 es1 nu1 where st: "CalculateUsage_step n s ss ev (m, es, nu) = (m1, es1, nu1)"
    by (cases "CalculateUsage_step n s ss ev (m, es, nu)") auto
  then have "wf_map nu1 \<and> set m1 \<subseteq> set m"
    using CalculateUsage_step_wf Cons.prems by blast
  then show ?case
    using Cons.IH [of nu1 m1 es1] Cons.prems st by auto
qed simp

lemma fold_append_MR: "set (fold (\<lambda>ev acc. acc @ f ev) evs []) = (\<Union>ev \<in> set evs. set (f ev))"
  using fold_append_concat [of f evs "[]"] by simp

definition stats_amount :: "evaluator \<Rightarrow> usage_stats_options \<Rightarrow> resource_name \<Rightarrow> quantity" where
  "stats_amount ev opts k = (case ev_UsageStats ev opts of Inl _ \<Rightarrow> 0 | Inr u \<Rightarrow> amount u k)"

definition stats_options :: "string \<Rightarrow> string list \<Rightarrow> scope_req list option \<Rightarrow> resource_name list \<Rightarrow> usage_stats_options" where
  "stats_options n s ss rs = \<lparr>uso_Namespace = n, uso_Scopes = s, uso_Resources = rs, uso_ScopeSelector = ss\<rparr>"

text \<open>Without errors the matched resources stay as they are and the usage of the evaluators adds up.\<close>

lemma CalculateUsage_fold_ok:
  assumes "\<And>ev opts. ev \<in> set evs \<Longrightarrow> \<not> isl (ev_UsageStats ev opts)" and "wf_map nu"
  shows "\<exists>nu'. fold (CalculateUsage_step n s ss) evs (m, es, nu) = (m, es, nu') \<and>
    (\<forall>k. amount nu' k = amount nu k + (\<Sum>ev \<leftarrow> evs.
       if ev_MatchingResources ev m = [] then 0
       else stats_amount ev (stats_options n s ss (ev_MatchingResources ev m)) k))"
  using assms
proof (induction evs arbitrary: nu)
  case (Cons ev evs)
  show ?case
  proof (cases "ev_MatchingResources ev m = []")
    case True
    then show ?thesis
      using Cons.IH [of nu] Cons.prems by (auto simp: CalculateUsage_step_def)
  next
    case False
    then obtain u where u: "ev_UsageStats ev (stats_options n s ss (ev_MatchingResources ev m)) = Inr u"
      using Cons.prems(1) [of ev] by (metis isl_def list.set_intros(1) sumE)
    obtain nu' where f: "fold (CalculateUsage_step n s ss) evs (m, es, Add_rl nu u) = (m, es, nu')"
      and am: "\<forall>k. amount nu' k = amount (Add_rl nu u) k + (\<Sum>ev \<leftarrow> evs.
       if ev_MatchingResources ev m = [] then 0
       else stats_amount ev (stats_options n s ss (ev_MatchingResources ev m)) k)"
      using Cons.IH [of "Add_rl nu u"] Cons.prems by auto
    have "CalculateUsage_step n s ss ev (m, es, nu) = (m, es, Add_rl nu u)"
      using False u by (simp add: CalculateUsage_step_def stats_options_def)
    then show ?thesis
      using f am False u Cons.prems(2) by (auto simp: stats_amount_def)
  qed
qed simp

text \<open>An evaluator that fails leaves no resource it covers among the matched ones.\<close>

lemma CalculateUsage_fold_failed:
  assumes "ev \<in> set evs" "\<And>opts. isl (ev_UsageStats ev opts)"
    and "\<And>rs. set (ev_MatchingResources ev rs) = {r \<in> set rs. covers r}"
    and "wf_map nu"
    and "fold (CalculateUsage_step n s ss) evs (m, es, nu) = (m', es', nu')"
  shows "\<forall>r \<in> set m'. \<not> covers r"
  using assms(1,4,5)
proof (induction evs arbitrary: m es nu)
  case (Cons e evs)
  obtain m1 es1 nu1 where st: "CalculateUsage_step n s ss e (m, es, nu) = (m1, es1, nu1)"
    by (cases "CalculateUsage_step n s ss e (m, es, nu)") auto
  have wf1: "wf_map nu1" using CalculateUsage_step_wf Cons.prems st by blast
  have rest: "fold (CalculateUsage_step n s ss) evs (m1, es1, nu1) = (m', es', nu')"
    using Cons.prems st by simp
  show ?case
  proof (cases "e = ev")
    case True
    obtain x where x: "ev_UsageStats ev (stats_options n s ss (ev_MatchingResources ev m)) = Inl x"
      using assms(2) by (meson isl_def)
    have "m1 = (if ev_MatchingResources ev m = [] then m else Difference m (ev_MatchingResources ev m))"
      using st True x by (auto simp: CalculateUsage_step_def stats_options_def Let_def split: if_splits)
    then have "set m1 = set m - set (ev_MatchingResources ev m)"
      by simp
    then have "set m1 = set m - {r \<in> set m. covers r}"
      by (simp only: assms(3))
    moreover have "set m' \<subseteq> set m1"
      using CalculateUsage_fold_wf [OF wf1 rest] by simp
    ultimately show ?thesis by auto
  next
    case False
    then show ?thesis using Cons.IH [OF _ wf1 rest] Cons.prems by simp
  qed
qed simp

section \<open>Properties\<close>

text \<open>Adding two resource lists adds the amounts of every resource, has exactly
  the resources of the two lists, and keeps the keys distinct.\<close>

lemma Add_pointwise:
  assumes "wf_map a"
  shows "amount (Add_rl a b) k = amount a k + amount b k
    \<and> dom (map_of (Add_rl a b)) = dom (map_of a) \<union> dom (map_of b) \<and> wf_map (Add_rl a b)"
proof -
  have "dom (map_of (Add_rl a b)) = dom (map_of a) \<union> dom (map_of b)"
    by (auto simp: dom_def map_of_Add [OF assms] split: option.splits)
  then show ?thesis using assms by simp
qed

theorem Add_pointwise_witness:
  "amount (Add_rl [(''cpu'', 3)] [(''cpu'', 4), (''memory'', 1)]) ''cpu'' = 7
   \<and> dom (map_of (Add_rl [(''cpu'', 3)] [(''cpu'', 4), (''memory'', 1)])) = {''cpu'', ''memory''}"
  using Add_pointwise [of "[(''cpu'', 3)]" "[(''cpu'', 4), (''memory'', 1)]" "''cpu''"]
  by (simp add: amount_def insert_commute)

text \<open>\<open>Equals\<close> decides whether two resource lists are the same map: it returns true
  exactly when every resource has the same quantity, or none, in both.\<close>

lemma Equals_iff:
  assumes "wf_map a" "wf_map b"
  shows "Equals a b \<longleftrightarrow> map_of a = map_of b"
proof
  assume eq: "Equals a b"
  then have len: "length a = length b"
    by (simp add: Equals_def split: if_splits)
  have sub: "map_of b k = Some v" if "map_of a k = Some v" for k v
    using eq map_of_SomeD [OF that] by (auto simp: Equals_def list_all_iff split: if_splits option.splits)
  have "map_of a \<subseteq>\<^sub>m map_of b"
    using sub by (auto simp: map_le_def)
  then show "map_of a = map_of b"
    by (rule map_of_le_eq [OF assms len])
next
  assume eq: "map_of a = map_of b"
  then have "length a = length b"
    by (metis assms length_dom_map_of)
  moreover have "map_of b k = Some v" if "(k, v) \<in> set a" for k v
    using eq assms(1) that by (metis map_of_is_SomeI)
  ultimately show "Equals a b"
    by (auto simp: Equals_def list_all_iff)
qed

theorem Equals_iff_witness:
  "Equals [(''cpu'', 3), (''pods'', 1)] [(''pods'', 1), (''cpu'', 3)]
   \<longleftrightarrow> map_of [(''cpu'', 3::int), (''pods'', 1)] = map_of [(''pods'', 1), (''cpu'', 3)]"
  by (rule Equals_iff) simp_all

text \<open>\<open>LessThanOrEqual\<close> returns true exactly when no resource of both lists exceeds its
  bound, and otherwise the resources it names are exactly the exceeded ones.\<close>

lemma LessThanOrEqual_exact:
  assumes "wf_map b"
  shows "(fst (LessThanOrEqual a b) \<longleftrightarrow> (\<forall>k x v. map_of a k = Some x \<and> map_of b k = Some v \<longrightarrow> x \<le> v))
    \<and> set (snd (LessThanOrEqual a b)) = {k. \<exists>x v. map_of a k = Some x \<and> map_of b k = Some v \<and> v < x}"
  using assms by (rule LessThanOrEqual_spec)

theorem LessThanOrEqual_exact_witness:
  "set (snd (LessThanOrEqual [(''cpu'', 3), (''pods'', 5)] [(''cpu'', 2), (''memory'', 0)])) =
   {k. \<exists>x v. map_of [(''cpu'', 3), (''pods'', 5)] k = Some x \<and> map_of [(''cpu'', 2), (''memory'', 0)] k = Some v \<and> v < (x::int)}"
  using LessThanOrEqual_exact [of "[(''cpu'', 2), (''memory'', 0)]" "[(''cpu'', 3), (''pods'', 5)]"] by simp

text \<open>\<open>Intersection\<close> and \<open>Difference\<close> of resource name lists are the set operations, with
  results that are sorted and free of duplicates.\<close>

lemma Intersection_Difference_sorted:
  "set (Intersection a b) = set a \<inter> set b \<and> set (Difference a b) = set a - set b
   \<and> sorted (Intersection a b) \<and> distinct (Intersection a b)
   \<and> sorted (Difference a b) \<and> distinct (Difference a b)"
  by (simp add: distinct_Intersection distinct_Difference sorted_Intersection sorted_Difference)

text \<open>When no evaluator of the registry fails, \<open>CalculateUsage\<close> reports no error and, for
  every hard limit some evaluator matches, the sum of what the matching evaluators measured; every other
  resource is left out.\<close>

lemma CalculateUsage_sums:
  assumes "\<And>ev opts. ev \<in> set (Registry_List r) \<Longrightarrow> \<not> isl (ev_UsageStats ev opts)"
  shows "\<exists>usage. CalculateUsage n s hard r ss = (usage, None) \<and>
    (let matched = Intersection (ResourceNames hard)
           (concat (map (\<lambda>ev. ev_MatchingResources ev (ResourceNames hard)) (Registry_List r)))
     in \<forall>k. amount usage k = (if k \<in> set matched
          then (\<Sum>ev \<leftarrow> Registry_List r. if ev_MatchingResources ev matched = [] then 0
                 else stats_amount ev (stats_options n s ss (ev_MatchingResources ev matched)) k)
          else 0) \<and> (map_of usage k \<noteq> None \<longrightarrow> k \<in> set matched \<and> map_of hard k \<noteq> None))"
proof -
  define matched where "matched = Intersection (ResourceNames hard)
           (concat (map (\<lambda>ev. ev_MatchingResources ev (ResourceNames hard)) (Registry_List r)))"
  obtain nu where f: "fold (CalculateUsage_step n s ss) (Registry_List r) (matched, [], []) = (matched, [], nu)"
    and am: "\<forall>k. amount nu k = amount [] k + (\<Sum>ev \<leftarrow> Registry_List r.
       if ev_MatchingResources ev matched = [] then 0
       else stats_amount ev (stats_options n s ss (ev_MatchingResources ev matched)) k)"
    using CalculateUsage_fold_ok [where evs = "Registry_List r" and nu = "[]" and m = matched and es = "[]" and n = n and s = s and ss = ss] assms
    by auto
  have wf: "wf_map nu"
    using CalculateUsage_fold_wf [OF _ f] by simp
  have res: "CalculateUsage n s hard r ss = (Mask_rl nu matched, None)"
    using f by (simp add: CalculateUsage_def Let_def fold_append_concat matched_def)
  have sub: "map_of hard k \<noteq> None" if "k \<in> set matched" for k
    using that unfolding map_of_conv_key by (simp add: matched_def ResourceNames_set)
  show ?thesis
    unfolding Let_def matched_def [symmetric] res using am sub
    by (auto simp: amount_Mask [OF wf] map_of_Mask [OF wf])
qed

text \<open>When an evaluator fails, the usage that \<open>CalculateUsage\<close> returns mentions no resource
  which that evaluator matches, so a quota is never updated from a partial measurement.\<close>

lemma CalculateUsage_excludes_failed:
  assumes "ev \<in> set (Registry_List r)" "\<And>opts. isl (ev_UsageStats ev opts)"
    and "\<And>rs. set (ev_MatchingResources ev rs) = {q \<in> set rs. covers q}"
    and "covers k"
  shows "map_of (fst (CalculateUsage n s hard r ss)) k = None"
proof -
  define matched where "matched = Intersection (ResourceNames hard)
           (concat (map (\<lambda>ev. ev_MatchingResources ev (ResourceNames hard)) (Registry_List r)))"
  obtain m' es' nu where f: "fold (CalculateUsage_step n s ss) (Registry_List r) (matched, [], []) = (m', es', nu)"
    by (cases "fold (CalculateUsage_step n s ss) (Registry_List r) (matched, [], [])") auto
  have wf: "wf_map nu"
    using CalculateUsage_fold_wf [OF _ f] by simp
  have "k \<notin> set m'"
    using CalculateUsage_fold_failed [OF assms(1-3) _ f] assms(4) by auto
  moreover have "fst (CalculateUsage n s hard r ss) = Mask_rl nu m'"
    using f by (simp add: CalculateUsage_def Let_def fold_append_concat matched_def)
  ultimately show ?thesis
    by (simp add: map_of_Mask [OF wf])
qed

end
