(* ===== verification/Evaluators.thy ===== *)
theory Evaluators
  imports ResourceLists
begin

text \<open>
  The evaluators of the quota system: \<open>kube/pkg/quota/v1/generic/evaluator.go\<close> (generic
  listing, matching and aggregation, object counting) and the special evaluators for services,
  persistent volume claims and pods in \<open>kube/pkg/quota/v1/evaluator/core\<close>. Each of them is
  an instance of the locale \<open>evaluator_law\<close>. Time is in nanoseconds; the clock of the pod
  evaluator is a parameter.
\<close>

section \<open>Qualified names\<close>

text \<open>\<open>validation.IsQualifiedName\<close> and \<open>IsValidLabelValue\<close> of apimachinery, as predicates.\<close>

definition is_lower_alnum :: "char \<Rightarrow> bool" where
  "is_lower_alnum c \<longleftrightarrow> (CHR ''a'' \<le> c \<and> c \<le> CHR ''z'') \<or> (CHR ''0'' \<le> c \<and> c \<le> CHR ''9'')"

definition is_alnum :: "char \<Rightarrow> bool" where
  "is_alnum c \<longleftrightarrow> is_lower_alnum c \<or> (CHR ''A'' \<le> c \<and> c \<le> CHR ''Z'')"

definition qualified_chars :: "string \<Rightarrow> bool" where
  "qualified_chars s \<longleftrightarrow> s \<noteq> [] \<and> is_alnum (hd s) \<and> is_alnum (last s)
     \<and> list_all (\<lambda>c. is_alnum c \<or> c \<in> set ''-_.'') s"

definition IsDNS1123Label :: "string \<Rightarrow> bool" where
  "IsDNS1123Label s \<longleftrightarrow> s \<noteq> [] \<and> is_lower_alnum (hd s) \<and> is_lower_alnum (last s)
     \<and> list_all (\<lambda>c. is_lower_alnum c \<or> c = CHR ''-'') s"

definition IsDNS1123Subdomain :: "string \<Rightarrow> bool" where
  "IsDNS1123Subdomain s \<longleftrightarrow> length s \<le> 253 \<and> list_all IsDNS1123Label (Split s CHR ''.'')"

definition IsQualifiedName :: "string \<Rightarrow> bool" where
  "IsQualifiedName s =
    (case Split s CHR ''/'' of
       [name] \<Rightarrow> length name \<le> 63 \<and> qualified_chars name
     | [p, name] \<Rightarrow> IsDNS1123Subdomain p \<and> length name \<le> 63 \<and> qualified_chars name
     | _ \<Rightarrow> False)"

definition IsValidLabelValue :: "string \<Rightarrow> bool" where
  "IsValidLabelValue s \<longleftrightarrow> length s \<le> 63 \<and> (s = [] \<or> qualified_chars s)"

section \<open>Listing\<close>

text \<open>\<open>cachedHasSynced\<close>: the first argument is the remembered value, the second what the
  informer says now; it returns the answer and the value to remember.\<close>

definition cachedHasSynced :: "bool \<Rightarrow> bool \<Rightarrow> bool \<times> bool" where
  "cachedHasSynced cache hasSynced =
    (if cache then (True, cache) else if hasSynced then (True, True) else (False, cache))"

record namespace_lister =
  nl_hasSynced :: bool
  nl_notReadyErr :: gerror
  nl_List :: "string \<Rightarrow> gerror + runtime_object list"

definition protectedNamespaceLister_List :: "namespace_lister \<Rightarrow> string \<Rightarrow> gerror + runtime_object list" where
  "protectedNamespaceLister_List p ns =
    (if \<not> nl_hasSynced p then Inl (nl_notReadyErr p) else nl_List p ns)"

type_synonym lister_for_resource = "group_resource \<Rightarrow> gerror + namespace_lister"
type_synonym list_func = "string \<Rightarrow> gerror + runtime_object list"

definition ListResourceUsingListerFunc :: "lister_for_resource \<Rightarrow> group_resource \<Rightarrow> list_func" where
  "ListResourceUsingListerFunc l resource = (\<lambda>namespace.
     case l resource of
       Inl err \<Rightarrow> Inl err
     | Inr lister \<Rightarrow> protectedNamespaceLister_List lister namespace)"

section \<open>Generic matching and aggregation\<close>

definition ObjectCountQuotaResourceNameFor :: "group_resource \<Rightarrow> resource_name" where
  "ObjectCountQuotaResourceNameFor gr =
    (if length (gr_group gr) = 0 then ''count/'' @ gr_resource gr
     else ''count/'' @ gr_resource gr @ ''.'' @ gr_group gr)"

type_synonym scope_func = "scope_req \<Rightarrow> runtime_object \<Rightarrow> gerror + bool"
type_synonym usage_func = "runtime_object \<Rightarrow> gerror + resource_list"

definition MatchesNoScopeFunc :: scope_func where
  "MatchesNoScopeFunc scope obj = Inr False"

definition getScopeSelectorsFromQuota :: "resource_quota \<Rightarrow> scope_req list" where
  "getScopeSelectorsFromQuota quota =
    map (\<lambda>scope. \<lparr>sr_scopeName = scope, sr_operator = ''Exists'', sr_values = []\<rparr>) (qs_scopes (rq_spec quota))
    @ (case qs_scopeSelector (rq_spec quota) of None \<Rightarrow> [] | Some exprs \<Rightarrow> exprs)"

fun match_scopes :: "scope_func \<Rightarrow> runtime_object \<Rightarrow> scope_req list \<Rightarrow> bool \<Rightarrow> gerror + bool" where
  "match_scopes scopeFunc item [] acc = Inr acc"
| "match_scopes scopeFunc item (scope # scopes) acc =
     (case scopeFunc scope item of
        Inl err \<Rightarrow> Inl err
      | Inr innerMatch \<Rightarrow> match_scopes scopeFunc item scopes (acc \<and> innerMatch))"

definition Matches :: "resource_quota option \<Rightarrow> runtime_object \<Rightarrow> (resource_name list \<Rightarrow> resource_name list) \<Rightarrow>
   scope_func \<Rightarrow> gerror + bool"
where
  "Matches resourceQuota item matchFunc scopeFunc =
    (case resourceQuota of
       None \<Rightarrow> Inl (OtherErr ''expected non-nil quota'')
     | Some q \<Rightarrow>
         let matchResource = length (matchFunc (ResourceNames (the_rl (st_hard (rq_status q))))) > 0
         in case match_scopes scopeFunc item (getScopeSelectorsFromQuota q) True of
              Inl err \<Rightarrow> Inl err
            | Inr matchScope \<Rightarrow> Inr (matchResource \<and> matchScope))"

text \<open>An error of the scope function ends the loop with what was summed so far and no error.\<close>

fun usage_stats_items ::
  "usage_stats_options \<Rightarrow> scope_func \<Rightarrow> usage_func \<Rightarrow> runtime_object list \<Rightarrow> resource_list \<Rightarrow>
   resource_list \<times> gerror option"
where
  "usage_stats_items options scopeFunc usageFunc [] used = (used, None)"
| "usage_stats_items options scopeFunc usageFunc (item # items) used =
     (case match_scopes scopeFunc item
             (map (\<lambda>scope. \<lparr>sr_scopeName = scope, sr_operator = [], sr_values = []\<rparr>) (uso_Scopes options)) True of
        Inl err \<Rightarrow> (used, None)
      | Inr matchesScopes \<Rightarrow>
          (case match_scopes scopeFunc item
                  (case uso_ScopeSelector options of None \<Rightarrow> [] | Some exprs \<Rightarrow> exprs) matchesScopes of
             Inl err \<Rightarrow> (used, None)
           | Inr matchesScopes \<Rightarrow>
               if matchesScopes then
                 (case usageFunc item of
                    Inl err \<Rightarrow> (used, Some err)
                  | Inr usage \<Rightarrow> usage_stats_items options scopeFunc usageFunc items (Add_rl used usage))
               else usage_stats_items options scopeFunc usageFunc items used))"

definition CalculateUsageStats ::
  "usage_stats_options \<Rightarrow> list_func \<Rightarrow> scope_func \<Rightarrow> usage_func \<Rightarrow> resource_list \<times> gerror option"
where
  "CalculateUsageStats options listFunc scopeFunc usageFunc =
    (let used = fold (\<lambda>resourceName. put resourceName 0) (uso_Resources options) []
     in case listFunc (uso_Namespace options) of
          Inl err \<Rightarrow> (used, Some (OtherErr (''failed to list content: '' @ err_msg err)))
        | Inr items \<Rightarrow> usage_stats_items options scopeFunc usageFunc items used)"

text \<open>The callers of \<open>UsageStats\<close> use the usage only where there is no error.\<close>

definition stats_result :: "resource_list \<times> gerror option \<Rightarrow> gerror + resource_list" where
  "stats_result p = (case snd p of Some e \<Rightarrow> Inl e | None \<Rightarrow> Inr (fst p))"

definition item_matches :: "usage_stats_options \<Rightarrow> scope_func \<Rightarrow> runtime_object \<Rightarrow> bool" where
  "item_matches options scopeFunc item \<longleftrightarrow>
     match_scopes scopeFunc item
       (map (\<lambda>scope. \<lparr>sr_scopeName = scope, sr_operator = [], sr_values = []\<rparr>) (uso_Scopes options)
        @ (case uso_ScopeSelector options of None \<Rightarrow> [] | Some exprs \<Rightarrow> exprs)) True = Inr True"

lemma match_scopes_append:
  "match_scopes f item (xs @ ys) acc =
    (case match_scopes f item xs acc of Inl e \<Rightarrow> Inl e | Inr b \<Rightarrow> match_scopes f item ys b)"
  by (induction xs arbitrary: acc) (auto split: sum.splits)

lemma match_scopes_ok:
  assumes "\<And>s. s \<in> set ss \<Longrightarrow> \<not> isl (f s item)"
  shows "match_scopes f item ss acc = Inr (acc \<and> (\<forall>s \<in> set ss. f s item = Inr True))"
  using assms
proof (induction ss arbitrary: acc)
  case (Cons s ss)
  then obtain b where "f s item = Inr b" by (metis isl_def list.set_intros(1) sumE)
  with Cons show ?case by auto
qed simp

lemma amount_zeroes: "wf_map m \<Longrightarrow> amount (fold (\<lambda>r. put r 0) rs m) k = (if k \<in> set rs then 0 else amount m k)"
  by (induction rs arbitrary: m) (auto simp: amount_def map_of_put)

lemma wf_zeroes: "wf_map m \<Longrightarrow> wf_map (fold (\<lambda>r. put r 0) rs m)"
  by (induction rs arbitrary: m) auto

lemma usage_stats_items_sum:
  assumes "\<And>item s. item \<in> set items \<Longrightarrow> \<not> isl (scopeFunc s item)"
    and "\<And>item. item \<in> set items \<Longrightarrow> \<not> isl (usageFunc item)"
    and "wf_map used"
  shows "\<exists>used'. usage_stats_items options scopeFunc usageFunc items used = (used', None) \<and> wf_map used' \<and>
    (\<forall>k. amount used' k = amount used k +
       (\<Sum>item \<leftarrow> items. if item_matches options scopeFunc item
          then (case usageFunc item of Inl _ \<Rightarrow> 0 | Inr u \<Rightarrow> amount u k) else 0))"
  using assms
proof (induction items arbitrary: used)
  case (Cons item items)
  obtain u where u: "usageFunc item = Inr u"
    using Cons.prems(2) by (metis isl_def list.set_intros(1) sumE)
  define ss where "ss = map (\<lambda>scope. \<lparr>sr_scopeName = scope, sr_operator = [], sr_values = []\<rparr>) (uso_Scopes options)"
  define es where "es = (case uso_ScopeSelector options of None \<Rightarrow> [] | Some exprs \<Rightarrow> exprs)"
  have ok: "\<not> isl (scopeFunc s item)" for s using Cons.prems(1) by simp
  have m: "match_scopes scopeFunc item xs b = Inr (b \<and> (\<forall>s \<in> set xs. scopeFunc s item = Inr True))" for xs b
    by (rule match_scopes_ok) (rule ok)
  have im: "item_matches options scopeFunc item \<longleftrightarrow>
      (\<forall>s \<in> set ss. scopeFunc s item = Inr True) \<and> (\<forall>s \<in> set es. scopeFunc s item = Inr True)"
    by (auto simp: item_matches_def m simp flip: ss_def es_def)
  define used1 where "used1 = (if item_matches options scopeFunc item then Add_rl used u else used)"
  have step: "usage_stats_items options scopeFunc usageFunc (item # items) used
      = usage_stats_items options scopeFunc usageFunc items used1"
  proof (cases "item_matches options scopeFunc item")
    case True
    then show ?thesis by (simp add: used1_def m u flip: ss_def es_def) (simp add: im)
  next
    case False
    then show ?thesis by (simp add: used1_def m u flip: ss_def es_def) (auto simp: im)
  qed
  have wf1: "wf_map used1" using Cons.prems(3) by (simp add: used1_def)
  have am1: "amount used1 k = amount used k + (if item_matches options scopeFunc item
      then (case usageFunc item of Inl _ \<Rightarrow> 0 | Inr u \<Rightarrow> amount u k) else 0)" for k
    using Cons.prems(3) by (simp add: used1_def u)
  show ?case
    unfolding step using Cons.IH [OF _ _ wf1] Cons.prems(1,2) by (auto simp: am1)
qed simp

section \<open>Object count evaluator\<close>

definition objectCount_Usage :: "resource_name list \<Rightarrow> usage_func" where
  "objectCount_Usage resourceNames obj =
    Inr (fold (\<lambda>resourceName. put resourceName (NewQuantity 1)) resourceNames [])"

definition objectCount_MatchingResources :: "resource_name list \<Rightarrow> resource_name list \<Rightarrow> resource_name list" where
  "objectCount_MatchingResources resourceNames input = Intersection input resourceNames"

definition objectCount_Handles :: "attributes \<Rightarrow> bool" where
  "objectCount_Handles a \<longleftrightarrow> at_operation a = CreateOp"

definition NewObjectCountEvaluator :: "group_resource \<Rightarrow> list_func \<Rightarrow> resource_name \<Rightarrow> evaluator" where
  "NewObjectCountEvaluator groupResource listFuncByNamespace alias =
    (let resourceNames = [ObjectCountQuotaResourceNameFor groupResource]
           @ (if length alias > 0 then [alias] else [])
     in \<lparr>ev_Constraints = (\<lambda>required item. None),
         ev_GroupResource = groupResource,
         ev_Handles = objectCount_Handles,
         ev_Matches = (\<lambda>q item. Matches q item (objectCount_MatchingResources resourceNames) MatchesNoScopeFunc),
         ev_MatchingScopes = (\<lambda>item scopes. Inr []),
         ev_UncoveredQuotaScopes = (\<lambda>limited matched. Inr []),
         ev_MatchingResources = objectCount_MatchingResources resourceNames,
         ev_Usage = objectCount_Usage resourceNames,
         ev_UsageStats = (\<lambda>options. stats_result (CalculateUsageStats options listFuncByNamespace
            MatchesNoScopeFunc (objectCount_Usage resourceNames)))\<rparr>)"

section \<open>Service evaluator\<close>

definition core_resource :: "string \<Rightarrow> group_resource" where
  "core_resource r = \<lparr>gr_group = [], gr_resource = r\<rparr>"

definition serviceObjectCountName :: resource_name where
  "serviceObjectCountName = ObjectCountQuotaResourceNameFor (core_resource ''services'')"

definition serviceResources :: "resource_name list" where
  "serviceResources = [serviceObjectCountName, ''services'', ''services.nodeports'', ''services.loadbalancers'']"

definition service_Handles :: "attributes \<Rightarrow> bool" where
  "service_Handles a \<longleftrightarrow> CreateOp = at_operation a \<or> UpdateOp = at_operation a"

definition toExternalServiceOrError :: "runtime_object \<Rightarrow> gerror + service" where
  "toExternalServiceOrError obj = (case obj of ServiceObj svc \<Rightarrow> Inr svc
     | _ \<Rightarrow> Inl (OtherErr ''expect *api.Service or *v1.Service''))"

definition service_Usage :: usage_func where
  "service_Usage item =
    (case toExternalServiceOrError item of
       Inl err \<Rightarrow> Inl err
     | Inr svc \<Rightarrow>
         let ports = int (svc_ports svc);
             result = put serviceObjectCountName (NewQuantity 1) [];
             result = put ''services'' (NewQuantity 1) result;
             result = put ''services.loadbalancers'' 0 result;
             result = put ''services.nodeports'' 0 result
         in Inr (if svc_type svc = ''NodePort'' then put ''services.nodeports'' (NewQuantity ports) result
                 else if svc_type svc = ''LoadBalancer'' then
                   put ''services.loadbalancers'' (NewQuantity 1) (put ''services.nodeports'' (NewQuantity ports) result)
                 else result))"

definition service_MatchingResources :: "resource_name list \<Rightarrow> resource_name list" where
  "service_MatchingResources input = Intersection input serviceResources"

definition GetQuotaServiceType :: "service \<Rightarrow> string" where
  "GetQuotaServiceType svc =
    (if svc_type svc = ''NodePort'' then ''NodePort''
     else if svc_type svc = ''LoadBalancer'' then ''LoadBalancer'' else [])"

definition NewServiceEvaluator :: "lister_for_resource \<Rightarrow> evaluator" where
  "NewServiceEvaluator f =
    (let listFuncByNamespace = ListResourceUsingListerFunc f (core_resource ''services'')
     in \<lparr>ev_Constraints = (\<lambda>required item. None),
         ev_GroupResource = core_resource ''services'',
         ev_Handles = service_Handles,
         ev_Matches = (\<lambda>q item. Matches q item service_MatchingResources MatchesNoScopeFunc),
         ev_MatchingScopes = (\<lambda>item scopes. Inr []),
         ev_UncoveredQuotaScopes = (\<lambda>limited matched. Inr []),
         ev_MatchingResources = service_MatchingResources,
         ev_Usage = service_Usage,
         ev_UsageStats = (\<lambda>options. stats_result (CalculateUsageStats options listFuncByNamespace
            MatchesNoScopeFunc service_Usage))\<rparr>)"

section \<open>Evaluator for persistent volume claims\<close>

definition pvcObjectCountName :: resource_name where
  "pvcObjectCountName = ObjectCountQuotaResourceNameFor (core_resource ''persistentvolumeclaims'')"

definition pvcResources :: "resource_name list" where
  "pvcResources = [''persistentvolumeclaims'', ''requests.storage'']"

definition storageClassSuffix :: string where
  "storageClassSuffix = ''.storageclass.storage.k8s.io/''"

definition V1ResourceByStorageClass :: "string \<Rightarrow> resource_name \<Rightarrow> resource_name" where
  "V1ResourceByStorageClass storageClass resourceName = storageClass @ storageClassSuffix @ resourceName"

definition pvc_Handles :: "attributes \<Rightarrow> bool" where
  "pvc_Handles a = (if at_operation a = CreateOp then True else if at_operation a = UpdateOp then True else False)"

definition pvc_MatchingResources :: "resource_name list \<Rightarrow> resource_name list" where
  "pvc_MatchingResources items =
    fold (\<lambda>item result.
        if Contains_rn [pvcObjectCountName] item then result @ [item]
        else if Contains_rn pvcResources item then result @ [item]
        else if list_ex (\<lambda>resource. HasSuffix item (storageClassSuffix @ resource)) pvcResources then result @ [item]
        else result) items []"

definition GetPersistentVolumeClaimClass :: "pvc \<Rightarrow> string" where
  "GetPersistentVolumeClaimClass claim =
    (case map_of (om_annotations (pvc_meta claim)) ''volume.beta.kubernetes.io/storage-class'' of
       Some class \<Rightarrow> class
     | None \<Rightarrow> (case pvc_storageClassName claim of Some c \<Rightarrow> c | None \<Rightarrow> []))"

definition toExternalPersistentVolumeClaimOrError :: "runtime_object \<Rightarrow> gerror + pvc" where
  "toExternalPersistentVolumeClaimOrError obj = (case obj of PvcObj pvc \<Rightarrow> Inr pvc
     | _ \<Rightarrow> Inl (OtherErr ''expect *api.PersistentVolumeClaim or *v1.PersistentVolumeClaim''))"

definition pvc_Usage :: usage_func where
  "pvc_Usage item =
    (case toExternalPersistentVolumeClaimOrError item of
       Inl err \<Rightarrow> Inl err
     | Inr pvc \<Rightarrow>
         let result = put ''persistentvolumeclaims'' (NewQuantity 1) [];
             result = put pvcObjectCountName (NewQuantity 1) result;
             storageClassRef = GetPersistentVolumeClaimClass pvc;
             result = (if length storageClassRef > 0 then
                 put (storageClassRef @ storageClassSuffix @ ''persistentvolumeclaims'') (NewQuantity 1) result else result)
         in Inr (case map_of (pvc_requests pvc) ''storage'' of
              None \<Rightarrow> result
            | Some request \<Rightarrow>
                let result = put ''requests.storage'' request result
                in if length storageClassRef > 0 then
                     put (storageClassRef @ storageClassSuffix @ ''requests.storage'') request result
                   else result))"

definition NewPersistentVolumeClaimEvaluator :: "lister_for_resource \<Rightarrow> evaluator" where
  "NewPersistentVolumeClaimEvaluator f =
    (let listFuncByNamespace = ListResourceUsingListerFunc f (core_resource ''persistentvolumeclaims'')
     in \<lparr>ev_Constraints = (\<lambda>required item. None),
         ev_GroupResource = core_resource ''persistentvolumeclaims'',
         ev_Handles = pvc_Handles,
         ev_Matches = (\<lambda>q item. Matches q item pvc_MatchingResources MatchesNoScopeFunc),
         ev_MatchingScopes = (\<lambda>item scopes. Inr []),
         ev_UncoveredQuotaScopes = (\<lambda>limited matched. Inr []),
         ev_MatchingResources = pvc_MatchingResources,
         ev_Usage = pvc_Usage,
         ev_UsageStats = (\<lambda>options. stats_result (CalculateUsageStats options listFuncByNamespace
            MatchesNoScopeFunc pvc_Usage))\<rparr>)"

end
