(* ===== verification/Quantities.thy ===== *)
theory Quantities
  imports ApiTypes "HOL-Library.Signed_Division"
begin

text \<open>
  The machine representation of a quantity (\<open>resource.Quantity\<close> of the vendored apimachinery) and its value in milli
  units. A quantity is a 64-bit integer with a decimal exponent, or an unbounded decimal where that does not fit. Elsewhere a quantity
  is the number of its nano units, which no operation on quotas rounds; \<open>MilliValue\<close>, on which the validation of whole
  numbers rests, is a 64-bit integer that wraps around. It is exact for not negative quantities of at most
  \<open>9223372036854775\<close>.
\<close>

section \<open>64-bit integers\<close>

definition wrap64 :: "int \<Rightarrow> int" where
  "wrap64 i = (i + 2 ^ 63) mod 2 ^ 64 - 2 ^ 63"

abbreviation mostNegative :: int where "mostNegative \<equiv> - (2 ^ 63)"

abbreviation mostPositive :: int where "mostPositive \<equiv> 2 ^ 63 - 1"

lemma wrap64_id [simp]: "mostNegative \<le> i \<Longrightarrow> i \<le> mostPositive \<Longrightarrow> wrap64 i = i"
  by (simp add: wrap64_def)

lemma wrap64_range: "mostNegative \<le> wrap64 i \<and> wrap64 i \<le> mostPositive"
proof -
  have "0 \<le> (i + 2 ^ 63) mod 2 ^ 64" "(i + 2 ^ 63) mod 2 ^ 64 < 2 ^ 64" by simp_all
  then show ?thesis by (simp add: wrap64_def)
qed

text \<open>Division truncates: \<open>sdiv\<close> and \<open>smod\<close>. The second component tells whether the product has not overflowed.\<close>

definition int64MultiplyScale :: "int \<Rightarrow> int \<Rightarrow> int \<times> bool" where
  "int64MultiplyScale a b =
    (if a = 0 \<or> a = 1 then (wrap64 (a * b), True)
     else if a = mostNegative \<and> b \<noteq> 1 then (0, False)
     else let c = wrap64 (a * b) in (c, c sdiv b = a))"

fun positive_loop :: "nat \<Rightarrow> int \<Rightarrow> int \<times> bool" where
  "positive_loop 0 value = (value, True)"
| "positive_loop (Suc n) value =
     (case int64MultiplyScale value 10 of
        (value, ok) \<Rightarrow> if \<not> ok then (0, False) else positive_loop n value)"

definition positiveScaleInt64 :: "int \<Rightarrow> nat \<Rightarrow> int \<times> bool" where
  "positiveScaleInt64 base scale =
    (if scale = 0 then (base, True)
     else if scale = 1 then int64MultiplyScale base 10
     else if scale = 2 then int64MultiplyScale base 100
     else if scale = 3 then int64MultiplyScale base 1000
     else if scale = 6 then int64MultiplyScale base 1000000
     else if scale = 9 then int64MultiplyScale base 1000000000
     else positive_loop scale base)"

fun negative_loop :: "int \<Rightarrow> nat \<Rightarrow> int \<Rightarrow> bool \<Rightarrow> int \<times> bool" where
  "negative_loop base 0 value fraction =
     (if fraction then (if base > 0 then value + 1 else value - 1) else value, \<not> fraction)"
| "negative_loop base (Suc n) value fraction =
     (let fraction = (if \<not> fraction \<and> value smod 10 \<noteq> 0 then True else fraction);
          value = value sdiv 10
      in if value = 0 then
           if fraction then (if base > 0 then 1 else - 1, False) else (0, True)
         else negative_loop base n value fraction)"

definition negativeScaleInt64 :: "int \<Rightarrow> nat \<Rightarrow> int \<times> bool" where
  "negativeScaleInt64 base scale = (if scale = 0 then (base, True) else negative_loop base scale base False)"

section \<open>Amounts\<close>

text \<open>\<open>Int64Amount v s\<close> is \<open>v * 10^s\<close>, \<open>InfDec u s\<close> is \<open>u * 10^-s\<close>.\<close>

datatype quantity_amount =
    Int64Amount int int
  | InfDec int int

definition AsScaledInt64 :: "int \<Rightarrow> int \<Rightarrow> int \<Rightarrow> int \<times> bool" where
  "AsScaledInt64 v s scale =
    (if s < scale then (fst (negativeScaleInt64 v (nat (scale - s))), True)
     else positiveScaleInt64 v (nat (s - scale)))"

text \<open>
  \<open>int64(math.Pow10(n))\<close>: the powers up to \<open>10^18\<close> are exact and fit; the conversion of a larger one gives the most
  negative number on amd64.
\<close>

definition int64_Pow10 :: "nat \<Rightarrow> int" where
  "int64_Pow10 n = (if n \<le> 18 then 10 ^ n else mostNegative)"

definition scaledValue :: "int \<Rightarrow> int \<Rightarrow> int \<Rightarrow> int" where
  "scaledValue unscaled scale newScale =
    (let dif = scale - newScale in
     if dif = 0 then wrap64 unscaled
     else if dif < 0 then wrap64 (wrap64 unscaled * int64_Pow10 (nat (- dif)))
     else if unscaled < mostPositive \<and> dif < 19 then
       let divide = int64_Pow10 (nat dif); result = wrap64 unscaled sdiv divide; md = wrap64 unscaled smod divide in
       if md \<noteq> 0 then wrap64 (result + 1) else result
     else
       let divisor = 10 ^ nat dif; result = unscaled div divisor; remainder = unscaled mod divisor in
       if remainder \<noteq> 0 then wrap64 (wrap64 result + 1) else wrap64 result)"

fun ScaledValue :: "quantity_amount \<Rightarrow> int \<Rightarrow> int" where
  "ScaledValue (Int64Amount v s) scale = fst (AsScaledInt64 v s scale)"
| "ScaledValue (InfDec u s) scale = scaledValue u s (- scale)"

definition MilliValue :: "quantity_amount \<Rightarrow> int" where
  "MilliValue q = ScaledValue q (- 3)"

section \<open>The number a quantity stands for\<close>

text \<open>In nano units, for the amounts that parsing yields: it rounds to nano units, and keeps 64-bit values.\<close>

fun nanos :: "quantity_amount \<Rightarrow> quantity" where
  "nanos (Int64Amount v s) = v * 10 ^ nat (s + 9)"
| "nanos (InfDec u s) = u * 10 ^ nat (9 - s)"

fun amount_ok :: "quantity_amount \<Rightarrow> bool" where
  "amount_ok (Int64Amount v s) \<longleftrightarrow> - 9 \<le> s \<and> mostNegative \<le> v \<and> v \<le> mostPositive"
| "amount_ok (InfDec u s) \<longleftrightarrow> s \<le> 9"

text \<open>The largest quantity whose milli value is sure to fit (\<open>MaxMilliValue\<close> of apimachinery, in whole units).\<close>

definition milli_limit :: quantity where
  "milli_limit = NewQuantity 9223372036854775"

definition ceil_div :: "int \<Rightarrow> int \<Rightarrow> int" where
  "ceil_div a b = - ((- a) div b)"

lemma ceil_div_eq: "0 < b \<Longrightarrow> ceil_div a b = a div b + (if a mod b = 0 then 0 else 1)"
  by (simp add: ceil_div_def zdiv_zminus1_eq_if)

lemma ceil_div_cancel: "0 < c \<Longrightarrow> ceil_div (a * c) (b * c) = ceil_div a b"
  by (simp add: ceil_div_def) (metis div_mult_mult2 less_irrefl minus_mult_left)

lemma ceil_div_1 [simp]: "ceil_div a 1 = a"
  by (simp add: ceil_div_def)

section \<open>Where the milli value is exact\<close>

lemma sgn_cases: "0 \<le> a \<Longrightarrow> a = 0 \<or> sgn (a :: int) = 1"
  by (auto simp: sgn_1_pos)

lemma sdiv_nonneg: "0 \<le> a \<Longrightarrow> 0 < b \<Longrightarrow> a sdiv b = a div (b :: int)"
  using sgn_cases [of a] by (auto simp: signed_divide_int_def)

lemma smod_nonneg: "0 \<le> a \<Longrightarrow> 0 < b \<Longrightarrow> a smod b = a mod (b :: int)"
  using sgn_cases [of a] by (auto simp: signed_modulo_int_def)

lemma multiply_exact:
  assumes "0 \<le> a" "1 \<le> b" "a * b \<le> mostPositive"
  shows "int64MultiplyScale a b = (a * b, True)"
proof -
  have "0 \<le> a * b" using assms(1,2) by simp
  then have "wrap64 (a * b) = a * b" using assms(3) by (intro wrap64_id) linarith+
  moreover have "(a * b) sdiv b = a" using assms(1,2) by (simp add: sdiv_nonneg)
  ultimately show ?thesis using assms(1) by (simp add: int64MultiplyScale_def Let_def)
qed

lemma positive_loop_exact: "0 \<le> v \<Longrightarrow> v * 10 ^ n \<le> mostPositive \<Longrightarrow> positive_loop n v = (v * 10 ^ n, True)"
proof (induction n arbitrary: v)
  case (Suc n)
  have "v * 10 * 1 \<le> v * 10 * 10 ^ n" by (rule mult_left_mono) (use Suc.prems(1) in simp_all)
  then have "v * 10 \<le> mostPositive" using Suc.prems(2) by simp
  then show ?case using Suc.IH [of "v * 10"] Suc.prems multiply_exact [of v 10] by (simp add: mult.assoc)
qed simp

lemma positive_exact: "0 \<le> v \<Longrightarrow> v * 10 ^ n \<le> mostPositive \<Longrightarrow> fst (positiveScaleInt64 v n) = v * 10 ^ n"
  using positive_loop_exact [of v n] multiply_exact [of v "10 ^ n"] by (auto simp: positiveScaleInt64_def)

lemma negative_loop_exact:
  assumes "0 \<le> v" "0 < base \<or> v = 0 \<and> \<not> f"
  shows "fst (negative_loop base n v f) = v div 10 ^ n + (if f \<or> v mod 10 ^ n \<noteq> 0 then 1 else 0)"
  using assms
proof (induction n arbitrary: v f)
  case (Suc n)
  let ?f = "f \<or> v mod 10 \<noteq> 0"
  have s: "v sdiv 10 = v div 10" "v smod 10 = v mod 10" using Suc.prems(1) by (simp_all add: sdiv_nonneg smod_nonneg)
  have d: "v div 10 ^ Suc n = v div 10 div 10 ^ n" by (simp add: zdiv_zmult2_eq)
  have m: "v mod 10 ^ Suc n = 10 * (v div 10 mod 10 ^ n) + v mod 10" by (simp add: zmod_zmult2_eq)
  have "0 \<le> v div 10 mod 10 ^ n" "0 \<le> v mod 10" by simp_all
  then have z: "v mod 10 ^ Suc n \<noteq> 0 \<longleftrightarrow> v mod 10 \<noteq> 0 \<or> v div 10 mod 10 ^ n \<noteq> 0" unfolding m by linarith
  show ?case
  proof (cases "v div 10 = 0")
    case True
    then show ?thesis using Suc.prems unfolding d z by (auto simp: s Let_def)
  next
    case False
    then have "0 < base" using Suc.prems by auto
    then have "fst (negative_loop base n (v div 10) ?f) = v div 10 div 10 ^ n + (if ?f \<or> v div 10 mod 10 ^ n \<noteq> 0 then 1 else 0)"
      using Suc.IH [of "v div 10" ?f] Suc.prems(1) by simp
    moreover have "negative_loop base (Suc n) v f = negative_loop base n (v div 10) ?f"
      using False by (simp add: s Let_def)
    ultimately show ?thesis unfolding d z by auto
  qed
qed auto

lemma negative_exact:
  assumes "0 \<le> v"
  shows "fst (negativeScaleInt64 v n) = ceil_div v (10 ^ n)"
proof -
  have "fst (negative_loop v n v False) = ceil_div v (10 ^ n)"
    using negative_loop_exact [of v v False n] assms ceil_div_eq [of "10 ^ n" v] by (cases "v = 0") simp_all
  then show ?thesis by (simp add: negativeScaleInt64_def)
qed

lemma power_exceeds: "19 \<le> n \<Longrightarrow> mostPositive < 10 ^ n"
  using power_increasing [of 19 n "10 :: int"] by simp

text \<open>Splitting the nano units at the milli units.\<close>

lemma nanos_milli:
  fixes v :: int
  shows "ceil_div (v * 10 ^ n) (10 ^ 6) = (if n \<le> 6 then ceil_div v (10 ^ (6 - n)) else v * 10 ^ (n - 6))"
proof (cases "n \<le> 6")
  case True
  then have "(10 :: int) ^ 6 = 10 ^ (6 - n) * 10 ^ n" by (simp flip: power_add)
  then show ?thesis using True ceil_div_cancel [of "10 ^ n" v "10 ^ (6 - n)"] by simp
next
  case False
  then have "(10 :: int) ^ n = 10 ^ (n - 6 + 6)" by simp
  then have "(10 :: int) ^ n = 10 ^ (n - 6) * 10 ^ 6" unfolding power_add .
  then show ?thesis using False ceil_div_cancel [of "10 ^ 6" "v * 10 ^ (n - 6)" 1] by (simp add: mult.assoc)
qed

lemma scaled_exact:
  assumes "0 \<le> u" "s \<le> 9" "ceil_div (u * 10 ^ nat (9 - s)) (10 ^ 6) \<le> mostPositive"
  shows "scaledValue u s 3 = ceil_div (u * 10 ^ nat (9 - s)) (10 ^ 6)"
proof -
  let ?c = "ceil_div (u * 10 ^ nat (9 - s)) (10 ^ 6)"
  consider "s = 3" | "s < 3" | "3 < s" by linarith
  then show ?thesis
  proof cases
    case 1
    have "?c = u" using nanos_milli [of u 6] by (simp add: 1)
    then show ?thesis using assms(1,3) by (simp add: scaledValue_def 1)
  next
    case 2
    define n where "n = nat (3 - s)"
    have "nat (9 - s) = n + 6" "s - 3 = - int n" "0 < n" using 2 by (auto simp: n_def)
    then have c: "?c = u * 10 ^ n" using nanos_milli [of u "n + 6"] by simp
    have v: "scaledValue u s 3 = wrap64 (wrap64 u * int64_Pow10 n)"
      using \<open>s - 3 = - int n\<close> \<open>0 < n\<close> by (simp add: scaledValue_def Let_def)
    have "u * 1 \<le> u * 10 ^ n" by (rule mult_left_mono) (use assms(1) in simp_all)
    then have u: "wrap64 u = u" using assms(1,3) unfolding c by (intro wrap64_id) linarith+
    show ?thesis
    proof (cases "n \<le> 18")
      case True
      have "0 \<le> u * 10 ^ n" using assms(1) by simp
      then show ?thesis using assms(3) unfolding v c u by (subst wrap64_id) (simp_all add: True int64_Pow10_def)
    next
      case False
      have "u = 0"
      proof (rule ccontr)
        assume "u \<noteq> 0"
        then have "1 * 10 ^ n \<le> u * 10 ^ n" using assms(1) by (intro mult_right_mono) auto
        moreover have "mostPositive < 10 ^ n" by (rule power_exceeds) (use False in simp)
        ultimately show False using assms(3) unfolding c by linarith
      qed
      then show ?thesis unfolding v c by simp
    qed
  next
    case 3
    define n where "n = nat (s - 3)"
    have n: "nat (9 - s) = 6 - n" "s - 3 = int n" "0 < n" "n \<le> 6" using 3 assms(2) by (auto simp: n_def)
    then have c: "?c = ceil_div u (10 ^ n)" using nanos_milli [of u "6 - n"] by simp
    have p: "int64_Pow10 n = 10 ^ n" "(0 :: int) < 10 ^ n" using n(4) by (simp_all add: int64_Pow10_def)
    have d: "0 \<le> u div 10 ^ n" "u div 10 ^ n \<le> ?c" using assms(1) p(2) unfolding c by (simp_all add: pos_imp_zdiv_nonneg_iff ceil_div_eq)
    have r: "mostNegative \<le> u div 10 ^ n" "u div 10 ^ n \<le> mostPositive" using d assms(3) by linarith+
    have e: "?c = u div 10 ^ n + (if u mod 10 ^ n = 0 then 0 else 1)" unfolding c by (rule ceil_div_eq [OF p(2)])
    have w: "u mod 10 ^ n \<noteq> 0 \<Longrightarrow> wrap64 (u div 10 ^ n + 1) = u div 10 ^ n + 1"
      by (rule wrap64_id) (use d assms(3) e in \<open>simp_all split: if_splits\<close>)
    show ?thesis
    proof (cases "u < mostPositive")
      case True
      have "wrap64 u = u" using True assms(1) by (intro wrap64_id) linarith+
      then show ?thesis using True n w assms(1) p unfolding e
        by (simp add: scaledValue_def Let_def sdiv_nonneg smod_nonneg)
    next
      case False
      have "wrap64 (u div 10 ^ n) = u div 10 ^ n" by (rule wrap64_id [OF r])
      then show ?thesis using False n w unfolding e by (simp add: scaledValue_def Let_def)
    qed
  qed
qed

lemma limit_fits: "v \<le> milli_limit \<Longrightarrow> ceil_div v (10 ^ 6) \<le> mostPositive"
  using zdiv_mono1 [of "- milli_limit" "- v" "10 ^ 6"] by (simp add: milli_limit_def NewQuantity_def ceil_div_def)

lemma MilliValue_exact:
  assumes "amount_ok q" "0 \<le> nanos q" "nanos q \<le> milli_limit"
  shows "MilliValue q = ceil_div (nanos q) (10 ^ 6)"
proof (cases q)
  case (Int64Amount v s)
  note fits = limit_fits [OF assms(3)]
  have "0 < (10 :: int) ^ nat (s + 9)" by simp
  then have v: "0 \<le> v" using assms(2) unfolding Int64Amount nanos.simps zero_le_mult_iff by linarith
  have s: "- 9 \<le> s" using assms(1) by (simp add: Int64Amount)
  show ?thesis
  proof (cases "s < - 3")
    case True
    have "nat (s + 9) \<le> 6" "6 - nat (s + 9) = nat (- 3 - s)" using True s by linarith+
    then have "ceil_div (nanos q) (10 ^ 6) = ceil_div v (10 ^ nat (- 3 - s))"
      using nanos_milli [of v "nat (s + 9)"] by (simp only: Int64Amount nanos.simps if_True)
    then show ?thesis using True negative_exact [OF v, of "nat (- 3 - s)"]
      by (simp only: Int64Amount MilliValue_def ScaledValue.simps AsScaledInt64_def if_True fst_conv)
  next
    case False
    have n: "nat (s + 9) = nat (s - - 3) + 6" using False by linarith
    have "\<not> nat (s - - 3) + 6 \<le> 6 \<or> nat (s - - 3) = 0" by linarith
    then have c: "ceil_div (nanos q) (10 ^ 6) = v * 10 ^ nat (s - - 3)"
      using nanos_milli [of v "nat (s - - 3) + 6"] unfolding Int64Amount nanos.simps n by (elim disjE) simp_all
    have "fst (positiveScaleInt64 v (nat (s - - 3))) = v * 10 ^ nat (s - - 3)"
      by (rule positive_exact [OF v]) (use fits in \<open>simp only: c\<close>)
    then show ?thesis using False unfolding c
      by (simp only: Int64Amount MilliValue_def ScaledValue.simps AsScaledInt64_def if_False)
  qed
next
  case (InfDec u s)
  have "0 < (10 :: int) ^ nat (9 - s)" by simp
  then have "0 \<le> u" using assms(2) unfolding InfDec nanos.simps zero_le_mult_iff by linarith
  then show ?thesis using scaled_exact [of u s] limit_fits [OF assms(3)] assms(1) by (simp add: InfDec MilliValue_def)
qed

end
