(* ===== verification/PodEvaluator.thy ===== *)
theory PodEvaluator
  imports Evaluators Quantities
begin

text \<open>
  The pod evaluator (\<open>kube/pkg/quota/v1/evaluator/core/pods.go\<close>), the list of static
  evaluators (\<open>registry.go\<close>) and the configuration of the quota system (\<open>install/registry.go\<close>,
  \<open>generic/configuration.go\<close>). All evaluators are shown to satisfy \<open>evaluator_law\<close>.
\<close>

section \<open>Resource names of pods\<close>

definition podObjectCountName :: resource_name where
  "podObjectCountName = ObjectCountQuotaResourceNameFor (core_resource ''pods'')"

definition podResources :: "resource_name list" where
  "podResources = [podObjectCountName, ''cpu'', ''memory'', ''ephemeral-storage'',
     ''requests.cpu'', ''requests.memory'', ''requests.ephemeral-storage'',
     ''limits.cpu'', ''limits.memory'', ''limits.ephemeral-storage'', ''pods'']"

definition podResourcePrefixes :: "string list" where
  "podResourcePrefixes = [''hugepages-'', ''requests.hugepages-'']"

definition requestedResourcePrefixes :: "string list" where
  "requestedResourcePrefixes = [''hugepages-'']"

abbreviation DefaultResourceRequestsPrefix :: string where
  "DefaultResourceRequestsPrefix \<equiv> ''requests.''"

definition maskResourceWithPrefix :: "resource_name \<Rightarrow> string \<Rightarrow> resource_name" where
  "maskResourceWithPrefix resource p = p @ resource"

definition IsPrefixedNativeResource :: "resource_name \<Rightarrow> bool" where
  "IsPrefixedNativeResource name = StrContains name ''kubernetes.io/''"

definition IsNativeResource :: "resource_name \<Rightarrow> bool" where
  "IsNativeResource name \<longleftrightarrow> \<not> StrContains name ''/'' \<or> IsPrefixedNativeResource name"

definition isExtendedResourceNameForQuota :: "resource_name \<Rightarrow> bool" where
  "isExtendedResourceNameForQuota name \<longleftrightarrow>
     \<not> IsNativeResource name \<and> HasPrefix name DefaultResourceRequestsPrefix"

definition IsExtendedResourceName :: "resource_name \<Rightarrow> bool" where
  "IsExtendedResourceName name =
    (if IsNativeResource name \<or> HasPrefix name DefaultResourceRequestsPrefix then False
     else let nameForQuota = DefaultResourceRequestsPrefix @ name
          in if \<not> IsQualifiedName nameForQuota then False else True)"

definition validationSet :: string_set where
  "validationSet = set [''cpu'', ''memory'', ''requests.cpu'', ''requests.memory'', ''limits.cpu'', ''limits.memory'']"

section \<open>Usage\<close>

definition toExternalPodOrError :: "runtime_object \<Rightarrow> gerror + pod" where
  "toExternalPodOrError obj = (case obj of PodObj pod \<Rightarrow> Inr pod
     | _ \<Rightarrow> Inl (OtherErr ''expect *api.Pod or *v1.Pod''))"

text \<open>The grace period is a 64-bit number of nanoseconds, which wraps around.\<close>

definition QuotaV1Pod :: "pod \<Rightarrow> int \<Rightarrow> bool" where
  "QuotaV1Pod pod now =
    (if pod_phase pod = ''Failed'' \<or> pod_phase pod = ''Succeeded'' then False
     else case (om_deletionTimestamp (pod_meta pod), om_deletionGracePeriodSeconds (pod_meta pod)) of
            (Some deletionTime, Some grace) \<Rightarrow> if now > deletionTime + wrap64 (grace * 10 ^ 9) then False else True
          | _ \<Rightarrow> True)"

definition put_found :: "resource_list \<Rightarrow> resource_name \<Rightarrow> resource_name list \<Rightarrow> resource_list \<Rightarrow> resource_list" where
  "put_found m source targets result =
    (case map_of m source of
       Some request \<Rightarrow> fold (\<lambda>target. put target request) targets result
     | None \<Rightarrow> result)"

definition pod_prefixed_usage :: "resource_name \<times> quantity \<Rightarrow> resource_list \<Rightarrow> resource_list" where
  "pod_prefixed_usage = (\<lambda>(resource, request) result.
     let result = (if ContainsPrefix requestedResourcePrefixes resource then
           put (maskResourceWithPrefix resource DefaultResourceRequestsPrefix) request (put resource request result)
         else result)
     in if IsExtendedResourceName resource then
          put (maskResourceWithPrefix resource DefaultResourceRequestsPrefix) request result
        else result)"

definition podComputeUsageHelper :: "resource_list \<Rightarrow> resource_list \<Rightarrow> resource_list" where
  "podComputeUsageHelper requests limits =
    (let result = put ''pods'' (NewQuantity 1) [];
         result = put_found requests ''cpu'' [''cpu'', ''requests.cpu''] result;
         result = put_found limits ''cpu'' [''limits.cpu''] result;
         result = put_found requests ''memory'' [''memory'', ''requests.memory''] result;
         result = put_found limits ''memory'' [''limits.memory''] result;
         result = put_found requests ''ephemeral-storage'' [''ephemeral-storage'', ''requests.ephemeral-storage''] result;
         result = put_found limits ''ephemeral-storage'' [''limits.ephemeral-storage''] result
     in fold pod_prefixed_usage requests result)"

text \<open>The effective requests or limits of a pod: the sum over the containers, and at least each init container.\<close>

definition pod_effective :: "(container \<Rightarrow> resource_list) \<Rightarrow> pod \<Rightarrow> resource_list" where
  "pod_effective sel pod =
    fold (\<lambda>c acc. Max_rl acc (sel c)) (pod_initContainers pod)
      (fold (\<lambda>c acc. Add_rl acc (sel c)) (pod_containers pod) [])"

definition PodUsageFunc :: "runtime_object \<Rightarrow> int \<Rightarrow> gerror + resource_list" where
  "PodUsageFunc obj now =
    (case toExternalPodOrError obj of
       Inl err \<Rightarrow> Inl err
     | Inr pod \<Rightarrow>
         let result = put podObjectCountName (NewQuantity 1) []
         in if \<not> QuotaV1Pod pod now then Inr result
            else
              let requests = pod_effective c_requests pod;
                  limits = pod_effective c_limits pod
              in Inr (Add_rl result (podComputeUsageHelper requests limits)))"

section \<open>Constraints\<close>

definition enforcePodContainerConstraints :: "container \<Rightarrow> string_set \<Rightarrow> string_set \<Rightarrow> string_set" where
  "enforcePodContainerConstraints container requiredSet missingSet =
    (let containerUsage = podComputeUsageHelper (c_requests container) (c_limits container);
         containerSet = ToSet (ResourceNames containerUsage)
     in if containerSet \<noteq> requiredSet then missingSet \<union> (requiredSet - containerSet) else missingSet)"

definition pod_Constraints :: "resource_name list \<Rightarrow> runtime_object \<Rightarrow> gerror option" where
  "pod_Constraints required item =
    (case toExternalPodOrError item of
       Inl err \<Rightarrow> Some err
     | Inr pod \<Rightarrow>
         let requiredSet = ToSet required \<inter> validationSet;
             missingSet = fold (\<lambda>c. enforcePodContainerConstraints c requiredSet) (pod_containers pod) {};
             missingSet = fold (\<lambda>c. enforcePodContainerConstraints c requiredSet) (pod_initContainers pod) missingSet
         in if missingSet = {} then None
            else Some (OtherErr (''must specify '' @ Join (ListSet missingSet) '','')))"

section \<open>Quality of service\<close>

datatype pod_qos = PodQOSGuaranteed | PodQOSBurstable | PodQOSBestEffort

definition isSupportedQoSComputeResource :: "resource_name \<Rightarrow> bool" where
  "isSupportedQoSComputeResource name \<longleftrightarrow> name \<in> set [''cpu'', ''memory'']"

definition qos_add :: "resource_list \<Rightarrow> resource_list \<Rightarrow> resource_list" where
  "qos_add from acc =
    fold (\<lambda>(name, quantity) acc.
        if \<not> isSupportedQoSComputeResource name then acc
        else if QCmp quantity 0 = 1 then
          (case map_of acc name of
             None \<Rightarrow> put name quantity acc
           | Some old \<Rightarrow> put name (quantity + old) acc)
        else acc) from acc"

definition qos_limits_found :: "resource_list \<Rightarrow> string_set" where
  "qos_limits_found limits =
    fold (\<lambda>(name, quantity) found.
        if \<not> isSupportedQoSComputeResource name then found
        else if QCmp quantity 0 = 1 then insert name found
        else found) limits {}"

definition qos_totals :: "container list \<Rightarrow> resource_list \<times> resource_list \<times> bool" where
  "qos_totals allContainers =
    fold (\<lambda>container (requests, limits, isGuaranteed).
        (qos_add (c_requests container) requests,
         qos_add (c_limits container) limits,
         if \<not> ({''memory'', ''cpu''} \<subseteq> qos_limits_found (c_limits container)) then False else isGuaranteed))
      allContainers ([], [], True)"

definition GetPodQOS :: "pod \<Rightarrow> pod_qos" where
  "GetPodQOS pod =
    (case qos_totals (pod_containers pod @ pod_initContainers pod) of (requests, limits, isGuaranteed) \<Rightarrow>
     if length requests = 0 \<and> length limits = 0 then PodQOSBestEffort
        else
          let isGuaranteed = (if isGuaranteed then
                list_all (\<lambda>(name, req). case map_of limits name of
                    None \<Rightarrow> False | Some lim \<Rightarrow> \<not> (QCmp lim req \<noteq> 0)) requests
              else isGuaranteed)
          in if isGuaranteed \<and> length requests = length limits then PodQOSGuaranteed
             else PodQOSBurstable)"

definition isBestEffort :: "pod \<Rightarrow> bool" where
  "isBestEffort pod \<longleftrightarrow> GetPodQOS pod = PodQOSBestEffort"

definition isTerminating :: "pod \<Rightarrow> bool" where
  "isTerminating pod = (case pod_activeDeadlineSeconds pod of Some d \<Rightarrow> d \<ge> 0 | None \<Rightarrow> False)"

section \<open>Scopes\<close>

text \<open>A label requirement: the operator decides which values it may have.\<close>

datatype selection_op = SelIn | SelNotIn | SelExists | SelDoesNotExist

record label_requirement =
  lr_key :: string
  lr_op :: selection_op
  lr_values :: "string list"

definition NewRequirement :: "string \<Rightarrow> selection_op \<Rightarrow> string list \<Rightarrow> gerror + label_requirement" where
  "NewRequirement key op vals =
    (if \<not> IsQualifiedName key then Inl (InvalidErr ''key'')
     else if (op = SelIn \<or> op = SelNotIn) \<and> vals = [] then Inl (InvalidErr ''for in, notin operators, values set can't be empty'')
     else if (op = SelExists \<or> op = SelDoesNotExist) \<and> vals \<noteq> [] then Inl (InvalidErr ''values set must be empty for exists and does not exist'')
     else if \<not> list_all IsValidLabelValue vals then Inl (InvalidErr ''values'')
     else Inr \<lparr>lr_key = key, lr_op = op, lr_values = vals\<rparr>)"

definition Requirement_Matches :: "label_requirement \<Rightarrow> (string \<times> string) list \<Rightarrow> bool" where
  "Requirement_Matches r ls =
    (case lr_op r of
       SelIn \<Rightarrow> (case map_of ls (lr_key r) of None \<Rightarrow> False | Some v \<Rightarrow> v \<in> set (lr_values r))
     | SelNotIn \<Rightarrow> (case map_of ls (lr_key r) of None \<Rightarrow> True | Some v \<Rightarrow> v \<notin> set (lr_values r))
     | SelExists \<Rightarrow> has_key ls (lr_key r)
     | SelDoesNotExist \<Rightarrow> \<not> has_key ls (lr_key r))"

definition ScopedResourceSelectorRequirementsAsSelector :: "scope_req \<Rightarrow> gerror + label_requirement" where
  "ScopedResourceSelectorRequirementsAsSelector ssr =
    (if sr_operator ssr = ''In'' then NewRequirement (sr_scopeName ssr) SelIn (sr_values ssr)
     else if sr_operator ssr = ''NotIn'' then NewRequirement (sr_scopeName ssr) SelNotIn (sr_values ssr)
     else if sr_operator ssr = ''Exists'' then NewRequirement (sr_scopeName ssr) SelExists (sr_values ssr)
     else if sr_operator ssr = ''DoesNotExist'' then NewRequirement (sr_scopeName ssr) SelDoesNotExist (sr_values ssr)
     else Inl (OtherErr (sr_operator ssr @ '' is not a valid scope selector operator'')))"

definition podMatchesSelector :: "pod \<Rightarrow> scope_req \<Rightarrow> gerror + bool" where
  "podMatchesSelector pod selector =
    (case ScopedResourceSelectorRequirementsAsSelector selector of
       Inl err \<Rightarrow> Inl (OtherErr (''failed to parse and convert selector: '' @ err_msg err))
     | Inr labelSelector \<Rightarrow>
         let m = (if length (pod_priorityClassName pod) \<noteq> 0
                  then [(''PriorityClass'', pod_priorityClassName pod)] else [])
         in if Requirement_Matches labelSelector m then Inr True else Inr False)"

definition podMatchesScopeFunc :: scope_func where
  "podMatchesScopeFunc selector obj =
    (case toExternalPodOrError obj of
       Inl err \<Rightarrow> Inl err
     | Inr pod \<Rightarrow>
         if sr_scopeName selector = ''Terminating'' then Inr (isTerminating pod)
         else if sr_scopeName selector = ''NotTerminating'' then Inr (\<not> isTerminating pod)
         else if sr_scopeName selector = ''BestEffort'' then Inr (isBestEffort pod)
         else if sr_scopeName selector = ''NotBestEffort'' then Inr (\<not> isBestEffort pod)
         else if sr_scopeName selector = ''PriorityClass'' then podMatchesSelector pod selector
         else Inr False)"

fun pod_MatchingScopes_loop ::
  "runtime_object \<Rightarrow> scope_req list \<Rightarrow> scope_req list \<Rightarrow> gerror + scope_req list"
where
  "pod_MatchingScopes_loop item [] matchedScopes = Inr matchedScopes"
| "pod_MatchingScopes_loop item (selector # selectors) matchedScopes =
     (case podMatchesScopeFunc selector item of
        Inl err \<Rightarrow> Inl (OtherErr (''error on matching scope: '' @ err_msg err))
      | Inr match \<Rightarrow> pod_MatchingScopes_loop item selectors
          (if match then matchedScopes @ [selector] else matchedScopes))"

definition pod_MatchingScopes :: "runtime_object \<Rightarrow> scope_req list \<Rightarrow> gerror + scope_req list" where
  "pod_MatchingScopes item scopeSelectors = pod_MatchingScopes_loop item scopeSelectors []"

definition pod_UncoveredQuotaScopes :: "scope_req list \<Rightarrow> scope_req list \<Rightarrow> gerror + scope_req list" where
  "pod_UncoveredQuotaScopes limitedScopes matchedQuotaScopes =
    Inr (fold (\<lambda>selector uncoveredScopes.
        let isCovered = list_ex (\<lambda>m. sr_scopeName m = sr_scopeName selector) matchedQuotaScopes
        in if \<not> isCovered then uncoveredScopes @ [selector] else uncoveredScopes) limitedScopes [])"

section \<open>The evaluator\<close>

definition pod_Handles :: "attributes \<Rightarrow> bool" where
  "pod_Handles a = (if at_operation a = CreateOp then True else False)"

definition pod_MatchingResources :: "resource_name list \<Rightarrow> resource_name list" where
  "pod_MatchingResources input =
    fold (\<lambda>resource result.
        let result = (if ContainsPrefix podResourcePrefixes resource then result @ [resource] else result)
        in if isExtendedResourceNameForQuota resource then result @ [resource] else result)
      input (Intersection input podResources)"

definition NewPodEvaluator :: "lister_for_resource \<Rightarrow> int \<Rightarrow> evaluator" where
  "NewPodEvaluator f now =
    (let listFuncByNamespace = ListResourceUsingListerFunc f (core_resource ''pods'')
     in \<lparr>ev_Constraints = pod_Constraints,
         ev_GroupResource = core_resource ''pods'',
         ev_Handles = pod_Handles,
         ev_Matches = (\<lambda>q item. Matches q item pod_MatchingResources podMatchesScopeFunc),
         ev_MatchingScopes = pod_MatchingScopes,
         ev_UncoveredQuotaScopes = pod_UncoveredQuotaScopes,
         ev_MatchingResources = pod_MatchingResources,
         ev_Usage = (\<lambda>item. PodUsageFunc item now),
         ev_UsageStats = (\<lambda>options. stats_result (CalculateUsageStats options listFuncByNamespace
            podMatchesScopeFunc (\<lambda>item. PodUsageFunc item now)))\<rparr>)"

section \<open>The static evaluators and the configuration\<close>

definition legacyObjectCountAliases :: "(group_resource \<times> resource_name) list" where
  "legacyObjectCountAliases = [(core_resource ''configmaps'', ''configmaps''),
     (core_resource ''resourcequotas'', ''resourcequotas''),
     (core_resource ''replicationcontrollers'', ''replicationcontrollers''),
     (core_resource ''secrets'', ''secrets'')]"

text \<open>\<open>order\<close> is the order in which Go iterates over the map of aliases.\<close>

definition NewEvaluators ::
  "((group_resource \<times> resource_name) list \<Rightarrow> (group_resource \<times> resource_name) list) \<Rightarrow>
   lister_for_resource \<Rightarrow> int \<Rightarrow> evaluator list"
where
  "NewEvaluators order f now =
    (let result = [NewPodEvaluator f now, NewServiceEvaluator f, NewPersistentVolumeClaimEvaluator f]
     in fold (\<lambda>(gr, alias) result.
          result @ [NewObjectCountEvaluator gr (ListResourceUsingListerFunc f gr) alias])
        (order legacyObjectCountAliases) result)"

record quota_configuration =
  qc_evaluators :: "evaluator list"
  qc_ignoredResources :: "group_resource list"

definition ignoredResources :: "group_resource list" where
  "ignoredResources = [
     \<lparr>gr_group = [], gr_resource = ''bindings''\<rparr>,
     \<lparr>gr_group = [], gr_resource = ''componentstatuses''\<rparr>,
     \<lparr>gr_group = ''authentication.k8s.io'', gr_resource = ''tokenreviews''\<rparr>,
     \<lparr>gr_group = ''authorization.k8s.io'', gr_resource = ''subjectaccessreviews''\<rparr>,
     \<lparr>gr_group = ''authorization.k8s.io'', gr_resource = ''selfsubjectaccessreviews''\<rparr>,
     \<lparr>gr_group = ''authorization.k8s.io'', gr_resource = ''localsubjectaccessreviews''\<rparr>,
     \<lparr>gr_group = ''authorization.k8s.io'', gr_resource = ''selfsubjectrulesreviews''\<rparr>,
     \<lparr>gr_group = [], gr_resource = ''events''\<rparr>]"

definition NewQuotaConfigurationForControllers ::
  "((group_resource \<times> resource_name) list \<Rightarrow> (group_resource \<times> resource_name) list) \<Rightarrow>
   lister_for_resource \<Rightarrow> int \<Rightarrow> quota_configuration"
where
  "NewQuotaConfigurationForControllers order f now =
    \<lparr>qc_evaluators = NewEvaluators order f now, qc_ignoredResources = ignoredResources\<rparr>"

section \<open>Lemmas on names\<close>

lemma sublist_requests_prefix:
  "sublist ''kubernetes.io/'' (DefaultResourceRequestsPrefix @ name) \<longleftrightarrow> sublist ''kubernetes.io/'' name"
proof
  assume "sublist ''kubernetes.io/'' (DefaultResourceRequestsPrefix @ name)"
  then consider "sublist ''kubernetes.io/'' DefaultResourceRequestsPrefix" | "sublist ''kubernetes.io/'' name"
    | xs1 xs2 where "''kubernetes.io/'' = xs1 @ xs2" "suffix xs1 DefaultResourceRequestsPrefix" "prefix xs2 name"
    unfolding sublist_append by blast
  then show "sublist ''kubernetes.io/'' name"
  proof cases
    case 1
    then have "set ''kubernetes.io/'' \<subseteq> set DefaultResourceRequestsPrefix" by (rule set_mono_sublist)
    then show ?thesis by simp
  next
    case (3 xs1 xs2)
    show ?thesis
    proof (cases xs1)
      case Nil
      then show ?thesis using 3 by (metis append_Nil prefix_imp_sublist)
    next
      case (Cons x xs)
      then have "CHR ''k'' \<in> set xs1" using 3(1) by simp
      then have "CHR ''k'' \<in> set DefaultResourceRequestsPrefix" using 3(2) by (meson set_mono_suffix subsetD)
      then show ?thesis by simp
    qed
  qed
qed (simp only: sublist_append, simp)

lemma extended_for_quota:
  assumes "IsExtendedResourceName name"
  shows "isExtendedResourceNameForQuota (maskResourceWithPrefix name DefaultResourceRequestsPrefix)"
proof -
  have "\<not> IsNativeResource name"
    using assms by (auto simp: IsExtendedResourceName_def split: if_splits)
  then have "sublist ''/'' name" "\<not> sublist ''kubernetes.io/'' name"
    by (auto simp: IsNativeResource_def IsPrefixedNativeResource_def)
  then have "sublist ''/'' (DefaultResourceRequestsPrefix @ name)"
      "\<not> sublist ''kubernetes.io/'' (DefaultResourceRequestsPrefix @ name)"
    unfolding sublist_requests_prefix by (simp_all only: sublist_append) simp_all
  then show ?thesis
    by (simp add: isExtendedResourceNameForQuota_def IsNativeResource_def IsPrefixedNativeResource_def
      maskResourceWithPrefix_def del: append_Cons)
qed

section \<open>The evaluators satisfy the laws\<close>

text \<open>A resource list is well formed and all its resources satisfy a predicate; the loops keep that.\<close>

definition keys_in :: "(resource_name \<Rightarrow> bool) \<Rightarrow> resource_list \<Rightarrow> bool" where
  "keys_in P m \<longleftrightarrow> wf_map m \<and> (\<forall>k \<in> fst ` set m. P k)"

lemma keys_in_Nil [simp]: "keys_in P []"
  by (simp add: keys_in_def)

lemma keys_in_put [intro, simp]: "keys_in P m \<Longrightarrow> P k \<Longrightarrow> keys_in P (put k v m)"
  unfolding keys_in_def wf_put keys_put by blast

lemma keys_in_fold:
  "keys_in P m \<Longrightarrow> (\<And>x r. x \<in> set xs \<Longrightarrow> keys_in P r \<Longrightarrow> keys_in P (f x r)) \<Longrightarrow> keys_in P (fold f xs m)"
  by (induction xs arbitrary: m) auto

lemma keys_in_alt: "keys_in P m \<longleftrightarrow> wf_map m \<and> (\<forall>k. map_of m k \<noteq> None \<longrightarrow> P k)"
  unfolding keys_in_def map_of_conv_key by blast

lemma keys_in_Add:
  assumes "keys_in P a" "keys_in P b"
  shows "keys_in P (Add_rl a b)"
proof -
  have wf: "wf_map a" using assms(1) by (simp add: keys_in_def)
  show ?thesis
    using assms unfolding keys_in_alt map_of_Add [OF wf] by (auto split: option.splits)
qed

lemma keys_in_put_found:
  "keys_in P m \<Longrightarrow> (\<And>t. t \<in> set ts \<Longrightarrow> P t) \<Longrightarrow> keys_in P (put_found r s ts m)"
  by (auto simp: put_found_def intro: keys_in_fold split: option.splits)

lemma map_of_fold_other:
  "(\<And>x r. x \<in> set xs \<Longrightarrow> map_of (f x r) q = map_of r q) \<Longrightarrow> map_of (fold f xs m) q = map_of m q"
  by (induction xs arbitrary: m) auto

lemma objectCount_law:
  "evaluator_law (NewObjectCountEvaluator gr lf alias)
     (\<lambda>r. r \<in> set (ObjectCountQuotaResourceNameFor gr # (if length alias > 0 then [alias] else [])))"
proof
  define rn where "rn = [ObjectCountQuotaResourceNameFor gr] @ (if length alias > 0 then [alias] else [])"
  have rn_set: "set rn = set (ObjectCountQuotaResourceNameFor gr # (if length alias > 0 then [alias] else []))"
    by (simp add: rn_def)
  have ev: "ev_MatchingResources (NewObjectCountEvaluator gr lf alias) = objectCount_MatchingResources rn"
      "ev_Usage (NewObjectCountEvaluator gr lf alias) = objectCount_Usage rn"
    by (simp_all add: NewObjectCountEvaluator_def Let_def rn_def)
  show "set (ev_MatchingResources (NewObjectCountEvaluator gr lf alias) rs) =
      {r \<in> set rs. r \<in> set (ObjectCountQuotaResourceNameFor gr # (if length alias > 0 then [alias] else []))}" for rs
    unfolding ev rn_set [symmetric] by (auto simp: objectCount_MatchingResources_def)
  have keys: "keys_in (\<lambda>k. k \<in> set rn) (fold (\<lambda>r. put r (NewQuantity 1)) rn [])"
    by (rule keys_in_fold) auto
  fix obj u
  assume "ev_Usage (NewObjectCountEvaluator gr lf alias) obj = Inr u"
  then have u: "keys_in (\<lambda>k. k \<in> set rn) u" using keys by (simp add: ev objectCount_Usage_def)
  then show "wf_map u" by (simp add: keys_in_def)
  show "k \<in> fst ` set u \<Longrightarrow>
      k \<in> set (ObjectCountQuotaResourceNameFor gr # (if length alias > 0 then [alias] else []))" for k
    using u unfolding keys_in_def rn_set by blast
qed

lemma service_law: "evaluator_law (NewServiceEvaluator f) (\<lambda>r. r \<in> set serviceResources)"
proof
  have ev: "ev_MatchingResources (NewServiceEvaluator f) = service_MatchingResources"
      "ev_Usage (NewServiceEvaluator f) = service_Usage"
    by (simp_all add: NewServiceEvaluator_def Let_def)
  show "set (ev_MatchingResources (NewServiceEvaluator f) rs) = {r \<in> set rs. r \<in> set serviceResources}" for rs
    unfolding ev by (auto simp: service_MatchingResources_def)
  have in_res: "serviceObjectCountName \<in> set serviceResources" "''services'' \<in> set serviceResources"
      "''services.nodeports'' \<in> set serviceResources" "''services.loadbalancers'' \<in> set serviceResources"
    by (simp_all add: serviceResources_def)
  fix obj u
  assume "ev_Usage (NewServiceEvaluator f) obj = Inr u"
  then have "keys_in (\<lambda>k. k \<in> set serviceResources) u"
    unfolding ev service_Usage_def Let_def using in_res
    by (auto split: sum.splits if_splits simp del: update.simps)
  then show "wf_map u" "k \<in> fst ` set u \<Longrightarrow> k \<in> set serviceResources" for k
    by (auto simp: keys_in_def)
qed

definition pvc_covers :: "resource_name \<Rightarrow> bool" where
  "pvc_covers r \<longleftrightarrow> r = pvcObjectCountName \<or> r \<in> set pvcResources
     \<or> (\<exists>s \<in> set pvcResources. suffix (storageClassSuffix @ s) r)"

lemma pvc_MatchingResources_eq: "pvc_MatchingResources items = filter pvc_covers items"
proof -
  have "fold (\<lambda>item result.
        if Contains_rn [pvcObjectCountName] item then result @ [item]
        else if Contains_rn pvcResources item then result @ [item]
        else if list_ex (\<lambda>resource. HasSuffix item (storageClassSuffix @ resource)) pvcResources then result @ [item]
        else result) items acc = fold (\<lambda>x acc. if pvc_covers x then acc @ [x] else acc) items acc" for acc
    by (rule fold_cong) (auto simp: pvc_covers_def list_ex_iff fun_eq_iff)
  then show ?thesis by (simp add: pvc_MatchingResources_def fold_filter_append)
qed

lemma pvc_law: "evaluator_law (NewPersistentVolumeClaimEvaluator f) pvc_covers"
proof
  have ev: "ev_MatchingResources (NewPersistentVolumeClaimEvaluator f) = pvc_MatchingResources"
      "ev_Usage (NewPersistentVolumeClaimEvaluator f) = pvc_Usage"
    by (simp_all add: NewPersistentVolumeClaimEvaluator_def Let_def)
  show "set (ev_MatchingResources (NewPersistentVolumeClaimEvaluator f) rs) = {r \<in> set rs. pvc_covers r}" for rs
    unfolding ev by (auto simp: pvc_MatchingResources_eq)
  have cov: "pvc_covers pvcObjectCountName" "pvc_covers ''persistentvolumeclaims'' " "pvc_covers ''requests.storage''"
      "pvc_covers (c @ storageClassSuffix @ ''persistentvolumeclaims'')"
      "pvc_covers (c @ storageClassSuffix @ ''requests.storage'')" for c
    by (auto simp: pvc_covers_def pvcResources_def suffix_def)
  fix obj u
  assume u: "ev_Usage (NewPersistentVolumeClaimEvaluator f) obj = Inr u"
  have "keys_in pvc_covers u"
    using u cov unfolding ev pvc_Usage_def Let_def
    by (cases "toExternalPersistentVolumeClaimOrError obj")
      (auto split: if_splits option.splits simp del: update.simps)
  then show "wf_map u" "k \<in> fst ` set u \<Longrightarrow> pvc_covers k" for k
    by (auto simp: keys_in_def)
qed

definition pod_covers :: "resource_name \<Rightarrow> bool" where
  "pod_covers r \<longleftrightarrow> r \<in> set podResources \<or> ContainsPrefix podResourcePrefixes r \<or> isExtendedResourceNameForQuota r"

lemma pod_MatchingResources_set: "set (pod_MatchingResources input) = {r \<in> set input. pod_covers r}"
proof -
  have "set (fold (\<lambda>resource result.
        let result = (if ContainsPrefix podResourcePrefixes resource then result @ [resource] else result)
        in if isExtendedResourceNameForQuota resource then result @ [resource] else result) xs acc)
      = set acc \<union> {r \<in> set xs. ContainsPrefix podResourcePrefixes r \<or> isExtendedResourceNameForQuota r}" for xs acc
    by (induction xs arbitrary: acc) (auto simp: Let_def)
  then show ?thesis by (auto simp: pod_MatchingResources_def pod_covers_def)
qed

lemma hugepages_covers:
  assumes "ContainsPrefix requestedResourcePrefixes r"
  shows "pod_covers r" "pod_covers (maskResourceWithPrefix r DefaultResourceRequestsPrefix)"
  using assms by (auto simp: pod_covers_def ContainsPrefix_def podResourcePrefixes_def
    requestedResourcePrefixes_def maskResourceWithPrefix_def prefix_def)

lemma podComputeUsageHelper_keys: "keys_in pod_covers (podComputeUsageHelper requests limits)"
proof -
  have names: "\<And>r. r \<in> set podResources \<Longrightarrow> pod_covers r" by (simp add: pod_covers_def)
  have ext: "\<And>r. IsExtendedResourceName r \<Longrightarrow> pod_covers (maskResourceWithPrefix r DefaultResourceRequestsPrefix)"
    using extended_for_quota by (simp add: pod_covers_def)
  show ?thesis
    unfolding podComputeUsageHelper_def Let_def
  proof (rule keys_in_fold)
    show "keys_in pod_covers (put_found limits ''ephemeral-storage'' [''limits.ephemeral-storage'']
       (put_found requests ''ephemeral-storage'' [''ephemeral-storage'', ''requests.ephemeral-storage'']
       (put_found limits ''memory'' [''limits.memory'']
       (put_found requests ''memory'' [''memory'', ''requests.memory'']
       (put_found limits ''cpu'' [''limits.cpu'']
       (put_found requests ''cpu'' [''cpu'', ''requests.cpu''] (put ''pods'' (NewQuantity 1) [])))))))"
      by (intro keys_in_put_found keys_in_put keys_in_Nil names) (auto simp: podResources_def)
  next
    fix x r
    assume "keys_in pod_covers r"
    then show "keys_in pod_covers (pod_prefixed_usage x r)"
      using hugepages_covers ext by (cases x) (auto simp: pod_prefixed_usage_def Let_def)
  qed
qed

lemma PodUsageFunc_keys:
  assumes "PodUsageFunc obj now = Inr u"
  shows "keys_in pod_covers u"
proof -
  have base: "keys_in pod_covers (put podObjectCountName (NewQuantity 1) [])"
    by (intro keys_in_put keys_in_Nil) (simp add: pod_covers_def podResources_def)
  show ?thesis
    using assms keys_in_Add [OF base podComputeUsageHelper_keys] base
    by (auto simp: PodUsageFunc_def Let_def simp del: update.simps split: sum.splits if_splits)
qed

lemma pod_law: "evaluator_law (NewPodEvaluator f now) pod_covers"
proof
  have ev: "ev_MatchingResources (NewPodEvaluator f now) = pod_MatchingResources"
      "ev_Usage (NewPodEvaluator f now) = (\<lambda>item. PodUsageFunc item now)"
    by (simp_all add: NewPodEvaluator_def Let_def)
  show "set (ev_MatchingResources (NewPodEvaluator f now) rs) = {r \<in> set rs. pod_covers r}" for rs
    unfolding ev by (rule pod_MatchingResources_set)
  fix obj u
  assume "ev_Usage (NewPodEvaluator f now) obj = Inr u"
  then have "keys_in pod_covers u" using PodUsageFunc_keys by (simp add: ev)
  then show "wf_map u" "k \<in> fst ` set u \<Longrightarrow> pod_covers k" for k
    by (auto simp: keys_in_def)
qed

interpretation count_ev: evaluator_law "NewObjectCountEvaluator gr lf al"
    "\<lambda>r. r \<in> set (ObjectCountQuotaResourceNameFor gr # (if length al > 0 then [al] else []))" for gr lf al
  by (rule objectCount_law)

interpretation service_ev: evaluator_law "NewServiceEvaluator f" "\<lambda>r. r \<in> set serviceResources" for f
  by (rule service_law)

interpretation pvc_ev: evaluator_law "NewPersistentVolumeClaimEvaluator f" pvc_covers for f
  by (rule pvc_law)

interpretation pod_ev: evaluator_law "NewPodEvaluator f now" pod_covers for f now
  by (rule pod_law)

section \<open>Pod usage\<close>

lemma map_of_put_found:
  "map_of (put_found r src ts m) q =
    (case map_of r src of Some v \<Rightarrow> if q \<in> set ts then Some v else map_of m q | None \<Rightarrow> map_of m q)"
proof -
  have "map_of (fold (\<lambda>t. put t v) ts m) q = (if q \<in> set ts then Some v else map_of m q)" for v
    by (induction ts arbitrary: m) (auto simp: map_of_put)
  then show ?thesis by (simp add: put_found_def split: option.splits)
qed

text \<open>A resource of a container that is neither a huge page nor an extended resource keeps its entry.\<close>

definition plain_name :: "resource_name \<Rightarrow> bool" where
  "plain_name q \<longleftrightarrow> CHR ''/'' \<notin> set q \<and> \<not> prefix ''hugepages-'' q \<and> \<not> prefix ''requests.hugepages-'' q"

lemma plain_ne:
  assumes "plain_name q"
  shows "ContainsPrefix requestedResourcePrefixes r \<Longrightarrow> q \<noteq> r \<and> q \<noteq> maskResourceWithPrefix r DefaultResourceRequestsPrefix"
    and "IsExtendedResourceName r \<Longrightarrow> q \<noteq> maskResourceWithPrefix r DefaultResourceRequestsPrefix"
proof -
  show "ContainsPrefix requestedResourcePrefixes r \<Longrightarrow> q \<noteq> r \<and> q \<noteq> maskResourceWithPrefix r DefaultResourceRequestsPrefix"
    using assms by (auto simp: plain_name_def ContainsPrefix_def requestedResourcePrefixes_def maskResourceWithPrefix_def)
  assume "IsExtendedResourceName r"
  then have "sublist ''/'' r"
    by (auto simp: IsExtendedResourceName_def IsNativeResource_def split: if_splits)
  then have "CHR ''/'' \<in> set r" by (simp add: sublist_singleton)
  then show "q \<noteq> maskResourceWithPrefix r DefaultResourceRequestsPrefix"
    using assms by (auto simp: plain_name_def maskResourceWithPrefix_def)
qed

lemma map_of_prefixed_skip:
  "plain_name q \<Longrightarrow> map_of (fold pod_prefixed_usage requests m) q = map_of m q"
proof (rule map_of_fold_other)
  show "plain_name q \<Longrightarrow> map_of (pod_prefixed_usage x r) q = map_of r q" for x r
    using plain_ne [of q] by (cases x) (auto simp: pod_prefixed_usage_def map_of_put Let_def)
qed

lemma plain_names [simp]:
  "plain_name ''requests.cpu''" "plain_name ''cpu''" "plain_name ''requests.memory''"
  "plain_name ''limits.cpu''" "plain_name ''limits.memory''" "plain_name ''pods''" "plain_name ''memory''"
  by (simp_all add: plain_name_def)

lemma map_of_helper:
  "map_of (podComputeUsageHelper requests limits) ''pods'' = Some (NewQuantity 1)"
  "map_of (podComputeUsageHelper requests limits) ''cpu'' = map_of requests ''cpu''"
  "map_of (podComputeUsageHelper requests limits) ''requests.cpu'' = map_of requests ''cpu''"
  "map_of (podComputeUsageHelper requests limits) ''memory'' = map_of requests ''memory''"
  "map_of (podComputeUsageHelper requests limits) ''requests.memory'' = map_of requests ''memory''"
  "map_of (podComputeUsageHelper requests limits) ''limits.cpu'' = map_of limits ''cpu''"
  "map_of (podComputeUsageHelper requests limits) ''limits.memory'' = map_of limits ''memory''"
  unfolding podComputeUsageHelper_def Let_def
  by (simp_all add: map_of_prefixed_skip map_of_put_found map_of_put del: update.simps split: option.split)

definition nonneg :: "resource_list \<Rightarrow> bool" where
  "nonneg m \<longleftrightarrow> (\<forall>(k, v) \<in> set m. 0 \<le> v)"

lemma nonneg_amount: "nonneg m \<Longrightarrow> 0 \<le> amount m k"
  by (auto simp: nonneg_def amount_def split: option.splits dest!: map_of_SomeD)

lemma nonneg_map_of: "wf_map m \<Longrightarrow> nonneg m \<longleftrightarrow> (\<forall>k v. map_of m k = Some v \<longrightarrow> 0 \<le> v)"
  unfolding nonneg_def by (auto simp: map_of_eq_Some_iff)

lemma nonneg_Add:
  assumes "wf_map a" "nonneg a" "nonneg b"
  shows "nonneg (Add_rl a b)"
proof -
  have "\<forall>k v. map_of b k = Some v \<longrightarrow> 0 \<le> v" using assms(3) by (auto simp: nonneg_def dest!: map_of_SomeD)
  then show ?thesis
    using assms(1,2) nonneg_map_of [OF wf_Add [of a b]] nonneg_map_of [OF assms(1)]
    by (auto simp: map_of_Add [OF assms(1)] split: option.splits)
qed

lemma nonneg_Max:
  assumes "wf_map a" "nonneg a" "nonneg b"
  shows "nonneg (Max_rl a b)"
proof -
  have "\<forall>k v. map_of b k = Some v \<longrightarrow> 0 \<le> v" using assms(3) by (auto simp: nonneg_def dest!: map_of_SomeD)
  then show ?thesis
    using assms(1,2) nonneg_map_of [OF wf_Max [of a b]] nonneg_map_of [OF assms(1)]
    by (fastforce simp: map_of_Max [OF assms(1)] split: option.splits)
qed

lemma amount_Max:
  assumes "wf_map a" "nonneg a" "nonneg b"
  shows "amount (Max_rl a b) k = max (amount a k) (amount b k)"
  using nonneg_amount [OF assms(2), of k] nonneg_amount [OF assms(3), of k]
  by (auto simp: amount_def map_of_Max [OF assms(1)] max_def split: option.splits)

lemma fold_Add_amount:
  assumes "wf_map acc" "nonneg acc" "\<And>c. c \<in> set cs \<Longrightarrow> nonneg (sel c)"
  shows "wf_map (fold (\<lambda>c acc. Add_rl acc (sel c)) cs acc) \<and> nonneg (fold (\<lambda>c acc. Add_rl acc (sel c)) cs acc)
    \<and> amount (fold (\<lambda>c acc. Add_rl acc (sel c)) cs acc) k = amount acc k + (\<Sum>c \<leftarrow> cs. amount (sel c) k)"
  using assms by (induction cs arbitrary: acc) (auto simp: nonneg_Add)

lemma fold_Max_amount:
  assumes "wf_map acc" "nonneg acc" "\<And>c. c \<in> set cs \<Longrightarrow> nonneg (sel c)"
  shows "amount (fold (\<lambda>c acc. Max_rl acc (sel c)) cs acc) k = fold max (map (\<lambda>c. amount (sel c) k) cs) (amount acc k)"
  using assms by (induction cs arbitrary: acc) (auto simp: nonneg_Max amount_Max max.commute)

lemma wf_pod_effective: "wf_map (pod_effective sel pod)"
proof -
  have add: "wf_map acc \<Longrightarrow> wf_map (fold (\<lambda>c acc. Add_rl acc (sel c)) cs acc)" for acc cs
    by (induction cs arbitrary: acc) auto
  have mx: "wf_map acc \<Longrightarrow> wf_map (fold (\<lambda>c acc. Max_rl acc (sel c)) cs acc)" for acc cs
    by (induction cs arbitrary: acc) auto
  show ?thesis unfolding pod_effective_def by (intro mx add) simp
qed

text \<open>The effective amount: the sum over the containers, raised to what any init container needs.\<close>

definition effective_amount :: "(container \<Rightarrow> resource_list) \<Rightarrow> pod \<Rightarrow> resource_name \<Rightarrow> quantity" where
  "effective_amount sel pod k =
    fold max (map (\<lambda>c. amount (sel c) k) (pod_initContainers pod)) (\<Sum>c \<leftarrow> pod_containers pod. amount (sel c) k)"

definition nonneg_pod :: "pod \<Rightarrow> bool" where
  "nonneg_pod pod \<longleftrightarrow> list_all (\<lambda>c. nonneg (c_requests c) \<and> nonneg (c_limits c)) (pod_containers pod @ pod_initContainers pod)"

lemma amount_pod_effective:
  assumes "\<And>c. c \<in> set (pod_containers pod @ pod_initContainers pod) \<Longrightarrow> nonneg (sel c)"
  shows "amount (pod_effective sel pod) k = effective_amount sel pod k"
proof -
  have f: "wf_map (fold (\<lambda>c acc. Add_rl acc (sel c)) (pod_containers pod) [])"
    "nonneg (fold (\<lambda>c acc. Add_rl acc (sel c)) (pod_containers pod) [])"
    "amount (fold (\<lambda>c acc. Add_rl acc (sel c)) (pod_containers pod) []) k = (\<Sum>c \<leftarrow> pod_containers pod. amount (sel c) k)"
    using fold_Add_amount [of "[]" "pod_containers pod" sel k] assms by (auto simp: nonneg_def)
  show ?thesis
    unfolding pod_effective_def effective_amount_def
    using fold_Max_amount [OF f(1,2), of "pod_initContainers pod" sel k] assms f(3) by auto
qed

lemma amount_PodUsage:
  assumes "PodUsageFunc (PodObj pod) now = Inr u" "QuotaV1Pod pod now" "plain_name q" "q \<noteq> podObjectCountName"
  shows "amount u q = amount (podComputeUsageHelper (pod_effective c_requests pod) (pod_effective c_limits pod)) q"
proof -
  have "u = Add_rl (put podObjectCountName (NewQuantity 1) [])
      (podComputeUsageHelper (pod_effective c_requests pod) (pod_effective c_limits pod))"
    using assms(1,2) by (simp add: PodUsageFunc_def toExternalPodOrError_def Let_def)
  moreover have "wf_map (put podObjectCountName (NewQuantity 1) [])" by simp
  moreover have "amount (put podObjectCountName (NewQuantity 1) []) q = 0"
    using assms(4) by (simp add: amount_def)
  ultimately show ?thesis by (simp del: update.simps)
qed

text \<open>A pod that is not at its end of life is charged, for cpu and memory requests and
  limits, the sum over its containers, or more if one of its init containers alone needs more; it is charged
  one pod.\<close>

lemma PodUsage_effective:
  assumes "PodUsageFunc (PodObj pod) now = Inr u" "QuotaV1Pod pod now" "nonneg_pod pod"
  shows "amount u ''requests.cpu'' = effective_amount c_requests pod ''cpu''
    \<and> amount u ''cpu'' = effective_amount c_requests pod ''cpu''
    \<and> amount u ''requests.memory'' = effective_amount c_requests pod ''memory''
    \<and> amount u ''limits.cpu'' = effective_amount c_limits pod ''cpu''
    \<and> amount u ''limits.memory'' = effective_amount c_limits pod ''memory''
    \<and> amount u ''pods'' = NewQuantity 1"
proof -
  have ne: "''requests.cpu'' \<noteq> podObjectCountName" "''cpu'' \<noteq> podObjectCountName"
      "''requests.memory'' \<noteq> podObjectCountName" "''limits.cpu'' \<noteq> podObjectCountName"
      "''limits.memory'' \<noteq> podObjectCountName" "''pods'' \<noteq> podObjectCountName"
    by (simp_all add: podObjectCountName_def ObjectCountQuotaResourceNameFor_def core_resource_def)
  have eff: "amount (pod_effective c_requests pod) k = effective_amount c_requests pod k"
      "amount (pod_effective c_limits pod) k = effective_amount c_limits pod k" for k
    using assms(3) by (auto intro!: amount_pod_effective simp: nonneg_pod_def list_all_iff)
  show ?thesis
    using ne
    by (simp add: amount_PodUsage [OF assms(1,2)] amount_def [of "podComputeUsageHelper _ _"] map_of_helper
      eff [symmetric] flip: amount_def)
qed

definition ex_container :: "int \<Rightarrow> int \<Rightarrow> container" where
  "ex_container c m = \<lparr>c_requests = [(''cpu'', c), (''memory'', m)], c_limits = [(''cpu'', c), (''memory'', m)]\<rparr>"

definition ex_pod :: pod where
  "ex_pod = \<lparr>pod_meta = empty_meta, pod_containers = [ex_container 3 10, ex_container 4 20],
     pod_initContainers = [ex_container 9 1], pod_activeDeadlineSeconds = None,
     pod_priorityClassName = [], pod_phase = ''Running''\<rparr>"

theorem PodUsage_effective_witness:
  "\<exists>u. PodUsageFunc (PodObj ex_pod) 0 = Inr u \<and> amount u ''requests.cpu'' = 9 \<and> amount u ''limits.memory'' = 30"
proof -
  have q: "QuotaV1Pod ex_pod 0" by (simp add: QuotaV1Pod_def ex_pod_def empty_meta_def)
  obtain u where u: "PodUsageFunc (PodObj ex_pod) 0 = Inr u"
    using q by (simp add: PodUsageFunc_def toExternalPodOrError_def Let_def)
  have nn: "nonneg_pod ex_pod" by (simp add: nonneg_pod_def nonneg_def ex_pod_def ex_container_def)
  show ?thesis
    using PodUsage_effective [OF u q nn] u
    by (simp add: effective_amount_def ex_pod_def ex_container_def amount_def)
qed

text \<open>A pod that failed or succeeded, or whose deletion grace period is over, is charged
  nothing but its object count.\<close>

lemma PodUsage_terminal:
  assumes "pod_phase pod = ''Failed'' \<or> pod_phase pod = ''Succeeded''
    \<or> (\<exists>t g. om_deletionTimestamp (pod_meta pod) = Some t \<and> om_deletionGracePeriodSeconds (pod_meta pod) = Some g
         \<and> t + wrap64 (g * 10 ^ 9) < now)"
  shows "PodUsageFunc (PodObj pod) now = Inr [(''count/pods'', NewQuantity 1)]"
proof -
  have "\<not> QuotaV1Pod pod now" using assms by (auto simp: QuotaV1Pod_def)
  then show ?thesis
    by (simp add: PodUsageFunc_def toExternalPodOrError_def podObjectCountName_def
      ObjectCountQuotaResourceNameFor_def core_resource_def)
qed

theorem PodUsage_terminal_witness:
  "PodUsageFunc (PodObj (ex_pod\<lparr>pod_phase := ''Failed''\<rparr>)) 0 = Inr [(''count/pods'', NewQuantity 1)]"
  by (rule PodUsage_terminal) simp

lemma NewEvaluators_kinds:
  "set (NewEvaluators order f now) \<subseteq>
      {NewPodEvaluator f now, NewServiceEvaluator f, NewPersistentVolumeClaimEvaluator f}
      \<union> range (\<lambda>(gr, lf, al). NewObjectCountEvaluator gr lf al)"
proof -
  have "set (fold (\<lambda>(gr, al) result. result @ [NewObjectCountEvaluator gr (ListResourceUsingListerFunc f gr) al]) xs acc)
      \<subseteq> set acc \<union> range (\<lambda>(gr, lf, al). NewObjectCountEvaluator gr lf al)" for xs acc
    by (induction xs arbitrary: acc) (fastforce simp: image_iff)+
  then show ?thesis
    unfolding NewEvaluators_def Let_def by (rule subset_trans) simp
qed

text \<open>C12. Whatever object one of the static evaluators charges, each resource in the charge is
  selected by that evaluator's \<open>MatchingResources\<close>, and \<open>MatchingResources\<close> never names a
  resource it was not given; so no charge can escape the comparison with the quotas.\<close>

theorem evaluators_cover_usage:
  assumes "mset (order legacyObjectCountAliases) = mset legacyObjectCountAliases"
    and "ev \<in> set (NewEvaluators order f now)"
  shows "set (ev_MatchingResources ev rs) \<subseteq> set rs \<and>
    (ev_Usage ev obj = Inr u \<and> k \<in> set (ResourceNames u) \<longrightarrow> k \<in> set (ev_MatchingResources ev (ResourceNames u)))"
proof -
  have "ev \<in> {NewPodEvaluator f now, NewServiceEvaluator f, NewPersistentVolumeClaimEvaluator f}
      \<union> range (\<lambda>(gr, lf, al). NewObjectCountEvaluator gr lf al)"
    by (rule subsetD [OF NewEvaluators_kinds assms(2)])
  then consider "ev = NewPodEvaluator f now" | "ev = NewServiceEvaluator f" | "ev = NewPersistentVolumeClaimEvaluator f"
    | gr lf al where "ev = NewObjectCountEvaluator gr lf al"
    by auto
  then show ?thesis
    by cases (auto simp: ResourceNames_set
      dest: pod_ev.usage_matched service_ev.usage_matched pvc_ev.usage_matched count_ev.usage_matched
        pod_ev.matching_subset [THEN subsetD] service_ev.matching_subset [THEN subsetD]
        pvc_ev.matching_subset [THEN subsetD] count_ev.matching_subset [THEN subsetD])
qed

definition ex_service :: service where
  "ex_service = \<lparr>svc_meta = empty_meta, svc_ports = 1, svc_type = ''ClusterIP''\<rparr>"

definition ex_service_usage :: resource_list where
  "ex_service_usage = [(''count/services'', NewQuantity 1), (''services'', NewQuantity 1),
     (''services.loadbalancers'', 0), (''services.nodeports'', 0)]"

lemma ex_service_usage: "service_Usage (ServiceObj ex_service) = Inr ex_service_usage"
  by (simp add: service_Usage_def toExternalServiceOrError_def serviceObjectCountName_def ex_service_usage_def
    ObjectCountQuotaResourceNameFor_def core_resource_def Let_def ex_service_def)

theorem evaluators_cover_usage_witness:
  "''services'' \<in> set (service_MatchingResources (ResourceNames ex_service_usage))"
proof -
  have ev: "NewServiceEvaluator (\<lambda>_. Inl (OtherErr [])) \<in> set (NewEvaluators id (\<lambda>_. Inl (OtherErr [])) 0)"
    by (simp add: NewEvaluators_def legacyObjectCountAliases_def)
  have us: "ev_Usage (NewServiceEvaluator (\<lambda>_. Inl (OtherErr []))) (ServiceObj ex_service) = Inr ex_service_usage"
    by (simp add: NewServiceEvaluator_def Let_def ex_service_usage)
  have k: "''services'' \<in> set (ResourceNames ex_service_usage)"
    by (simp add: ResourceNames_def ex_service_usage_def)
  show ?thesis
    using evaluators_cover_usage [OF _ ev, of "[]" "ServiceObj ex_service" ex_service_usage "''services''"] us k
    by (simp add: NewServiceEvaluator_def Let_def)
qed

section \<open>Constraints, quality of service, services and aggregation\<close>

text \<open>What a container has to specify for a required resource.\<close>

definition specifies :: "container \<Rightarrow> resource_name \<Rightarrow> bool" where
  "specifies c r \<longleftrightarrow>
    (if r = ''cpu'' \<or> r = ''requests.cpu'' then has_key (c_requests c) ''cpu''
     else if r = ''memory'' \<or> r = ''requests.memory'' then has_key (c_requests c) ''memory''
     else if r = ''limits.cpu'' then has_key (c_limits c) ''cpu''
     else if r = ''limits.memory'' then has_key (c_limits c) ''memory'' else False)"

lemma specifies_iff:
  "r \<in> validationSet \<Longrightarrow>
   r \<in> set (ResourceNames (podComputeUsageHelper (c_requests c) (c_limits c))) \<longleftrightarrow> specifies c r"
  unfolding ResourceNames_set map_of_conv_key [symmetric]
  by (auto simp: validationSet_def specifies_def map_of_helper)

lemma enforce_fold:
  "fold (\<lambda>c. enforcePodContainerConstraints c R) cs M =
    M \<union> (\<Union>c \<in> set cs. R - set (ResourceNames (podComputeUsageHelper (c_requests c) (c_limits c))))"
  by (induction cs arbitrary: M) (auto simp: enforcePodContainerConstraints_def Let_def)

text \<open>A pod passes the pod constraints exactly when each of its containers and init
  containers specifies every cpu or memory resource that the quotas require.\<close>

lemma pod_Constraints_iff:
  "pod_Constraints required (PodObj pod) = None \<longleftrightarrow>
    (\<forall>c \<in> set (pod_containers pod @ pod_initContainers pod). \<forall>r \<in> set required \<inter> validationSet. specifies c r)"
proof -
  have "pod_Constraints required (PodObj pod) = None \<longleftrightarrow>
     (\<Union>c \<in> set (pod_containers pod @ pod_initContainers pod). set required \<inter> validationSet
        - set (ResourceNames (podComputeUsageHelper (c_requests c) (c_limits c)))) = {}"
    by (simp add: pod_Constraints_def toExternalPodOrError_def Let_def enforce_fold) blast
  then show ?thesis using specifies_iff by blast
qed

theorem pod_Constraints_iff_witness:
  "pod_Constraints [''requests.cpu'', ''pods''] (PodObj ex_pod) = None"
  unfolding pod_Constraints_iff
  by (simp add: ex_pod_def ex_container_def validationSet_def specifies_def)

definition has_positive :: "resource_list \<Rightarrow> bool" where
  "has_positive m \<longleftrightarrow> (\<exists>(n, q) \<in> set m. isSupportedQoSComputeResource n \<and> 0 < q)"

lemma qos_add_Nil: "qos_add from acc = [] \<longleftrightarrow> acc = [] \<and> \<not> has_positive from"
proof -
  have ne: "put k v m \<noteq> []" for k v and m :: resource_list by (cases m) auto
  show ?thesis
  proof (induction "from" arbitrary: acc)
    case (Cons x xs)
    obtain n q where x: "x = (n, q)" by force
    have step: "qos_add (x # xs) acc = qos_add xs
        (if isSupportedQoSComputeResource n \<and> 0 < q
         then put n (case map_of acc n of None \<Rightarrow> q | Some old \<Rightarrow> q + old) acc else acc)"
      by (auto simp: qos_add_def x split: option.splits)
    show ?case
      unfolding step Cons.IH using ne by (auto simp: has_positive_def x)
  qed (simp add: qos_add_def has_positive_def)
qed

lemma qos_limits_found_set:
  "qos_limits_found limits = {n. isSupportedQoSComputeResource n \<and> (\<exists>q. (n, q) \<in> set limits \<and> 0 < q)}"
proof -
  have "fold (\<lambda>(name, quantity) found.
        if \<not> isSupportedQoSComputeResource name then found
        else if QCmp quantity 0 = 1 then insert name found else found) limits F
      = F \<union> {n. isSupportedQoSComputeResource n \<and> (\<exists>q. (n, q) \<in> set limits \<and> 0 < q)}" for F
    by (induction limits arbitrary: F) (auto split: if_splits)
  then show ?thesis by (simp add: qos_limits_found_def)
qed

lemma qos_fold:
  "fold (\<lambda>container (requests, limits, isGuaranteed).
      (qos_add (c_requests container) requests, qos_add (c_limits container) limits,
       if \<not> ({''memory'', ''cpu''} \<subseteq> qos_limits_found (c_limits container)) then False else isGuaranteed)) cs (rq, lm, g)
    = (rq', lm', g') \<Longrightarrow>
   (rq' = [] \<longleftrightarrow> rq = [] \<and> (\<forall>c \<in> set cs. \<not> has_positive (c_requests c)))
   \<and> (lm' = [] \<longleftrightarrow> lm = [] \<and> (\<forall>c \<in> set cs. \<not> has_positive (c_limits c)))
   \<and> (g' \<longleftrightarrow> g \<and> (\<forall>c \<in> set cs. {''memory'', ''cpu''} \<subseteq> qos_limits_found (c_limits c)))"
proof (induction cs arbitrary: rq lm g)
  case (Cons c cs)
  show ?case
    using Cons.IH [of "qos_add (c_requests c) rq" "qos_add (c_limits c) lm"
        "if \<not> ({''memory'', ''cpu''} \<subseteq> qos_limits_found (c_limits c)) then False else g"] Cons.prems
    by (auto simp: qos_add_Nil split: if_splits)
qed auto

text \<open>A pod is best effort exactly when no container or init container has a positive cpu
  or memory request or limit, and it is guaranteed only if each of them has positive cpu and memory
  limits.\<close>

lemma GetPodQOS_spec:
  "(GetPodQOS pod = PodQOSBestEffort \<longleftrightarrow>
      (\<forall>c \<in> set (pod_containers pod @ pod_initContainers pod). \<not> has_positive (c_requests c) \<and> \<not> has_positive (c_limits c)))
   \<and> (GetPodQOS pod = PodQOSGuaranteed \<longrightarrow>
      (\<forall>c \<in> set (pod_containers pod @ pod_initContainers pod). \<forall>n \<in> {''cpu'', ''memory''}.
         \<exists>q > 0. (n, q) \<in> set (c_limits c)))"
proof -
  define cs where "cs = pod_containers pod @ pod_initContainers pod"
  obtain rq lm g where f: "qos_totals cs = (rq, lm, g)" by (metis prod_cases3)
  note q = qos_fold [OF f [unfolded qos_totals_def]]
  have eq: "GetPodQOS pod =
      (if length rq = 0 \<and> length lm = 0 then PodQOSBestEffort
       else let g = (if g then list_all (\<lambda>(name, req). case map_of lm name of
                    None \<Rightarrow> False | Some lim \<Rightarrow> \<not> (QCmp lim req \<noteq> 0)) rq else g)
            in if g \<and> length rq = length lm then PodQOSGuaranteed else PodQOSBurstable)"
    unfolding GetPodQOS_def f [unfolded cs_def] prod.case ..
  have "GetPodQOS pod = PodQOSBestEffort \<longleftrightarrow> rq = [] \<and> lm = []"
    unfolding eq by (simp add: Let_def)
  moreover have "GetPodQOS pod = PodQOSGuaranteed \<Longrightarrow> g"
    unfolding eq by (auto simp: Let_def split: if_splits)
  moreover have "\<forall>c \<in> set cs. \<forall>n \<in> {''cpu'', ''memory''}. \<exists>q > 0. (n, q) \<in> set (c_limits c)" if g
  proof (intro ballI)
    fix c n assume "c \<in> set cs" "n \<in> {''cpu'', ''memory''}"
    then have "n \<in> qos_limits_found (c_limits c)" using q that by blast
    then show "\<exists>q > 0. (n, q) \<in> set (c_limits c)" unfolding qos_limits_found_set by blast
  qed
  ultimately show ?thesis
    using q unfolding cs_def [symmetric] by blast
qed

theorem GetPodQOS_spec_witness: "GetPodQOS (ex_pod\<lparr>pod_containers := [], pod_initContainers := []\<rparr>) = PodQOSBestEffort"
  using GetPodQOS_spec [of "ex_pod\<lparr>pod_containers := [], pod_initContainers := []\<rparr>"] by simp

text \<open>A service is charged one service object; its node ports count for the types NodePort
  and LoadBalancer only, and it is charged a load balancer exactly for the latter.\<close>

lemma service_Usage_spec:
  "\<exists>u. service_Usage (ServiceObj svc) = Inr u
    \<and> map_of u ''services'' = Some (NewQuantity 1) \<and> map_of u ''count/services'' = Some (NewQuantity 1)
    \<and> map_of u ''services.nodeports'' = Some (if svc_type svc \<in> {''NodePort'', ''LoadBalancer''} then NewQuantity (int (svc_ports svc)) else 0)
    \<and> map_of u ''services.loadbalancers'' = Some (if svc_type svc = ''LoadBalancer'' then NewQuantity 1 else 0)"
  by (simp add: service_Usage_def toExternalServiceOrError_def serviceObjectCountName_def
    ObjectCountQuotaResourceNameFor_def core_resource_def Let_def)

text \<open>When listing succeeds and no object fails, the usage an evaluator measures is, for
  every resource, the sum of the usage of the objects which match all scopes of the quota, and every tracked
  resource is present, with zero if nothing uses it.\<close>

lemma CalculateUsageStats_sums:
  assumes "listFunc (uso_Namespace options) = Inr items"
    and "\<And>item s. item \<in> set items \<Longrightarrow> \<not> isl (scopeFunc s item)"
    and "\<And>item. item \<in> set items \<Longrightarrow> \<not> isl (usageFunc item)"
  shows "\<exists>used. CalculateUsageStats options listFunc scopeFunc usageFunc = (used, None) \<and>
    (\<forall>k. amount used k = (\<Sum>item \<leftarrow> items. if item_matches options scopeFunc item
          then (case usageFunc item of Inl _ \<Rightarrow> 0 | Inr u \<Rightarrow> amount u k) else 0))"
proof -
  define zeroes where "zeroes = fold (\<lambda>r. put r (0::quantity)) (uso_Resources options) []"
  have wf: "wf_map zeroes" by (simp add: zeroes_def wf_zeroes)
  have am: "amount zeroes k = 0" for k by (simp add: zeroes_def amount_zeroes)
  show ?thesis
    using usage_stats_items_sum [where options = options and items = items and scopeFunc = scopeFunc
      and usageFunc = usageFunc and used = zeroes] assms wf am
    by (auto simp: CalculateUsageStats_def Let_def simp flip: zeroes_def)
qed

theorem CalculateUsageStats_sums_witness:
  "\<exists>used. CalculateUsageStats (stats_options ''ns'' [] None [''services'']) (\<lambda>_. Inr [ServiceObj ex_service, ServiceObj ex_service])
      (\<lambda>_ _. Inr True) service_Usage = (used, None) \<and> amount used ''services'' = 2 * 10 ^ 9"
proof -
  obtain used where u: "CalculateUsageStats (stats_options ''ns'' [] None [''services'']) (\<lambda>_. Inr [ServiceObj ex_service, ServiceObj ex_service])
      (\<lambda>_ _. Inr True) service_Usage = (used, None)"
    and am: "\<forall>k. amount used k = (\<Sum>item \<leftarrow> [ServiceObj ex_service, ServiceObj ex_service].
       if item_matches (stats_options ''ns'' [] None [''services'']) (\<lambda>_ _. Inr True) item
       then (case service_Usage item of Inl _ \<Rightarrow> 0 | Inr u \<Rightarrow> amount u k) else 0)"
    using CalculateUsageStats_sums [where listFunc = "\<lambda>_. Inr [ServiceObj ex_service, ServiceObj ex_service]"
      and options = "stats_options ''ns'' [] None [''services'']" and scopeFunc = "\<lambda>_ _. Inr True" and usageFunc = service_Usage]
    by (auto simp: ex_service_usage)
  have "amount used ''services'' = 2 * 10 ^ 9"
    using am by (simp add: item_matches_def stats_options_def ex_service_usage ex_service_usage_def amount_def NewQuantity_def)
  then show ?thesis using u by blast
qed

text \<open>Witnesses of the properties of \<open>CalculateUsage\<close>, on registries of these evaluators.\<close>

definition ex_count_evaluator :: evaluator where
  "ex_count_evaluator = NewObjectCountEvaluator (core_resource ''secrets'') (\<lambda>_. Inr [MetaObj empty_meta]) ''secrets''"

theorem CalculateUsage_sums_witness:
  "\<exists>usage. CalculateUsage ''ns'' [] [(''secrets'', 5), (''cpu'', 1)] (NewRegistry [ex_count_evaluator]) None = (usage, None)
     \<and> map_of usage ''cpu'' = None"
proof -
  have li: "Registry_List (NewRegistry [ex_count_evaluator]) = [ex_count_evaluator]"
    by (simp add: NewRegistry_def Registry_List_def)
  have ok: "\<not> isl (ev_UsageStats ex_count_evaluator opts)" for opts
    by (auto simp: ex_count_evaluator_def NewObjectCountEvaluator_def Let_def stats_result_def
      CalculateUsageStats_def isl_def objectCount_Usage_def MatchesNoScopeFunc_def split: option.splits sum.splits)
  have mr: "ev_MatchingResources ex_count_evaluator = objectCount_MatchingResources [''count/secrets'', ''secrets'']"
    by (simp add: ex_count_evaluator_def NewObjectCountEvaluator_def Let_def ObjectCountQuotaResourceNameFor_def core_resource_def)
  obtain usage where u: "CalculateUsage ''ns'' [] [(''secrets'', 5), (''cpu'', 1)] (NewRegistry [ex_count_evaluator]) None = (usage, None)"
    and k: "map_of usage ''cpu'' \<noteq> None \<longrightarrow>
      ''cpu'' \<in> set (Intersection (ResourceNames [(''secrets'', 5), (''cpu'', 1)])
           (concat (map (\<lambda>ev. ev_MatchingResources ev (ResourceNames [(''secrets'', 5), (''cpu'', 1)])) [ex_count_evaluator])))"
    using CalculateUsage_sums [of "NewRegistry [ex_count_evaluator]" "''ns''" "[]" "[(''secrets'', 5), (''cpu'', 1)]" None] ok
    unfolding li Let_def by fastforce
  have "''cpu'' \<notin> set (Intersection (ResourceNames [(''secrets'', 5), (''cpu'', 1)])
           (concat (map (\<lambda>ev. ev_MatchingResources ev (ResourceNames [(''secrets'', 5), (''cpu'', 1)])) [ex_count_evaluator])))"
    by (simp add: mr objectCount_MatchingResources_def)
  then have "map_of usage ''cpu'' = None" using k by argo
  then show ?thesis using u by blast
qed

theorem CalculateUsage_excludes_failed_witness:
  "map_of (fst (CalculateUsage ''ns'' [] [(''services'', 5)] (NewRegistry [NewServiceEvaluator (\<lambda>_. Inl (OtherErr ''down''))]) None)) ''services'' = None"
proof (rule CalculateUsage_excludes_failed [where ev = "NewServiceEvaluator (\<lambda>_. Inl (OtherErr ''down''))"
    and covers = "\<lambda>r. r \<in> set serviceResources"])
  show "NewServiceEvaluator (\<lambda>_. Inl (OtherErr ''down'')) \<in> set (Registry_List (NewRegistry [NewServiceEvaluator (\<lambda>_. Inl (OtherErr ''down''))]))"
    by (simp add: NewRegistry_def Registry_List_def)
  show "isl (ev_UsageStats (NewServiceEvaluator (\<lambda>_. Inl (OtherErr ''down''))) opts)" for opts
    by (simp add: NewServiceEvaluator_def Let_def stats_result_def CalculateUsageStats_def ListResourceUsingListerFunc_def)
qed (rule service_ev.matching, simp add: serviceResources_def)

end
