(* ===== verification/QuotaAdmission.thy ===== *)
theory QuotaAdmission
  imports PodEvaluator
begin

text \<open>
  The admission decision of the quota system
  (\<open>kube/plugin/pkg/admission/resourcequota/controller.go\<close>): what a request is charged
  against the quotas of its namespace (\<open>CheckRequest\<close>), and the evaluation of a batch of
  waiting requests with optimistic updates and retries (\<open>checkQuotas\<close>). The accessor of the quota
  documents is an interface with state. Error messages name the quota and resources but leave out the
  formatted quantities.
\<close>

section \<open>Configuration\<close>

record limited_resource =
  li_APIGroup :: string
  li_Resource :: string
  li_MatchContains :: "string list"
  li_MatchScopes :: "scope_req list"

definition filterLimitedResourcesByGroupResource ::
  "limited_resource list \<Rightarrow> group_resource \<Rightarrow> limited_resource list"
where
  "filterLimitedResourcesByGroupResource input groupResource =
    fold (\<lambda>limitedResource result.
        let limitedGroupResource = \<lparr>gr_group = li_APIGroup limitedResource, gr_resource = li_Resource limitedResource\<rparr>
        in if limitedGroupResource = groupResource then result @ [limitedResource] else result) input []"

definition limitedByDefault :: "resource_list \<Rightarrow> limited_resource list \<Rightarrow> resource_name list" where
  "limitedByDefault usage limitedResources =
    fold (\<lambda>limitedResource result.
        fold (\<lambda>(k, v) result.
            if v > 0 then
              (if list_ex (\<lambda>matchContain. StrContains k matchContain) (li_MatchContains limitedResource)
               then result @ [k] else result)
            else result) usage result)
      limitedResources []"

fun getMatchedLimitedScopes ::
  "evaluator \<Rightarrow> runtime_object \<Rightarrow> limited_resource list \<Rightarrow> scope_req list \<Rightarrow> gerror + scope_req list"
where
  "getMatchedLimitedScopes evaluator inputObject [] scopes = Inr scopes"
| "getMatchedLimitedScopes evaluator inputObject (limitedResource # limitedResources) scopes =
     (case ev_MatchingScopes evaluator inputObject (li_MatchScopes limitedResource) of
        Inl err \<Rightarrow> Inl err
      | Inr matched \<Rightarrow> getMatchedLimitedScopes evaluator inputObject limitedResources (scopes @ matched))"

definition hasUsageStats :: "resource_quota \<Rightarrow> resource_name list \<Rightarrow> bool" where
  "hasUsageStats resourceQuota interestingResources =
    (let interestingSet = ToSet interestingResources
     in list_all (\<lambda>(resourceName, _).
          if resourceName \<notin> interestingSet then True
          else has_key (the_rl (st_used (rq_status resourceQuota))) resourceName)
        (the_rl (st_hard (rq_status resourceQuota))))"

definition prettyPrintResourceNames :: "resource_name list \<Rightarrow> string" where
  "prettyPrintResourceNames a = Join (sort a) '',''"

section \<open>Metadata of objects\<close>

fun object_meta :: "runtime_object \<Rightarrow> obj_meta option" where
  "object_meta (PodObj p) = Some (pod_meta p)"
| "object_meta (ServiceObj s) = Some (svc_meta s)"
| "object_meta (PvcObj p) = Some (pvc_meta p)"
| "object_meta (MetaObj m) = Some m"
| "object_meta (OtherObj _) = None"

fun set_object_namespace :: "string \<Rightarrow> runtime_object \<Rightarrow> runtime_object" where
  "set_object_namespace ns (PodObj p) = PodObj (p\<lparr>pod_meta := (pod_meta p)\<lparr>om_namespace := ns\<rparr>\<rparr>)"
| "set_object_namespace ns (ServiceObj s) = ServiceObj (s\<lparr>svc_meta := (svc_meta s)\<lparr>om_namespace := ns\<rparr>\<rparr>)"
| "set_object_namespace ns (PvcObj p) = PvcObj (p\<lparr>pvc_meta := (pvc_meta p)\<lparr>om_namespace := ns\<rparr>\<rparr>)"
| "set_object_namespace ns (MetaObj m) = MetaObj (m\<lparr>om_namespace := ns\<rparr>)"
| "set_object_namespace ns (OtherObj t) = OtherObj t"

definition default_namespace :: "string \<Rightarrow> runtime_object \<Rightarrow> runtime_object" where
  "default_namespace namespace inputObject =
    (case object_meta inputObject of
       Some m \<Rightarrow> if namespace \<noteq> [] \<and> om_namespace m = [] then set_object_namespace namespace inputObject else inputObject
     | None \<Rightarrow> inputObject)"

section \<open>Checking a request\<close>

definition hard_of :: "resource_quota \<Rightarrow> resource_list" where
  "hard_of q = the_rl (st_hard (rq_status q))"

definition used_of :: "resource_quota \<Rightarrow> resource_list" where
  "used_of q = the_rl (st_used (rq_status q))"

definition set_used :: "resource_list \<Rightarrow> resource_quota \<Rightarrow> resource_quota" where
  "set_used u q = q\<lparr>rq_status := (rq_status q)\<lparr>st_used := Some u\<rparr>\<rparr>"

text \<open>
  The first loop of \<open>CheckRequest\<close>: which quotas are pertinent (their positions), the resources
  they restrict and the scopes they cover.
\<close>

fun find_interesting ::
  "evaluator \<Rightarrow> runtime_object \<Rightarrow> nat \<Rightarrow> resource_quota list \<Rightarrow> nat list \<Rightarrow> string_set \<Rightarrow> scope_req list \<Rightarrow>
   gerror + nat list \<times> string_set \<times> scope_req list"
where
  "find_interesting evaluator inputObject i [] indexes restricted scopes = Inr (indexes, restricted, scopes)"
| "find_interesting evaluator inputObject i (resourceQuota # quotas) indexes restricted scopes =
     (case ev_MatchingScopes evaluator inputObject (getScopeSelectorsFromQuota resourceQuota) of
        Inl err \<Rightarrow> Inl (OtherErr (''error matching scopes of quota '' @ om_name (rq_meta resourceQuota)))
      | Inr localRestrictedScopes \<Rightarrow>
          (case ev_Matches evaluator (Some resourceQuota) inputObject of
             Inl err \<Rightarrow> Inl err
           | Inr match \<Rightarrow>
               if \<not> match then
                 find_interesting evaluator inputObject (Suc i) quotas indexes restricted (scopes @ localRestrictedScopes)
               else
                 let restrictedResources = ev_MatchingResources evaluator (ResourceNames (hard_of resourceQuota))
                 in case ev_Constraints evaluator restrictedResources inputObject of
                      Some err \<Rightarrow> Inl (ForbiddenErr (''failed quota: '' @ om_name (rq_meta resourceQuota)))
                    | None \<Rightarrow>
                        if \<not> hasUsageStats resourceQuota restrictedResources then
                          Inl (ForbiddenErr (''status unknown for quota: '' @ om_name (rq_meta resourceQuota)
                            @ '', resources: '' @ prettyPrintResourceNames restrictedResources))
                        else
                          find_interesting evaluator inputObject (Suc i) quotas (indexes @ [i])
                            (restricted \<union> ToSet restrictedResources) (scopes @ localRestrictedScopes)))"

text \<open>The charge: the usage of the object, on updates only what exceeds the usage of the old object.\<close>

definition request_delta :: "evaluator \<Rightarrow> attributes \<Rightarrow> runtime_object \<Rightarrow> gerror + resource_list" where
  "request_delta evaluator a inputObject =
    (case ev_Usage evaluator inputObject of
       Inl err \<Rightarrow> Inl err
     | Inr deltaUsage \<Rightarrow>
         if length (IsNegative deltaUsage) > 0 then
           Inl (ForbiddenErr (''quota usage is negative for resource(s): '' @ prettyPrintResourceNames (IsNegative deltaUsage)))
         else if UpdateOp = at_operation a then
           (case at_oldObject a of
              None \<Rightarrow> Inl (ForbiddenErr ''unable to get previous usage since prior version of object was not found'')
            | Some prevItem \<Rightarrow>
                if (case object_meta prevItem of Some m \<Rightarrow> length (om_resourceVersion m) > 0 | None \<Rightarrow> False) then
                  (case ev_Usage evaluator prevItem of
                     Inl innerErr \<Rightarrow> Inl innerErr
                   | Inr prevUsage \<Rightarrow> Inr (SubtractWithNonNegativeResult deltaUsage prevUsage))
                else Inr deltaUsage)
         else Inr deltaUsage)"

text \<open>The last loop: charge the pertinent quotas, one after the other.\<close>

fun charge_quotas :: "resource_list \<Rightarrow> nat list \<Rightarrow> resource_quota list \<Rightarrow> gerror + resource_quota list" where
  "charge_quotas deltaUsage [] outQuotas = Inr outQuotas"
| "charge_quotas deltaUsage (index # indexes) outQuotas =
     (let resourceQuota = outQuotas ! index;
          hardResources = ResourceNames (hard_of resourceQuota);
          requestedUsage = Mask_rl deltaUsage hardResources;
          newUsage = Add_rl (used_of resourceQuota) requestedUsage;
          maskedNewUsage = Mask_rl newUsage (ResourceNames requestedUsage);
          (allowed, exceeded) = LessThanOrEqual maskedNewUsage (hard_of resourceQuota)
      in if \<not> allowed then
           Inl (ForbiddenErr (''exceeded quota: '' @ om_name (rq_meta resourceQuota) @ '', resources: ''
             @ prettyPrintResourceNames exceeded))
         else charge_quotas deltaUsage indexes (outQuotas[index := set_used newUsage resourceQuota]))"

text \<open>The resources that must have a covering quota because their consumption is limited by default.\<close>

definition limited_names :: "evaluator \<Rightarrow> attributes \<Rightarrow> limited_resource list \<Rightarrow> gerror + resource_name list" where
  "limited_names evaluator a limited =
    (let limitedResources = filterLimitedResourcesByGroupResource limited (at_groupResource a) in
     if length limitedResources > 0 then
       (case ev_Usage evaluator (at_object a) of
          Inl err \<Rightarrow> Inl err
        | Inr deltaUsage \<Rightarrow> Inr (limitedByDefault deltaUsage limitedResources))
     else Inr [])"

definition CheckRequest ::
  "resource_quota list \<Rightarrow> attributes \<Rightarrow> evaluator \<Rightarrow> limited_resource list \<Rightarrow> gerror + resource_quota list"
where
  "CheckRequest quotas a evaluator limited =
    (if \<not> ev_Handles evaluator a then Inr quotas
     else
       let inputObject = at_object a in
       case getMatchedLimitedScopes evaluator inputObject limited [] of
         Inl err \<Rightarrow> Inr quotas
       | Inr limitedScopes \<Rightarrow>
           (case limited_names evaluator a limited of
             Inl err \<Rightarrow> Inl err
           | Inr limitedResourceNames \<Rightarrow>
               (case find_interesting evaluator inputObject 0 quotas [] {} [] of
                  Inl err \<Rightarrow> Inl err
                | Inr (interestingQuotaIndexes, restrictedResourcesSet, restrictedScopes) \<Rightarrow>
                    let inputObject = default_namespace (at_namespace a) inputObject in
                    (case request_delta evaluator a inputObject of
                       Inl err \<Rightarrow> Inl err
                     | Inr deltaUsage \<Rightarrow>
                         if IsZero_rl deltaUsage then Inr quotas
                         else
                           let hasNoCoveringQuota = ToSet limitedResourceNames - restrictedResourcesSet in
                           if hasNoCoveringQuota \<noteq> {} then
                             Inl (ForbiddenErr (''insufficient quota to consume: '' @ Join (ListSet hasNoCoveringQuota) '',''))
                           else
                             (case ev_UncoveredQuotaScopes evaluator limitedScopes restrictedScopes of
                                Inl err \<Rightarrow> Inl err
                              | Inr scopesHasNoCoveringQuota \<Rightarrow>
                                  if length scopesHasNoCoveringQuota > 0 then
                                    Inl (OtherErr ''insufficient quota to match these scopes'')
                                  else if length interestingQuotaIndexes = 0 then Inr quotas
                                  else charge_quotas deltaUsage interestingQuotaIndexes quotas)))))"

text \<open>
  The locks exclude other processes of the same quota, which a sequential run does not see; what the function that
  acquires them leaves behind is the order of the slice it was given.
\<close>

record quota_evaluator_config =
  qe_ignoredResources :: "group_resource list"
  qe_registry :: quota_registry
  qe_limited :: "limited_resource list"
  qe_lockAcquisitionFunc :: "(resource_quota list \<Rightarrow> resource_quota list) option"

definition checkRequest :: "quota_evaluator_config \<Rightarrow> resource_quota list \<Rightarrow> attributes \<Rightarrow> gerror + resource_quota list" where
  "checkRequest e quotas a =
    (case Registry_Get (qe_registry e) (at_groupResource a) of
       None \<Rightarrow> Inr quotas
     | Some evaluator \<Rightarrow> CheckRequest quotas a evaluator (qe_limited e))"

section \<open>Checking a batch\<close>

record waiter =
  w_attributes :: attributes
  w_result :: "gerror option"

definition IsDefaultDeny :: "gerror option \<Rightarrow> bool" where
  "IsDefaultDeny err \<longleftrightarrow> err = Some DefaultDenyErr"

definition newAdmissionWaiter :: "attributes \<Rightarrow> waiter" where
  "newAdmissionWaiter a = \<lparr>w_attributes = a, w_result = Some DefaultDenyErr\<rparr>"

text \<open>The interface \<open>QuotaAccessor\<close>, with the state its calls change.\<close>

record 's quota_accessor =
  qa_UpdateQuotaStatus :: "resource_quota \<Rightarrow> 's \<Rightarrow> gerror option \<times> 's"
  qa_GetQuotas :: "string \<Rightarrow> 's \<Rightarrow> (gerror + resource_quota list) \<times> 's"

text \<open>Phase 1: every waiter against the running quotas.\<close>

fun check_waiters ::
  "quota_evaluator_config \<Rightarrow> resource_quota list \<Rightarrow> waiter list \<Rightarrow> resource_quota list \<times> bool \<times> waiter list"
where
  "check_waiters e quotas [] = (quotas, False, [])"
| "check_waiters e quotas (w # ws) =
     (case checkRequest e quotas (w_attributes w) of
        Inl err \<Rightarrow>
          (case check_waiters e quotas ws of (qs, changed, ws') \<Rightarrow> (qs, changed, w\<lparr>w_result := Some err\<rparr> # ws'))
      | Inr newQuotas \<Rightarrow>
          if at_dryRun (w_attributes w) then
            (case check_waiters e quotas ws of (qs, changed, ws') \<Rightarrow> (qs, changed, w\<lparr>w_result := None\<rparr> # ws'))
          else
            let changedHere = list_ex (\<lambda>(q, q'). \<not> Equals (used_of q) (used_of q')) (zip quotas newQuotas);
                w' = (if \<not> changedHere then w\<lparr>w_result := None\<rparr> else w)
            in case check_waiters e newQuotas ws of
                 (qs, changed, ws') \<Rightarrow> (qs, changedHere \<or> changed, w' # ws'))"

text \<open>Phase 3: update the quotas that changed; the result is the failed ones, the last error and the state.\<close>

fun update_quotas ::
  "'s quota_accessor \<Rightarrow> (resource_quota \<times> resource_quota) list \<Rightarrow> 's \<Rightarrow> resource_quota list \<times> gerror option \<times> 's"
where
  "update_quotas acc [] s = ([], None, s)"
| "update_quotas acc ((originalQuota, newQuota) # qs) s =
     (if Equals (used_of originalQuota) (used_of newQuota) then update_quotas acc qs s
      else case qa_UpdateQuotaStatus acc newQuota s of
             (None, s') \<Rightarrow> update_quotas acc qs s'
           | (Some err, s') \<Rightarrow>
               (case update_quotas acc qs s' of
                  (failed, lastErr, s'') \<Rightarrow>
                    (newQuota # failed, (case lastErr of None \<Rightarrow> Some err | Some e \<Rightarrow> Some e), s'')))"

definition settle :: "gerror option \<Rightarrow> waiter list \<Rightarrow> waiter list" where
  "settle result ws = map (\<lambda>w. if IsDefaultDeny (w_result w) then w\<lparr>w_result := result\<rparr> else w) ws"

fun checkQuotas ::
  "quota_evaluator_config \<Rightarrow> 's quota_accessor \<Rightarrow> nat \<Rightarrow> resource_quota list \<Rightarrow> waiter list \<Rightarrow> 's \<Rightarrow> waiter list \<times> 's"
where
  "checkQuotas e acc remainingRetries originalQuotas ws s =
     (case check_waiters e originalQuotas ws of
        (quotas, atLeastOneChanged, ws) \<Rightarrow>
          if \<not> atLeastOneChanged then (ws, s)
          else
            (case update_quotas acc (zip originalQuotas quotas) s of
               (updatedFailedQuotas, lastErr, s) \<Rightarrow>
                 if length updatedFailedQuotas = 0 then (settle None ws, s)
                 else
                   (case remainingRetries of
                      0 \<Rightarrow> (settle lastErr ws, s)
                    | Suc retries \<Rightarrow>
                        (case qa_GetQuotas acc (om_namespace (rq_meta (quotas ! 0))) s of
                           (Inl err, s) \<Rightarrow> (settle lastErr ws, s)
                         | (Inr newQuotas, s) \<Rightarrow>
                             let quotasToCheck = fold (\<lambda>newQuota acc.
                                   if list_ex (\<lambda>oldQuota. om_name (rq_meta newQuota) = om_name (rq_meta oldQuota)) updatedFailedQuotas
                                   then acc @ [newQuota] else acc) newQuotas []
                             in checkQuotas e acc retries quotasToCheck ws s))))"

declare checkQuotas.simps [simp del]

text \<open>\<open>checkAttributes\<close>: the accessor, the shortcut without quotas, and three retries.\<close>

definition checkAttributes ::
  "quota_evaluator_config \<Rightarrow> 's quota_accessor \<Rightarrow> string \<Rightarrow> waiter list \<Rightarrow> 's \<Rightarrow> waiter list \<times> 's"
where
  "checkAttributes e acc ns ws s =
    (case qa_GetQuotas acc ns s of
       (Inl err, s) \<Rightarrow> (map (\<lambda>w. w\<lparr>w_result := Some err\<rparr>) ws, s)
     | (Inr quotas, s) \<Rightarrow>
         if length quotas = 0 \<and> length (qe_limited e) = 0 then (map (\<lambda>w. w\<lparr>w_result := None\<rparr>) ws, s)
         else
           let quotas = (case qe_lockAcquisitionFunc e of Some lock \<Rightarrow> lock quotas | None \<Rightarrow> quotas)
           in checkQuotas e acc 3 quotas ws s)"

section \<open>What a charge does to a quota\<close>

text \<open>A quota whose maps have distinct keys and whose usage is within its hard limits.\<close>

definition within :: "resource_quota \<Rightarrow> bool" where
  "within q \<longleftrightarrow> (\<forall>k h. map_of (hard_of q) k = Some h \<longrightarrow> amount (used_of q) k \<le> h)"

definition wf_quota :: "resource_quota \<Rightarrow> bool" where
  "wf_quota q \<longleftrightarrow> wf_map (hard_of q) \<and> wf_map (used_of q)"

definition charged :: "resource_list \<Rightarrow> resource_quota \<Rightarrow> resource_quota \<Rightarrow> bool" where
  "charged delta q q' \<longleftrightarrow>
     q' = set_used (Add_rl (used_of q) (Mask_rl delta (ResourceNames (hard_of q)))) q
     \<and> (\<forall>k x h. map_of delta k = Some x \<and> map_of (hard_of q) k = Some h \<longrightarrow> amount (used_of q) k + x \<le> h)"

lemma set_used_simps [simp]:
  "used_of (set_used u q) = u" "hard_of (set_used u q) = hard_of q" "rq_meta (set_used u q) = rq_meta q"
  "rq_spec (set_used u q) = rq_spec q"
  by (simp_all add: set_used_def used_of_def hard_of_def)

lemma in_ResourceNames: "k \<in> set (ResourceNames m) \<longleftrightarrow> map_of m k \<noteq> None"
  unfolding ResourceNames_set map_of_conv_key ..

lemma charge_step:
  assumes "wf_quota q" "wf_map delta"
  defines "requested \<equiv> Mask_rl delta (ResourceNames (hard_of q))"
  defines "new \<equiv> Add_rl (used_of q) requested"
  assumes "fst (LessThanOrEqual (Mask_rl new (ResourceNames requested)) (hard_of q))"
  shows "charged delta q (set_used new q)"
proof -
  have wf: "wf_map (hard_of q)" "wf_map (used_of q)" using assms(1) by (simp_all add: wf_quota_def)
  have le: "\<forall>k x h. map_of (Mask_rl new (ResourceNames requested)) k = Some x \<and> map_of (hard_of q) k = Some h \<longrightarrow> x \<le> h"
    using assms(5) LessThanOrEqual_spec [OF wf(1)] by blast
  have "amount (used_of q) k + x \<le> h" if "map_of delta k = Some x" "map_of (hard_of q) k = Some h" for k x h
  proof -
    have req: "map_of requested k = Some x"
      using that by (simp add: requested_def map_of_Mask [OF assms(2)] in_ResourceNames)
    have "map_of (Mask_rl new (ResourceNames requested)) k = Some (amount (used_of q) k + x)"
      using req wf(2) by (simp add: new_def map_of_Mask in_ResourceNames map_of_Add amount_def split: option.splits)
    then show ?thesis using le that(2) by blast
  qed
  then show ?thesis by (simp add: charged_def new_def requested_def)
qed

lemma charged_amount:
  assumes "charged delta q q'" "wf_quota q" "wf_map delta"
  shows "amount (used_of q') k = amount (used_of q) k + (if map_of (hard_of q) k \<noteq> None then amount delta k else 0)"
  using assms by (simp add: charged_def wf_quota_def amount_Mask in_ResourceNames)

lemma charged_wf: "charged delta q q' \<Longrightarrow> wf_quota q \<Longrightarrow> wf_quota q'"
  by (simp add: charged_def wf_quota_def)

lemma charged_within:
  assumes "charged delta q q'" "wf_quota q" "wf_map delta" "within q"
  shows "within q'"
  unfolding within_def
proof (intro allI impI)
  fix k h assume h: "map_of (hard_of q') k = Some h"
  have hq: "map_of (hard_of q) k = Some h" using h assms(1) by (simp add: charged_def)
  show "amount (used_of q') k \<le> h"
  proof (cases "map_of delta k")
    case None
    then show ?thesis
      using charged_amount [OF assms(1-3)] hq assms(4) by (simp add: within_def amount_def [of delta])
  next
    case (Some x)
    then show ?thesis
      using charged_amount [OF assms(1-3), of k] hq assms(1) by (auto simp: charged_def amount_def [of delta])
  qed
qed

lemma charge_quotas_spec:
  assumes "charge_quotas delta idxs qs = Inr out" "distinct idxs" "\<forall>i \<in> set idxs. i < length qs"
    and "wf_map delta" "\<forall>q \<in> set qs. wf_quota q"
  shows "length out = length qs \<and>
    (\<forall>i < length qs. if i \<in> set idxs then charged delta (qs ! i) (out ! i) else out ! i = qs ! i)"
  using assms
proof (induction idxs arbitrary: qs)
  case (Cons i idxs)
  define q where "q = qs ! i"
  define new where "new = Add_rl (used_of q) (Mask_rl delta (ResourceNames (hard_of q)))"
  have i: "i < length qs" "i \<notin> set idxs" "distinct idxs" using Cons.prems by auto
  have wfq: "wf_quota q" using Cons.prems(5) i by (simp add: q_def)
  have ok: "fst (LessThanOrEqual (Mask_rl new (ResourceNames (Mask_rl delta (ResourceNames (hard_of q))))) (hard_of q))"
    and rec: "charge_quotas delta idxs (qs[i := set_used new q]) = Inr out"
    using Cons.prems(1) by (auto simp: Let_def new_def q_def split: prod.splits if_splits)
  have ch: "charged delta q (set_used new q)"
    using charge_step [OF wfq Cons.prems(4)] ok by (simp add: new_def)
  have wf': "\<forall>x \<in> set (qs[i := set_used new q]). wf_quota x"
    using Cons.prems(5) charged_wf [OF ch wfq] by (auto dest!: set_update_subset_insert [THEN subsetD])
  have IH: "length out = length qs \<and>
    (\<forall>j < length qs. if j \<in> set idxs then charged delta (qs[i := set_used new q] ! j) (out ! j)
       else out ! j = qs[i := set_used new q] ! j)"
    using Cons.IH [OF rec i(3) _ Cons.prems(4) wf'] Cons.prems(3) by simp
  show ?case
  proof (intro conjI allI impI)
    show "length out = length qs" using IH by simp
    fix j assume j: "j < length qs"
    show "if j \<in> set (i # idxs) then charged delta (qs ! j) (out ! j) else out ! j = qs ! j"
      using IH j i ch by (cases "j = i") (auto simp: q_def)
  qed
qed simp

lemma find_interesting_indexes:
  "find_interesting ev obj i qs idxs R S = Inr (idxs', R', S') \<Longrightarrow>
   \<exists>js. idxs' = idxs @ js \<and> distinct js \<and>
     set js = {j. i \<le> j \<and> j < i + length qs \<and> ev_Matches ev (Some (qs ! (j - i))) obj = Inr True}"
proof (induction qs arbitrary: i idxs R S)
  case (Cons q qs)
  have shift: "{j. i \<le> j \<and> j < i + length (q # qs) \<and> ev_Matches ev (Some ((q # qs) ! (j - i))) obj = Inr True} =
      (if ev_Matches ev (Some q) obj = Inr True then {i} else {}) \<union>
      {j. Suc i \<le> j \<and> j < Suc i + length qs \<and> ev_Matches ev (Some (qs ! (j - Suc i))) obj = Inr True}" (is "?A = ?B")
  proof
    show "?A \<subseteq> ?B" by (auto simp: nth_Cons' not_less_eq_eq split: if_splits)
    show "?B \<subseteq> ?A" by (auto simp: nth_Cons' split: if_splits)
  qed
  obtain ls where ls: "ev_MatchingScopes ev obj (getScopeSelectorsFromQuota q) = Inr ls"
    using Cons.prems by (auto split: sum.splits)
  obtain m where m: "ev_Matches ev (Some q) obj = Inr m"
    using Cons.prems ls by (auto split: sum.splits)
  show ?case
  proof (cases m)
    case True
    then have "find_interesting ev obj (Suc i) qs (idxs @ [i])
        (R \<union> ToSet (ev_MatchingResources ev (ResourceNames (hard_of q)))) (S @ ls) = Inr (idxs', R', S')"
      using Cons.prems ls m by (auto simp: Let_def split: option.splits if_splits)
    from Cons.IH [OF this] obtain js where "idxs' = (idxs @ [i]) @ js" "distinct js"
      "set js = {j. Suc i \<le> j \<and> j < Suc i + length qs \<and> ev_Matches ev (Some (qs ! (j - Suc i))) obj = Inr True}"
      by blast
    then show ?thesis
      unfolding shift using m True by (intro exI [of _ "i # js"]) auto
  next
    case False
    then have "find_interesting ev obj (Suc i) qs idxs R (S @ ls) = Inr (idxs', R', S')"
      using Cons.prems ls m by simp
    from Cons.IH [OF this] show ?thesis
      unfolding shift using m False by auto
  qed
qed simp

definition usage_wf :: "evaluator \<Rightarrow> bool" where
  "usage_wf ev \<longleftrightarrow> (\<forall>obj u. ev_Usage ev obj = Inr u \<longrightarrow> wf_map u)"

lemma request_delta_wf:
  assumes "request_delta ev a obj = Inr delta" "usage_wf ev"
  shows "wf_map delta"
  using assms by (auto simp: request_delta_def usage_wf_def split: sum.splits if_splits option.splits)

text \<open>An accepted request leaves the quotas alone or charges exactly the matching ones.\<close>

lemma CheckRequest_cases:
  assumes "CheckRequest quotas a ev limited = Inr out"
  obtains "out = quotas"
  | delta idxs R S where "request_delta ev a (default_namespace (at_namespace a) (at_object a)) = Inr delta"
      "find_interesting ev (at_object a) 0 quotas [] {} [] = Inr (idxs, R, S)"
      "charge_quotas delta idxs quotas = Inr out" "\<not> IsZero_rl delta"
proof (cases "ev_Handles ev a \<and> \<not> isl (getMatchedLimitedScopes ev (at_object a) limited [])")
  case False
  then have "out = quotas"
    using assms by (auto simp: CheckRequest_def Let_def isl_def split: if_splits sum.splits)
  then show thesis by (rule that)
next
  case True
  then obtain ls where ls: "ev_Handles ev a" "getMatchedLimitedScopes ev (at_object a) limited [] = Inr ls"
    by (cases "getMatchedLimitedScopes ev (at_object a) limited []") auto
  obtain ns where ns: "limited_names ev a limited = Inr ns"
    using assms ls by (cases "limited_names ev a limited") (auto simp: CheckRequest_def Let_def)
  obtain idxs R S where fi: "find_interesting ev (at_object a) 0 quotas [] {} [] = Inr (idxs, R, S)"
    using assms ls ns by (cases "find_interesting ev (at_object a) 0 quotas [] {} []")
      (auto simp: CheckRequest_def Let_def)
  obtain delta where d: "request_delta ev a (default_namespace (at_namespace a) (at_object a)) = Inr delta"
    using assms ls ns fi by (cases "request_delta ev a (default_namespace (at_namespace a) (at_object a))")
      (auto simp: CheckRequest_def Let_def)
  have eq: "(if IsZero_rl delta then Inr quotas
       else if ToSet ns - R \<noteq> {} then
              Inl (ForbiddenErr (''insufficient quota to consume: '' @ Join (ListSet (ToSet ns - R)) '',''))
       else case ev_UncoveredQuotaScopes ev ls S of
              Inl err \<Rightarrow> Inl err
            | Inr uncovered \<Rightarrow>
                if length uncovered > 0 then Inl (OtherErr ''insufficient quota to match these scopes'')
                else if length idxs = 0 then Inr quotas
                else charge_quotas delta idxs quotas) = Inr out"
    using assms unfolding CheckRequest_def Let_def
    by (simp only: ls ns fi d sum.case prod.case if_True not_True_eq_False if_False)
  show thesis
  proof (cases "IsZero_rl delta \<or> length idxs = 0")
    case True
    then have "out = quotas" using eq by (auto split: if_splits sum.splits)
    then show thesis by (rule that)
  next
    case False
    then have "charge_quotas delta idxs quotas = Inr out" using eq by (auto split: if_splits sum.splits)
    then show thesis using that(2) d fi False by blast
  qed
qed

lemma CheckRequest_charged:
  assumes "CheckRequest quotas a ev limited = Inr out"
    and "usage_wf ev" and "\<forall>q \<in> set quotas. wf_quota q"
  shows "out = quotas \<or>
    (\<exists>delta. request_delta ev a (default_namespace (at_namespace a) (at_object a)) = Inr delta \<and> \<not> IsZero_rl delta
       \<and> wf_map delta \<and> length out = length quotas
       \<and> (\<forall>i < length quotas. if ev_Matches ev (Some (quotas ! i)) (at_object a) = Inr True
            then charged delta (quotas ! i) (out ! i) else out ! i = quotas ! i))"
  using assms(1)
proof (cases rule: CheckRequest_cases)
  case (2 delta idxs R S)
  have wf: "wf_map delta" using request_delta_wf [OF 2(1) assms(2)] .
  have idx: "distinct idxs" "set idxs = {j. j < length quotas \<and> ev_Matches ev (Some (quotas ! j)) (at_object a) = Inr True}"
    using find_interesting_indexes [OF 2(2)] by auto
  have "length out = length quotas \<and>
    (\<forall>i < length quotas. if i \<in> set idxs then charged delta (quotas ! i) (out ! i) else out ! i = quotas ! i)"
    by (rule charge_quotas_spec [OF 2(3) idx(1) _ wf assms(3)]) (simp add: idx(2))
  then show ?thesis using 2(1,4) wf unfolding idx(2) by auto
qed simp

definition quota_ok :: "resource_quota \<Rightarrow> bool" where
  "quota_ok q \<longleftrightarrow> wf_quota q \<and> within q"

lemma CheckRequest_ok:
  assumes "CheckRequest quotas a ev limited = Inr out"
    and "usage_wf ev" and "\<forall>q \<in> set quotas. quota_ok q"
  shows "length out = length quotas \<and> (\<forall>q \<in> set out. quota_ok q)
    \<and> (\<forall>i < length quotas. hard_of (out ! i) = hard_of (quotas ! i) \<and> rq_meta (out ! i) = rq_meta (quotas ! i))"
proof -
  have wf: "\<forall>q \<in> set quotas. wf_quota q" using assms(3) by (simp add: quota_ok_def)
  from CheckRequest_charged [OF assms(1,2) wf] consider "out = quotas"
    | delta where "wf_map delta" "length out = length quotas"
       "\<forall>i < length quotas. if ev_Matches ev (Some (quotas ! i)) (at_object a) = Inr True
            then charged delta (quotas ! i) (out ! i) else out ! i = quotas ! i" by blast
  then show ?thesis
  proof cases
    case 1
    then show ?thesis using assms(3) by simp
  next
    case (2 delta)
    have step: "quota_ok (out ! i) \<and> hard_of (out ! i) = hard_of (quotas ! i) \<and> rq_meta (out ! i) = rq_meta (quotas ! i)"
      if "i < length quotas" for i
    proof -
      have "quota_ok (quotas ! i)" using assms(3) that by simp
      then show ?thesis
        using 2(3) that charged_within [OF _ _ 2(1)] charged_wf
        by (auto simp: quota_ok_def charged_def split: if_splits)
    qed
    then show ?thesis using 2(2) by (metis in_set_conv_nth)
  qed
qed

section \<open>Batches over an accessor\<close>

definition registry_wf :: "quota_registry \<Rightarrow> bool" where
  "registry_wf r \<longleftrightarrow> (\<forall>ev \<in> set (Registry_List r). usage_wf ev)"

lemma registry_wf_put: "registry_wf r \<Longrightarrow> usage_wf ev \<Longrightarrow> registry_wf (put gr ev r)"
proof -
  have "set (put gr ev r) \<subseteq> insert (gr, ev) (set r)" by (induction r) auto
  then show "registry_wf r \<Longrightarrow> usage_wf ev \<Longrightarrow> registry_wf (put gr ev r)"
    by (fastforce simp: registry_wf_def Registry_List_def)
qed

lemma registry_wf_NewRegistry: "(\<And>ev. ev \<in> set evs \<Longrightarrow> usage_wf ev) \<Longrightarrow> registry_wf (NewRegistry evs)"
proof -
  have "registry_wf r \<Longrightarrow> (\<And>ev. ev \<in> set evs \<Longrightarrow> usage_wf ev) \<Longrightarrow>
      registry_wf (fold (\<lambda>item. put (ev_GroupResource item) item) evs r)" for r
    by (induction evs arbitrary: r) (simp_all add: registry_wf_put)
  moreover have "registry_wf []" by (simp add: registry_wf_def Registry_List_def)
  ultimately show "(\<And>ev. ev \<in> set evs \<Longrightarrow> usage_wf ev) \<Longrightarrow> registry_wf (NewRegistry evs)"
    by (simp add: NewRegistry_def)
qed

lemma registry_wf_NewEvaluators: "registry_wf (NewRegistry (NewEvaluators order f now))"
proof (rule registry_wf_NewRegistry)
  fix ev assume "ev \<in> set (NewEvaluators order f now)"
  then show "usage_wf ev" using NewEvaluators_kinds [of order f now]
    by (fastforce simp: usage_wf_def pod_ev.usage_wf service_ev.usage_wf pvc_ev.usage_wf count_ev.usage_wf)
qed

lemma registry_wf_Get: "registry_wf r \<Longrightarrow> Registry_Get r gr = Some ev \<Longrightarrow> usage_wf ev"
  by (force simp: registry_wf_def Registry_Get_def Registry_List_def dest: map_of_SomeD)

text \<open>What a charge leaves of a quota: its metadata and its limits.\<close>

definition same_limits :: "resource_quota \<Rightarrow> resource_quota \<Rightarrow> bool" where
  "same_limits q q' \<longleftrightarrow> rq_meta q' = rq_meta q \<and> hard_of q' = hard_of q"

lemma same_limits_refl: "same_limits q q"
  and same_limits_trans: "same_limits q q' \<Longrightarrow> same_limits q' q'' \<Longrightarrow> same_limits q q''"
  by (simp_all add: same_limits_def)

lemma list_same_limits_refl: "list_all2 same_limits qs qs"
  by (simp add: list_all2_refl same_limits_refl)

lemma list_same_limits_trans:
  "list_all2 same_limits xs ys \<Longrightarrow> list_all2 same_limits ys zs \<Longrightarrow> list_all2 same_limits xs zs"
  by (rule list_all2_trans [OF same_limits_trans])

lemma checkRequest_ok:
  assumes "registry_wf (qe_registry e)" "checkRequest e quotas a = Inr out" "\<forall>q \<in> set quotas. quota_ok q"
  shows "list_all2 same_limits quotas out \<and> (\<forall>q \<in> set out. quota_ok q)"
proof (cases "Registry_Get (qe_registry e) (at_groupResource a)")
  case None
  then show ?thesis using assms(2,3) by (simp add: checkRequest_def list_same_limits_refl)
next
  case (Some ev)
  then have "CheckRequest quotas a ev (qe_limited e) = Inr out" using assms(2) by (simp add: checkRequest_def)
  from CheckRequest_ok [OF this registry_wf_Get [OF assms(1) Some] assms(3)] show ?thesis
    by (simp add: list_all2_conv_all_nth same_limits_def)
qed

lemma check_waiters_ok:
  assumes "registry_wf (qe_registry e)" "check_waiters e quotas ws = (out, ch, ws')" "\<forall>q \<in> set quotas. quota_ok q"
  shows "list_all2 same_limits quotas out \<and> (\<forall>q \<in> set out. quota_ok q)"
  using assms(2,3)
proof (induction ws arbitrary: quotas out ch ws')
  case (Cons w ws)
  show ?case
  proof (cases "checkRequest e quotas (w_attributes w)")
    case (Inl err)
    then show ?thesis using Cons by (auto split: prod.splits)
  next
    case (Inr nq)
    note ok = checkRequest_ok [OF assms(1) Inr Cons.prems(2)]
    show ?thesis
    proof (cases "at_dryRun (w_attributes w)")
      case True
      then show ?thesis using Cons Inr by (auto split: prod.splits)
    next
      case False
      obtain out1 ch1 ws1 where r: "check_waiters e nq ws = (out1, ch1, ws1)" by (metis prod_cases3)
      then have "out = out1" using Cons.prems Inr False by (simp add: Let_def)
      then show ?thesis using Cons.IH [OF r] ok list_same_limits_trans by blast
    qed
  qed
qed (simp add: list_same_limits_refl)

text \<open>
  An accessor with an invariant \<open>P\<close> on its state and a property \<open>ok\<close> of the quotas it hands out: reading
  returns such quotas and storing such a quota keeps the invariant. Charging a quota within its limits
  keeps \<open>ok\<close>.
\<close>

locale accessor_inv =
  fixes acc :: "'s quota_accessor" and P :: "'s \<Rightarrow> bool" and ok :: "resource_quota \<Rightarrow> bool"
  assumes update_inv: "P s \<Longrightarrow> ok q \<Longrightarrow> P (snd (qa_UpdateQuotaStatus acc q s))"
    and get_inv: "P s \<Longrightarrow> P (snd (qa_GetQuotas acc ns s))"
    and get_ok: "P s \<Longrightarrow> qa_GetQuotas acc ns s = (Inr qs, s') \<Longrightarrow> \<forall>q \<in> set qs. ok q"
    and ok_quota: "ok q \<Longrightarrow> quota_ok q"
    and ok_charged: "ok q \<Longrightarrow> same_limits q q' \<Longrightarrow> quota_ok q' \<Longrightarrow> ok q'"
begin

lemma waiters_ok:
  assumes "registry_wf (qe_registry e)" "check_waiters e quotas ws = (out, ch, ws')" "\<forall>q \<in> set quotas. ok q"
  shows "\<forall>q \<in> set out. ok q"
proof -
  have "list_all2 same_limits quotas out \<and> (\<forall>q \<in> set out. quota_ok q)"
    using check_waiters_ok [OF assms(1,2)] assms(3) ok_quota by blast
  then show ?thesis using assms(3) ok_charged by (fastforce simp: list_all2_conv_all_nth in_set_conv_nth)
qed

lemma update_quotas_inv:
  assumes "P s" "\<forall>(q, q') \<in> set qs. ok q'" "update_quotas acc qs s = (failed, err, s')"
  shows "P s'"
  using assms
proof (induction qs arbitrary: s failed err)
  case (Cons x qs)
  obtain q q' where x: "x = (q, q')" by force
  obtain r s1 where up: "qa_UpdateQuotaStatus acc q' s = (r, s1)" by fastforce
  have "P s1" using update_inv [OF Cons.prems(1), of q'] Cons.prems(2) up by (simp add: x)
  then show ?case
    using Cons up by (cases r) (auto simp: x split: if_splits prod.splits)
qed simp

lemma phase3_inv:
  assumes "registry_wf (qe_registry e)" "P s" "\<forall>q \<in> set quotas. ok q"
    and "check_waiters e quotas ws = (out, ch, ws1)" "update_quotas acc (zip quotas out) s = (failed, err, s1)"
  shows "P s1"
  using update_quotas_inv [OF assms(2) _ assms(5)] waiters_ok [OF assms(1,4,3)]
  by (force dest: set_zip_rightD)

lemma checkQuotas_inv:
  assumes "registry_wf (qe_registry e)" "P s" "\<forall>q \<in> set quotas. ok q"
  shows "P (snd (checkQuotas e acc n quotas ws s))"
  using assms(2,3)
proof (induction n arbitrary: quotas ws s)
  case 0
  obtain out ch ws1 where c: "check_waiters e quotas ws = (out, ch, ws1)" by (metis prod_cases3)
  obtain failed err s1 where u: "update_quotas acc (zip quotas out) s = (failed, err, s1)" by (metis prod_cases3)
  then show ?case
    using 0 c phase3_inv [OF assms(1) 0 c u] by (simp add: checkQuotas.simps [of _ _ 0])
next
  case (Suc n)
  obtain out ch ws1 where c: "check_waiters e quotas ws = (out, ch, ws1)" by (metis prod_cases3)
  obtain failed err s1 where u: "update_quotas acc (zip quotas out) s = (failed, err, s1)" by (metis prod_cases3)
  have s1: "P s1" by (rule phase3_inv [OF assms(1) Suc.prems c u])
  obtain r s2 where g: "qa_GetQuotas acc (om_namespace (rq_meta (out ! 0))) s1 = (r, s2)" by fastforce
  have s2: "P s2" using get_inv [OF s1] g by (metis snd_conv)
  show ?case
  proof (cases r)
    case (Inl e')
    then show ?thesis using Suc.prems c u g s1 s2 by (simp add: checkQuotas.simps [of _ _ "Suc n"])
  next
    case (Inr nq)
    define sel where "sel = fold (\<lambda>newQuota acc.
        if list_ex (\<lambda>oldQuota. om_name (rq_meta newQuota) = om_name (rq_meta oldQuota)) failed
        then acc @ [newQuota] else acc) nq []"
    have "set sel \<subseteq> set nq" by (auto simp: sel_def fold_filter_append)
    then have "\<forall>q \<in> set sel. ok q" using get_ok [OF s1] g Inr by blast
    then have "P (snd (checkQuotas e acc n sel ws1 s2))" using Suc.IH s2 by blast
    then show ?thesis
      using Suc.prems c u g s1 Inr by (simp add: checkQuotas.simps [of _ _ "Suc n"] Let_def flip: sel_def)
  qed
qed

lemma checkAttributes_inv:
  assumes "registry_wf (qe_registry e)" "P s"
    and "\<And>lock qs. qe_lockAcquisitionFunc e = Some lock \<Longrightarrow> set (lock qs) = set qs"
  shows "P (snd (checkAttributes e acc ns ws s))"
proof -
  obtain r s1 where g: "qa_GetQuotas acc ns s = (r, s1)" by fastforce
  have s1: "P s1" using get_inv [OF assms(2)] g by (metis snd_conv)
  show ?thesis
  proof (cases r)
    case (Inr qs)
    define qs' where "qs' = (case qe_lockAcquisitionFunc e of Some lock \<Rightarrow> lock qs | None \<Rightarrow> qs)"
    have "\<forall>q \<in> set qs. ok q" using get_ok [OF assms(2)] g Inr by blast
    then have "\<forall>q \<in> set qs'. ok q" using assms(3) by (simp add: qs'_def split: option.splits)
    from checkQuotas_inv [OF assms(1) s1 this] show ?thesis
      using g s1 Inr by (simp add: checkAttributes_def Let_def flip: qs'_def)
  qed (use g s1 in \<open>simp add: checkAttributes_def\<close>)
qed

end

section \<open>Every waiter is decided\<close>

definition no_default_deny :: "quota_evaluator_config \<Rightarrow> 's quota_accessor \<Rightarrow> bool" where
  "no_default_deny e acc \<longleftrightarrow> (\<forall>qs a. checkRequest e qs a \<noteq> Inl DefaultDenyErr)
     \<and> (\<forall>q s. fst (qa_UpdateQuotaStatus acc q s) \<noteq> Some DefaultDenyErr)
     \<and> (\<forall>ns s. fst (qa_GetQuotas acc ns s) \<noteq> Inl DefaultDenyErr)"

abbreviation undecided :: "waiter \<Rightarrow> bool" where
  "undecided w \<equiv> IsDefaultDeny (w_result w)"

lemma check_waiters_Cons:
  "check_waiters e quotas (w # ws) =
     (let (q1, c1, w1) = (case checkRequest e quotas (w_attributes w) of
            Inl err \<Rightarrow> (quotas, False, w\<lparr>w_result := Some err\<rparr>)
          | Inr nq \<Rightarrow>
              if at_dryRun (w_attributes w) then (quotas, False, w\<lparr>w_result := None\<rparr>)
              else if list_ex (\<lambda>(q, q'). \<not> Equals (used_of q) (used_of q')) (zip quotas nq) then (nq, True, w)
              else (nq, False, w\<lparr>w_result := None\<rparr>));
          (qs, c, ws') = check_waiters e q1 ws
      in (qs, c1 \<or> c, w1 # ws'))"
  by (auto simp: Let_def split: sum.splits prod.splits)

lemma check_waiters_undecided:
  assumes "\<forall>qs a. checkRequest e qs a \<noteq> Inl DefaultDenyErr" "check_waiters e quotas ws = (out, ch, ws')"
  shows "map w_attributes ws' = map w_attributes ws \<and> (\<not> ch \<longrightarrow> (\<forall>w \<in> set ws'. \<not> undecided w))"
  using assms(2)
proof (induction ws arbitrary: quotas out ch ws')
  case (Cons w ws)
  define p where "p = (case checkRequest e quotas (w_attributes w) of
            Inl err \<Rightarrow> (quotas, False, w\<lparr>w_result := Some err\<rparr>)
          | Inr nq \<Rightarrow>
              if at_dryRun (w_attributes w) then (quotas, False, w\<lparr>w_result := None\<rparr>)
              else if list_ex (\<lambda>(q, q'). \<not> Equals (used_of q) (used_of q')) (zip quotas nq) then (nq, True, w)
              else (nq, False, w\<lparr>w_result := None\<rparr>))"
  obtain q1 c1 w1 where q1: "p = (q1, c1, w1)" by (metis prod_cases3)
  have w1: "w_attributes w1 = w_attributes w \<and> (\<not> c1 \<longrightarrow> \<not> undecided w1)"
    using q1 assms(1) by (auto simp: p_def IsDefaultDeny_def split: sum.splits if_splits)
  obtain q2 c2 ws2 where r: "check_waiters e q1 ws = (q2, c2, ws2)" by (metis prod_cases3)
  have "ch = (c1 \<or> c2)" "ws' = w1 # ws2"
    using Cons.prems r q1 unfolding check_waiters_Cons p_def [symmetric] by (auto simp: Let_def)
  then show ?case using Cons.IH [OF r] w1 by auto
qed simp

lemma update_quotas_lastErr:
  assumes "\<forall>q s. fst (qa_UpdateQuotaStatus acc q s) \<noteq> Some DefaultDenyErr"
    "update_quotas acc qs s = (failed, err, s')"
  shows "err \<noteq> Some DefaultDenyErr"
  using assms(2)
proof (induction qs arbitrary: s failed err s')
  case (Cons x qs)
  obtain q q' where x: "x = (q, q')" by force
  obtain r s1 where up: "qa_UpdateQuotaStatus acc q' s = (r, s1)" by fastforce
  have r: "r \<noteq> Some DefaultDenyErr" using assms(1) up by (metis fst_conv)
  obtain f1 e1 s2 where rec: "update_quotas acc qs s1 = (f1, e1, s2)" by (metis prod_cases3)
  show ?case
    using Cons.prems Cons.IH Cons.IH [OF rec] up r rec
    by (cases r) (auto simp: x split: if_splits option.splits)
qed simp

lemma settle_decided: "e \<noteq> Some DefaultDenyErr \<Longrightarrow> \<forall>w \<in> set (settle e ws). \<not> undecided w"
  by (auto simp: settle_def IsDefaultDeny_def)

lemma settle_attributes [simp]: "map w_attributes (settle e ws) = map w_attributes ws"
  by (auto simp: settle_def)

lemma checkQuotas_decided:
  assumes "no_default_deny e acc"
  shows "(\<forall>w \<in> set (fst (checkQuotas e acc n quotas ws s)). \<not> undecided w)
    \<and> map w_attributes (fst (checkQuotas e acc n quotas ws s)) = map w_attributes ws"
proof (induction n arbitrary: quotas ws s)
  case 0
  obtain out ch ws1 where c: "check_waiters e quotas ws = (out, ch, ws1)" by (metis prod_cases3)
  obtain failed err s1 where u: "update_quotas acc (zip quotas out) s = (failed, err, s1)" by (metis prod_cases3)
  have "err \<noteq> Some DefaultDenyErr" using update_quotas_lastErr [OF _ u] assms by (simp add: no_default_deny_def)
  moreover have "map w_attributes ws1 = map w_attributes ws \<and> (\<not> ch \<longrightarrow> (\<forall>w \<in> set ws1. \<not> undecided w))"
    using check_waiters_undecided [OF _ c] assms by (simp add: no_default_deny_def)
  ultimately show ?case
    using c u settle_decided [of err ws1] settle_decided [of None ws1]
    by (simp add: checkQuotas.simps [of _ _ 0])
next
  case (Suc n)
  obtain out ch ws1 where c: "check_waiters e quotas ws = (out, ch, ws1)" by (metis prod_cases3)
  obtain failed err s1 where u: "update_quotas acc (zip quotas out) s = (failed, err, s1)" by (metis prod_cases3)
  obtain r s2 where g: "qa_GetQuotas acc (om_namespace (rq_meta (out ! 0))) s1 = (r, s2)" by fastforce
  have "err \<noteq> Some DefaultDenyErr" using update_quotas_lastErr [OF _ u] assms by (simp add: no_default_deny_def)
  moreover have "map w_attributes ws1 = map w_attributes ws \<and> (\<not> ch \<longrightarrow> (\<forall>w \<in> set ws1. \<not> undecided w))"
    using check_waiters_undecided [OF _ c] assms by (simp add: no_default_deny_def)
  ultimately show ?case
    using c u g settle_decided [of err ws1] settle_decided [of None ws1] Suc.IH
    by (cases r) (simp_all add: checkQuotas.simps [of _ _ "Suc n"] Let_def)
qed

lemma check_waiters_attributes: "check_waiters e quotas ws = (out, ch, ws') \<Longrightarrow> map w_attributes ws' = map w_attributes ws"
  by (induction ws arbitrary: quotas out ch ws') (fastforce simp: Let_def split: sum.splits prod.splits if_splits)+

text \<open>The sequential meaning of a batch: each request sees the quotas charged by the ones before it.\<close>

fun batch_spec :: "quota_evaluator_config \<Rightarrow> resource_quota list \<Rightarrow> attributes list \<Rightarrow> gerror option list" where
  "batch_spec e quotas [] = []"
| "batch_spec e quotas (a # as) =
     (case checkRequest e quotas a of
        Inl err \<Rightarrow> Some err # batch_spec e quotas as
      | Inr nq \<Rightarrow> None # batch_spec e (if at_dryRun a then quotas else nq) as)"

lemma check_waiters_spec:
  assumes "\<forall>qs a. checkRequest e qs a \<noteq> Inl DefaultDenyErr" "\<forall>w \<in> set ws. undecided w"
    "check_waiters e quotas ws = (out, ch, ws')"
  shows "map w_result (settle None ws') = batch_spec e quotas (map w_attributes ws)"
  using assms(2,3)
proof (induction ws arbitrary: quotas out ch ws')
  case (Cons w ws)
  show ?case
  proof (cases "checkRequest e quotas (w_attributes w)")
    case (Inl err)
    then have "err \<noteq> DefaultDenyErr" using assms(1) by blast
    then show ?thesis using Cons Inl by (auto simp: settle_def IsDefaultDeny_def split: prod.splits)
  next
    case (Inr nq)
    obtain out1 ch1 ws1 where r: "check_waiters e (if at_dryRun (w_attributes w) then quotas else nq) ws = (out1, ch1, ws1)"
      by (metis prod_cases3)
    have "map w_result (settle None ws1) = batch_spec e (if at_dryRun (w_attributes w) then quotas else nq) (map w_attributes ws)"
      using Cons.IH [OF _ r] Cons.prems by simp
    moreover have "\<exists>w1. ws' = w1 # ws1 \<and> (w_result w1 = None \<or> undecided w1)"
      using Cons.prems Inr r by (auto simp: Let_def split: if_splits)
    ultimately show ?thesis using Inr by (auto simp: settle_def IsDefaultDeny_def)
  qed
qed (simp add: settle_def)

lemma update_quotas_all_ok:
  "\<forall>q s. fst (qa_UpdateQuotaStatus acc q s) = None \<Longrightarrow> fst (update_quotas acc qs s) = []"
proof (induction qs arbitrary: s)
  case (Cons x qs)
  obtain q q' where x: "x = (q, q')" by force
  obtain r s1 where up: "qa_UpdateQuotaStatus acc q' s = (r, s1)" by fastforce
  have "r = None" using Cons.prems up by (metis fst_conv)
  then show ?case using Cons up by (auto simp: x)
qed simp

section \<open>Requests that a quota does not concern\<close>

text \<open>The object of the request does not match the quota, whatever is charged to it.\<close>

definition unconcerned :: "evaluator \<Rightarrow> attributes \<Rightarrow> resource_quota \<Rightarrow> bool" where
  "unconcerned ev a q \<longleftrightarrow> wf_quota q \<and>
     (\<forall>q'. same_limits q q' \<and> rq_spec q' = rq_spec q \<longrightarrow>
        \<not> isl (ev_MatchingScopes ev (at_object a) (getScopeSelectorsFromQuota q'))
        \<and> ev_Matches ev (Some q') (at_object a) = Inr False)"

text \<open>A request whose charge can be computed and that needs no covering quota.\<close>

definition passes_alone :: "quota_evaluator_config \<Rightarrow> evaluator \<Rightarrow> attributes \<Rightarrow> bool" where
  "passes_alone e ev a \<longleftrightarrow> Registry_Get (qe_registry e) (at_groupResource a) = Some ev \<and> qe_limited e = []
     \<and> \<not> isl (request_delta ev a (default_namespace (at_namespace a) (at_object a)))
     \<and> (\<forall>scopes. ev_UncoveredQuotaScopes ev [] scopes = Inr [])"

lemma find_interesting_unconcerned:
  "\<forall>q \<in> set qs. unconcerned ev a q \<Longrightarrow> \<exists>S'. find_interesting ev (at_object a) i qs [] {} S = Inr ([], {}, S')"
proof (induction qs arbitrary: i S)
  case (Cons q qs)
  have "\<not> isl (ev_MatchingScopes ev (at_object a) (getScopeSelectorsFromQuota q)) \<and> ev_Matches ev (Some q) (at_object a) = Inr False"
    using Cons.prems by (auto simp: unconcerned_def same_limits_refl)
  then show ?case using Cons.IH [of "Suc i"] Cons.prems
    by (cases "ev_MatchingScopes ev (at_object a) (getScopeSelectorsFromQuota q)") auto
qed simp

lemma checkRequest_unconcerned:
  assumes "passes_alone e ev a" "\<forall>q \<in> set qs. unconcerned ev a q"
  shows "checkRequest e qs a = Inr qs"
proof -
  obtain S where S: "find_interesting ev (at_object a) 0 qs [] {} [] = Inr ([], {}, S)"
    using find_interesting_unconcerned [OF assms(2)] by blast
  obtain delta where d: "request_delta ev a (default_namespace (at_namespace a) (at_object a)) = Inr delta"
    using assms(1) by (cases "request_delta ev a (default_namespace (at_namespace a) (at_object a))") (auto simp: passes_alone_def)
  have "CheckRequest qs a ev [] = Inr qs"
    using assms(1) unfolding CheckRequest_def Let_def
    by (simp add: S d passes_alone_def limited_names_def filterLimitedResourcesByGroupResource_def ToSet_def)
  then show ?thesis using assms(1) by (simp add: checkRequest_def passes_alone_def)
qed

lemma charged_unconcerned: "unconcerned ev a q \<Longrightarrow> wf_map delta \<Longrightarrow> charged delta q q' \<Longrightarrow> unconcerned ev a q'"
  using charged_wf [of delta q q'] unfolding unconcerned_def
  by (auto simp: charged_def same_limits_def)

lemma checkRequest_keeps_unconcerned:
  assumes "registry_wf (qe_registry e)" "checkRequest e qs b = Inr out" "\<forall>q \<in> set qs. unconcerned ev a q"
  shows "\<forall>q \<in> set out. unconcerned ev a q"
proof (cases "Registry_Get (qe_registry e) (at_groupResource b)")
  case None
  then show ?thesis using assms(2,3) by (simp add: checkRequest_def)
next
  case (Some evb)
  have wf: "\<forall>q \<in> set qs. wf_quota q" using assms(3) by (simp add: unconcerned_def)
  have "CheckRequest qs b evb (qe_limited e) = Inr out" using assms(2) Some by (simp add: checkRequest_def)
  from CheckRequest_charged [OF this registry_wf_Get [OF assms(1) Some] wf] consider "out = qs"
    | delta where "wf_map delta" "length out = length qs"
       "\<forall>i < length qs. if ev_Matches evb (Some (qs ! i)) (at_object b) = Inr True
            then charged delta (qs ! i) (out ! i) else out ! i = qs ! i" by blast
  then show ?thesis
  proof cases
    case (2 delta)
    have "unconcerned ev a (out ! i)" if "i < length qs" for i
    proof -
      have "unconcerned ev a (qs ! i)" using assms(3) that by simp
      then show ?thesis using 2(1,3) that charged_unconcerned by metis
    qed
    then show ?thesis using 2(2) by (metis in_set_conv_nth)
  qed (use assms(3) in simp)
qed

lemma Equals_refl: "wf_map m \<Longrightarrow> Equals m m"
  by (auto simp: Equals_def list_all_iff QCmp_def)

lemma list_ex_zip_refl: "list_ex (\<lambda>(x, y). P x y) (zip xs xs) \<longleftrightarrow> (\<exists>x \<in> set xs. P x x)"
  by (induction xs) auto

lemma check_waiters_unconcerned:
  assumes "registry_wf (qe_registry e)" "passes_alone e ev a"
    and "check_waiters e qs ws = (out, ch, ws')" "\<forall>q \<in> set qs. unconcerned ev a q"
  shows "length ws' = length ws
    \<and> (\<forall>i < length ws. w_attributes (ws' ! i) = w_attributes (ws ! i) \<and> (w_attributes (ws ! i) = a \<longrightarrow> w_result (ws' ! i) = None))"
  using assms(3,4)
proof (induction ws arbitrary: qs out ch ws')
  case (Cons w ws)
  define p where "p = (case checkRequest e qs (w_attributes w) of
            Inl err \<Rightarrow> (qs, False, w\<lparr>w_result := Some err\<rparr>)
          | Inr nq \<Rightarrow>
              if at_dryRun (w_attributes w) then (qs, False, w\<lparr>w_result := None\<rparr>)
              else if list_ex (\<lambda>(q, q'). \<not> Equals (used_of q) (used_of q')) (zip qs nq) then (nq, True, w)
              else (nq, False, w\<lparr>w_result := None\<rparr>))"
  obtain q1 c1 w1 where q1: "p = (q1, c1, w1)" by (metis prod_cases3)
  have un: "\<forall>q \<in> set q1. unconcerned ev a q"
    using q1 Cons.prems(2) checkRequest_keeps_unconcerned [OF assms(1) _ Cons.prems(2)]
    by (auto simp: p_def split: sum.splits if_splits)
  have at: "w_attributes w1 = w_attributes w" using q1 by (auto simp: p_def split: sum.splits if_splits)
  have w1: "w_result w1 = None" if "w_attributes w = a"
  proof -
    have "\<forall>q \<in> set qs. Equals (used_of q) (used_of q)"
      using Cons.prems(2) by (auto simp: unconcerned_def wf_quota_def intro: Equals_refl)
    then have "\<not> list_ex (\<lambda>(q, q'). \<not> Equals (used_of q) (used_of q')) (zip qs qs)" unfolding list_ex_zip_refl by blast
    then show ?thesis
      using q1 that checkRequest_unconcerned [OF assms(2) Cons.prems(2)] by (auto simp: p_def split: if_splits)
  qed
  obtain q2 c2 ws2 where r: "check_waiters e q1 ws = (q2, c2, ws2)" by (metis prod_cases3)
  have ws': "ws' = w1 # ws2"
    using Cons.prems r q1 unfolding check_waiters_Cons p_def [symmetric] by (auto simp: Let_def)
  show ?case using Cons.IH [OF r un] at w1 by (auto simp: ws' nth_Cons split: nat.split)
qed simp

text \<open>A charge keeps the metadata, whatever the quotas are.\<close>

lemma charge_quotas_meta: "charge_quotas delta idxs qs = Inr out \<Longrightarrow> map rq_meta out = map rq_meta qs"
proof (induction idxs arbitrary: qs)
  case (Cons i idxs)
  have "map rq_meta (qs[i := set_used u (qs ! i)]) = map rq_meta qs" for u
    by (cases "i < length qs") (simp_all add: map_update list_update_same_conv list_update_beyond)
  then show ?case using Cons by (auto simp: Let_def split: prod.splits if_splits)
qed simp

lemma checkRequest_meta: "checkRequest e qs b = Inr out \<Longrightarrow> map rq_meta out = map rq_meta qs"
  by (auto simp: checkRequest_def split: option.splits elim!: CheckRequest_cases dest: charge_quotas_meta)

lemma check_waiters_meta: "check_waiters e qs ws = (out, ch, ws') \<Longrightarrow> map rq_meta out = map rq_meta qs"
  by (induction ws arbitrary: qs out ch ws')
    (fastforce simp: Let_def dest: checkRequest_meta split: sum.splits prod.splits if_splits)+

lemma update_quotas_failed: "update_quotas acc qs s = (failed, err, s') \<Longrightarrow> set failed \<subseteq> snd ` set qs"
  by (induction qs arbitrary: s failed err) (fastforce split: prod.splits if_splits option.splits)+

lemma failed_names:
  assumes "check_waiters e qs ws = (out, ch, ws')" "update_quotas acc (zip qs out) s = (failed, err, s')" "f \<in> set failed"
  shows "\<exists>q \<in> set qs. om_name (rq_meta f) = om_name (rq_meta q)"
proof -
  have "f \<in> set out" using update_quotas_failed [OF assms(2)] assms(3) by (force dest: set_zip_rightD)
  then have "rq_meta f \<in> rq_meta ` set qs" using check_waiters_meta [OF assms(1)] by (metis image_eqI list.set_map)
  then show ?thesis by auto
qed

text \<open>The retry admits such a request, whatever its result has been.\<close>

lemma settle_nth: "i < length ws \<Longrightarrow> w_result (ws ! i) = None \<Longrightarrow> w_result (settle r ws ! i) = None"
  by (simp add: settle_def IsDefaultDeny_def)

lemma checkQuotas_unconcerned:
  assumes "registry_wf (qe_registry e)" "passes_alone e ev a"
    and "\<forall>ns s nq s'. qa_GetQuotas acc ns s = (Inr nq, s') \<longrightarrow>
      (\<forall>q \<in> set nq. om_name (rq_meta q) \<in> N \<longrightarrow> unconcerned ev a q)"
    and "\<forall>q \<in> set qs. om_name (rq_meta q) \<in> N \<and> unconcerned ev a q"
    and "i < length ws" "w_attributes (ws ! i) = a"
  shows "w_result (fst (checkQuotas e acc n qs ws s) ! i) = None"
  using assms(4-6)
proof (induction n arbitrary: qs ws s)
  case 0
  obtain out ch ws1 where c: "check_waiters e qs ws = (out, ch, ws1)" by (metis prod_cases3)
  obtain failed err s1 where u: "update_quotas acc (zip qs out) s = (failed, err, s1)" by (metis prod_cases3)
  have w: "i < length ws1 \<and> w_result (ws1 ! i) = None"
    using check_waiters_unconcerned [OF assms(1,2) c] 0 by auto
  then show ?case using c u by (simp add: checkQuotas.simps [of _ _ 0] settle_nth)
next
  case (Suc n)
  obtain out ch ws1 where c: "check_waiters e qs ws = (out, ch, ws1)" by (metis prod_cases3)
  obtain failed err s1 where u: "update_quotas acc (zip qs out) s = (failed, err, s1)" by (metis prod_cases3)
  obtain r s2 where g: "qa_GetQuotas acc (om_namespace (rq_meta (out ! 0))) s1 = (r, s2)" by fastforce
  have w: "i < length ws1 \<and> w_result (ws1 ! i) = None \<and> w_attributes (ws1 ! i) = a"
    using check_waiters_unconcerned [OF assms(1,2) c] Suc.prems by auto
  show ?case
  proof (cases r)
    case (Inl e')
    then show ?thesis using c u g w by (simp add: checkQuotas.simps [of _ _ "Suc n"] settle_nth)
  next
    case (Inr nq)
    define sel where "sel = fold (\<lambda>newQuota acc.
        if list_ex (\<lambda>oldQuota. om_name (rq_meta newQuota) = om_name (rq_meta oldQuota)) failed
        then acc @ [newQuota] else acc) nq []"
    have sel: "\<forall>q \<in> set sel. q \<in> set nq \<and> (\<exists>f \<in> set failed. om_name (rq_meta q) = om_name (rq_meta f))"
      by (auto simp: sel_def fold_filter_append list_ex_iff)
    have "om_name (rq_meta f) \<in> N" if "f \<in> set failed" for f
      using failed_names [OF c u that] Suc.prems(1) by auto
    then have "\<forall>q \<in> set sel. om_name (rq_meta q) \<in> N \<and> unconcerned ev a q"
      using sel assms(3) g Inr by metis
    from Suc.IH [OF this, of ws1 s2] show ?thesis
      using c u g w Inr by (simp add: checkQuotas.simps [of _ _ "Suc n"] Let_def settle_nth flip: sel_def)
  qed
qed

section \<open>Properties\<close>

text \<open>C1. Quota safety: a request that is accepted leaves the hard limits alone, and if every
  quota was within its limits before, every quota is within them with the request charged.\<close>

theorem CheckRequest_safe:
  assumes "CheckRequest quotas a ev limited = Inr out" "usage_wf ev" "\<forall>q \<in> set quotas. wf_quota q \<and> within q"
  shows "length out = length quotas \<and> (\<forall>i < length quotas. within (out ! i) \<and> hard_of (out ! i) = hard_of (quotas ! i)
    \<and> rq_meta (out ! i) = rq_meta (quotas ! i))"
  using CheckRequest_ok [OF assms(1,2)] assms(3) by (auto simp: quota_ok_def)

text \<open>C10. Exact charging: an accepted request either changes no quota, or there is a charge such
  that every quota which matches the object is charged that amount for the resources it limits and no
  others, within its limits, and no other quota changes.\<close>

theorem CheckRequest_exact_charge:
  assumes "CheckRequest quotas a ev limited = Inr out" "usage_wf ev" "\<forall>q \<in> set quotas. wf_quota q"
  shows "out = quotas \<or> (\<exists>delta. request_delta ev a (default_namespace (at_namespace a) (at_object a)) = Inr delta \<and>
    (\<forall>i < length quotas.
      if ev_Matches ev (Some (quotas ! i)) (at_object a) = Inr True then
        \<forall>k. amount (used_of (out ! i)) k = amount (used_of (quotas ! i)) k
              + (if map_of (hard_of (quotas ! i)) k \<noteq> None then amount delta k else 0)
          \<and> (\<forall>x h. map_of delta k = Some x \<and> map_of (hard_of (quotas ! i)) k = Some h \<longrightarrow> amount (used_of (out ! i)) k \<le> h)
      else out ! i = quotas ! i))"
proof -
  from CheckRequest_charged [OF assms] consider "out = quotas"
    | delta where "request_delta ev a (default_namespace (at_namespace a) (at_object a)) = Inr delta" "wf_map delta"
       "\<forall>i < length quotas. if ev_Matches ev (Some (quotas ! i)) (at_object a) = Inr True
            then charged delta (quotas ! i) (out ! i) else out ! i = quotas ! i" by blast
  then show ?thesis
  proof cases
    case (2 delta)
    have "amount (used_of (out ! i)) k = amount (used_of (quotas ! i)) k
              + (if map_of (hard_of (quotas ! i)) k \<noteq> None then amount delta k else 0)
          \<and> (\<forall>x h. map_of delta k = Some x \<and> map_of (hard_of (quotas ! i)) k = Some h \<longrightarrow> amount (used_of (out ! i)) k \<le> h)"
      if "i < length quotas" "ev_Matches ev (Some (quotas ! i)) (at_object a) = Inr True" for i k
    proof -
      have ch: "charged delta (quotas ! i) (out ! i)" using 2(3) that by auto
      have wf: "wf_quota (quotas ! i)" using assms(3) that(1) by simp
      show ?thesis
        using charged_amount [OF ch wf 2(2), of k] ch by (auto simp: charged_def amount_def [of delta])
    qed
    then have "\<forall>i < length quotas.
      if ev_Matches ev (Some (quotas ! i)) (at_object a) = Inr True then
        \<forall>k. amount (used_of (out ! i)) k = amount (used_of (quotas ! i)) k
              + (if map_of (hard_of (quotas ! i)) k \<noteq> None then amount delta k else 0)
          \<and> (\<forall>x h. map_of delta k = Some x \<and> map_of (hard_of (quotas ! i)) k = Some h \<longrightarrow> amount (used_of (out ! i)) k \<le> h)
      else out ! i = quotas ! i"
      using 2(3) by (metis (no_types, lifting))
    then show ?thesis using 2(1) by blast
  qed simp
qed

text \<open>A request whose object reports a negative usage of some resource is refused, whatever
  the quotas are, so usage can never be pushed down by a crafted object.\<close>

lemma CheckRequest_negative:
  assumes "ev_Handles ev a" "getMatchedLimitedScopes ev (at_object a) limited [] = Inr ls"
    and "ev_Usage ev (default_namespace (at_namespace a) (at_object a)) = Inr u" "(k, v) \<in> set u" "v < 0"
  shows "isl (CheckRequest quotas a ev limited)"
proof -
  have "IsNegative u \<noteq> []" using assms(4,5) IsNegative_iff [of k u] by force
  then have "isl (request_delta ev a (default_namespace (at_namespace a) (at_object a)))"
    using assms(3) by (simp add: request_delta_def)
  then show ?thesis
    using assms(1,2) unfolding CheckRequest_def Let_def
    by (auto simp: isl_def split: sum.splits prod.splits)
qed

text \<open>C14. Every waiter of a batch is answered: whatever the accessor does, after the bounded
  retries no waiter is left with the default denial, and the waiters are the same ones.\<close>

theorem checkAttributes_decides:
  assumes "no_default_deny e acc"
  shows "(\<forall>w \<in> set (fst (checkAttributes e acc ns ws s)). w_result w \<noteq> Some DefaultDenyErr)
    \<and> map w_attributes (fst (checkAttributes e acc ns ws s)) = map w_attributes ws"
proof -
  obtain r s1 where g: "qa_GetQuotas acc ns s = (r, s1)" by fastforce
  have "r \<noteq> Inl DefaultDenyErr" using assms g unfolding no_default_deny_def by (metis fst_conv)
  then show ?thesis
    using checkQuotas_decided [OF assms, of 3 _ ws s1] g
    by (cases r) (auto simp: checkAttributes_def Let_def IsDefaultDeny_def split: option.splits)
qed

text \<open>C8. Batching is invisible: when no status update fails, the answers of a batch are those
  of handling the requests one after the other, each against the quotas as charged by the accepted ones
  before it, dry-run requests being checked without a charge.\<close>

theorem checkQuotas_sequential:
  assumes "\<forall>qs a. checkRequest e qs a \<noteq> Inl DefaultDenyErr" "\<forall>w \<in> set ws. undecided w"
    "\<forall>q s. fst (qa_UpdateQuotaStatus acc q s) = None"
  shows "map w_result (fst (checkQuotas e acc n quotas ws s)) = batch_spec e quotas (map w_attributes ws)"
proof -
  obtain out ch ws1 where c: "check_waiters e quotas ws = (out, ch, ws1)" by (metis prod_cases3)
  obtain failed err s1 where u: "update_quotas acc (zip quotas out) s = (failed, err, s1)" by (metis prod_cases3)
  have f: "failed = []" using update_quotas_all_ok [OF assms(3)] u by (metis fst_conv)
  have "fst (checkQuotas e acc n quotas ws s) = (if ch then settle None ws1 else ws1)"
    using c u f by (simp add: checkQuotas.simps)
  moreover have "\<not> ch \<Longrightarrow> settle None ws1 = ws1"
    using check_waiters_undecided [OF assms(1) c] by (auto simp: settle_def intro: map_idI)
  ultimately have "fst (checkQuotas e acc n quotas ws s) = settle None ws1" by (simp split: if_splits)
  then show ?thesis using check_waiters_spec [OF assms(1,2) c] by simp
qed

section \<open>Examples\<close>

definition ev_no_default_deny :: "evaluator \<Rightarrow> bool" where
  "ev_no_default_deny ev \<longleftrightarrow> (\<forall>obj. ev_Usage ev obj \<noteq> Inl DefaultDenyErr)
     \<and> (\<forall>q obj. ev_Matches ev q obj \<noteq> Inl DefaultDenyErr)
     \<and> (\<forall>l m. ev_UncoveredQuotaScopes ev l m \<noteq> Inl DefaultDenyErr)"

lemma charge_quotas_err: "charge_quotas delta idxs qs \<noteq> Inl DefaultDenyErr"
  by (induction idxs arbitrary: qs) (auto simp: Let_def split: prod.splits)

lemma find_interesting_err:
  "ev_no_default_deny ev \<Longrightarrow> find_interesting ev obj i qs idxs R S \<noteq> Inl DefaultDenyErr"
  by (induction qs arbitrary: i idxs R S)
    (auto simp: ev_no_default_deny_def Let_def split: sum.splits option.splits)

lemma request_delta_err: "ev_no_default_deny ev \<Longrightarrow> request_delta ev a obj \<noteq> Inl DefaultDenyErr"
  by (auto simp: ev_no_default_deny_def request_delta_def split: sum.splits option.splits)

lemma limited_names_err: "ev_no_default_deny ev \<Longrightarrow> limited_names ev a limited \<noteq> Inl DefaultDenyErr"
  by (auto simp: ev_no_default_deny_def limited_names_def Let_def split: sum.splits)

lemma CheckRequest_err:
  assumes "ev_no_default_deny ev"
  shows "CheckRequest quotas a ev limited \<noteq> Inl DefaultDenyErr"
  using request_delta_err [OF assms] limited_names_err [OF assms] find_interesting_err [OF assms]
    charge_quotas_err assms
  unfolding CheckRequest_def Let_def ev_no_default_deny_def
  by (auto split: sum.splits prod.splits)

lemma count_no_default_deny: "ev_no_default_deny (NewObjectCountEvaluator gr lf al)"
proof -
  have "match_scopes MatchesNoScopeFunc obj ss acc \<noteq> Inl e" for obj ss acc e
    by (induction ss arbitrary: acc) (auto simp: MatchesNoScopeFunc_def)
  then show ?thesis
    by (auto simp: ev_no_default_deny_def NewObjectCountEvaluator_def Let_def objectCount_Usage_def Matches_def
      split: option.splits sum.splits)
qed

lemma count_usage_wf: "usage_wf (NewObjectCountEvaluator gr lf al)"
  by (simp add: usage_wf_def count_ev.usage_wf)

definition ex_ev :: "string \<Rightarrow> evaluator" where
  "ex_ev r = NewObjectCountEvaluator (core_resource r) (\<lambda>_. Inr []) r"

lemma ex_ev_wf: "usage_wf (ex_ev r)"
  by (simp add: ex_ev_def count_usage_wf)

definition ex_config :: quota_evaluator_config where
  "ex_config = \<lparr>qe_ignoredResources = [],
     qe_registry = NewRegistry [ex_ev ''secrets'', ex_ev ''configmaps''], qe_limited = [],
     qe_lockAcquisitionFunc = None\<rparr>"

definition ex_create :: "string \<Rightarrow> attributes" where
  "ex_create r = \<lparr>at_name = ''x'', at_namespace = ''ns'', at_groupResource = core_resource r,
     at_subresource = [], at_operation = CreateOp, at_object = MetaObj empty_meta, at_oldObject = None,
     at_dryRun = False\<rparr>"

definition ex_quota :: "string \<Rightarrow> string \<Rightarrow> int \<Rightarrow> resource_quota" where
  "ex_quota name r hard = \<lparr>rq_meta = empty_meta\<lparr>om_name := name, om_namespace := ''ns''\<rparr>,
     rq_spec = \<lparr>qs_hard = [(r, NewQuantity hard)], qs_scopes = [], qs_scopeSelector = None\<rparr>,
     rq_status = \<lparr>st_hard = Some [(r, NewQuantity hard)], st_used = Some [(r, 0)]\<rparr>\<rparr>"

text \<open>The quota for secrets is exhausted, the one for config maps is not.\<close>

definition ex_quotas :: "resource_quota list" where
  "ex_quotas = [ex_quota ''a'' ''secrets'' 0, ex_quota ''b'' ''configmaps'' 5]"

text \<open>An accessor whose first update runs into a conflict; its state counts the updates.\<close>

definition ex_accessor :: "nat \<Rightarrow> nat quota_accessor" where
  "ex_accessor conflicts = \<lparr>
     qa_UpdateQuotaStatus = (\<lambda>q n. (if n < conflicts then Some (ConflictErr (om_name (rq_meta q))) else None, Suc n)),
     qa_GetQuotas = (\<lambda>ns n. (Inr ex_quotas, n))\<rparr>"

definition ex_waiters :: "waiter list" where
  "ex_waiters = [newAdmissionWaiter (ex_create ''configmaps''), newAdmissionWaiter (ex_create ''secrets'')]"

lemma ex_registry_Get:
  "Registry_Get (qe_registry ex_config) gr =
     (if gr = core_resource ''secrets'' then Some (ex_ev ''secrets'')
      else if gr = core_resource ''configmaps'' then Some (ex_ev ''configmaps'') else None)"
  by (simp add: ex_config_def NewRegistry_def Registry_Get_def ex_ev_def NewObjectCountEvaluator_def Let_def
    core_resource_def map_of_put)

lemma ex_no_default_deny: "no_default_deny ex_config (ex_accessor n)"
  unfolding no_default_deny_def
proof (intro conjI allI)
  show "checkRequest ex_config qs a \<noteq> Inl DefaultDenyErr" for qs a
    by (simp add: checkRequest_def ex_registry_Get CheckRequest_err ex_ev_def count_no_default_deny)
qed (simp_all add: ex_accessor_def)

lemma ex_quotas_ok: "\<forall>q \<in> set ex_quotas. wf_quota q \<and> within q"
  by (simp add: ex_quotas_def ex_quota_def wf_quota_def within_def hard_of_def used_of_def amount_def NewQuantity_def)

lemma ex_check_configmaps:
  "checkRequest ex_config ex_quotas (ex_create ''configmaps'') =
     Inr [ex_quota ''a'' ''secrets'' 0, set_used [(''configmaps'', 10 ^ 9)] (ex_quota ''b'' ''configmaps'' 5)]"
  by code_simp

lemma ex_CheckRequest:
  "CheckRequest ex_quotas (ex_create ''configmaps'') (ex_ev ''configmaps'') [] =
     Inr [ex_quota ''a'' ''secrets'' 0, set_used [(''configmaps'', 10 ^ 9)] (ex_quota ''b'' ''configmaps'' 5)]"
  by code_simp

theorem CheckRequest_safe_witness:
  "within (set_used [(''configmaps'', 10 ^ 9)] (ex_quota ''b'' ''configmaps'' 5))"
proof -
  have "length ex_quotas = 2" by (simp add: ex_quotas_def)
  then show ?thesis
    using CheckRequest_safe [OF ex_CheckRequest ex_ev_wf ex_quotas_ok]
    by (auto dest!: spec [of _ 1])
qed

theorem CheckRequest_exact_charge_witness:
  "\<exists>delta. request_delta (ex_ev ''configmaps'') (ex_create ''configmaps'')
      (default_namespace ''ns'' (MetaObj empty_meta)) = Inr delta \<and> amount delta ''configmaps'' = 10 ^ 9"
proof -
  define out where "out = [ex_quota ''a'' ''secrets'' 0, set_used [(''configmaps'', 10 ^ 9)] (ex_quota ''b'' ''configmaps'' 5)]"
  have wf: "\<forall>q \<in> set ex_quotas. wf_quota q" using ex_quotas_ok by blast
  have len: "length ex_quotas = 2" by (simp add: ex_quotas_def)
  have ne: "out \<noteq> ex_quotas"
    by (simp add: out_def ex_quotas_def ex_quota_def set_used_def)
  have m: "ev_Matches (ex_ev ''configmaps'') (Some (ex_quotas ! 1)) (at_object (ex_create ''configmaps'')) = Inr True"
    by code_simp
  obtain delta where d: "request_delta (ex_ev ''configmaps'') (ex_create ''configmaps'')
        (default_namespace (at_namespace (ex_create ''configmaps'')) (at_object (ex_create ''configmaps''))) = Inr delta"
    and k: "\<forall>i < length ex_quotas.
      if ev_Matches (ex_ev ''configmaps'') (Some (ex_quotas ! i)) (at_object (ex_create ''configmaps'')) = Inr True then
        \<forall>k. amount (used_of (out ! i)) k = amount (used_of (ex_quotas ! i)) k
              + (if map_of (hard_of (ex_quotas ! i)) k \<noteq> None then amount delta k else 0)
          \<and> (\<forall>x h. map_of delta k = Some x \<and> map_of (hard_of (ex_quotas ! i)) k = Some h \<longrightarrow> amount (used_of (out ! i)) k \<le> h)
      else out ! i = ex_quotas ! i"
    using CheckRequest_exact_charge [OF ex_CheckRequest [folded out_def]
        ex_ev_wf wf] ne by blast
  have "amount (used_of (out ! 1)) ''configmaps'' = amount (used_of (ex_quotas ! 1)) ''configmaps'' + amount delta ''configmaps''"
    using k [rule_format, of 1] m len
    by (simp add: ex_quotas_def ex_quota_def hard_of_def)
  then have "amount delta ''configmaps'' = 10 ^ 9"
    by (simp add: out_def ex_quotas_def ex_quota_def used_of_def amount_def set_used_def)
  then show ?thesis using d by (auto simp: ex_create_def)
qed

definition ex_negative_pvc :: attributes where
  "ex_negative_pvc = (ex_create ''persistentvolumeclaims'')\<lparr>at_object :=
     PvcObj \<lparr>pvc_meta = empty_meta, pvc_storageClassName = None, pvc_requests = [(''storage'', - 1)]\<rparr>\<rparr>"

theorem CheckRequest_negative_witness:
  "isl (CheckRequest ex_quotas ex_negative_pvc (NewPersistentVolumeClaimEvaluator (\<lambda>_. Inl (OtherErr []))) [])"
proof (rule CheckRequest_negative [where k = "''requests.storage''" and v = "- 1"])
  show "ev_Handles (NewPersistentVolumeClaimEvaluator (\<lambda>_. Inl (OtherErr []))) ex_negative_pvc"
    by (simp add: NewPersistentVolumeClaimEvaluator_def Let_def pvc_Handles_def ex_negative_pvc_def ex_create_def)
  show "ev_Usage (NewPersistentVolumeClaimEvaluator (\<lambda>_. Inl (OtherErr [])))
     (default_namespace (at_namespace ex_negative_pvc) (at_object ex_negative_pvc)) =
      Inr [(''persistentvolumeclaims'', 10 ^ 9), (''count/persistentvolumeclaims'', 10 ^ 9), (''requests.storage'', - 1)]"
    by code_simp
qed simp_all

theorem checkAttributes_decides_witness:
  "list_all (\<lambda>w. w_result w \<noteq> Some DefaultDenyErr) (fst (checkAttributes ex_config (ex_accessor 9) ''ns'' ex_waiters 0))"
  using checkAttributes_decides [OF ex_no_default_deny [of 9], of "''ns''" ex_waiters 0]
  unfolding list_all_iff by blast

theorem checkQuotas_sequential_witness:
  "map w_result (fst (checkQuotas ex_config (ex_accessor 0) 3 ex_quotas ex_waiters 0)) =
     batch_spec ex_config ex_quotas (map w_attributes ex_waiters)"
proof (rule checkQuotas_sequential)
  show "\<forall>qs a. checkRequest ex_config qs a \<noteq> Inl DefaultDenyErr"
    using ex_no_default_deny [of 0] unfolding no_default_deny_def by blast
  show "\<forall>w \<in> set ex_waiters. undecided w"
    by (simp add: ex_waiters_def newAdmissionWaiter_def IsDefaultDeny_def)
  show "\<forall>q s. fst (qa_UpdateQuotaStatus (ex_accessor 0) q s) = None"
    by (simp add: ex_accessor_def)
qed



end
