(* ===== verification/QuotaQueue.thy ===== *)
theory QuotaQueue
  imports QuotaAdmission
begin

text \<open>
  How waiting requests are bundled by namespace and handed to the workers of the quota
  evaluator (\<open>Evaluate\<close>, \<open>addWork\<close>, \<open>getWork\<close>, \<open>completeWork\<close> and \<open>doWork\<close> of
  \<open>kube/plugin/pkg/admission/resourcequota/controller.go\<close>), as a state machine over the
  work queue of client-go. A worker takes a namespace from the queue first and takes the lock
  afterwards, so these are two steps between which the others may act; the sections under the
  lock are one step each. Waiters are numbers.
\<close>

section \<open>The work queue\<close>

record workqueue =
  wq_queue :: "string list"
  wq_dirty :: string_set
  wq_processing :: string_set

definition wq_New :: workqueue where
  "wq_New = \<lparr>wq_queue = [], wq_dirty = {}, wq_processing = {}\<rparr>"

definition wq_Add :: "string \<Rightarrow> workqueue \<Rightarrow> workqueue" where
  "wq_Add item q =
    (if item \<in> wq_dirty q then q
     else let q = q\<lparr>wq_dirty := insert item (wq_dirty q)\<rparr>
          in if item \<in> wq_processing q then q else q\<lparr>wq_queue := wq_queue q @ [item]\<rparr>)"

text \<open>\<open>Get\<close> blocks on an empty queue.\<close>

definition wq_Get :: "workqueue \<Rightarrow> (string \<times> workqueue) option" where
  "wq_Get q = (case wq_queue q of
     [] \<Rightarrow> None
   | item # rest \<Rightarrow> Some (item, q\<lparr>wq_queue := rest, wq_processing := insert item (wq_processing q),
        wq_dirty := wq_dirty q - {item}\<rparr>))"

definition wq_Done :: "string \<Rightarrow> workqueue \<Rightarrow> workqueue" where
  "wq_Done item q =
    (let q = q\<lparr>wq_processing := wq_processing q - {item}\<rparr>
     in if item \<in> wq_dirty q then q\<lparr>wq_queue := wq_queue q @ [item]\<rparr> else q)"

text \<open>
  What the evaluator relies on: an item is handed out to one worker at a time, and an item added while it is
  being processed is queued again when it is done.
\<close>

locale exclusive_queue =
  fixes add :: "'k \<Rightarrow> 'q \<Rightarrow> 'q" and get :: "'q \<Rightarrow> ('k \<times> 'q) option" and fin :: "'k \<Rightarrow> 'q \<Rightarrow> 'q"
    and inv :: "'q \<Rightarrow> bool" and queued processing redo :: "'q \<Rightarrow> 'k set"
  assumes add_inv: "inv q \<Longrightarrow> inv (add k q)"
    and add_queued: "inv q \<Longrightarrow> queued (add k q) = (if k \<in> processing q then queued q else insert k (queued q))"
    and add_processing: "inv q \<Longrightarrow> processing (add k q) = processing q"
    and add_redo: "inv q \<Longrightarrow> redo (add k q) = (if k \<in> processing q then insert k (redo q) else redo q)"
    and get_inv: "inv q \<Longrightarrow> get q = Some (k, q') \<Longrightarrow> inv q'"
    and get_queued: "inv q \<Longrightarrow> get q = Some (k, q') \<Longrightarrow> k \<in> queued q \<and> queued q' = queued q - {k}"
    and get_processing: "inv q \<Longrightarrow> get q = Some (k, q') \<Longrightarrow> k \<notin> processing q \<and> processing q' = insert k (processing q)"
    and get_redo: "inv q \<Longrightarrow> get q = Some (k, q') \<Longrightarrow> redo q' = redo q"
    and get_None: "inv q \<Longrightarrow> get q = None \<longleftrightarrow> queued q = {}"
    and fin_inv: "inv q \<Longrightarrow> k \<in> processing q \<Longrightarrow> inv (fin k q)"
    and fin_queued: "inv q \<Longrightarrow> k \<in> processing q \<Longrightarrow> queued (fin k q) = (if k \<in> redo q then insert k (queued q) else queued q)"
    and fin_processing: "inv q \<Longrightarrow> k \<in> processing q \<Longrightarrow> processing (fin k q) = processing q - {k}"
    and fin_redo: "inv q \<Longrightarrow> k \<in> processing q \<Longrightarrow> redo (fin k q) = redo q - {k}"
begin

text \<open>An item added while a worker has it is delivered again after the worker is done.\<close>

lemma readd_redelivered:
  assumes "inv q" "get q = Some (k, q')"
  shows "k \<in> queued (fin k (add k q'))"
proof -
  have "inv q'" "k \<in> processing q'" using assms get_inv get_processing by auto
  then show ?thesis
    using add_inv add_processing add_redo fin_queued by simp
qed

text \<open>Without such an addition it is not.\<close>

lemma not_redelivered:
  assumes "inv q" "get q = Some (k, q')" "k \<notin> redo q"
  shows "k \<notin> queued (fin k q')"
proof -
  have "inv q'" "k \<in> processing q'" "k \<notin> queued q'" using assms get_inv get_processing get_queued by auto
  then show ?thesis using assms get_redo fin_queued by simp
qed

end

definition wq_inv :: "workqueue \<Rightarrow> bool" where
  "wq_inv q \<longleftrightarrow> distinct (wq_queue q) \<and> set (wq_queue q) = wq_dirty q - wq_processing q"

definition wq_queued :: "workqueue \<Rightarrow> string_set" where "wq_queued q = set (wq_queue q)"
definition wq_redo :: "workqueue \<Rightarrow> string_set" where "wq_redo q = wq_dirty q \<inter> wq_processing q"

interpretation wq: exclusive_queue wq_Add wq_Get wq_Done wq_inv wq_queued wq_processing wq_redo
proof
  fix q q' :: workqueue and k
  assume inv: "wq_inv q"
  show "wq_inv (wq_Add k q)" using inv by (auto simp: wq_inv_def wq_Add_def Let_def)
  show "wq_queued (wq_Add k q) = (if k \<in> wq_processing q then wq_queued q else insert k (wq_queued q))"
    using inv by (auto simp: wq_inv_def wq_Add_def wq_queued_def Let_def)
  show "wq_processing (wq_Add k q) = wq_processing q" by (simp add: wq_Add_def Let_def)
  show "wq_redo (wq_Add k q) = (if k \<in> wq_processing q then insert k (wq_redo q) else wq_redo q)"
    by (auto simp: wq_Add_def wq_redo_def Let_def)
  show "(wq_Get q = None) = (wq_queued q = {})"
    by (auto simp: wq_Get_def wq_queued_def split: list.splits)
  { assume g: "wq_Get q = Some (k, q')"
    then obtain rest where q': "wq_queue q = k # rest" "q' = q\<lparr>wq_queue := rest,
        wq_processing := insert k (wq_processing q), wq_dirty := wq_dirty q - {k}\<rparr>"
      by (auto simp: wq_Get_def split: list.splits)
    have k: "k \<in> wq_dirty q" "k \<notin> wq_processing q" "k \<notin> set rest" "distinct rest"
      "set rest = (wq_dirty q - wq_processing q) - {k}"
      using inv q'(1) by (auto simp: wq_inv_def)
    show "wq_inv q'" using q' k by (auto simp: wq_inv_def)
    show "k \<in> wq_queued q \<and> wq_queued q' = wq_queued q - {k}" using q' k by (auto simp: wq_queued_def)
    show "k \<notin> wq_processing q \<and> wq_processing q' = insert k (wq_processing q)" using q' k by simp
    show "wq_redo q' = wq_redo q" using q' k by (auto simp: wq_redo_def) }
  { assume k: "k \<in> wq_processing q"
    show "wq_inv (wq_Done k q)" using inv k by (auto simp: wq_inv_def wq_Done_def Let_def)
    show "wq_queued (wq_Done k q) = (if k \<in> wq_redo q then insert k (wq_queued q) else wq_queued q)"
      using k by (auto simp: wq_queued_def wq_Done_def wq_redo_def Let_def)
    show "wq_processing (wq_Done k q) = wq_processing q - {k}" by (simp add: wq_Done_def Let_def)
    show "wq_redo (wq_Done k q) = wq_redo q - {k}" by (auto simp: wq_redo_def wq_Done_def Let_def) }
qed

section \<open>The bundled work\<close>

text \<open>
  \<open>es_got\<close> are the namespaces a worker has taken from the queue without having the lock yet; \<open>es_busy\<close> the
  waiters a worker is evaluating, \<open>es_finished\<close> those whose channel is closed. \<open>es_added\<close> records all waiters.
\<close>

record eval_state =
  es_queue :: workqueue
  es_work :: "string \<Rightarrow> nat list"
  es_dirtyWork :: "string \<Rightarrow> nat list"
  es_inProgress :: string_set
  es_got :: string_set
  es_busy :: "string \<Rightarrow> nat list"
  es_finished :: "string \<Rightarrow> nat list"
  es_added :: "string \<Rightarrow> nat list"

definition init_state :: eval_state where
  "init_state = \<lparr>es_queue = wq_New, es_work = (\<lambda>_. []), es_dirtyWork = (\<lambda>_. []), es_inProgress = {},
     es_got = {}, es_busy = (\<lambda>_. []), es_finished = (\<lambda>_. []), es_added = (\<lambda>_. [])\<rparr>"

definition addWork :: "string \<Rightarrow> nat \<Rightarrow> eval_state \<Rightarrow> eval_state" where
  "addWork ns a e =
    (let e = e\<lparr>es_added := (es_added e)(ns := es_added e ns @ [a])\<rparr>;
         e = e\<lparr>es_queue := wq_Add ns (es_queue e)\<rparr>
     in if ns \<in> es_inProgress e then
          e\<lparr>es_dirtyWork := (es_dirtyWork e)(ns := es_dirtyWork e ns @ [a])\<rparr>
        else e\<lparr>es_work := (es_work e)(ns := es_work e ns @ [a])\<rparr>)"

text \<open>\<open>completeWork\<close>, after \<open>checkAttributes\<close> has closed the channels of the worker's waiters.\<close>

definition completeWork :: "string \<Rightarrow> eval_state \<Rightarrow> eval_state" where
  "completeWork ns e =
    (let e = e\<lparr>es_finished := (es_finished e)(ns := es_finished e ns @ es_busy e ns),
                es_busy := (es_busy e)(ns := [])\<rparr>
     in e\<lparr>es_queue := wq_Done ns (es_queue e),
           es_work := (es_work e)(ns := es_dirtyWork e ns),
           es_dirtyWork := (es_dirtyWork e)(ns := []),
           es_inProgress := es_inProgress e - {ns}\<rparr>)"

text \<open>\<open>getWork\<close>: the queue first, then the section under the lock.\<close>

definition getWork_take :: "eval_state \<Rightarrow> (string \<times> eval_state) option" where
  "getWork_take e = (case wq_Get (es_queue e) of
     None \<Rightarrow> None
   | Some (ns, q) \<Rightarrow> Some (ns, e\<lparr>es_queue := q, es_got := insert ns (es_got e)\<rparr>))"

definition getWork_lock :: "string \<Rightarrow> eval_state \<Rightarrow> eval_state" where
  "getWork_lock ns e =
    e\<lparr>es_busy := (es_busy e)(ns := es_work e ns),
      es_work := (es_work e)(ns := []),
      es_dirtyWork := (es_dirtyWork e)(ns := []),
      es_inProgress := insert ns (es_inProgress e),
      es_got := es_got e - {ns}\<rparr>"

inductive step :: "eval_state \<Rightarrow> eval_state \<Rightarrow> bool" where
  step_add: "step e (addWork ns a e)"
| step_take: "getWork_take e = Some (ns, e') \<Longrightarrow> step e e'"
| step_lock: "ns \<in> es_got e \<Longrightarrow> step e (getWork_lock ns e)"
| step_complete: "ns \<in> es_inProgress e \<Longrightarrow> step e (completeWork ns e)"

inductive_cases stepE: "step e e'"

inductive reachable :: "eval_state \<Rightarrow> bool" where
  reach_init: "reachable init_state"
| reach_step: "reachable e \<Longrightarrow> step e e' \<Longrightarrow> reachable e'"

section \<open>The invariant\<close>

text \<open>What holds for each namespace.\<close>

definition ns_inv :: "eval_state \<Rightarrow> string \<Rightarrow> bool" where
  "ns_inv e ns \<longleftrightarrow> (ns \<in> es_inProgress e \<longrightarrow> es_work e ns = [])
     \<and> (es_dirtyWork e ns \<noteq> [] \<longrightarrow> ns \<in> es_inProgress e \<and> ns \<in> wq_redo (es_queue e))
     \<and> (es_work e ns \<noteq> [] \<longrightarrow> ns \<in> wq_queued (es_queue e) \<or> ns \<in> es_got e)
     \<and> (es_busy e ns \<noteq> [] \<longrightarrow> ns \<in> es_inProgress e)
     \<and> mset (es_finished e ns) + mset (es_busy e ns) + mset (es_work e ns) + mset (es_dirtyWork e ns)
          = mset (es_added e ns)"

definition eval_inv :: "eval_state \<Rightarrow> bool" where
  "eval_inv e \<longleftrightarrow> wq_inv (es_queue e)
     \<and> wq_processing (es_queue e) = es_got e \<union> es_inProgress e \<and> es_got e \<inter> es_inProgress e = {}
     \<and> (\<forall>ns. ns_inv e ns)"

lemma eval_invD:
  assumes "eval_inv e"
  shows "wq_inv (es_queue e)" "wq_processing (es_queue e) = es_got e \<union> es_inProgress e"
    "es_got e \<inter> es_inProgress e = {}" "ns_inv e ns"
  using assms unfolding eval_inv_def by blast+

lemma inv_init: "eval_inv init_state"
  by (simp add: eval_inv_def ns_inv_def init_state_def wq_New_def wq_inv_def)

lemma inv_add:
  assumes "eval_inv e"
  shows "eval_inv (addWork ns a e)"
proof -
  note I = eval_invD [OF assms]
  have ns: "ns_inv (addWork ns a e) m" for m
    using I(4) [of m] I(2,3) wq.add_queued [OF I(1), of ns] wq.add_redo [OF I(1), of ns]
    by (cases "m = ns"; cases "ns \<in> es_inProgress e") (auto simp: ns_inv_def addWork_def Let_def ac_simps)
  show ?thesis
    unfolding eval_inv_def
  proof (intro conjI allI ns)
    show "wq_inv (es_queue (addWork ns a e))" using wq.add_inv [OF I(1)] by (simp add: addWork_def Let_def)
    show "wq_processing (es_queue (addWork ns a e)) = es_got (addWork ns a e) \<union> es_inProgress (addWork ns a e)"
      using wq.add_processing [OF I(1)] I(2) by (simp add: addWork_def Let_def)
    show "es_got (addWork ns a e) \<inter> es_inProgress (addWork ns a e) = {}"
      using I(3) by (simp add: addWork_def Let_def)
  qed
qed

lemma inv_take:
  assumes "eval_inv e" "getWork_take e = Some (ns, e')"
  shows "eval_inv e'"
proof -
  note I = eval_invD [OF assms(1)]
  obtain q where q: "wq_Get (es_queue e) = Some (ns, q)" "e' = e\<lparr>es_queue := q, es_got := insert ns (es_got e)\<rparr>"
    using assms(2) by (auto simp: getWork_take_def split: option.splits prod.splits)
  note G = wq.get_inv [OF I(1) q(1)] wq.get_queued [OF I(1) q(1)] wq.get_processing [OF I(1) q(1)] wq.get_redo [OF I(1) q(1)]
  have ns: "ns_inv e' m" for m
    using I(4) [of m] G by (cases "m = ns") (auto simp: ns_inv_def q(2))
  show ?thesis
    unfolding eval_inv_def
  proof (intro conjI allI ns)
    show "wq_inv (es_queue e')" using G(1) by (simp add: q(2))
    show "wq_processing (es_queue e') = es_got e' \<union> es_inProgress e'" using G(3) I(2) by (auto simp: q(2))
    show "es_got e' \<inter> es_inProgress e' = {}" using G(3) I(2,3) by (auto simp: q(2))
  qed
qed

lemma inv_lock:
  assumes "eval_inv e" "ns \<in> es_got e"
  shows "eval_inv (getWork_lock ns e)"
proof -
  note I = eval_invD [OF assms(1)]
  have ni: "ns \<notin> es_inProgress e" using I(3) assms(2) by blast
  have ns: "ns_inv (getWork_lock ns e) m" for m
    using I(4) [of m] ni by (cases "m = ns") (auto simp: ns_inv_def getWork_lock_def)
  show ?thesis
    unfolding eval_inv_def
    by (intro conjI allI ns) (use I(1,2,3) assms(2) in \<open>auto simp: getWork_lock_def\<close>)
qed

lemma inv_complete:
  assumes "eval_inv e" "ns \<in> es_inProgress e"
  shows "eval_inv (completeWork ns e)"
proof -
  note I = eval_invD [OF assms(1)]
  have p: "ns \<in> wq_processing (es_queue e)" "ns \<notin> es_got e" using I(2,3) assms(2) by blast+
  note F = wq.fin_inv [OF I(1) p(1)] wq.fin_queued [OF I(1) p(1)] wq.fin_processing [OF I(1) p(1)] wq.fin_redo [OF I(1) p(1)]
  have ns: "ns_inv (completeWork ns e) m" for m
    using I(4) [of m] F assms(2) by (cases "m = ns") (auto simp: ns_inv_def completeWork_def Let_def)
  show ?thesis
    unfolding eval_inv_def
  proof (intro conjI allI ns)
    show "wq_inv (es_queue (completeWork ns e))" using F(1) by (simp add: completeWork_def Let_def)
    show "wq_processing (es_queue (completeWork ns e)) = es_got (completeWork ns e) \<union> es_inProgress (completeWork ns e)"
      using F(3) I(2) p by (auto simp: completeWork_def Let_def)
    show "es_got (completeWork ns e) \<inter> es_inProgress (completeWork ns e) = {}"
      using I(3) by (auto simp: completeWork_def Let_def)
  qed
qed

lemma inv_step: "eval_inv e \<Longrightarrow> step e e' \<Longrightarrow> eval_inv e'"
  by (auto elim!: stepE intro: inv_add inv_take inv_lock inv_complete)

lemma inv_reachable: "reachable e \<Longrightarrow> eval_inv e"
  by (induction rule: reachable.induct) (auto intro: inv_init inv_step)

section \<open>Entering the queue\<close>

text \<open>
  \<open>Evaluate\<close> up to the point where it waits: the request is admitted at once, or a waiter for it is queued. An
  evaluator is created for a resource nobody evaluates yet. The wait ends with the waiter's result or with the
  timeout error after ten seconds.
\<close>

datatype evaluate_outcome = EvAdmit | EvWait waiter

definition Evaluate_enter ::
  "quota_evaluator_config \<Rightarrow> attributes \<Rightarrow> evaluate_outcome \<times> quota_evaluator_config"
where
  "Evaluate_enter e a =
    (let gr = at_groupResource a in
     if gr \<in> set (qe_ignoredResources e) then (EvAdmit, e)
     else
       let (evaluator, e) = (case Registry_Get (qe_registry e) gr of
              Some evaluator \<Rightarrow> (evaluator, e)
            | None \<Rightarrow>
                let evaluator = NewObjectCountEvaluator gr (\<lambda>_. Inl (OtherErr ''no lister'')) []
                in (evaluator, e\<lparr>qe_registry := Registry_Add (qe_registry e) evaluator\<rparr>))
       in if \<not> ev_Handles evaluator a then (EvAdmit, e) else (EvWait (newAdmissionWaiter a), e))"

definition Evaluate_leave :: "waiter option \<Rightarrow> gerror option" where
  "Evaluate_leave finished = (case finished of
     Some w \<Rightarrow> w_result w
   | None \<Rightarrow> Some (InternalErr ''resource quota evaluates timeout''))"

section \<open>Properties\<close>

text \<open>C3. No request is lost and none is evaluated twice: in every reachable state of the workers
  and for every namespace, the waiters added so far are, counted with multiplicity, exactly those that are
  finished, being evaluated, or waiting.\<close>

theorem no_waiter_lost:
  assumes "reachable e"
  shows "mset (es_finished e ns) + mset (es_busy e ns) + mset (es_work e ns) + mset (es_dirtyWork e ns) = mset (es_added e ns)"
  using eval_invD(4) [OF inv_reachable [OF assms], of ns] by (simp add: ns_inv_def)

lemma reachable_example:
  "reachable (getWork_lock ''ns'' (addWork ''ns'' 1 ((addWork ''ns'' 0 init_state)\<lparr>es_queue :=
     \<lparr>wq_queue = [], wq_dirty = {}, wq_processing = {''ns''}\<rparr>, es_got := {''ns''}\<rparr>)))"
proof -
  have 1: "reachable (addWork ''ns'' 0 init_state)"
    by (rule reach_step [OF reach_init step_add])
  have "getWork_take (addWork ''ns'' 0 init_state) = Some (''ns'', (addWork ''ns'' 0 init_state)\<lparr>es_queue :=
     \<lparr>wq_queue = [], wq_dirty = {}, wq_processing = {''ns''}\<rparr>, es_got := {''ns''}\<rparr>)"
    by (simp add: getWork_take_def addWork_def init_state_def wq_New_def wq_Add_def wq_Get_def Let_def)
  from reach_step [OF reach_step [OF 1 step_take [OF this]] step_add]
  show ?thesis by (rule reach_step) (rule step_lock, simp add: addWork_def Let_def)
qed

theorem no_waiter_lost_witness:
  "mset (es_busy (getWork_lock ''ns'' (addWork ''ns'' 1 ((addWork ''ns'' 0 init_state)\<lparr>es_queue :=
     \<lparr>wq_queue = [], wq_dirty = {}, wq_processing = {''ns''}\<rparr>, es_got := {''ns''}\<rparr>))) ''ns'') = {#0, 1#}"
  using no_waiter_lost [OF reachable_example, of "''ns''"]
  by (simp add: getWork_lock_def addWork_def init_state_def Let_def)

text \<open>No request is stranded: in every reachable state, a namespace with waiting requests is
  in the queue or held by a worker, so when the queue is empty and all workers are idle every request that was
  ever added has been answered.\<close>

lemma no_waiter_stranded:
  assumes "reachable e"
  shows "(es_work e ns \<noteq> [] \<or> es_dirtyWork e ns \<noteq> [] \<longrightarrow> ns \<in> wq_queued (es_queue e) \<union> es_got e \<union> es_inProgress e)
    \<and> (wq_queue (es_queue e) = [] \<and> es_got e = {} \<and> es_inProgress e = {} \<longrightarrow> mset (es_finished e ns) = mset (es_added e ns))"
  using eval_invD(4) [OF inv_reachable [OF assms], of ns] by (auto simp: ns_inv_def wq_queued_def)

theorem no_waiter_stranded_witness:
  "''ns'' \<in> wq_queued (es_queue (addWork ''ns'' 0 init_state)) \<union> es_got (addWork ''ns'' 0 init_state)
     \<union> es_inProgress (addWork ''ns'' 0 init_state)"
  using no_waiter_stranded [OF reach_step [OF reach_init step_add], of "''ns''" 0 "''ns''"]
  by (simp add: addWork_def init_state_def Let_def)

text \<open>Requests of one namespace are never evaluated concurrently: the queue hands a
  namespace to a worker only if no other worker holds it, and no worker holds it twice.\<close>

lemma namespace_exclusive:
  assumes "reachable e" "getWork_take e = Some (ns, e')"
  shows "ns \<notin> es_got e \<and> ns \<notin> es_inProgress e \<and> es_busy e ns = [] \<and> es_got e' \<inter> es_inProgress e' = {}"
proof -
  note I = eval_invD [OF inv_reachable [OF assms(1)]]
  obtain q where q: "wq_Get (es_queue e) = Some (ns, q)" using assms(2)
    by (auto simp: getWork_take_def split: option.splits prod.splits)
  have "ns \<notin> es_got e" "ns \<notin> es_inProgress e" using wq.get_processing [OF I(1) q] I(2) by auto
  moreover have "es_got e' \<inter> es_inProgress e' = {}"
    using eval_invD(3) [OF inv_take [OF inv_reachable [OF assms(1)] assms(2)]] .
  ultimately show ?thesis using I(4) [of ns] by (auto simp: ns_inv_def)
qed

theorem namespace_exclusive_witness:
  "''ns'' \<notin> es_got (addWork ''ns'' 0 init_state)"
  using namespace_exclusive [OF reach_step [OF reach_init step_add], of "''ns''" 0 "''ns''"]
  by (simp add: getWork_take_def addWork_def init_state_def wq_New_def wq_Add_def wq_Get_def Let_def)

text \<open>No resource escapes quota evaluation for lack of an evaluator: after entering, a request
  for a resource that is not ignored has an evaluator in the registry, and it is queued for evaluation exactly
  if that evaluator handles the operation.\<close>

lemma Evaluate_enter_registers:
  assumes "at_groupResource a \<notin> set (qe_ignoredResources e)" "Evaluate_enter e a = (r, e')"
  shows "\<exists>ev. Registry_Get (qe_registry e') (at_groupResource a) = Some ev
    \<and> (r = EvWait (newAdmissionWaiter a) \<longleftrightarrow> ev_Handles ev a) \<and> (r = EvAdmit \<longleftrightarrow> \<not> ev_Handles ev a)"
proof (cases "Registry_Get (qe_registry e) (at_groupResource a)")
  case (Some ev)
  then show ?thesis using assms by (auto simp: Evaluate_enter_def Let_def split: if_splits)
next
  case None
  define ev where "ev = NewObjectCountEvaluator (at_groupResource a) (\<lambda>_. Inl (OtherErr ''no lister'')) []"
  have gr: "ev_GroupResource ev = at_groupResource a" by (simp add: ev_def NewObjectCountEvaluator_def Let_def)
  have e': "e' = e\<lparr>qe_registry := Registry_Add (qe_registry e) ev\<rparr>"
    "r = (if ev_Handles ev a then EvWait (newAdmissionWaiter a) else EvAdmit)"
    using assms None by (auto simp: Evaluate_enter_def Let_def split: if_splits simp flip: ev_def)
  then show ?thesis by (simp add: Registry_Get_def Registry_Add_def map_of_put gr)
qed

theorem Evaluate_enter_registers_witness:
  "\<exists>ev. Registry_Get (qe_registry (snd (Evaluate_enter ex_config (ex_create ''widgets'')))) (core_resource ''widgets'') = Some ev"
  using Evaluate_enter_registers [of "ex_create ''widgets''" ex_config "fst (Evaluate_enter ex_config (ex_create ''widgets''))"
    "snd (Evaluate_enter ex_config (ex_create ''widgets''))"]
  by (auto simp: ex_config_def ex_create_def)

end
