(* ===== verification/ApiServer.thy ===== *)
theory ApiServer
  imports ApiTypes
begin

text \<open>
  What the components use of the API server and of client-go, none of which is kiosk's code:
  resource versions as etcd's versioner reads them (\<open>vendor/k8s.io/apiserver/pkg/storage/etcd3\<close>),
  the LRU cache of \<open>vendor/github.com/hashicorp/golang-lru\<close>, and a store with optimistic concurrency
  behind a cache that lags. The components take their clients as parameters; the store is the client on
  which their interfaces are interpreted.
\<close>

section \<open>Resource versions\<close>

definition is_digit :: "char \<Rightarrow> bool" where
  "is_digit c \<longleftrightarrow> CHR ''0'' \<le> c \<and> c \<le> CHR ''9''"

text \<open>\<open>strconv.ParseUint(s, 10, 64)\<close>.\<close>

definition ParseUint :: "string \<Rightarrow> gerror + int" where
  "ParseUint s =
    (if s = [] \<or> \<not> list_all is_digit s then Inl (OtherErr ''invalid syntax'')
     else let n = foldl (\<lambda>n c. 10 * n + (of_char c - 48)) 0 s
          in if n < 2 ^ 64 then Inr n else Inl (OtherErr ''value out of range''))"

definition ObjectResourceVersion :: "obj_meta \<Rightarrow> gerror + int" where
  "ObjectResourceVersion m = (if om_resourceVersion m = [] then Inr 0 else ParseUint (om_resourceVersion m))"

text \<open>A version that does not parse makes \<open>CompareResourceVersion\<close> panic; the error is the value of the panic.\<close>

definition CompareResourceVersion :: "obj_meta \<Rightarrow> obj_meta \<Rightarrow> gerror + int" where
  "CompareResourceVersion lhs rhs =
    (case ObjectResourceVersion lhs of
       Inl err \<Rightarrow> Inl err
     | Inr l \<Rightarrow> (case ObjectResourceVersion rhs of
         Inl err \<Rightarrow> Inl err
       | Inr r \<Rightarrow> Inr (if l = r then 0 else if l < r then - 1 else 1)))"

function string_of_nat :: "nat \<Rightarrow> string" where
  "string_of_nat n = (if n < 10 then [char_of (48 + n)] else string_of_nat (n div 10) @ [char_of (48 + n mod 10)])"
  by auto
termination by (relation "measure id") auto

declare string_of_nat.simps [simp del]

section \<open>LRU caches\<close>

text \<open>The entries with the most recently used one first; the caches of the code hold a hundred of them.\<close>

type_synonym 'v lru = "(string \<times> 'v) list"

definition lru_size :: nat where "lru_size = 100"

definition lru_Add :: "string \<Rightarrow> 'v \<Rightarrow> 'v lru \<Rightarrow> 'v lru" where
  "lru_Add key value c =
    (case map_of c key of
       Some _ \<Rightarrow> (key, value) # del key c
     | None \<Rightarrow> let c = (key, value) # c in if length c > lru_size then butlast c else c)"

definition lru_Get :: "string \<Rightarrow> 'v lru \<Rightarrow> 'v option \<times> 'v lru" where
  "lru_Get key c = (case map_of c key of Some v \<Rightarrow> (Some v, (key, v) # del key c) | None \<Rightarrow> (None, c))"

definition lru_Remove :: "string \<Rightarrow> 'v lru \<Rightarrow> 'v lru" where
  "lru_Remove key c = del key c"

definition lru_ok :: "'v lru \<Rightarrow> bool" where
  "lru_ok c \<longleftrightarrow> wf_map c \<and> length c \<le> lru_size"

lemma set_del: "set (del k c) \<subseteq> set c"
  by (auto simp: AList.delete_eq)

lemma length_del: "length (del k c) \<le> length c"
  by (rule length_delete_le)

lemma lru_entries:
  "set (lru_Add k v c) \<subseteq> insert (k, v) (set c)"
  "lru_Get k c = (r, c') \<Longrightarrow> set c' \<subseteq> set c \<and> (\<forall>v. r = Some v \<longrightarrow> (k, v) \<in> set c)"
  "set (lru_Remove k c) \<subseteq> set c"
  using set_del [of k c]
  by (auto simp: lru_Add_def lru_Get_def lru_Remove_def Let_def map_of_SomeD split: option.splits if_splits dest: in_set_butlastD)

lemma lru_Get_lookup: "fst (lru_Get k c) = map_of c k"
  by (simp add: lru_Get_def split: option.splits)

lemma lru_ok_Remove: "lru_ok c \<Longrightarrow> lru_ok (lru_Remove k c)"
  using length_del [of k c] by (auto simp: lru_ok_def lru_Remove_def wf_del)

lemma length_del_less: "map_of c k = Some v \<Longrightarrow> length (del k c) < length c"
  by (induction c) (auto split: if_splits intro: le_imp_less_Suc length_delete_le)

lemma lru_ok_front:
  assumes "lru_ok c" "map_of c k = Some v"
  shows "lru_ok ((k, w) # del k c)"
proof -
  have "k \<notin> fst ` set (del k c)" by (auto simp: AList.delete_eq)
  then show ?thesis
    using assms length_del_less [OF assms(2)] by (simp add: lru_ok_def wf_del)
qed

lemma lru_ok_Get: "lru_ok c \<Longrightarrow> lru_ok (snd (lru_Get k c))"
  by (auto simp: lru_Get_def lru_ok_front split: option.splits)

lemma lru_ok_Add: "lru_ok c \<Longrightarrow> lru_ok (lru_Add k v c)"
proof (cases "map_of c k")
  case None
  assume ok: "lru_ok c"
  have "wf_map ((k, v) # c)" using ok None by (simp add: lru_ok_def map_of_eq_None_iff)
  moreover from this have "wf_map (butlast ((k, v) # c))" by (metis distinct_butlast map_butlast)
  ultimately show ?thesis using ok None by (auto simp: lru_Add_def lru_ok_def Let_def lru_size_def)
qed (simp add: lru_Add_def lru_ok_front)

section \<open>A store behind a lagging cache\<close>

text \<open>
  Objects by their key. Before the n-th read of the cache the watch events of the n-th list of keys
  arrive; the revision is that of the last write.
\<close>

record 'o api_store =
  as_objects :: "(string \<times> 'o) list"
  as_cache :: "(string \<times> 'o) list"
  as_lag :: "string list list"
  as_revision :: nat

definition deliver :: "string \<Rightarrow> 'o api_store \<Rightarrow> 'o api_store" where
  "deliver k st = st\<lparr>as_cache := (case map_of (as_objects st) k of
      Some x \<Rightarrow> put k x (as_cache st) | None \<Rightarrow> del k (as_cache st))\<rparr>"

definition store_tick :: "'o api_store \<Rightarrow> 'o api_store" where
  "store_tick st = (case as_lag st of [] \<Rightarrow> st | ks # rest \<Rightarrow> fold deliver ks (st\<lparr>as_lag := rest\<rparr>))"

definition store_Get :: "string \<Rightarrow> 'o api_store \<Rightarrow> 'o option \<times> 'o api_store" where
  "store_Get k st = (let st = store_tick st in (map_of (as_cache st) k, st))"

definition store_List :: "('o \<Rightarrow> bool) \<Rightarrow> 'o api_store \<Rightarrow> 'o list \<times> 'o api_store" where
  "store_List sel st = (let st = store_tick st in (filter sel (map snd (as_cache st)), st))"

text \<open>
  An update of a subresource: the object must exist, and be the version that is updated unless none is given;
  \<open>merge\<close> says what of the new object the subresource takes over.
\<close>

definition store_Update ::
  "('o \<Rightarrow> string) \<Rightarrow> (nat \<Rightarrow> 'o \<Rightarrow> 'o \<Rightarrow> 'o) \<Rightarrow> string \<Rightarrow> 'o \<Rightarrow> 'o api_store \<Rightarrow> (gerror + 'o) \<times> 'o api_store"
where
  "store_Update version merge k new st =
    (case map_of (as_objects st) k of
       None \<Rightarrow> (Inl (NotFoundErr k), st)
     | Some old \<Rightarrow>
         if version new \<noteq> [] \<and> version new \<noteq> version old then (Inl (ConflictErr k), st)
         else let r = Suc (as_revision st); x = merge r old new
              in (Inr x, st\<lparr>as_objects := put k x (as_objects st), as_revision := r\<rparr>))"

definition all_entries :: "(string \<Rightarrow> 'o \<Rightarrow> bool) \<Rightarrow> (string \<times> 'o) list \<Rightarrow> bool" where
  "all_entries Q m \<longleftrightarrow> (\<forall>(k, x) \<in> set m. Q k x)"

lemma all_entries_Nil: "all_entries Q []"
  by (simp add: all_entries_def)

lemma all_entries_put: "all_entries Q m \<Longrightarrow> Q k v \<Longrightarrow> all_entries Q (put k v m)"
  by (induction m) (auto simp: all_entries_def)

lemma all_entries_del: "all_entries Q m \<Longrightarrow> all_entries Q (del k m)"
  using set_del [of k m] by (auto simp: all_entries_def)

lemma all_entries_lookup: "all_entries Q m \<Longrightarrow> map_of m k = Some x \<Longrightarrow> Q k x"
  by (auto simp: all_entries_def dest: map_of_SomeD)

lemma all_entries_subset: "all_entries Q m \<Longrightarrow> set m' \<subseteq> set m \<Longrightarrow> all_entries Q m'"
  by (auto simp: all_entries_def)

lemma all_entries_lru:
  assumes "all_entries Q c"
  shows "Q k v \<Longrightarrow> all_entries Q (lru_Add k v c)" "lru_Get k c = (r, c') \<Longrightarrow> all_entries Q c'"
    "lru_Get k c = (Some x, c') \<Longrightarrow> Q k x" "all_entries Q (lru_Remove k c)"
proof -
  have "all_entries Q (lru_Add k v c)" if "Q k v"
  proof -
    have "all_entries Q ((k, v) # c)" using assms that by (simp add: all_entries_def)
    then show ?thesis 
      by (rule all_entries_subset) (use lru_entries(1) [of k v c] in simp)
  qed
  then show "Q k v \<Longrightarrow> all_entries Q (lru_Add k v c)" .
  show "lru_Get k c = (r, c') \<Longrightarrow> all_entries Q c'" using assms lru_entries(2) all_entries_subset by metis
  show "lru_Get k c = (Some x, c') \<Longrightarrow> Q k x"
    using all_entries_lookup [OF assms] lru_Get_lookup [of k c] by simp
  show "all_entries Q (lru_Remove k c)" using assms lru_entries(3) all_entries_subset by metis
qed

definition store_all :: "(string \<Rightarrow> 'o \<Rightarrow> bool) \<Rightarrow> 'o api_store \<Rightarrow> bool" where
  "store_all Q st \<longleftrightarrow> all_entries Q (as_objects st) \<and> all_entries Q (as_cache st)"

lemma deliver_all: "store_all Q st \<Longrightarrow> store_all Q (deliver k st)"
  by (auto simp: deliver_def store_all_def all_entries_put all_entries_del all_entries_lookup split: option.splits)

lemma tick_all: "store_all Q st \<Longrightarrow> store_all Q (store_tick st)"
proof -
  assume st: "store_all Q st"
  have "store_all Q st \<Longrightarrow> store_all Q (fold deliver ks st)" for ks st
    by (induction ks arbitrary: st) (auto simp: deliver_all)
  moreover have "store_all Q (st\<lparr>as_lag := l\<rparr>)" for l using st by (simp add: store_all_def)
  ultimately show "store_all Q (store_tick st)" using st by (auto simp: store_tick_def split: list.splits)
qed

lemma store_Get_all:
  assumes "store_all Q st" "store_Get k st = (r, st')"
  shows "store_all Q st'" "r = Some x \<Longrightarrow> Q k x"
  using assms tick_all [OF assms(1)] by (auto simp: store_Get_def Let_def store_all_def all_entries_lookup)

lemma store_List_all:
  assumes "store_all Q st" "store_List sel st = (xs, st')"
  shows "store_all Q st'" "x \<in> set xs \<Longrightarrow> sel x \<and> (\<exists>k. Q k x)"
proof -
  show "store_all Q st'" using assms tick_all [OF assms(1)] by (simp add: store_List_def Let_def)
  assume "x \<in> set xs"
  then have "sel x" "x \<in> snd ` set (as_cache (store_tick st))" using assms(2) by (auto simp: store_List_def Let_def)
  then show "sel x \<and> (\<exists>k. Q k x)" using tick_all [OF assms(1)] by (force simp: store_all_def all_entries_def)
qed

lemma store_Update_cases:
  assumes "store_Update version merge k new st = (r, st')"
  obtains e where "r = Inl e" "st' = st"
  | old x where "map_of (as_objects st) k = Some old" "x = merge (Suc (as_revision st)) old new" "r = Inr x"
      "version new = [] \<or> version new = version old"
      "st' = st\<lparr>as_objects := put k x (as_objects st), as_revision := Suc (as_revision st)\<rparr>"
proof (cases "map_of (as_objects st) k")
  case None
  then show thesis using assms that(1) [of "NotFoundErr k"] by (simp add: store_Update_def)
next
  case (Some old)
  show thesis
  proof (cases "version new \<noteq> [] \<and> version new \<noteq> version old")
    case True
    then show thesis using assms that(1) [of "ConflictErr k"] Some by (simp add: store_Update_def)
  next
    case False
    then have "r = Inr (merge (Suc (as_revision st)) old new)
        \<and> st' = st\<lparr>as_objects := put k (merge (Suc (as_revision st)) old new) (as_objects st), as_revision := Suc (as_revision st)\<rparr>"
      using assms Some by (auto simp: store_Update_def Let_def)
    then show thesis using that(2) [OF Some refl] False by blast
  qed
qed

lemma store_Update_all:
  assumes "store_all Q st" "\<And>r old. Q k old \<Longrightarrow> Q k (merge r old new)" "store_Update version merge k new st = (r, st')"
  shows "store_all Q st' \<and> (\<forall>x. r = Inr x \<longrightarrow> Q k x)"
  using assms(3)
proof (cases rule: store_Update_cases)
  case (2 old x)
  then have "Q k x" using assms(1,2) all_entries_lookup by (metis store_all_def)
  then show ?thesis using 2 assms(1) by (simp add: store_all_def all_entries_put)
qed (simp add: assms)

end
