(* ===== verification/QuotaAccess.thy ===== *)
theory QuotaAccess
  imports QuotaQueue ApiServer
begin

text \<open>
  The accessor of resource quotas (\<open>kube/plugin/pkg/admission/resourcequota/resource_access.go\<close>): a lister,
  live lookups for namespaces the lister knows no quotas of, and a cache of the quotas it has just updated, of
  which the newer version wins; and the admission plugin around it (\<open>admission.go\<close>). The lister and the
  client are a parameter whose laws are the locale \<open>quota_client\<close>.
\<close>

section \<open>The accessor\<close>

record 'w rq_client =
  rc_UpdateStatus :: "resource_quota \<Rightarrow> 'w \<Rightarrow> (gerror + resource_quota) \<times> 'w"
  rc_Lister :: "string \<Rightarrow> 'w \<Rightarrow> (gerror + resource_quota list) \<times> 'w"
  rc_List :: "string \<Rightarrow> 'w \<Rightarrow> (gerror + resource_quota list) \<times> 'w"
  rc_Now :: "'w \<Rightarrow> int"

record live_lookup_entry =
  le_expiry :: int
  le_items :: "resource_quota list"

record 'w rq_access =
  ra_world :: 'w
  ra_liveLookupCache :: "live_lookup_entry lru"
  ra_liveTTL :: int
  ra_updatedQuotas :: "resource_quota lru"

definition newQuotaAccessor :: "'w \<Rightarrow> 'w rq_access" where
  "newQuotaAccessor w = \<lparr>ra_world = w, ra_liveLookupCache = [], ra_liveTTL = 30 * 10 ^ 9, ra_updatedQuotas = []\<rparr>"

definition quota_key :: "resource_quota \<Rightarrow> string" where
  "quota_key q = om_namespace (rq_meta q) @ ''/'' @ om_name (rq_meta q)"

definition rq_UpdateQuotaStatus :: "'w rq_client \<Rightarrow> resource_quota \<Rightarrow> 'w rq_access \<Rightarrow> gerror option \<times> 'w rq_access" where
  "rq_UpdateQuotaStatus client newQuota e =
    (case rc_UpdateStatus client newQuota (ra_world e) of
       (Inl err, w) \<Rightarrow> (Some err, e\<lparr>ra_world := w\<rparr>)
     | (Inr updatedQuota, w) \<Rightarrow>
         (None, e\<lparr>ra_world := w, ra_updatedQuotas := lru_Add (quota_key newQuota) updatedQuota (ra_updatedQuotas e)\<rparr>))"

definition rq_checkCache ::
  "resource_quota \<Rightarrow> resource_quota lru \<Rightarrow> (gerror + resource_quota) \<times> resource_quota lru"
where
  "rq_checkCache quota updatedQuotas =
    (let key = quota_key quota in
     case lru_Get key updatedQuotas of
       (None, c) \<Rightarrow> (Inr quota, c)
     | (Some cachedQuota, c) \<Rightarrow>
         (case CompareResourceVersion (rq_meta quota) (rq_meta cachedQuota) of
            Inl err \<Rightarrow> (Inl err, c)
          | Inr r \<Rightarrow> if r \<ge> 0 then (Inr quota, lru_Remove key c) else (Inr cachedQuota, c)))"

fun rq_check_items ::
  "resource_quota list \<Rightarrow> resource_quota lru \<Rightarrow> resource_quota list \<Rightarrow> (gerror + resource_quota list) \<times> resource_quota lru"
where
  "rq_check_items [] c resourceQuotas = (Inr resourceQuotas, c)"
| "rq_check_items (quota # items) c resourceQuotas =
     (case rq_checkCache quota c of
        (Inl err, c) \<Rightarrow> (Inl err, c)
      | (Inr quota, c) \<Rightarrow> rq_check_items items c (resourceQuotas @ [quota]))"

text \<open>The lookup behind an empty lister: an entry of the cache that has not expired, or a live list.\<close>

definition live_hit :: "int \<Rightarrow> live_lookup_entry option \<Rightarrow> live_lookup_entry option" where
  "live_hit now r = (case r of Some entry \<Rightarrow> if le_expiry entry < now then None else Some entry | None \<Rightarrow> None)"

definition rq_live_lookup :: "'w rq_client \<Rightarrow> string \<Rightarrow> 'w rq_access \<Rightarrow> (gerror + resource_quota list) \<times> 'w rq_access" where
  "rq_live_lookup client namespace e =
    (case lru_Get namespace (ra_liveLookupCache e) of
       (r, c) \<Rightarrow>
         let e = e\<lparr>ra_liveLookupCache := c\<rparr> in
         (case live_hit (rc_Now client (ra_world e)) r of
            Some entry \<Rightarrow> (Inr (le_items entry), e)
          | None \<Rightarrow>
              (case rc_List client namespace (ra_world e) of
                 (Inl err, w) \<Rightarrow> (Inl err, e\<lparr>ra_world := w\<rparr>)
               | (Inr liveList, w) \<Rightarrow>
                   let newEntry = \<lparr>le_expiry = rc_Now client w + ra_liveTTL e, le_items = liveList\<rparr>
                   in (Inr liveList, e\<lparr>ra_world := w, ra_liveLookupCache := lru_Add namespace newEntry (ra_liveLookupCache e)\<rparr>))))"

definition rq_GetQuotas :: "'w rq_client \<Rightarrow> string \<Rightarrow> 'w rq_access \<Rightarrow> (gerror + resource_quota list) \<times> 'w rq_access" where
  "rq_GetQuotas client namespace e =
    (case rc_Lister client namespace (ra_world e) of
       (Inl err, w) \<Rightarrow> (Inl (OtherErr (''error resolving quota: '' @ err_msg err)), e\<lparr>ra_world := w\<rparr>)
     | (Inr items, w) \<Rightarrow>
         let e = e\<lparr>ra_world := w\<rparr> in
         (case (if length items = 0 then rq_live_lookup client namespace e else (Inr items, e)) of
            (Inl err, e) \<Rightarrow> (Inl err, e)
          | (Inr items, e) \<Rightarrow>
              (case rq_check_items items (ra_updatedQuotas e) [] of
                 (r, c) \<Rightarrow> (r, e\<lparr>ra_updatedQuotas := c\<rparr>))))"

definition quotaAccessor :: "'w rq_client \<Rightarrow> 'w rq_access quota_accessor" where
  "quotaAccessor client =
    \<lparr>qa_UpdateQuotaStatus = rq_UpdateQuotaStatus client, qa_GetQuotas = rq_GetQuotas client\<rparr>"

section \<open>The admission plugin\<close>

text \<open>
  \<open>Evaluate\<close> for a request that no other one is bundled with: the worker answers it before the timeout.
\<close>

definition Evaluate_alone ::
  "'s quota_accessor \<Rightarrow> attributes \<Rightarrow> quota_evaluator_config \<Rightarrow> 's \<Rightarrow> gerror option \<times> quota_evaluator_config \<times> 's"
where
  "Evaluate_alone acc a e s =
    (case Evaluate_enter e a of
       (EvAdmit, e) \<Rightarrow> (None, e, s)
     | (EvWait w, e) \<Rightarrow>
         (case checkAttributes e acc (at_namespace a) [w] s of
            (ws, s) \<Rightarrow> (Evaluate_leave (Some (hd ws)), e, s)))"

text \<open>What the initialisers have set; the evaluator exists once the configuration is there.\<close>

record quota_plugin =
  qp_limited :: "limited_resource list"
  qp_hasAccessor :: bool
  qp_hasClient :: bool
  qp_hasLister :: bool
  qp_hasConfiguration :: bool
  qp_evaluator :: "quota_evaluator_config option"

definition NewResourceQuota :: "limited_resource list \<Rightarrow> quota_plugin" where
  "NewResourceQuota limited = \<lparr>qp_limited = limited, qp_hasAccessor = True, qp_hasClient = False,
     qp_hasLister = False, qp_hasConfiguration = False, qp_evaluator = None\<rparr>"

definition SetExternalKubeClientSet :: "quota_plugin \<Rightarrow> quota_plugin" where
  "SetExternalKubeClientSet a = a\<lparr>qp_hasClient := True\<rparr>"

definition SetExternalKubeInformerFactory :: "quota_plugin \<Rightarrow> quota_plugin" where
  "SetExternalKubeInformerFactory a = a\<lparr>qp_hasLister := True\<rparr>"

definition NewQuotaEvaluator ::
  "group_resource list \<Rightarrow> quota_registry \<Rightarrow> (resource_quota list \<Rightarrow> resource_quota list) option \<Rightarrow>
   limited_resource list option \<Rightarrow> quota_evaluator_config"
where
  "NewQuotaEvaluator ignored registry lockAcquisition config =
    \<lparr>qe_ignoredResources = ignored, qe_registry = registry,
     qe_limited = (case config of None \<Rightarrow> [] | Some limited \<Rightarrow> limited), qe_lockAcquisitionFunc = lockAcquisition\<rparr>"

definition SetQuotaConfiguration :: "group_resource list \<Rightarrow> evaluator list \<Rightarrow> quota_plugin \<Rightarrow> quota_plugin" where
  "SetQuotaConfiguration ignored evaluators a =
    a\<lparr>qp_hasConfiguration := True,
      qp_evaluator := Some (NewQuotaEvaluator ignored (NewRegistry evaluators) None (Some (qp_limited a)))\<rparr>"

definition ValidateInitialization :: "quota_plugin \<Rightarrow> gerror option" where
  "ValidateInitialization a =
    (if \<not> qp_hasAccessor a then Some (OtherErr ''missing quotaAccessor'')
     else if \<not> qp_hasClient a then Some (OtherErr ''missing quotaAccessor.client'')
     else if \<not> qp_hasLister a then Some (OtherErr ''missing quotaAccessor.lister'')
     else if \<not> qp_hasConfiguration a then Some (OtherErr ''missing quotaConfiguration'')
     else if qp_evaluator a = None then Some (OtherErr ''missing evaluator'')
     else None)"

text \<open>\<open>Validate\<close> of the plugin and of kiosk's admission ignore subresources and what has no namespace.\<close>

definition quota_Validate ::
  "'s quota_accessor \<Rightarrow> attributes \<Rightarrow> quota_evaluator_config \<Rightarrow> 's \<Rightarrow> gerror option \<times> quota_evaluator_config \<times> 's"
where
  "quota_Validate acc a e s =
    (if at_subresource a \<noteq> [] then (None, e, s)
     else if at_namespace a = [] then (None, e, s)
     else Evaluate_alone acc a e s)"

text \<open>A sequence of requests, none of them bundled with another.\<close>

fun quota_Validates ::
  "'s quota_accessor \<Rightarrow> attributes list \<Rightarrow> quota_evaluator_config \<Rightarrow> 's \<Rightarrow> gerror option list \<times> quota_evaluator_config \<times> 's"
where
  "quota_Validates acc [] e s = ([], e, s)"
| "quota_Validates acc (a # as) e s =
     (case quota_Validate acc a e s of
        (r, e, s) \<Rightarrow> (case quota_Validates acc as e s of (rs, e, s) \<Rightarrow> (r # rs, e, s)))"

text \<open>A configuration the invariants of accessors hold for.\<close>

definition config_ok :: "quota_evaluator_config \<Rightarrow> bool" where
  "config_ok e \<longleftrightarrow> registry_wf (qe_registry e)
     \<and> (\<forall>lock qs. qe_lockAcquisitionFunc e = Some lock \<longrightarrow> set (lock qs) = set qs)"

lemma config_ok_enter: "config_ok e \<Longrightarrow> config_ok (snd (Evaluate_enter e a))"
  by (simp add: Evaluate_enter_def config_ok_def Let_def Registry_Add_def registry_wf_put count_usage_wf split: option.splits)

lemma Evaluate_enter_waiter: "Evaluate_enter e a = (EvWait w, e') \<Longrightarrow> w = newAdmissionWaiter a"
  by (auto simp: Evaluate_enter_def Let_def split: option.splits if_splits)

context accessor_inv
begin

lemma Evaluate_alone_inv:
  assumes "config_ok e" "P s" "Evaluate_alone acc a e s = (r, e', s')"
  shows "config_ok e' \<and> P s'"
proof -
  obtain o' e1 where en: "Evaluate_enter e a = (o', e1)" by fastforce
  have e1: "config_ok e1" using config_ok_enter [OF assms(1), of a] en by simp
  show ?thesis
  proof (cases o')
    case EvAdmit
    then show ?thesis using assms en e1 by (simp add: Evaluate_alone_def)
  next
    case (EvWait w)
    have "P (snd (checkAttributes e1 acc (at_namespace a) [w] s))"
      using checkAttributes_inv [OF _ assms(2)] e1 by (simp add: config_ok_def)
    then show ?thesis using assms(3) en e1 EvWait by (auto simp: Evaluate_alone_def split: prod.splits)
  qed
qed

lemma Validate_inv:
  assumes "config_ok e" "P s" "quota_Validate acc a e s = (r, e', s')"
  shows "config_ok e' \<and> P s'"
  using assms Evaluate_alone_inv [OF assms(1,2)] by (auto simp: quota_Validate_def split: if_splits)

lemma Validates_inv:
  "config_ok e \<Longrightarrow> P s \<Longrightarrow> quota_Validates acc as e s = (rs, e', s') \<Longrightarrow> P s'"
proof (induction as arbitrary: e s rs e' s')
  case (Cons a as)
  obtain r e1 s1 where v: "quota_Validate acc a e s = (r, e1, s1)" by (metis prod_cases3)
  obtain rs1 e2 s2 where vs: "quota_Validates acc as e1 s1 = (rs1, e2, s2)" by (metis prod_cases3)
  show ?case using Validate_inv [OF Cons.prems(1,2) v] Cons.IH [OF _ _ vs] Cons.prems(3) v vs by simp
qed simp

end

section \<open>The interface of the client\<close>

definition rq_inv :: "('w \<Rightarrow> bool) \<Rightarrow> (resource_quota \<Rightarrow> bool) \<Rightarrow> 'w rq_access \<Rightarrow> bool" where
  "rq_inv W ok e \<longleftrightarrow> W (ra_world e) \<and> all_entries (\<lambda>_ entry. \<forall>q \<in> set (le_items entry). ok q) (ra_liveLookupCache e)
     \<and> all_entries (\<lambda>_. ok) (ra_updatedQuotas e)"

lemma checkCache_entries:
  assumes "all_entries (\<lambda>_. ok) c" "ok q" "rq_checkCache q c = (r, c')"
  shows "all_entries (\<lambda>_. ok) c' \<and> (\<forall>q'. r = Inr q' \<longrightarrow> ok q')"
proof -
  obtain g c1 where g: "lru_Get (quota_key q) c = (g, c1)" by fastforce
  note c1 = all_entries_lru(2) [OF assms(1) g]
  show ?thesis
  proof (cases g)
    case None
    then show ?thesis using assms(2,3) g c1 by (auto simp: rq_checkCache_def)
  next
    case (Some cq)
    have cq: "ok cq" using all_entries_lru(3) [OF assms(1)] g Some by blast
    note c2 = all_entries_lru(4) [OF c1, of "quota_key q"]
    show ?thesis
    proof (cases "CompareResourceVersion (rq_meta q) (rq_meta cq)")
      case (Inl err)
      then show ?thesis using assms(3) g c1 Some by (auto simp: rq_checkCache_def)
    next
      case (Inr v)
      then show ?thesis
        using assms(2,3) g c1 c2 cq Some by (cases "v \<ge> 0") (auto simp: rq_checkCache_def)
    qed
  qed
qed

lemma check_items_entries:
  assumes "all_entries (\<lambda>_. ok) c" "\<forall>q \<in> set items. ok q" "\<forall>q \<in> set acc. ok q" "rq_check_items items c acc = (r, c')"
  shows "all_entries (\<lambda>_. ok) c' \<and> (\<forall>qs. r = Inr qs \<longrightarrow> (\<forall>q \<in> set qs. ok q))"
  using assms
proof (induction items arbitrary: c acc)
  case (Cons q items)
  obtain g c1 where g: "rq_checkCache q c = (g, c1)" by fastforce
  have k: "all_entries (\<lambda>_. ok) c1 \<and> (\<forall>q'. g = Inr q' \<longrightarrow> ok q')"
    using checkCache_entries [OF Cons.prems(1) _ g] Cons.prems(2) by simp
  show ?case
  proof (cases g)
    case (Inl err)
    then show ?thesis using Cons.prems(4) g k by auto
  next
    case (Inr q')
    have "rq_check_items items c1 (acc @ [q']) = (r, c')" using Cons.prems(4) g Inr by simp
    then show ?thesis using Cons.IH [of c1 "acc @ [q']"] Cons.prems(2,3) k Inr by simp
  qed
qed auto

text \<open>
  What the client promises: lists and the results of updates are quotas that are \<open>ok\<close>, as long as only such
  quotas are written.
\<close>

locale quota_client =
  fixes client :: "'w rq_client" and W :: "'w \<Rightarrow> bool" and ok :: "resource_quota \<Rightarrow> bool"
  assumes update_law: "W w \<Longrightarrow> ok q \<Longrightarrow> rc_UpdateStatus client q w = (r, w') \<Longrightarrow> W w' \<and> (\<forall>q'. r = Inr q' \<longrightarrow> ok q')"
    and lister_law: "W w \<Longrightarrow> rc_Lister client ns w = (l, w') \<Longrightarrow> W w' \<and> (\<forall>qs. l = Inr qs \<longrightarrow> (\<forall>q \<in> set qs. ok q))"
    and list_law: "W w \<Longrightarrow> rc_List client ns w = (l, w') \<Longrightarrow> W w' \<and> (\<forall>qs. l = Inr qs \<longrightarrow> (\<forall>q \<in> set qs. ok q))"
    and client_ok: "ok q \<Longrightarrow> quota_ok q"
    and client_charged: "ok q \<Longrightarrow> same_limits q q' \<Longrightarrow> quota_ok q' \<Longrightarrow> ok q'"
begin

lemma update_keeps:
  assumes "rq_inv W ok e" "ok q"
  shows "rq_inv W ok (snd (rq_UpdateQuotaStatus client q e))"
proof -
  obtain r w where u: "rc_UpdateStatus client q (ra_world e) = (r, w)" by fastforce
  have k: "W w \<and> (\<forall>q'. r = Inr q' \<longrightarrow> ok q')" using update_law [OF _ assms(2) u] assms(1) by (simp add: rq_inv_def)
  have c: "ok q' \<Longrightarrow> all_entries (\<lambda>_. ok) (lru_Add (quota_key q) q' (ra_updatedQuotas e))" for q'
    using all_entries_lru(1) [of "\<lambda>_. ok"] assms(1) by (simp add: rq_inv_def)
  show ?thesis using u k c assms(1) by (cases r) (simp_all add: rq_UpdateQuotaStatus_def rq_inv_def)
qed

lemma live_lookup_keeps:
  assumes "rq_inv W ok e" "rq_live_lookup client ns e = (r, e')"
  shows "rq_inv W ok e' \<and> (\<forall>qs. r = Inr qs \<longrightarrow> (\<forall>q \<in> set qs. ok q))"
proof -
  let ?Q = "\<lambda>_ entry. \<forall>q \<in> set (le_items entry). ok q"
  obtain g c where g: "lru_Get ns (ra_liveLookupCache e) = (g, c)" by fastforce
  have c: "all_entries ?Q c" "\<And>entry. g = Some entry \<Longrightarrow> \<forall>q \<in> set (le_items entry). ok q"
    using all_entries_lru(2,3) [of ?Q "ra_liveLookupCache e" ns] assms(1) g by (auto simp: rq_inv_def)
  show ?thesis
  proof (cases "live_hit (rc_Now client (ra_world e)) g")
    case (Some entry)
    then have ge: "g = Some entry" by (auto simp: live_hit_def split: option.splits if_splits)
    have e': "e' = e\<lparr>ra_liveLookupCache := c\<rparr>" "r = Inr (le_items entry)"
      using assms(2) g Some by (simp_all add: rq_live_lookup_def)
    then show ?thesis using assms(1) c ge by (simp add: rq_inv_def)
  next
    case None
    obtain l w where l: "rc_List client ns (ra_world e) = (l, w)" by fastforce
    have k: "W w \<and> (\<forall>qs. l = Inr qs \<longrightarrow> (\<forall>q \<in> set qs. ok q))"
      using list_law [OF _ l] assms(1) by (simp add: rq_inv_def)
    show ?thesis
    proof (cases l)
      case (Inl err)
      then have "e' = e\<lparr>ra_liveLookupCache := c, ra_world := w\<rparr>" "r = Inl err"
        using assms(2) g None l by (simp_all add: rq_live_lookup_def)
      then show ?thesis using assms(1) c k by (simp add: rq_inv_def)
    next
      case (Inr qs)
      define entry where "entry = \<lparr>le_expiry = rc_Now client w + ra_liveTTL e, le_items = qs\<rparr>"
      have "e' = e\<lparr>ra_world := w, ra_liveLookupCache := lru_Add ns entry c\<rparr>" "r = Inr qs"
        using assms(2) g None l Inr by (simp_all add: rq_live_lookup_def entry_def)
      moreover have "all_entries ?Q (lru_Add ns entry c)"
        using all_entries_lru(1) [OF c(1)] k Inr by (simp add: entry_def)
      ultimately show ?thesis using assms(1) k Inr by (simp add: rq_inv_def)
    qed
  qed
qed

lemma get_keeps:
  assumes "rq_inv W ok e" "rq_GetQuotas client ns e = (r, e')"
  shows "rq_inv W ok e' \<and> (\<forall>qs. r = Inr qs \<longrightarrow> (\<forall>q \<in> set qs. ok q))"
proof -
  obtain l w where l: "rc_Lister client ns (ra_world e) = (l, w)" by fastforce
  have k: "W w \<and> (\<forall>qs. l = Inr qs \<longrightarrow> (\<forall>q \<in> set qs. ok q))"
    using lister_law [OF _ l] assms(1) by (simp add: rq_inv_def)
  have e1: "rq_inv W ok (e\<lparr>ra_world := w\<rparr>)" using k assms(1) by (simp add: rq_inv_def)
  show ?thesis
  proof (cases l)
    case (Inl err)
    then show ?thesis using assms(2) l e1 by (auto simp: rq_GetQuotas_def)
  next
    case (Inr items)
    obtain l2 e2 where l2: "(if length items = 0 then rq_live_lookup client ns (e\<lparr>ra_world := w\<rparr>)
        else (Inr items, e\<lparr>ra_world := w\<rparr>)) = (l2, e2)" by fastforce
    have k2: "rq_inv W ok e2 \<and> (\<forall>qs. l2 = Inr qs \<longrightarrow> (\<forall>q \<in> set qs. ok q))"
      using live_lookup_keeps [OF e1] l2 e1 k Inr by (auto split: if_splits)
    show ?thesis
    proof (cases l2)
      case (Inl err)
      have "r = Inl err" "e' = e2" using assms(2) l \<open>l = Inr items\<close> l2 Inl by (simp_all add: rq_GetQuotas_def Let_def)
      then show ?thesis using k2 by simp
    next
      case (Inr items2)
      obtain r3 c3 where r3: "rq_check_items items2 (ra_updatedQuotas e2) [] = (r3, c3)" by fastforce
      have "all_entries (\<lambda>_. ok) c3 \<and> (\<forall>qs. r3 = Inr qs \<longrightarrow> (\<forall>q \<in> set qs. ok q))"
        using check_items_entries [where ok = ok, OF _ _ _ r3] k2 Inr by (simp add: rq_inv_def)
      moreover have "r = r3" "e' = e2\<lparr>ra_updatedQuotas := c3\<rparr>"
        using assms(2) l \<open>l = Inr items\<close> l2 r3 Inr by (simp_all add: rq_GetQuotas_def Let_def)
      ultimately show ?thesis using k2 by (simp add: rq_inv_def)
    qed
  qed
qed

end

sublocale quota_client \<subseteq> accessor: accessor_inv "quotaAccessor client" "rq_inv W ok" ok
proof unfold_locales
  fix s and q assume "rq_inv W ok s" "ok q"
  then show "rq_inv W ok (snd (qa_UpdateQuotaStatus (quotaAccessor client) q s))"
    by (simp add: quotaAccessor_def update_keeps)
next
  fix s and ns assume "rq_inv W ok s"
  then show "rq_inv W ok (snd (qa_GetQuotas (quotaAccessor client) ns s))"
    using get_keeps by (metis quotaAccessor_def quota_accessor.select_convs(2) prod.collapse)
next
  fix s s' and ns qs
  assume "rq_inv W ok s" "qa_GetQuotas (quotaAccessor client) ns s = (Inr qs, s')"
  then show "\<forall>q \<in> set qs. ok q"
    using get_keeps [of s ns "Inr qs" s'] by (simp add: quotaAccessor_def)
qed (fact client_ok, fact client_charged)

section \<open>The client on a store\<close>

text \<open>A clock and a store of quotas; the status subresource takes over the status and nothing else.\<close>

type_synonym rq_world = "int \<times> resource_quota api_store"

definition rq_merge :: "nat \<Rightarrow> resource_quota \<Rightarrow> resource_quota \<Rightarrow> resource_quota" where
  "rq_merge r old new = old\<lparr>rq_meta := (rq_meta old)\<lparr>om_resourceVersion := string_of_nat r\<rparr>, rq_status := rq_status new\<rparr>"

definition store_rq_client :: "rq_world rq_client" where
  "store_rq_client = \<lparr>
     rc_UpdateStatus = (\<lambda>q (now, st).
       case store_Update (\<lambda>q. om_resourceVersion (rq_meta q)) rq_merge (quota_key q) q st of (r, st) \<Rightarrow> (r, now, st)),
     rc_Lister = (\<lambda>ns (now, st).
       case store_List (\<lambda>q. om_namespace (rq_meta q) = ns) st of (qs, st) \<Rightarrow> (Inr qs, now, st)),
     rc_List = (\<lambda>ns (now, st). (Inr (filter (\<lambda>q. om_namespace (rq_meta q) = ns) (map snd (as_objects st))), now, st)),
     rc_Now = fst\<rparr>"

lemma quota_ok_status: "quota_ok (q\<lparr>rq_meta := m, rq_status := st\<rparr>) = quota_ok (q'\<lparr>rq_status := st\<rparr>)"
  by (simp add: quota_ok_def wf_quota_def within_def hard_of_def used_of_def)

lemma quota_ok_merge: "quota_ok new \<Longrightarrow> quota_ok (rq_merge r old new)"
  by (simp add: rq_merge_def quota_ok_def wf_quota_def within_def hard_of_def used_of_def)

interpretation rq_store: quota_client store_rq_client "\<lambda>w. store_all (\<lambda>_. quota_ok) (snd w)" quota_ok
proof unfold_locales
  fix w w' q r assume w: "store_all (\<lambda>_. quota_ok) (snd w)" and q: "quota_ok q"
    and u: "rc_UpdateStatus store_rq_client q w = (r, w')"
  obtain now st where ws: "w = (now, st)" by force
  obtain r1 st1 where up: "store_Update (\<lambda>q. om_resourceVersion (rq_meta q)) rq_merge (quota_key q) q st = (r1, st1)"
    by fastforce
  have "store_all (\<lambda>_. quota_ok) st1 \<and> (\<forall>x. r1 = Inr x \<longrightarrow> quota_ok x)"
    by (rule store_Update_all [OF _ _ up]) (use w ws quota_ok_merge [OF q] in simp_all)
  moreover have "r = r1" "w' = (now, st1)" using u ws up by (simp_all add: store_rq_client_def)
  ultimately show "store_all (\<lambda>_. quota_ok) (snd w') \<and> (\<forall>q'. r = Inr q' \<longrightarrow> quota_ok q')" by simp
next
  fix w w' ns l assume w: "store_all (\<lambda>_. quota_ok) (snd w)" and g: "rc_Lister store_rq_client ns w = (l, w')"
  obtain qs st1 where li: "store_List (\<lambda>q. om_namespace (rq_meta q) = ns) (snd w) = (qs, st1)" by fastforce
  show "store_all (\<lambda>_. quota_ok) (snd w') \<and> (\<forall>qs. l = Inr qs \<longrightarrow> (\<forall>q \<in> set qs. quota_ok q))"
    using store_List_all [OF w li] g li by (auto simp: store_rq_client_def split: prod.splits)
next
  fix w w' ns l assume w: "store_all (\<lambda>_. quota_ok) (snd w)" and g: "rc_List store_rq_client ns w = (l, w')"
  then show "store_all (\<lambda>_. quota_ok) (snd w') \<and> (\<forall>qs. l = Inr qs \<longrightarrow> (\<forall>q \<in> set qs. quota_ok q))"
    by (auto simp: store_rq_client_def store_all_def all_entries_def split: prod.splits)
next
  fix q q' assume "quota_ok q" "same_limits q q'" "quota_ok q'" then show "quota_ok q'" by blast
qed

section \<open>Properties\<close>

text \<open>Of the listed and the remembered version of a quota the accessor uses the one with the larger resource
  version, and it forgets the remembered one once the listed one has caught up.\<close>

lemma rq_checkCache_newer:
  assumes "ObjectResourceVersion (rq_meta q) = Inr v"
    and "\<And>cq. map_of c (quota_key q) = Some cq \<Longrightarrow> ObjectResourceVersion (rq_meta cq) = Inr (version cq)"
  shows "rq_checkCache q c = (case map_of c (quota_key q) of
      None \<Rightarrow> (Inr q, c)
    | Some cq \<Rightarrow> if v < version cq then (Inr cq, (quota_key q, cq) # del (quota_key q) c)
                 else (Inr q, del (quota_key q) c))"
proof (cases "map_of c (quota_key q)")
  case (Some cq)
  have "del (quota_key q) ((quota_key q, cq) # del (quota_key q) c) = del (quota_key q) c"
    by (simp add: AList.delete_eq)
  then show ?thesis
    using Some assms by (auto simp: rq_checkCache_def lru_Get_def lru_Remove_def CompareResourceVersion_def Let_def)
qed (simp add: rq_checkCache_def lru_Get_def)

definition ex_versioned :: "string \<Rightarrow> resource_quota" where
  "ex_versioned v = (let q = ex_quota ''b'' ''configmaps'' 5 in q\<lparr>rq_meta := (rq_meta q)\<lparr>om_resourceVersion := v\<rparr>\<rparr>)"

theorem rq_checkCache_newer_witness:
  "rq_checkCache (ex_versioned ''9'') [(''ns/b'', ex_versioned ''10'')] = (Inr (ex_versioned ''10''), [(''ns/b'', ex_versioned ''10'')])"
proof -
  have v: "ObjectResourceVersion (rq_meta (ex_versioned ''9'')) = Inr 9" "ObjectResourceVersion (rq_meta (ex_versioned ''10'')) = Inr 10"
    "quota_key (ex_versioned ''9'') = ''ns/b''"
    by (simp_all add: ObjectResourceVersion_def ParseUint_def is_digit_def ex_versioned_def ex_quota_def quota_key_def Let_def
      empty_meta_def)
  show ?thesis
    using rq_checkCache_newer [of "ex_versioned ''9''" 9 "[(''ns/b'', ex_versioned ''10'')]" "\<lambda>_. 10"] v by simp
qed

text \<open>Whatever requests are evaluated one after the other against resource quotas, and however far the lister
  lags behind, every quota in the store stays within its hard limits.\<close>

lemma rq_Validates_safe:
  assumes "config_ok e" "store_all (\<lambda>_. quota_ok) st"
    and "quota_Validates (quotaAccessor store_rq_client) as e (newQuotaAccessor (now, st)) = (rs, e', s')"
  shows "map_of (as_objects (snd (ra_world s'))) k = Some q \<Longrightarrow> within q"
proof -
  have "rq_inv (\<lambda>w. store_all (\<lambda>_. quota_ok) (snd w)) quota_ok (newQuotaAccessor (now, st))"
    using assms(2) by (simp add: rq_inv_def newQuotaAccessor_def all_entries_Nil)
  from rq_store.accessor.Validates_inv [OF assms(1) this assms(3)]
  have "store_all (\<lambda>_. quota_ok) (snd (ra_world s'))" by (simp add: rq_inv_def)
  then show "map_of (as_objects (snd (ra_world s'))) k = Some q \<Longrightarrow> within q"
    by (auto simp: store_all_def quota_ok_def dest: all_entries_lookup)
qed

definition ex_rq_store :: "resource_quota api_store" where
  "ex_rq_store = \<lparr>as_objects = [(''ns/b'', ex_quota ''b'' ''configmaps'' 1)], as_cache = [(''ns/b'', ex_quota ''b'' ''configmaps'' 1)],
     as_lag = [], as_revision = 1\<rparr>"

text \<open>Two creations against a quota for one object, with a lister that does not see the first one.\<close>

definition ex_rq_run :: "gerror option list \<times> quota_evaluator_config \<times> rq_world rq_access" where
  "ex_rq_run = quota_Validates (quotaAccessor store_rq_client) [ex_create ''configmaps'', ex_create ''configmaps''] ex_config
     (newQuotaAccessor (0, ex_rq_store))"

lemma ex_rq_run_result:
  "map_option used_of (map_of (as_objects (snd (ra_world (snd (snd ex_rq_run))))) ''ns/b'') = Some [(''configmaps'', 10 ^ 9)]"
  "map (\<lambda>r. r = None) (fst ex_rq_run) = [True, False]"
  by code_simp+

theorem rq_Validates_safe_witness:
  "\<exists>q. map_of (as_objects (snd (ra_world (snd (snd ex_rq_run))))) ''ns/b'' = Some q \<and> within q"
proof -
  obtain rs e' s' where run: "ex_rq_run = (rs, e', s')" by (metis prod_cases3)
  obtain q where q: "map_of (as_objects (snd (ra_world s'))) ''ns/b'' = Some q"
    using ex_rq_run_result(1) unfolding run snd_conv by blast
  have e: "config_ok ex_config"
    by (auto simp: config_ok_def ex_config_def ex_ev_wf intro!: registry_wf_NewRegistry)
  have st: "store_all (\<lambda>_. quota_ok) ex_rq_store"
    by (simp add: ex_rq_store_def store_all_def all_entries_def ex_quota_def quota_ok_def wf_quota_def within_def hard_of_def
      used_of_def amount_def NewQuantity_def)
  show ?thesis using rq_Validates_safe [OF e st run [unfolded ex_rq_run_def] q] q unfolding run snd_conv by blast
qed

end
