(* ===== verification/RbacRules.thy ===== *)
theory RbacRules
  imports Prelude
begin

text \<open>
  Policy rules: when a rule allows a request (\<open>kube/pkg/apis/rbac/v1/evaluation_helpers.go\<close>
  and \<open>RuleAllows\<close> of \<open>pkg/authorization/rbac/authorizer.go\<close>), the rule builder of
  \<open>helpers.go\<close>, the escalation check by \<open>Covers\<close> (\<open>policy_comparator.go\<close>) and the
  compaction of rules (\<open>policy_compact.go\<close>). The semantics of a rule list is the set
  of requests that one of its rules allows; breaking rules down, covering and
  compacting are specified against it.
\<close>

section \<open>Rules and requests\<close>

text \<open>\<open>reflect.DeepEqual\<close> tells a nil list of URLs from an empty one, so that field is an option.\<close>

record policy_rule =
  pr_verbs :: "string list"
  pr_apiGroups :: "string list"
  pr_resources :: "string list"
  pr_resourceNames :: "string list"
  pr_nonResourceURLs :: "string list option"

definition urls :: "policy_rule \<Rightarrow> string list" where
  "urls r = (case pr_nonResourceURLs r of None \<Rightarrow> [] | Some us \<Rightarrow> us)"

lemma urls_simps [simp]:
  "pr_nonResourceURLs r = Some us \<Longrightarrow> urls r = us" "pr_nonResourceURLs r = None \<Longrightarrow> urls r = []"
  by (simp_all add: urls_def)

definition empty_rule :: policy_rule where
  "empty_rule = \<lparr>pr_verbs = [], pr_apiGroups = [], pr_resources = [], pr_resourceNames = [],
     pr_nonResourceURLs = None\<rparr>"

record user_info =
  ui_name :: string
  ui_groups :: "string list"

record auth_attributes =
  aa_user :: user_info
  aa_verb :: string
  aa_namespace :: string
  aa_apiGroup :: string
  aa_resource :: string
  aa_subresource :: string
  aa_name :: string
  aa_path :: string
  aa_isResourceRequest :: bool

abbreviation star :: string where "star \<equiv> ''*''"

section \<open>Matching a rule\<close>

definition VerbMatches :: "policy_rule \<Rightarrow> string \<Rightarrow> bool" where
  "VerbMatches rule requestedVerb =
    list_ex (\<lambda>ruleVerb. ruleVerb = star \<or> ruleVerb = requestedVerb) (pr_verbs rule)"

definition APIGroupMatches :: "policy_rule \<Rightarrow> string \<Rightarrow> bool" where
  "APIGroupMatches rule requestedGroup =
    list_ex (\<lambda>ruleGroup. ruleGroup = star \<or> ruleGroup = requestedGroup) (pr_apiGroups rule)"

definition ResourceMatches :: "policy_rule \<Rightarrow> string \<Rightarrow> string \<Rightarrow> bool" where
  "ResourceMatches rule combinedRequestedResource requestedSubresource =
    list_ex (\<lambda>ruleResource.
        if ruleResource = star then True
        else if ruleResource = combinedRequestedResource then True
        else if length requestedSubresource = 0 then False
        else length ruleResource = length requestedSubresource + 2
             \<and> HasPrefix ruleResource ''*/'' \<and> HasSuffix ruleResource requestedSubresource)
      (pr_resources rule)"

definition ResourceNameMatches :: "policy_rule \<Rightarrow> string \<Rightarrow> bool" where
  "ResourceNameMatches rule requestedName =
    (if length (pr_resourceNames rule) = 0 then True
     else list_ex (\<lambda>ruleName. ruleName = requestedName) (pr_resourceNames rule))"

definition NonResourceURLMatches :: "policy_rule \<Rightarrow> string \<Rightarrow> bool" where
  "NonResourceURLMatches rule requestedURL =
    list_ex (\<lambda>ruleURL.
        ruleURL = star \<or> ruleURL = requestedURL
        \<or> (HasSuffix ruleURL ''*'' \<and> HasPrefix requestedURL (TrimRight ruleURL ''*'')))
      (urls rule)"

definition combined_resource :: "auth_attributes \<Rightarrow> string" where
  "combined_resource a =
    (if length (aa_subresource a) > 0 then aa_resource a @ ''/'' @ aa_subresource a else aa_resource a)"

definition RuleAllows :: "auth_attributes \<Rightarrow> policy_rule \<Rightarrow> bool" where
  "RuleAllows a rule =
    (if aa_isResourceRequest a then
       VerbMatches rule (aa_verb a) \<and> APIGroupMatches rule (aa_apiGroup a)
       \<and> ResourceMatches rule (combined_resource a) (aa_subresource a)
       \<and> ResourceNameMatches rule (aa_name a)
     else VerbMatches rule (aa_verb a) \<and> NonResourceURLMatches rule (aa_path a))"

text \<open>The semantics of a rule list.\<close>

definition RulesAllow :: "auth_attributes \<Rightarrow> policy_rule list \<Rightarrow> bool" where
  "RulesAllow a rules \<longleftrightarrow> (\<exists>r \<in> set rules. RuleAllows a r)"

lemma RulesAllow_simps [simp]:
  "\<not> RulesAllow a []"
  "RulesAllow a (r # rs) \<longleftrightarrow> RuleAllows a r \<or> RulesAllow a rs"
  "RulesAllow a (rs @ ss) \<longleftrightarrow> RulesAllow a rs \<or> RulesAllow a ss"
  by (auto simp: RulesAllow_def)

lemma RulesAllow_concat: "RulesAllow a (concat rss) \<longleftrightarrow> (\<exists>rs \<in> set rss. RulesAllow a rs)"
  by (auto simp: RulesAllow_def)

text \<open>The match of a single entry of each field.\<close>

definition resource_match1 :: "string \<Rightarrow> string \<Rightarrow> string \<Rightarrow> bool" where
  "resource_match1 rr combined sub \<longleftrightarrow>
     rr = star \<or> rr = combined \<or> (sub \<noteq> [] \<and> rr = ''*/'' @ sub)"

definition url_match1 :: "string \<Rightarrow> string \<Rightarrow> bool" where
  "url_match1 ru u \<longleftrightarrow> ru = star \<or> ru = u \<or> (suffix star ru \<and> prefix (TrimRight ru star) u)"

lemma prefix_suffix_exact:
  "length r = length s + 2 \<and> prefix [c, d] r \<and> suffix s r \<longleftrightarrow> r = c # d # s"
proof
  assume asm: "length r = length s + 2 \<and> prefix [c, d] r \<and> suffix s r"
  then obtain t where t: "r = c # d # t" by (auto simp: prefix_def)
  from asm obtain p where p: "r = p @ s" by (auto simp: suffix_def)
  then have "length p = 2" using asm by auto
  then have "s = drop 2 r" using p by simp
  then show "r = c # d # s" using t by simp
qed (auto simp: suffix_def)

lemma VerbMatches_iff: "VerbMatches rule v \<longleftrightarrow> star \<in> set (pr_verbs rule) \<or> v \<in> set (pr_verbs rule)"
  by (auto simp: VerbMatches_def list_ex_iff)

lemma APIGroupMatches_iff: "APIGroupMatches rule g \<longleftrightarrow> star \<in> set (pr_apiGroups rule) \<or> g \<in> set (pr_apiGroups rule)"
  by (auto simp: APIGroupMatches_def list_ex_iff)

lemma ResourceMatches_iff:
  "ResourceMatches rule combined sub \<longleftrightarrow> (\<exists>rr \<in> set (pr_resources rule). resource_match1 rr combined sub)"
proof -
  have "(if rr = star then True else if rr = combined then True else if length sub = 0 then False
        else length rr = length sub + 2 \<and> HasPrefix rr ''*/'' \<and> HasSuffix rr sub)
      \<longleftrightarrow> resource_match1 rr combined sub" for rr
    unfolding resource_match1_def HasPrefix_def HasSuffix_def
    using prefix_suffix_exact [of rr sub "CHR ''*''" "CHR ''/''"] by auto
  then show ?thesis by (simp add: ResourceMatches_def list_ex_iff)
qed

lemma ResourceNameMatches_iff:
  "ResourceNameMatches rule n \<longleftrightarrow> pr_resourceNames rule = [] \<or> n \<in> set (pr_resourceNames rule)"
  by (auto simp: ResourceNameMatches_def list_ex_iff)

lemma NonResourceURLMatches_iff:
  "NonResourceURLMatches rule u \<longleftrightarrow> (\<exists>ru \<in> set (urls rule). url_match1 ru u)"
  by (auto simp: NonResourceURLMatches_def list_ex_iff url_match1_def)

lemmas match_iffs = VerbMatches_iff APIGroupMatches_iff ResourceMatches_iff ResourceNameMatches_iff
  NonResourceURLMatches_iff

section \<open>The rule builder\<close>

definition NewRule :: "string list \<Rightarrow> policy_rule" where
  "NewRule verbs = empty_rule\<lparr>pr_verbs := verbs\<rparr>"

definition Builder_Groups :: "string list \<Rightarrow> policy_rule \<Rightarrow> policy_rule" where
  "Builder_Groups groups r = r\<lparr>pr_apiGroups := pr_apiGroups r @ groups\<rparr>"

definition Builder_Resources :: "string list \<Rightarrow> policy_rule \<Rightarrow> policy_rule" where
  "Builder_Resources resources r = r\<lparr>pr_resources := pr_resources r @ resources\<rparr>"

definition Builder_Names :: "string list \<Rightarrow> policy_rule \<Rightarrow> policy_rule" where
  "Builder_Names names r = r\<lparr>pr_resourceNames := pr_resourceNames r @ names\<rparr>"

text \<open>Appending nothing to a nil slice leaves it nil.\<close>

definition Builder_URLs :: "string list \<Rightarrow> policy_rule \<Rightarrow> policy_rule" where
  "Builder_URLs us r = (if us = [] then r else r\<lparr>pr_nonResourceURLs := Some (urls r @ us)\<rparr>)"

definition Builder_Rule :: "policy_rule \<Rightarrow> gerror + policy_rule" where
  "Builder_Rule r =
    (if length (pr_verbs r) = 0 then Inl (OtherErr ''verbs are required'')
     else
       let ok = Inr (r\<lparr>pr_resources := sort (pr_resources r), pr_resourceNames := sort (pr_resourceNames r),
                  pr_apiGroups := sort (pr_apiGroups r),
                  pr_nonResourceURLs := map_option sort (pr_nonResourceURLs r),
                  pr_verbs := sort (pr_verbs r)\<rparr>)
       in if length (urls r) > 0 then
            (if length (pr_apiGroups r) \<noteq> 0 \<or> length (pr_resources r) \<noteq> 0 \<or> length (pr_resourceNames r) \<noteq> 0
             then Inl (OtherErr ''non-resource rule may not have apiGroups, resources, or resourceNames'')
             else ok)
          else if length (pr_resources r) > 0 then
            (if length (urls r) \<noteq> 0 then Inl (OtherErr ''resource rule may not have nonResourceURLs'')
             else if length (pr_apiGroups r) = 0 then Inl (OtherErr ''resource rule must have apiGroups'')
             else ok)
          else Inl (OtherErr ''a rule must have either nonResourceURLs or resources''))"

section \<open>Covering\<close>

definition has :: "string list \<Rightarrow> string \<Rightarrow> bool" where
  "has S ele = list_ex (\<lambda>s. s = ele) S"

definition hasAll :: "string list \<Rightarrow> string list \<Rightarrow> bool" where
  "hasAll S contains =
    (let owning = fold insert S {} in list_all (\<lambda>ele. ele \<in> owning) contains)"

definition resourceCoversAll :: "string list \<Rightarrow> string list \<Rightarrow> bool" where
  "resourceCoversAll setResources coversResources =
    (if has setResources star \<or> hasAll setResources coversResources then True
     else list_all (\<lambda>path.
         if has setResources path then True
         else if \<not> StrContains path ''/'' then False
         else has setResources (''*/'' @ snd (SplitN2 path CHR ''/''))) coversResources)"

definition nonResourceURLCovers :: "string \<Rightarrow> string \<Rightarrow> bool" where
  "nonResourceURLCovers ownerPath subPath =
    (if ownerPath = subPath then True
     else HasSuffix ownerPath ''*'' \<and> HasPrefix subPath (TrimRight ownerPath ''*''))"

definition nonResourceURLsCoversAll :: "string list \<Rightarrow> string list \<Rightarrow> bool" where
  "nonResourceURLsCoversAll S covers =
    list_all (\<lambda>path. list_ex (\<lambda>owner. nonResourceURLCovers owner path) S) covers"

definition ruleCovers :: "policy_rule \<Rightarrow> policy_rule \<Rightarrow> bool" where
  "ruleCovers ownerRule subRule =
    (let verbMatches = has (pr_verbs ownerRule) star \<or> hasAll (pr_verbs ownerRule) (pr_verbs subRule);
         groupMatches = has (pr_apiGroups ownerRule) star \<or> hasAll (pr_apiGroups ownerRule) (pr_apiGroups subRule);
         resourceMatches = resourceCoversAll (pr_resources ownerRule) (pr_resources subRule);
         nonResourceURLMatches = nonResourceURLsCoversAll (urls ownerRule) (urls subRule);
         resourceNameMatches =
           (if length (pr_resourceNames subRule) = 0 then length (pr_resourceNames ownerRule) = 0
            else length (pr_resourceNames ownerRule) = 0
                 \<or> hasAll (pr_resourceNames ownerRule) (pr_resourceNames subRule))
     in verbMatches \<and> groupMatches \<and> resourceMatches \<and> resourceNameMatches \<and> nonResourceURLMatches)"

definition BreakdownRule :: "policy_rule \<Rightarrow> policy_rule list" where
  "BreakdownRule rule =
    concat (map (\<lambda>group. concat (map (\<lambda>resource. concat (map (\<lambda>verb.
        if length (pr_resourceNames rule) > 0 then
          map (\<lambda>resourceName. \<lparr>pr_verbs = [verb], pr_apiGroups = [group], pr_resources = [resource],
                 pr_resourceNames = [resourceName], pr_nonResourceURLs = None\<rparr>) (pr_resourceNames rule)
        else
          [\<lparr>pr_verbs = [verb], pr_apiGroups = [group], pr_resources = [resource],
             pr_resourceNames = [], pr_nonResourceURLs = None\<rparr>])
      (pr_verbs rule))) (pr_resources rule))) (pr_apiGroups rule))
    @ concat (map (\<lambda>nonResourceURL. map (\<lambda>verb.
        \<lparr>pr_verbs = [verb], pr_apiGroups = [], pr_resources = [], pr_resourceNames = [],
          pr_nonResourceURLs = Some [nonResourceURL]\<rparr>) (pr_verbs rule)) (urls rule))"

definition Covers :: "policy_rule list \<Rightarrow> policy_rule list \<Rightarrow> bool \<times> policy_rule list" where
  "Covers ownerRules servantRules =
    (let subrules = fold (\<lambda>servantRule acc. acc @ BreakdownRule servantRule) servantRules [];
         uncoveredRules = fold (\<lambda>subrule acc.
            let covered = list_ex (\<lambda>ownerRule. ruleCovers ownerRule subrule) ownerRules
            in if \<not> covered then acc @ [subrule] else acc) subrules []
     in (length uncoveredRules = 0, uncoveredRules))"

lemma has_iff [simp]: "has S x \<longleftrightarrow> x \<in> set S"
  by (auto simp: has_def list_ex_iff)

lemma hasAll_iff [simp]: "hasAll S xs \<longleftrightarrow> set xs \<subseteq> set S"
proof -
  have "fold insert S A = set S \<union> A" for A
    by (induction S arbitrary: A) auto
  then show ?thesis by (auto simp: hasAll_def list_all_iff)
qed

lemma Covers_eq:
  "Covers owner servant =
    (let missing = filter (\<lambda>s. \<not> (\<exists>r \<in> set owner. ruleCovers r s)) (concat (map BreakdownRule servant))
     in (missing = [], missing))"
  unfolding Covers_def Let_def fold_append_concat fold_filter_append by (simp add: list_ex_iff)

text \<open>An atomic rule: at most one value per field, as \<open>BreakdownRule\<close> makes them.\<close>

inductive atomic_rule :: "policy_rule \<Rightarrow> bool" where
  resource_atom: "length ns \<le> 1 \<Longrightarrow> atomic_rule \<lparr>pr_verbs = [v], pr_apiGroups = [g], pr_resources = [r],
     pr_resourceNames = ns, pr_nonResourceURLs = None\<rparr>"
| url_atom: "atomic_rule \<lparr>pr_verbs = [v], pr_apiGroups = [], pr_resources = [],
     pr_resourceNames = [], pr_nonResourceURLs = Some [u]\<rparr>"

lemma BreakdownRule_atomic: "s \<in> set (BreakdownRule rule) \<Longrightarrow> atomic_rule s"
  by (auto simp: BreakdownRule_def intro: atomic_rule.intros split: if_splits)

lemma TrimRight_star_suffix: "\<not> suffix [c] (TrimRight s [c])"
proof
  assume "suffix [c] (TrimRight s [c])"
  then obtain p where p: "TrimRight s [c] = p @ [c]" by (auto simp: suffix_def)
  then have eq: "dropWhile (\<lambda>x. x = c) (rev s) = c # rev p"
    by (simp add: TrimRight_def rev_swap)
  then have "dropWhile (\<lambda>x. x = c) (rev s) \<noteq> []" by simp
  from hd_dropWhile [OF this] eq show False by simp
qed

lemma prefix_TrimRight_mono:
  assumes "prefix (TrimRight r [c]) s"
  shows "prefix (TrimRight r [c]) (TrimRight s [c])"
proof -
  obtain k where k: "s = TrimRight s [c] @ replicate k c" using TrimRight_decomp by blast
  define t where "t = TrimRight r [c]"
  define q where "q = TrimRight s [c]"
  have "prefix t (q @ replicate k c)" using assms k by (simp add: t_def q_def)
  then consider "prefix t q" | us where "t = q @ us" "prefix us (replicate k c)"
    by (auto simp: prefix_append)
  then show ?thesis
  proof cases
    case 2
    have "us = []"
    proof (rule ccontr)
      assume ne: "us \<noteq> []"
      obtain vs where vs: "replicate k c = us @ vs" using 2 by (auto simp: prefix_def)
      have "last us \<in> set (replicate k c)" unfolding vs using last_in_set [OF ne] by simp
      then have "last us = c" by (simp only: in_set_replicate)
      then have "suffix [c] t" using ne 2 by (metis append_butlast_last_id append.assoc suffix_def)
      then show False using TrimRight_star_suffix t_def by blast
    qed
    then show ?thesis using 2 by (simp add: t_def q_def)
  qed (simp add: t_def q_def)
qed

lemma url_covers_sound:
  assumes "nonResourceURLCovers owner path" "url_match1 path u"
  shows "url_match1 owner u"
proof (cases "owner = path")
  case False
  then have o: "suffix star owner" "prefix (TrimRight owner star) path"
    using assms(1) by (auto simp: nonResourceURLCovers_def)
  have "prefix (TrimRight owner star) u"
  proof -
    consider "path = star" | "path = u" | "suffix star path" "prefix (TrimRight path star) u"
      using assms(2) by (auto simp: url_match1_def)
    then show ?thesis
    proof cases
      case 1
      then have "prefix (TrimRight owner star) (TrimRight star star)"
        using o prefix_TrimRight_mono by blast
      moreover have "TrimRight star star = []" by (simp add: TrimRight_def)
      ultimately show ?thesis by simp
    next
      case 3
      then show ?thesis using o prefix_TrimRight_mono prefix_order.trans by blast
    qed (use o in simp)
  qed
  then show ?thesis using o by (simp add: url_match1_def)
qed (use assms in simp)

text \<open>A resource name that contains no slash, as in every request of the API server.\<close>

definition wf_request :: "auth_attributes \<Rightarrow> bool" where
  "wf_request a \<longleftrightarrow> CHR ''/'' \<notin> set (aa_resource a)"

lemma resource_covers_sound:
  assumes "CHR ''/'' \<notin> set res" "resourceCoversAll owner [path]"
    and "resource_match1 path (if sub \<noteq> [] then res @ ''/'' @ sub else res) sub"
  shows "\<exists>rr \<in> set owner. resource_match1 rr (if sub \<noteq> [] then res @ ''/'' @ sub else res) sub"
proof (cases "star \<in> set owner \<or> path \<in> set owner")
  case True
  have "resource_match1 star (if sub \<noteq> [] then res @ ''/'' @ sub else res) sub"
    by (simp add: resource_match1_def)
  then show ?thesis using True assms(3) by blast
next
  case False
  then have slash: "CHR ''/'' \<in> set path" and own: "''*/'' @ snd (SplitN2 path CHR ''/'') \<in> set owner"
    using assms(2) by (simp_all add: resourceCoversAll_def sublist_singleton split: if_splits)
  have "sub \<noteq> [] \<and> snd (SplitN2 path CHR ''/'') = sub"
  proof -
    consider "sub \<noteq> []" "path = res @ CHR ''/'' # sub" | "sub \<noteq> []" "path = star @ CHR ''/'' # sub"
      using assms(1,3) slash by (auto simp: resource_match1_def split: if_splits)
    then show ?thesis
    proof cases
      case 1
      then show ?thesis using SplitN2_unique [OF assms(1), of sub] by simp
    next
      case 2
      then show ?thesis using SplitN2_unique [of "CHR ''/''" star sub] by simp
    qed
  qed
  then have "resource_match1 (''*/'' @ snd (SplitN2 path CHR ''/'')) (if sub \<noteq> [] then res @ ''/'' @ sub else res) sub"
    unfolding resource_match1_def by simp
  then show ?thesis using own by blast
qed

lemma ruleCovers_sound:
  assumes "atomic_rule s" "ruleCovers owner s" "wf_request a" "RuleAllows a s"
  shows "RuleAllows a owner"
  using assms(1)
proof cases
  case (resource_atom ns v g r)
  have res: "aa_isResourceRequest a"
    using assms(4) resource_atom by (auto simp: RuleAllows_def match_iffs split: if_splits)
  have comb: "combined_resource a = (if aa_subresource a \<noteq> [] then aa_resource a @ ''/'' @ aa_subresource a else aa_resource a)"
    by (simp add: combined_resource_def)
  have "ResourceMatches owner (combined_resource a) (aa_subresource a)"
    unfolding ResourceMatches_iff comb
    using assms(2,3,4) res resource_atom
    by (intro resource_covers_sound [of _ _ r])
      (auto simp: ruleCovers_def RuleAllows_def match_iffs comb wf_request_def Let_def)
  then show ?thesis
    using assms(2,4) res resource_atom
    by (cases ns) (auto simp: ruleCovers_def RuleAllows_def VerbMatches_iff APIGroupMatches_iff
      ResourceNameMatches_iff Let_def split: if_splits)
next
  case (url_atom v u)
  have res: "\<not> aa_isResourceRequest a"
    using assms(4) url_atom by (auto simp: RuleAllows_def match_iffs split: if_splits)
  obtain ru where "ru \<in> set (urls owner)" "nonResourceURLCovers ru u"
    using assms(2) url_atom by (auto simp: ruleCovers_def nonResourceURLsCoversAll_def list_ex_iff Let_def)
  then show ?thesis
    using assms(2,4) res url_atom url_covers_sound
    by (auto simp: ruleCovers_def RuleAllows_def VerbMatches_iff NonResourceURLMatches_iff Let_def)
qed

lemma RulesAllow_concat_map: "RulesAllow a (concat (map f xs)) \<longleftrightarrow> (\<exists>x \<in> set xs. RulesAllow a (f x))"
  by (simp add: RulesAllow_concat)

lemma RulesAllow_map: "RulesAllow a (map f xs) \<longleftrightarrow> (\<exists>x \<in> set xs. RuleAllows a (f x))"
  by (simp add: RulesAllow_def)

lemma RuleAllows_resource_atom:
  "RuleAllows a \<lparr>pr_verbs = [v], pr_apiGroups = [g], pr_resources = [r], pr_resourceNames = ns, pr_nonResourceURLs = None\<rparr>
   \<longleftrightarrow> aa_isResourceRequest a \<and> (v = star \<or> v = aa_verb a) \<and> (g = star \<or> g = aa_apiGroup a)
     \<and> resource_match1 r (combined_resource a) (aa_subresource a) \<and> (ns = [] \<or> aa_name a \<in> set ns)"
  by (auto simp: RuleAllows_def match_iffs)

lemma RuleAllows_url_atom:
  "RuleAllows a \<lparr>pr_verbs = [v], pr_apiGroups = [], pr_resources = [], pr_resourceNames = [], pr_nonResourceURLs = Some [u]\<rparr>
   \<longleftrightarrow> \<not> aa_isResourceRequest a \<and> (v = star \<or> v = aa_verb a) \<and> url_match1 u (aa_path a)"
  by (auto simp: RuleAllows_def match_iffs)

lemma RuleAllows_iff:
  "RuleAllows a r \<longleftrightarrow> (\<exists>v \<in> set (pr_verbs r). v = star \<or> v = aa_verb a) \<and>
    (if aa_isResourceRequest a then
       (\<exists>g \<in> set (pr_apiGroups r). g = star \<or> g = aa_apiGroup a)
       \<and> (\<exists>x \<in> set (pr_resources r). resource_match1 x (combined_resource a) (aa_subresource a))
       \<and> (pr_resourceNames r = [] \<or> aa_name a \<in> set (pr_resourceNames r))
     else (\<exists>u \<in> set (urls r). url_match1 u (aa_path a)))"
  by (auto simp: RuleAllows_def match_iffs)

lemma BreakdownRule_allows: "RulesAllow a (BreakdownRule rule) \<longleftrightarrow> RuleAllows a rule"
proof (cases "pr_resourceNames rule = []")
  case True
  show ?thesis
    unfolding BreakdownRule_def RulesAllow_simps RulesAllow_concat_map RuleAllows_iff [of a rule]
    by (simp add: True RulesAllow_map RuleAllows_resource_atom RuleAllows_url_atom)
next
  case False
  show ?thesis
    unfolding BreakdownRule_def RulesAllow_simps RulesAllow_concat_map RuleAllows_iff [of a rule]
    by (simp add: False RulesAllow_map RuleAllows_resource_atom RuleAllows_url_atom)
qed

lemma BreakdownRule_cases:
  assumes "s \<in> set (BreakdownRule rule)"
  obtains v g r ns where "s = \<lparr>pr_verbs = [v], pr_apiGroups = [g], pr_resources = [r], pr_resourceNames = ns, pr_nonResourceURLs = None\<rparr>"
      "v \<in> set (pr_verbs rule)" "g \<in> set (pr_apiGroups rule)" "r \<in> set (pr_resources rule)"
      "set ns \<subseteq> set (pr_resourceNames rule)" "ns = [] \<longleftrightarrow> pr_resourceNames rule = []"
  | v u where "s = \<lparr>pr_verbs = [v], pr_apiGroups = [], pr_resources = [], pr_resourceNames = [], pr_nonResourceURLs = Some [u]\<rparr>"
      "v \<in> set (pr_verbs rule)" "u \<in> set (urls rule)"
  using assms by (cases "pr_resourceNames rule = []") (auto simp: BreakdownRule_def)

section \<open>Compacting\<close>

record simple_resource =
  sp_Group :: string
  sp_Resource :: string
  sp_ResourceNameExist :: bool
  sp_ResourceName :: string

definition isSimpleResourceRule :: "policy_rule \<Rightarrow> simple_resource option" where
  "isSimpleResourceRule rule =
    (if length (pr_resourceNames rule) > 1 \<or> length (urls rule) > 0 then None
     else if length (pr_apiGroups rule) \<noteq> 1 \<or> length (pr_resources rule) \<noteq> 1 then None
     else
       let simpleRule = \<lparr>pr_verbs = pr_verbs rule, pr_apiGroups = pr_apiGroups rule,
             pr_resources = pr_resources rule, pr_resourceNames = pr_resourceNames rule,
             pr_nonResourceURLs = None\<rparr>
       in if simpleRule \<noteq> rule then None
          else if length (pr_resourceNames rule) = 0 then
            Some \<lparr>sp_Group = pr_apiGroups rule ! 0, sp_Resource = pr_resources rule ! 0,
              sp_ResourceNameExist = False, sp_ResourceName = []\<rparr>
          else
            Some \<lparr>sp_Group = pr_apiGroups rule ! 0, sp_Resource = pr_resources rule ! 0,
              sp_ResourceNameExist = True, sp_ResourceName = pr_resourceNames rule ! 0\<rparr>)"

definition CompactRules_step ::
  "policy_rule \<Rightarrow> policy_rule list \<times> (simple_resource \<times> policy_rule) list \<Rightarrow>
   policy_rule list \<times> (simple_resource \<times> policy_rule) list"
where
  "CompactRules_step rule = (\<lambda>(compacted, simpleRules).
     case isSimpleResourceRule rule of
       Some resource \<Rightarrow>
         (case map_of simpleRules resource of
            Some existingRule \<Rightarrow>
              (compacted, put resource (existingRule\<lparr>pr_verbs := pr_verbs existingRule @ pr_verbs rule\<rparr>) simpleRules)
          | None \<Rightarrow> (compacted, put resource rule simpleRules))
     | None \<Rightarrow> (compacted @ [rule], simpleRules))"

text \<open>\<open>order\<close> is the order in which Go iterates over the map of simple rules.\<close>

definition CompactRules ::
  "((simple_resource \<times> policy_rule) list \<Rightarrow> (simple_resource \<times> policy_rule) list) \<Rightarrow>
   policy_rule list \<Rightarrow> policy_rule list"
where
  "CompactRules order rules =
    (let (compacted, simpleRules) = fold CompactRules_step rules ([], [])
     in compacted @ map snd (order simpleRules))"

lemma length_Suc0_conv: "length xs = Suc 0 \<longleftrightarrow> (\<exists>x. xs = [x])"
  by (simp add: length_Suc_conv)

lemma isSimple_fields:
  assumes "isSimpleResourceRule r = Some res"
  shows "pr_apiGroups r = [sp_Group res] \<and> pr_resources r = [sp_Resource res]
    \<and> pr_resourceNames r = (if sp_ResourceNameExist res then [sp_ResourceName res] else [])
    \<and> pr_nonResourceURLs r = None"
proof -
  obtain gs rs ns vs us where r: "r = \<lparr>pr_verbs = vs, pr_apiGroups = gs, pr_resources = rs,
    pr_resourceNames = ns, pr_nonResourceURLs = us\<rparr>" by (cases r) auto
  show ?thesis
    using assms unfolding r
    by (cases ns) (auto simp: isSimpleResourceRule_def length_Suc0_conv Let_def split: if_splits)
qed

lemma isSimple_verbs [simp]:
  "isSimpleResourceRule (r\<lparr>pr_verbs := vs\<rparr>) = isSimpleResourceRule r"
  by (cases r) (simp add: isSimpleResourceRule_def urls_def)

lemma merge_verbs_allows:
  assumes "isSimpleResourceRule r = Some res" "isSimpleResourceRule e = Some res"
  shows "RuleAllows a (e\<lparr>pr_verbs := pr_verbs e @ pr_verbs r\<rparr>) \<longleftrightarrow> RuleAllows a e \<or> RuleAllows a r"
  using isSimple_fields [OF assms(1)] isSimple_fields [OF assms(2)]
  by (auto simp: RuleAllows_def match_iffs urls_def)

definition compact_inv :: "(simple_resource \<times> policy_rule) list \<Rightarrow> bool" where
  "compact_inv s \<longleftrightarrow> wf_map s \<and> (\<forall>res r. map_of s res = Some r \<longrightarrow> isSimpleResourceRule r = Some res)"

lemma RulesAllow_map_of: "wf_map s \<Longrightarrow> RulesAllow a (map snd s) \<longleftrightarrow> (\<exists>k r. map_of s k = Some r \<and> RuleAllows a r)"
  unfolding RulesAllow_def by (rule ex_values_map_of)

lemma CompactRules_step_inv:
  assumes "compact_inv s" "CompactRules_step rule (c, s) = (c', s')"
  shows "compact_inv s' \<and>
    (RulesAllow a (c' @ map snd s') \<longleftrightarrow> RulesAllow a (c @ map snd s) \<or> RuleAllows a rule)"
proof (cases "isSimpleResourceRule rule")
  case None
  then show ?thesis using assms by (auto simp: CompactRules_step_def)
next
  case (Some res)
  have wf: "wf_map s" using assms(1) by (simp add: compact_inv_def)
  show ?thesis
  proof (cases "map_of s res")
    case None
    then have s': "c' = c" "s' = put res rule s"
      using assms(2) Some by (auto simp: CompactRules_step_def)
    have "compact_inv s'"
      using assms(1) Some s' by (auto simp: compact_inv_def map_of_put)
    moreover have "RulesAllow a (map snd s') \<longleftrightarrow> RulesAllow a (map snd s) \<or> RuleAllows a rule"
      unfolding s'(2) RulesAllow_map_of [OF wf] RulesAllow_map_of [OF wf_put [THEN iffD2, OF wf]] map_of_put
      using None by (metis option.inject option.distinct(1))
    ultimately show ?thesis using s' by auto
  next
    case (Some e)
    note e = this
    define e' where "e' = e\<lparr>pr_verbs := pr_verbs e @ pr_verbs rule\<rparr>"
    have s': "c' = c" "s' = put res e' s"
      using assms(2) e \<open>isSimpleResourceRule rule = Some res\<close>
      by (auto simp: CompactRules_step_def e'_def)
    have simple: "isSimpleResourceRule e = Some res"
      using assms(1) e by (simp add: compact_inv_def)
    have al: "RuleAllows a e' \<longleftrightarrow> RuleAllows a e \<or> RuleAllows a rule"
      using merge_verbs_allows [OF \<open>isSimpleResourceRule rule = Some res\<close> simple] by (simp add: e'_def)
    have "compact_inv s'"
      using assms(1) simple s' by (auto simp: compact_inv_def map_of_put e'_def)
    moreover have "RulesAllow a (map snd s') \<longleftrightarrow> RulesAllow a (map snd s) \<or> RuleAllows a rule"
      unfolding s'(2) RulesAllow_map_of [OF wf] RulesAllow_map_of [OF wf_put [THEN iffD2, OF wf]] map_of_put
      using e al by (metis option.inject)
    ultimately show ?thesis using s' by auto
  qed
qed

lemma CompactRules_fold:
  assumes "compact_inv s" "fold CompactRules_step rules (c, s) = (c', s')"
  shows "compact_inv s' \<and>
    (RulesAllow a (c' @ map snd s') \<longleftrightarrow> RulesAllow a (c @ map snd s) \<or> RulesAllow a rules)"
  using assms
proof (induction rules arbitrary: c s)
  case (Cons rule rules)
  obtain c1 s1 where st: "CompactRules_step rule (c, s) = (c1, s1)" by fastforce
  have "compact_inv s1 \<and>
    (RulesAllow a (c1 @ map snd s1) \<longleftrightarrow> RulesAllow a (c @ map snd s) \<or> RuleAllows a rule)"
    using CompactRules_step_inv [OF Cons.prems(1) st] .
  then show ?case
    using Cons.IH [of s1 c1] Cons.prems st by auto
qed simp

lemma Covers_allows:
  assumes "fst (Covers owner servant)" "wf_request a" "RulesAllow a servant"
  shows "RulesAllow a owner"
proof -
  obtain rule where "rule \<in> set servant" "RuleAllows a rule"
    using assms(3) by (auto simp: RulesAllow_def)
  then obtain s where s: "s \<in> set (BreakdownRule rule)" "RuleAllows a s"
    using BreakdownRule_allows by (auto simp: RulesAllow_def)
  then have "\<exists>r \<in> set owner. ruleCovers r s"
    using assms(1) \<open>rule \<in> set servant\<close> by (auto simp: Covers_eq Let_def filter_empty_conv)
  then show ?thesis
    using ruleCovers_sound [OF BreakdownRule_atomic [OF s(1)] _ assms(2) s(2)] by (auto simp: RulesAllow_def)
qed

section \<open>Properties\<close>

text \<open>Breaking a rule down into atomic rules keeps its meaning: the atomic rules
  together allow exactly the requests the rule allows, and each of them has at most one verb, group,
  resource, resource name and URL.\<close>

lemma BreakdownRule_equivalent:
  "(RulesAllow a (BreakdownRule rule) = RuleAllows a rule) \<and> list_all atomic_rule (BreakdownRule rule)"
  using BreakdownRule_allows BreakdownRule_atomic by (simp add: list_all_iff)

text \<open>C4. The escalation check is sound: if \<open>Covers\<close> says that the owner's rules cover
  the servant's, every request whose resource name has no slash and that a servant rule allows is allowed by
  a rule the owner holds.\<close>

theorem Covers_sound:
  assumes "fst (Covers owner servant)" "wf_request a" "RulesAllow a servant"
  shows "RulesAllow a owner"
  using assms by (rule Covers_allows)

definition ex_owner :: policy_rule where
  "ex_owner = \<lparr>pr_verbs = [''get'', ''list''], pr_apiGroups = [[]], pr_resources = [''*/log'', ''pods''],
     pr_resourceNames = [], pr_nonResourceURLs = Some [''/api/*'']\<rparr>"

definition ex_servant :: policy_rule where
  "ex_servant = \<lparr>pr_verbs = [''get''], pr_apiGroups = [[]], pr_resources = [''pods/log''],
     pr_resourceNames = [], pr_nonResourceURLs = Some [''/api/v1/*'']\<rparr>"

definition ex_request :: auth_attributes where
  "ex_request = \<lparr>aa_user = \<lparr>ui_name = ''jane'', ui_groups = []\<rparr>, aa_verb = ''get'', aa_namespace = ''ns'',
     aa_apiGroup = [], aa_resource = ''pods'', aa_subresource = ''log'', aa_name = ''p'', aa_path = [],
     aa_isResourceRequest = True\<rparr>"

theorem Covers_sound_witness: "RulesAllow ex_request [ex_owner]"
proof (rule Covers_sound)
  show "fst (Covers [ex_owner] [ex_servant])" by code_simp
  show "wf_request ex_request" by code_simp
  show "RulesAllow ex_request [ex_servant]" by code_simp
qed

text \<open>Nobody needs more rights than they hold to pass on what they hold: a list of
  rules in which no rule mixes URLs with resource names is covered by itself.\<close>

lemma Covers_refl:
  assumes "\<And>r. r \<in> set rules \<Longrightarrow> urls r = [] \<or> pr_resourceNames r = []"
  shows "Covers rules rules = (True, [])"
proof -
  have "ruleCovers rule s" if "rule \<in> set rules" "s \<in> set (BreakdownRule rule)" for rule s
    using that(2)
  proof (cases rule: BreakdownRule_cases)
    case (1 v g r ns)
    then show ?thesis
      by (simp add: ruleCovers_def resourceCoversAll_def nonResourceURLsCoversAll_def Let_def)
  next
    case (2 v u)
    then have "pr_resourceNames rule = []" using assms [OF that(1)] by auto
    then show ?thesis using 2
      by (auto simp: ruleCovers_def resourceCoversAll_def nonResourceURLsCoversAll_def
          nonResourceURLCovers_def list_ex_iff Let_def)
  qed
  then have "filter (\<lambda>s. \<not> (\<exists>r \<in> set rules. ruleCovers r s)) (concat (map BreakdownRule rules)) = []"
    by (auto simp: filter_empty_conv)
  then show ?thesis by (simp add: Covers_eq Let_def)
qed

theorem Covers_refl_witness: "Covers [ex_owner, ex_servant] [ex_owner, ex_servant] = (True, [])"
  by (rule Covers_refl) (auto simp: ex_owner_def ex_servant_def)

text \<open>Compacting rules keeps their meaning: whatever the order in which the map of
  simple rules is iterated, the compacted rules allow exactly the requests the given rules allow.\<close>

lemma CompactRules_equivalent:
  assumes "\<And>m. mset (order m) = mset m"
  shows "RulesAllow a (CompactRules order rules) \<longleftrightarrow> RulesAllow a rules"
proof -
  obtain c s where cs: "fold CompactRules_step rules ([], []) = (c, s)" by fastforce
  have "RulesAllow a (c @ map snd s) \<longleftrightarrow> RulesAllow a rules"
    using CompactRules_fold [OF _ cs] by (auto simp: compact_inv_def)
  moreover have "set (order s) = set s"
    using assms by (metis set_mset_mset)
  ultimately show ?thesis
    using cs by (simp add: CompactRules_def RulesAllow_def)
qed

theorem CompactRules_equivalent_witness:
  "RulesAllow ex_request (CompactRules rev [ex_owner, ex_servant]) \<longleftrightarrow> RulesAllow ex_request [ex_owner, ex_servant]"
  by (rule CompactRules_equivalent) simp

text \<open>The rule builder returns a rule exactly when it is well formed: it has verbs,
  and it has either only URLs or resources together with API groups and no URLs; the rule it returns
  allows the same requests as the fields that were set.\<close>

lemma Builder_Rule_correct:
  "case Builder_Rule r of
     Inr r' \<Rightarrow> pr_verbs r \<noteq> [] \<and>
       ((urls r \<noteq> [] \<and> pr_apiGroups r = [] \<and> pr_resources r = [] \<and> pr_resourceNames r = [])
        \<or> (urls r = [] \<and> pr_resources r \<noteq> [] \<and> pr_apiGroups r \<noteq> []))
       \<and> RuleAllows a r' = RuleAllows a r \<and> sorted (pr_verbs r') \<and> sorted (pr_resources r')
   | Inl _ \<Rightarrow> pr_verbs r = [] \<or>
       \<not> ((urls r \<noteq> [] \<and> pr_apiGroups r = [] \<and> pr_resources r = [] \<and> pr_resourceNames r = [])
        \<or> (urls r = [] \<and> pr_resources r \<noteq> [] \<and> pr_apiGroups r \<noteq> []))"
proof -
  have "urls (r\<lparr>pr_resources := x1, pr_resourceNames := x2, pr_apiGroups := x3,
      pr_nonResourceURLs := map_option sort (pr_nonResourceURLs r), pr_verbs := x4\<rparr>) = sort (urls r)" for x1 x2 x3 x4
    by (simp add: urls_def split: option.splits)
  moreover have "sort xs = [] \<longleftrightarrow> xs = []" for xs :: "string list"
    by (metis mset_sort mset_zero_iff)
  ultimately show ?thesis
    by (auto simp: Builder_Rule_def Let_def RuleAllows_def match_iffs split: sum.splits if_splits)
qed

end
