(* ===== verification/RbacResolve.thy ===== *)
theory RbacResolve
  imports RbacRules
begin

text \<open>
  Which rules a user holds: subjects and bindings, the walk over the bindings that
  apply to a user with a visitor that may stop it (\<open>VisitRulesFor\<close>), the resolver of
  \<open>kube/pkg/registry/rbac/validation/rule.go\<close> with its static implementation and the
  escalation check on top of it. The helpers that \<open>rule.go\<close> shares literally with
  \<open>pkg/authorization/rbac/resolver.go\<close> (\<open>appliesTo\<close>, \<open>appliesToUser\<close>,
  \<open>describeSubject\<close>) are here once. A walk is specified by the list of events, a rule
  or an error each, that it offers to the visitor.
\<close>

section \<open>Subjects, roles and bindings\<close>

record subject =
  sj_kind :: string
  sj_apiGroup :: string
  sj_name :: string
  sj_namespace :: string

record role_ref =
  rr_apiGroup :: string
  rr_kind :: string
  rr_name :: string

record role =
  ro_namespace :: string
  ro_name :: string
  ro_rules :: "policy_rule list"

text \<open>Role bindings and cluster role bindings; the latter have no namespace.\<close>

record binding =
  bn_namespace :: string
  bn_name :: string
  bn_subjects :: "subject list"
  bn_roleRef :: role_ref

abbreviation UserKind :: string where "UserKind \<equiv> ''User''"
abbreviation GroupKind :: string where "GroupKind \<equiv> ''Group''"
abbreviation ServiceAccountKind :: string where "ServiceAccountKind \<equiv> ''ServiceAccount''"

section \<open>Service account names\<close>

definition MakeUsername :: "string \<Rightarrow> string \<Rightarrow> string" where
  "MakeUsername namespace name = ''system:serviceaccount:'' @ namespace @ '':'' @ name"

definition MatchesUsername :: "string \<Rightarrow> string \<Rightarrow> string \<Rightarrow> bool" where
  "MatchesUsername namespace name username =
    (if \<not> HasPrefix username ''system:serviceaccount:'' then False
     else
       let username = drop (length ''system:serviceaccount:'') username in
       if \<not> HasPrefix username namespace then False
       else
         let username = drop (length namespace) username in
         if \<not> HasPrefix username '':'' then False
         else drop 1 username = name)"

lemma MatchesUsername_iff: "MatchesUsername ns n u \<longleftrightarrow> u = MakeUsername ns n"
  unfolding MatchesUsername_def MakeUsername_def Let_def HasPrefix_def
  by (auto simp: prefix_def)

section \<open>Formatting\<close>

text \<open>The verb \<open>%q\<close> of \<open>fmt\<close> on printable ASCII strings.\<close>

definition Quote :: "string \<Rightarrow> string" where
  "Quote s = [CHR 0x22]
     @ concat (map (\<lambda>c. if c = CHR 0x22 \<or> c = CHR 0x5C then [CHR 0x5C, c] else [c]) s) @ [CHR 0x22]"

definition QuoteList :: "string list \<Rightarrow> string" where
  "QuoteList ss = ''['' @ Join (map Quote ss) '' '' @ '']''"

definition CompactString :: "policy_rule \<Rightarrow> string" where
  "CompactString r =
    (let parts = (if length (pr_apiGroups r) > 0 then [''APIGroups:'' @ QuoteList (pr_apiGroups r)] else [])
         @ (if length (pr_resources r) > 0 then [''Resources:'' @ QuoteList (pr_resources r)] else [])
         @ (if length (urls r) > 0 then [''NonResourceURLs:'' @ QuoteList (urls r)] else [])
         @ (if length (pr_resourceNames r) > 0 then [''ResourceNames:'' @ QuoteList (pr_resourceNames r)] else [])
         @ (if length (pr_verbs r) > 0 then [''Verbs:'' @ QuoteList (pr_verbs r)] else [])
     in ''{'' @ Join parts '', '' @ ''}'')"

definition SubjectsStrings :: "subject list \<Rightarrow> string list \<times> string list \<times> string list \<times> string list" where
  "SubjectsStrings subjects =
    fold (\<lambda>subject (users, groups, sas, others).
        if sj_kind subject = ServiceAccountKind then
          (users, groups, sas @ [sj_namespace subject @ ''/'' @ sj_name subject], others)
        else if sj_kind subject = UserKind then (users @ [sj_name subject], groups, sas, others)
        else if sj_kind subject = GroupKind then (users, groups @ [sj_name subject], sas, others)
        else (users, groups, sas,
          others @ [sj_kind subject @ ''/'' @ sj_namespace subject @ ''/'' @ sj_name subject]))
      subjects ([], [], [], [])"

definition describeSubject :: "subject \<Rightarrow> string \<Rightarrow> string" where
  "describeSubject s bindingNamespace =
    (if sj_kind s = ServiceAccountKind then
       (if length (sj_namespace s) > 0 then sj_kind s @ '' '' @ Quote (sj_name s @ ''/'' @ sj_namespace s)
        else sj_kind s @ '' '' @ Quote (sj_name s @ ''/'' @ bindingNamespace))
     else sj_kind s @ '' '' @ Quote (sj_name s))"

definition describeClusterRoleBinding :: "binding \<Rightarrow> subject \<Rightarrow> string" where
  "describeClusterRoleBinding b s =
    ''ClusterRoleBinding '' @ Quote (bn_name b) @ '' of '' @ rr_kind (bn_roleRef b) @ '' ''
    @ Quote (rr_name (bn_roleRef b)) @ '' to '' @ describeSubject s []"

definition describeRoleBinding :: "binding \<Rightarrow> subject \<Rightarrow> string" where
  "describeRoleBinding b s =
    ''RoleBinding '' @ Quote (bn_name b @ ''/'' @ bn_namespace b) @ '' of '' @ rr_kind (bn_roleRef b) @ '' ''
    @ Quote (rr_name (bn_roleRef b)) @ '' to '' @ describeSubject s (bn_namespace b)"

section \<open>Who a binding applies to\<close>

definition appliesToUser :: "user_info \<Rightarrow> subject \<Rightarrow> string \<Rightarrow> bool" where
  "appliesToUser user subject namespace =
    (if sj_kind subject = UserKind then ui_name user = sj_name subject
     else if sj_kind subject = GroupKind then has (ui_groups user) (sj_name subject)
     else if sj_kind subject = ServiceAccountKind then
       (let saNamespace = (if length (sj_namespace subject) > 0 then sj_namespace subject else namespace)
        in if length saNamespace = 0 then False
           else MatchesUsername saNamespace (sj_name subject) (ui_name user))
     else False)"

fun appliesTo_from :: "nat \<Rightarrow> user_info \<Rightarrow> subject list \<Rightarrow> string \<Rightarrow> nat \<times> bool" where
  "appliesTo_from i user [] namespace = (0, False)"
| "appliesTo_from i user (s # ss) namespace =
     (if appliesToUser user s namespace then (i, True) else appliesTo_from (Suc i) user ss namespace)"

definition appliesTo :: "user_info \<Rightarrow> subject list \<Rightarrow> string \<Rightarrow> nat \<times> bool" where
  "appliesTo user bindingSubjects namespace = appliesTo_from 0 user bindingSubjects namespace"

lemma appliesTo_from_iff:
  "snd (appliesTo_from i user ss ns) \<longleftrightarrow> (\<exists>s \<in> set ss. appliesToUser user s ns)"
  by (induction ss arbitrary: i) auto

lemma appliesTo_iff: "snd (appliesTo user ss ns) \<longleftrightarrow> (\<exists>s \<in> set ss. appliesToUser user s ns)"
  by (simp add: appliesTo_def appliesTo_from_iff)

lemma appliesTo_from_index:
  "appliesTo_from i user ss ns = (j, True) \<Longrightarrow>
   i \<le> j \<and> j < i + length ss \<and> appliesToUser user (ss ! (j - i)) ns"
proof (induction ss arbitrary: i)
  case (Cons s ss)
  then show ?case
    by (cases "appliesToUser user s ns") (fastforce simp: nth_Cons' Suc_diff_le)+
qed simp

section \<open>Visiting rules\<close>

text \<open>A visitor gets a source description, a rule or an error and its own state; it returns the
  new state and whether to go on.\<close>

type_synonym 's visitor = "string \<Rightarrow> policy_rule option \<Rightarrow> gerror option \<Rightarrow> 's \<Rightarrow> 's \<times> bool"

fun visit_rules :: "'s visitor \<Rightarrow> string \<Rightarrow> policy_rule list \<Rightarrow> 's \<Rightarrow> 's \<times> bool" where
  "visit_rules visitor source [] s = (s, True)"
| "visit_rules visitor source (r # rs) s =
     (case visitor source (Some r) None s of
        (s', cont) \<Rightarrow> if cont then visit_rules visitor source rs s' else (s', False))"

fun visit_bindings ::
  "'s visitor \<Rightarrow> (binding \<Rightarrow> subject \<Rightarrow> string) \<Rightarrow> (role_ref \<Rightarrow> gerror + policy_rule list) \<Rightarrow>
   user_info \<Rightarrow> string \<Rightarrow> binding list \<Rightarrow> 's \<Rightarrow> 's \<times> bool"
where
  "visit_bindings visitor describe getRules user namespace [] s = (s, True)"
| "visit_bindings visitor describe getRules user namespace (b # bs) s =
     (case appliesTo user (bn_subjects b) namespace of (subjectIndex, applies) \<Rightarrow>
        if \<not> applies then visit_bindings visitor describe getRules user namespace bs s
        else
          case (case getRules (bn_roleRef b) of
                  Inl err \<Rightarrow> visitor [] None (Some err) s
                | Inr rules \<Rightarrow> visit_rules visitor (describe b (bn_subjects b ! subjectIndex)) rules s) of
            (s', cont) \<Rightarrow>
              if cont then visit_bindings visitor describe getRules user namespace bs s' else (s', False))"

text \<open>The specification: the events offered to the visitor and their consumption.\<close>

type_synonym event = "string \<times> policy_rule option \<times> gerror option"

fun run_visitor :: "'s visitor \<Rightarrow> event list \<Rightarrow> 's \<Rightarrow> 's \<times> bool" where
  "run_visitor v [] s = (s, True)"
| "run_visitor v ((source, r, e) # es) s =
     (case v source r e s of (s', cont) \<Rightarrow> if cont then run_visitor v es s' else (s', False))"

definition rule_events :: "string \<Rightarrow> policy_rule list \<Rightarrow> event list" where
  "rule_events source rules = map (\<lambda>r. (source, Some r, None)) rules"

definition binding_events ::
  "(binding \<Rightarrow> subject \<Rightarrow> string) \<Rightarrow> (role_ref \<Rightarrow> gerror + policy_rule list) \<Rightarrow>
   user_info \<Rightarrow> string \<Rightarrow> binding list \<Rightarrow> event list"
where
  "binding_events describe getRules user ns bs = concat (map (\<lambda>b.
     case appliesTo user (bn_subjects b) ns of (i, applies) \<Rightarrow>
       if \<not> applies then []
       else case getRules (bn_roleRef b) of
              Inl err \<Rightarrow> [([], None, Some err)]
            | Inr rules \<Rightarrow> rule_events (describe b (bn_subjects b ! i)) rules) bs)"

lemma run_visitor_append:
  "run_visitor v (es @ fs) s =
    (case run_visitor v es s of (s', cont) \<Rightarrow> if cont then run_visitor v fs s' else (s', False))"
  by (induction es arbitrary: s) (auto split: prod.splits)

lemma visit_rules_run: "visit_rules v src rs s = run_visitor v (rule_events src rs) s"
  by (induction rs arbitrary: s) (auto simp: rule_events_def split: prod.splits)

lemma run_visitor_single: "run_visitor v [(src, r, e)] s = v src r e s"
  by (simp split: prod.splits)

lemma visit_bindings_run:
  "visit_bindings v d g user ns bs s = run_visitor v (binding_events d g user ns bs) s"
proof (induction bs arbitrary: s)
  case (Cons b bs)
  have step: "binding_events d g user ns (b # bs) =
      (case appliesTo user (bn_subjects b) ns of (i, applies) \<Rightarrow>
       if \<not> applies then []
       else case g (bn_roleRef b) of
              Inl err \<Rightarrow> [([], None, Some err)]
            | Inr rules \<Rightarrow> rule_events (d b (bn_subjects b ! i)) rules) @ binding_events d g user ns bs"
    by (simp add: binding_events_def)
  show ?case
    unfolding step run_visitor_append
    by (auto simp: Cons.IH visit_rules_run run_visitor_append split: prod.splits sum.splits)
qed (simp add: binding_events_def)

section \<open>The accumulating visitor\<close>

definition ruleAccumulator_visit :: "(policy_rule list \<times> gerror list) visitor" where
  "ruleAccumulator_visit source rule err = (\<lambda>(rules, errors).
     let rules = (case rule of Some r \<Rightarrow> rules @ [r] | None \<Rightarrow> rules);
         errors = (case err of Some e \<Rightarrow> errors @ [e] | None \<Rightarrow> errors)
     in ((rules, errors), True))"

definition event_rules :: "event list \<Rightarrow> policy_rule list" where
  "event_rules es = List.map_filter (fst \<circ> snd) es"

definition event_errors :: "event list \<Rightarrow> gerror list" where
  "event_errors es = List.map_filter (snd \<circ> snd) es"

lemma event_rules_append [simp]: "event_rules (es @ fs) = event_rules es @ event_rules fs"
  by (simp add: event_rules_def List.map_filter_def)

lemma event_rules_rule_events [simp]: "event_rules (rule_events src rs) = rs"
  by (simp add: event_rules_def rule_events_def List.map_filter_def comp_def)

lemma event_rules_Nil [simp]: "event_rules [] = []"
  by (simp add: event_rules_def List.map_filter_def)

lemma accumulate_run:
  "run_visitor ruleAccumulator_visit es (rs, ers) = ((rs @ event_rules es, ers @ event_errors es), True)"
proof (induction es arbitrary: rs ers)
  case (Cons e es)
  then show ?case
    by (cases e) (auto simp: ruleAccumulator_visit_def event_rules_def event_errors_def
      List.map_filter_def Let_def split: option.splits)
qed (simp add: event_rules_def event_errors_def List.map_filter_def)

section \<open>The resolver of rule.go\<close>

record rule_resolver =
  rs_GetRole :: "string \<Rightarrow> string \<Rightarrow> gerror + role"
  rs_ListRoleBindings :: "string \<Rightarrow> gerror + binding list"
  rs_GetClusterRole :: "string \<Rightarrow> gerror + role"
  rs_ListClusterRoleBindings :: "gerror + binding list"

definition GetRoleReferenceRules :: "rule_resolver \<Rightarrow> role_ref \<Rightarrow> string \<Rightarrow> gerror + policy_rule list" where
  "GetRoleReferenceRules r roleRef bindingNamespace =
    (if rr_kind roleRef = ''Role'' then
       (case rs_GetRole r bindingNamespace (rr_name roleRef) of
          Inl err \<Rightarrow> Inl err | Inr role \<Rightarrow> Inr (ro_rules role))
     else if rr_kind roleRef = ''ClusterRole'' then
       (case rs_GetClusterRole r (rr_name roleRef) of
          Inl err \<Rightarrow> Inl err | Inr clusterRole \<Rightarrow> Inr (ro_rules clusterRole))
     else Inl (OtherErr (''unsupported role reference kind: '' @ Quote (rr_kind roleRef))))"

definition VisitRulesFor :: "rule_resolver \<Rightarrow> user_info \<Rightarrow> string \<Rightarrow> 's visitor \<Rightarrow> 's \<Rightarrow> 's" where
  "VisitRulesFor r user namespace visitor s =
    (case (case rs_ListClusterRoleBindings r of
             Inl err \<Rightarrow> visitor [] None (Some err) s
           | Inr clusterRoleBindings \<Rightarrow>
               visit_bindings visitor describeClusterRoleBinding
                 (\<lambda>roleRef. GetRoleReferenceRules r roleRef []) user [] clusterRoleBindings s) of
       (s1, cont) \<Rightarrow>
         if \<not> cont then s1
         else if length namespace > 0 then
           (case rs_ListRoleBindings r namespace of
              Inl err \<Rightarrow> fst (visitor [] None (Some err) s1)
            | Inr roleBindings \<Rightarrow>
                fst (visit_bindings visitor describeRoleBinding
                  (\<lambda>roleRef. GetRoleReferenceRules r roleRef namespace) user namespace roleBindings s1))
         else s1)"

definition RulesFor :: "rule_resolver \<Rightarrow> user_info \<Rightarrow> string \<Rightarrow> policy_rule list \<times> gerror option" where
  "RulesFor r user namespace =
    (case VisitRulesFor r user namespace ruleAccumulator_visit ([], []) of
       (rules, errors) \<Rightarrow> (rules, NewAggregate errors))"

definition resolver_events :: "rule_resolver \<Rightarrow> user_info \<Rightarrow> string \<Rightarrow> event list" where
  "resolver_events r user ns =
    (case rs_ListClusterRoleBindings r of
       Inl err \<Rightarrow> [([], None, Some err)]
     | Inr crbs \<Rightarrow> binding_events describeClusterRoleBinding (\<lambda>rr. GetRoleReferenceRules r rr []) user [] crbs)
    @ (if ns = [] then [] else
       case rs_ListRoleBindings r ns of
         Inl err \<Rightarrow> [([], None, Some err)]
       | Inr rbs \<Rightarrow> binding_events describeRoleBinding (\<lambda>rr. GetRoleReferenceRules r rr ns) user ns rbs)"

lemma VisitRulesFor_run: "VisitRulesFor r user ns v s = fst (run_visitor v (resolver_events r user ns) s)"
  unfolding VisitRulesFor_def resolver_events_def run_visitor_append visit_bindings_run
  by (auto simp: run_visitor_single split: prod.splits sum.splits)

lemma RulesFor_events:
  "RulesFor r user ns = (event_rules (resolver_events r user ns), NewAggregate (event_errors (resolver_events r user ns)))"
  by (simp add: RulesFor_def VisitRulesFor_run accumulate_run)

text \<open>
  \<open>UserFrom\<close> and \<open>NamespaceFrom\<close> read the request context: the user may be absent, an absent
  namespace is the empty string. The order of the map of simple rules only affects the message.
\<close>

definition ConfirmNoEscalation ::
  "((simple_resource \<times> policy_rule) list \<Rightarrow> (simple_resource \<times> policy_rule) list) \<Rightarrow>
   user_info option \<Rightarrow> string \<Rightarrow> rule_resolver \<Rightarrow> policy_rule list \<Rightarrow> gerror option"
where
  "ConfirmNoEscalation order ctxUser namespace ruleResolver rules =
    (case ctxUser of
       None \<Rightarrow> Some (OtherErr ''no user on context'')
     | Some user \<Rightarrow>
         (let (ownerRules, err) = RulesFor ruleResolver user namespace;
              ruleResolutionErrors = (case err of Some e \<Rightarrow> [e] | None \<Rightarrow> []);
              (ownerRightsCover, missingRights) = Covers ownerRules rules
          in if \<not> ownerRightsCover then
               (let compactMissingRights = CompactRules order missingRights;
                    missingDescriptions = fold insert (map CompactString compactMissingRights) {};
                    msg = ''user '' @ Quote (ui_name user) @ '' (groups='' @ QuoteList (ui_groups user)
                      @ '') is attempting to grant RBAC permissions not currently held:'' @ [CHR 0x0A]
                      @ Join (ListSet missingDescriptions) [CHR 0x0A];
                    msg = (if length ruleResolutionErrors > 0 then msg @ ''; resolution errors'' else msg)
                in Some (OtherErr msg))
             else None))"

section \<open>Static roles\<close>

record static_roles =
  stat_roles :: "role list"
  stat_roleBindings :: "binding list"
  stat_clusterRoles :: "role list"
  stat_clusterRoleBindings :: "binding list"

definition Static_GetRole :: "static_roles \<Rightarrow> string \<Rightarrow> string \<Rightarrow> gerror + role" where
  "Static_GetRole r namespace name =
    (if length namespace = 0 then Inl (OtherErr ''must provide namespace when getting role'')
     else case find (\<lambda>role. ro_namespace role = namespace \<and> ro_name role = name) (stat_roles r) of
            Some role \<Rightarrow> Inr role
          | None \<Rightarrow> Inl (OtherErr ''role not found''))"

definition Static_GetClusterRole :: "static_roles \<Rightarrow> string \<Rightarrow> gerror + role" where
  "Static_GetClusterRole r name =
    (case find (\<lambda>clusterRole. ro_name clusterRole = name) (stat_clusterRoles r) of
       Some clusterRole \<Rightarrow> Inr clusterRole
     | None \<Rightarrow> Inl (OtherErr ''clusterrole not found''))"

definition Static_ListRoleBindings :: "static_roles \<Rightarrow> string \<Rightarrow> gerror + binding list" where
  "Static_ListRoleBindings r namespace =
    (if length namespace = 0 then Inl (OtherErr ''must provide namespace when listing role bindings'')
     else Inr (fold (\<lambda>roleBinding acc.
        if bn_namespace roleBinding \<noteq> namespace then acc else acc @ [roleBinding]) (stat_roleBindings r) []))"

definition Static_ListClusterRoleBindings :: "static_roles \<Rightarrow> gerror + binding list" where
  "Static_ListClusterRoleBindings r = Inr (stat_clusterRoleBindings r)"

definition newMockRuleResolver :: "static_roles \<Rightarrow> rule_resolver" where
  "newMockRuleResolver r = \<lparr>rs_GetRole = Static_GetRole r, rs_ListRoleBindings = Static_ListRoleBindings r,
     rs_GetClusterRole = Static_GetClusterRole r,
     rs_ListClusterRoleBindings = Static_ListClusterRoleBindings r\<rparr>"

lemma Static_ListRoleBindings_eq:
  "ns \<noteq> [] \<Longrightarrow> Static_ListRoleBindings r ns = Inr (filter (\<lambda>b. bn_namespace b = ns) (stat_roleBindings r))"
proof -
  have "fold (\<lambda>b acc. if bn_namespace b \<noteq> ns then acc else acc @ [b]) bs acc
      = acc @ filter (\<lambda>b. bn_namespace b = ns) bs" for bs acc :: "binding list"
    by (induction bs arbitrary: acc) auto
  then show "ns \<noteq> [] \<Longrightarrow> ?thesis" by (simp add: Static_ListRoleBindings_def)
qed

section \<open>Which rules a walk reaches\<close>

lemma event_rules_binding_events:
  "r \<in> set (event_rules (binding_events d g user ns bs)) \<longleftrightarrow>
    (\<exists>b \<in> set bs. \<exists>rules. (\<exists>s \<in> set (bn_subjects b). appliesToUser user s ns)
       \<and> g (bn_roleRef b) = Inr rules \<and> r \<in> set rules)"
proof (induction bs)
  case (Cons b bs)
  have step: "binding_events d g user ns (b # bs) =
      (case appliesTo user (bn_subjects b) ns of (i, applies) \<Rightarrow>
       if \<not> applies then []
       else case g (bn_roleRef b) of
              Inl err \<Rightarrow> [([], None, Some err)]
            | Inr rules \<Rightarrow> rule_events (d b (bn_subjects b ! i)) rules) @ binding_events d g user ns bs"
    by (simp add: binding_events_def)
  have err: "event_rules [([], None, Some e)] = []" for e
    by (simp add: event_rules_def List.map_filter_def)
  show ?case
    unfolding step using Cons.IH appliesTo_iff [of user "bn_subjects b" ns]
    by (cases "appliesTo user (bn_subjects b) ns"; cases "g (bn_roleRef b)") (auto simp: err)
qed (simp add: binding_events_def)

section \<open>Properties\<close>

text \<open>The bindings of the static roles that grant a rule to a user in a namespace.\<close>

definition static_grants :: "static_roles \<Rightarrow> user_info \<Rightarrow> string \<Rightarrow> policy_rule \<Rightarrow> bool" where
  "static_grants st user ns r \<longleftrightarrow>
    (\<exists>b \<in> set (stat_clusterRoleBindings st). \<exists>rules.
       (\<exists>s \<in> set (bn_subjects b). appliesToUser user s [])
       \<and> GetRoleReferenceRules (newMockRuleResolver st) (bn_roleRef b) [] = Inr rules \<and> r \<in> set rules)
    \<or> (ns \<noteq> [] \<and> (\<exists>b \<in> set (stat_roleBindings st). \<exists>rules. bn_namespace b = ns
       \<and> (\<exists>s \<in> set (bn_subjects b). appliesToUser user s ns)
       \<and> GetRoleReferenceRules (newMockRuleResolver st) (bn_roleRef b) ns = Inr rules \<and> r \<in> set rules))"

text \<open>The rules that \<open>RulesFor\<close> collects from static roles are exactly those granted to the
  user by a cluster role binding, or by a role binding of the requested namespace, with a subject that applies
  to the user; bindings whose role cannot be resolved contribute an error and no rule.\<close>

lemma RulesFor_static:
  "r \<in> set (fst (RulesFor (newMockRuleResolver st) user ns)) \<longleftrightarrow> static_grants st user ns r"
proof (cases "ns = []")
  case True
  then show ?thesis
    by (simp add: RulesFor_events resolver_events_def newMockRuleResolver_def Static_ListClusterRoleBindings_def
      event_rules_binding_events static_grants_def)
next
  case False
  then show ?thesis
    by (simp add: RulesFor_events resolver_events_def newMockRuleResolver_def Static_ListClusterRoleBindings_def
      Static_ListRoleBindings_eq event_rules_binding_events static_grants_def) blast
qed

text \<open>C11. No escalation: when \<open>ConfirmNoEscalation\<close> reports no error, there is a user on the
  context and each request with a slash-free resource name that the granted rules allow is already allowed to
  that user by the rules the resolver collects, even if some of them could not be resolved.\<close>

theorem ConfirmNoEscalation_sound:
  assumes "ConfirmNoEscalation order ctxUser ns resolver rules = None"
    and "wf_request a" "RulesAllow a rules"
  shows "\<exists>user. ctxUser = Some user \<and> RulesAllow a (fst (RulesFor resolver user ns))"
proof -
  obtain user where user: "ctxUser = Some user"
    using assms(1) by (auto simp: ConfirmNoEscalation_def split: option.splits)
  obtain owner err where rf: "RulesFor resolver user ns = (owner, err)" by fastforce
  obtain ok missing where cov: "Covers owner rules = (ok, missing)" by fastforce
  have ok using assms(1) user rf cov by (simp add: ConfirmNoEscalation_def Let_def split: if_splits)
  then have "fst (Covers owner rules)" using cov by simp
  then show ?thesis using user rf Covers_allows assms(2,3) by auto
qed

definition ex_static :: static_roles where
  "ex_static = \<lparr>stat_roles = [], stat_roleBindings = [],
     stat_clusterRoles = [\<lparr>ro_namespace = [], ro_name = ''admin'', ro_rules = [ex_owner]\<rparr>],
     stat_clusterRoleBindings = [\<lparr>bn_namespace = [], bn_name = ''b'',
        bn_subjects = [\<lparr>sj_kind = ''User'', sj_apiGroup = [], sj_name = ''jane'', sj_namespace = []\<rparr>],
        bn_roleRef = \<lparr>rr_apiGroup = [], rr_kind = ''ClusterRole'', rr_name = ''admin''\<rparr>\<rparr>]\<rparr>"

theorem ConfirmNoEscalation_sound_witness:
  "\<exists>user. Some (aa_user ex_request) = Some user \<and>
     RulesAllow ex_request (fst (RulesFor (newMockRuleResolver ex_static) user ''ns''))"
proof (rule ConfirmNoEscalation_sound [where order = id and rules = "[ex_servant]"])
  show "ConfirmNoEscalation id (Some (aa_user ex_request)) ''ns'' (newMockRuleResolver ex_static) [ex_servant] = None"
    by code_simp
  show "wf_request ex_request" by code_simp
  show "RulesAllow ex_request [ex_servant]" by code_simp
qed

end
