(* ===== verification/KioskTypes.thy ===== *)
theory KioskTypes
  imports ApiTypes RbacResolve
begin

text \<open>
  The API types of kiosk: \<open>pkg/apis/config/v1alpha1\<close> (accounts, account quotas,
  templates and template instances) and \<open>pkg/apis/tenancy/v1alpha1\<close> (the spaces and
  accounts served by the aggregated API server), with the namespaces behind the spaces.
\<close>

section \<open>Template instances and accounts\<close>

record ti_parameter =
  tp_name :: string
  tp_value :: string

record template_instance_spec =
  tis_template :: string
  tis_sync :: bool
  tis_parameters :: "ti_parameter list"

record account_ti_template =
  ati_meta :: obj_meta
  ati_spec :: template_instance_spec

record account_space =
  as_clusterRole :: "string option"
  as_limit :: "int option"
  as_templateInstances :: "account_ti_template list"
  as_spaceTemplate :: obj_meta

record account_spec =
  acs_space :: account_space
  acs_subjects :: "subject list"

text \<open>The status of an account is the list of the names of its namespaces.\<close>

record account =
  ac_meta :: obj_meta
  ac_spec :: account_spec
  ac_status :: "string list"

section \<open>Account quotas\<close>

record quota_by_namespace =
  qn_namespace :: string
  qn_status :: quota_status

record account_quota =
  aq_meta :: obj_meta
  aq_account :: string
  aq_quota :: quota_spec
  aq_total :: quota_status
  aq_namespaces :: "quota_by_namespace list"

section \<open>Spaces and namespaces\<close>

record space =
  sp_meta :: obj_meta
  sp_account :: string
  sp_finalizers :: "string list"
  sp_phase :: string

record namespace =
  ns_meta :: obj_meta
  ns_finalizers :: "string list"
  ns_phase :: string

section \<open>Labels, annotations and index names\<close>

definition SpaceLabelAccount :: string where "SpaceLabelAccount = ''kiosk.sh/account''"
definition SpaceAnnotationInitializing :: string where
  "SpaceAnnotationInitializing = ''kiosk.sh/initializing''"
definition UserPrefix :: string where "UserPrefix = ''user:''"
definition GroupPrefix :: string where "GroupPrefix = ''group:''"

text \<open>The value of a label, the empty string where it is absent.\<close>

definition label_value :: "(string \<times> string) list \<Rightarrow> string \<Rightarrow> string" where
  "label_value ls k = (case map_of ls k of Some v \<Rightarrow> v | None \<Rightarrow> [])"

end
