(* ===== verification/Authorizer.thy ===== *)
theory Authorizer
  imports KioskTypes
begin

text \<open>
  The authorizer of kiosk's API server (\<open>pkg/authorization\<close>): rules are found through a
  cached client whose bindings are indexed by subject (\<open>pkg/manager/controllers/controller_indices.go\<close>,
  \<open>ConvertSubject\<close>), the request is allowed by the first rule that allows it, and lists are
  filtered by what the user may get. The client is controller-runtime's cache, so it is a
  parameter; the locale \<open>indexed_client\<close> states what the documented index lookup returns,
  and the client over a store of objects is its instance.
\<close>

section \<open>Subjects as index keys\<close>

definition ConvertSubject :: "string \<Rightarrow> subject \<Rightarrow> string" where
  "ConvertSubject namespace subject =
    (if sj_kind subject = UserKind then UserPrefix @ sj_name subject
     else if sj_kind subject = GroupKind then GroupPrefix @ sj_name subject
     else if sj_kind subject = ServiceAccountKind then
       (let saNamespace = (if length (sj_namespace subject) > 0 then sj_namespace subject else namespace)
        in if length saNamespace = 0 then []
           else UserPrefix @ MakeUsername saNamespace (sj_name subject))
     else [])"

definition index_subjects :: "string \<Rightarrow> subject list \<Rightarrow> string list" where
  "index_subjects namespace subjects =
    fold (\<lambda>subject acc.
        let subjectID = ConvertSubject namespace subject
        in if subjectID \<noteq> [] then acc @ [subjectID] else acc) subjects []"

definition index_RoleBinding :: "binding \<Rightarrow> string list" where
  "index_RoleBinding rb = index_subjects (bn_namespace rb) (bn_subjects rb)"

definition index_ClusterRoleBinding :: "binding \<Rightarrow> string list" where
  "index_ClusterRoleBinding crb = index_subjects [] (bn_subjects crb)"

definition index_Account :: "account \<Rightarrow> string list" where
  "index_Account a = index_subjects [] (acs_subjects (ac_spec a))"

definition index_AccountQuota :: "account_quota \<Rightarrow> string list" where
  "index_AccountQuota q = (if aq_account q \<noteq> [] then [aq_account q] else [])"

definition index_Namespace :: "namespace \<Rightarrow> string list" where
  "index_Namespace n =
    (if label_value (om_labels (ns_meta n)) SpaceLabelAccount \<noteq> []
     then [label_value (om_labels (ns_meta n)) SpaceLabelAccount] else [])"

definition index_by_controller :: "obj_meta \<Rightarrow> string list" where
  "index_by_controller m =
    (case GetControllerOf m of
       None \<Rightarrow> []
     | Some owner \<Rightarrow>
         if ow_apiVersion owner \<noteq> ''config.kiosk.sh/v1alpha1'' \<or> ow_kind owner \<noteq> ''Account'' then []
         else [ow_name owner])"

text \<open>The keys under which a user is looked up.\<close>

definition user_keys :: "user_info \<Rightarrow> string list" where
  "user_keys user = fold (\<lambda>group subjects. subjects @ [GroupPrefix @ group]) (ui_groups user)
     [UserPrefix @ ui_name user]"

lemma set_user_keys:
  "set (user_keys user) = insert (UserPrefix @ ui_name user) ((\<lambda>g. GroupPrefix @ g) ` set (ui_groups user))"
proof -
  have "fold (\<lambda>g subjects. subjects @ [GroupPrefix @ g]) gs acc = acc @ map (\<lambda>g. GroupPrefix @ g) gs" for gs acc
    by (induction gs arbitrary: acc) auto
  then show ?thesis by (simp add: user_keys_def)
qed

lemma index_subjects_eq:
  "index_subjects ns ss = filter (\<lambda>k. k \<noteq> []) (map (ConvertSubject ns) ss)"
proof -
  have "fold (\<lambda>s acc. let i = ConvertSubject ns s in if i \<noteq> [] then acc @ [i] else acc) ss acc
      = acc @ filter (\<lambda>k. k \<noteq> []) (map (ConvertSubject ns) ss)" for acc
    by (induction ss arbitrary: acc) (simp_all add: Let_def)
  then show ?thesis by (simp add: index_subjects_def)
qed

lemma in_index_subjects:
  "k \<in> set (index_subjects ns ss) \<longleftrightarrow> k \<noteq> [] \<and> (\<exists>s \<in> set ss. ConvertSubject ns s = k)"
  unfolding index_subjects_eq set_filter set_map by blast

text \<open>A subject applies to a user exactly when the user is looked up under the subject's key.\<close>

lemma UserPrefix_GroupPrefix [simp]:
  "UserPrefix @ x \<noteq> GroupPrefix @ y" "GroupPrefix @ y \<noteq> UserPrefix @ x" "UserPrefix \<noteq> []" "GroupPrefix \<noteq> []"
  by (simp_all add: UserPrefix_def GroupPrefix_def)

lemma appliesToUser_key:
  "appliesToUser user s ns \<longleftrightarrow> ConvertSubject ns s \<noteq> [] \<and> ConvertSubject ns s \<in> set (user_keys user)"
proof -
  consider "sj_kind s = UserKind" | "sj_kind s = GroupKind" | "sj_kind s = ServiceAccountKind"
    | "sj_kind s \<noteq> UserKind" "sj_kind s \<noteq> GroupKind" "sj_kind s \<noteq> ServiceAccountKind" by blast
  then show ?thesis
    by cases (auto simp: appliesToUser_def ConvertSubject_def set_user_keys image_iff Let_def MatchesUsername_iff)
qed

lemma applies_iff_indexed:
  "(\<exists>s \<in> set ss. appliesToUser user s ns) \<longleftrightarrow> (\<exists>k \<in> set (user_keys user). k \<in> set (index_subjects ns ss))"
  unfolding in_index_subjects appliesToUser_key by blast

section \<open>The rule resolver over the client\<close>

text \<open>The list methods take the index key to match, or none.\<close>

record rbac_client =
  kc_ListClusterRoleBindings :: "string option \<Rightarrow> gerror + binding list"
  kc_ListRoleBindings :: "string \<Rightarrow> string option \<Rightarrow> gerror + binding list"
  kc_GetRole :: "string \<Rightarrow> string \<Rightarrow> gerror + role"
  kc_GetClusterRole :: "string \<Rightarrow> gerror + role"

record default_rule_resolver =
  dr_ListAll :: bool
  dr_Client :: rbac_client

fun list_by_subjects :: "(string \<Rightarrow> gerror + binding list) \<Rightarrow> string list \<Rightarrow> binding list \<Rightarrow> gerror + binding list" where
  "list_by_subjects f [] retBindings = Inr retBindings"
| "list_by_subjects f (subj # subjects) retBindings =
     (case f subj of
        Inl err \<Rightarrow> Inl err
      | Inr items \<Rightarrow> list_by_subjects f subjects (retBindings @ items))"

lemma list_by_subjects_err:
  assumes "\<And>k. isl (f k)" "ks \<noteq> []"
  shows "isl (list_by_subjects f ks acc)"
proof -
  obtain k ks' e where "ks = k # ks'" "f k = Inl e"
    using assms by (metis isl_def neq_Nil_conv)
  then show ?thesis by simp
qed

definition listClusterRoleBindings :: "default_rule_resolver \<Rightarrow> user_info \<Rightarrow> gerror + binding list" where
  "listClusterRoleBindings r user =
    (if dr_ListAll r then kc_ListClusterRoleBindings (dr_Client r) None
     else list_by_subjects (\<lambda>subj. kc_ListClusterRoleBindings (dr_Client r) (Some subj)) (user_keys user) [])"

definition listRoleBindings :: "default_rule_resolver \<Rightarrow> user_info \<Rightarrow> string \<Rightarrow> gerror + binding list" where
  "listRoleBindings r user namespace =
    (if dr_ListAll r then kc_ListRoleBindings (dr_Client r) namespace None
     else list_by_subjects (\<lambda>subj. kc_ListRoleBindings (dr_Client r) namespace (Some subj)) (user_keys user) [])"

definition kiosk_GetRoleReferenceRules ::
  "default_rule_resolver \<Rightarrow> role_ref \<Rightarrow> string \<Rightarrow> gerror + policy_rule list"
where
  "kiosk_GetRoleReferenceRules r roleRef bindingNamespace =
    (if rr_kind roleRef = ''Role'' then
       (case kc_GetRole (dr_Client r) bindingNamespace (rr_name roleRef) of
          Inl err \<Rightarrow> Inl err | Inr role \<Rightarrow> Inr (ro_rules role))
     else if rr_kind roleRef = ''ClusterRole'' then
       (case kc_GetClusterRole (dr_Client r) (rr_name roleRef) of
          Inl err \<Rightarrow> Inl err | Inr clusterRole \<Rightarrow> Inr (ro_rules clusterRole))
     else Inl (OtherErr (''unsupported role reference kind: '' @ Quote (rr_kind roleRef))))"

definition kiosk_VisitRulesFor ::
  "default_rule_resolver \<Rightarrow> user_info \<Rightarrow> string \<Rightarrow> 's visitor \<Rightarrow> 's \<Rightarrow> 's"
where
  "kiosk_VisitRulesFor r user namespace visitor s =
    (case (case listClusterRoleBindings r user of
             Inl err \<Rightarrow> visitor [] None (Some err) s
           | Inr clusterRoleBindings \<Rightarrow>
               visit_bindings visitor describeClusterRoleBinding
                 (\<lambda>roleRef. kiosk_GetRoleReferenceRules r roleRef []) user [] clusterRoleBindings s) of
       (s1, cont) \<Rightarrow>
         if \<not> cont then s1
         else if length namespace > 0 then
           (case listRoleBindings r user namespace of
              Inl err \<Rightarrow> fst (visitor [] None (Some err) s1)
            | Inr roleBindings \<Rightarrow>
                fst (visit_bindings visitor describeRoleBinding
                  (\<lambda>roleRef. kiosk_GetRoleReferenceRules r roleRef namespace) user namespace roleBindings s1))
         else s1)"

section \<open>Authorizing\<close>

datatype decision = DecisionDeny | DecisionAllow | DecisionNoOpinion

record authorizing_visitor =
  av_allowed :: bool
  av_reason :: string
  av_errors :: "gerror list"

definition authorizingVisitor_visit :: "auth_attributes \<Rightarrow> authorizing_visitor visitor" where
  "authorizingVisitor_visit a source rule err v =
    (if (case rule of Some r \<Rightarrow> RuleAllows a r | None \<Rightarrow> False) then
       (v\<lparr>av_allowed := True, av_reason := ''RBAC: allowed by '' @ source\<rparr>, False)
     else case err of
       Some e \<Rightarrow> (v\<lparr>av_errors := av_errors v @ [e]\<rparr>, True)
     | None \<Rightarrow> (v, True))"

definition Authorize ::
  "default_rule_resolver \<Rightarrow> auth_attributes \<Rightarrow> decision \<times> string \<times> gerror option"
where
  "Authorize r a =
    (let v = kiosk_VisitRulesFor r (aa_user a) (aa_namespace a) (authorizingVisitor_visit a)
               \<lparr>av_allowed = False, av_reason = [], av_errors = []\<rparr>
     in if av_allowed v then (DecisionAllow, av_reason v, None)
        else
          let reason = (case NewAggregate (av_errors v) of
                          Some e \<Rightarrow> ''RBAC: '' @ err_msg e | None \<Rightarrow> [])
          in (DecisionNoOpinion, reason, None))"

definition kiosk_events :: "default_rule_resolver \<Rightarrow> user_info \<Rightarrow> string \<Rightarrow> event list" where
  "kiosk_events r user ns =
    (case listClusterRoleBindings r user of
       Inl err \<Rightarrow> [([], None, Some err)]
     | Inr crbs \<Rightarrow> binding_events describeClusterRoleBinding (\<lambda>rr. kiosk_GetRoleReferenceRules r rr []) user [] crbs)
    @ (if ns = [] then [] else
       case listRoleBindings r user ns of
         Inl err \<Rightarrow> [([], None, Some err)]
       | Inr rbs \<Rightarrow> binding_events describeRoleBinding (\<lambda>rr. kiosk_GetRoleReferenceRules r rr ns) user ns rbs)"

lemma kiosk_VisitRulesFor_run:
  "kiosk_VisitRulesFor r user ns v s = fst (run_visitor v (kiosk_events r user ns) s)"
  unfolding kiosk_VisitRulesFor_def kiosk_events_def run_visitor_append visit_bindings_run
  by (auto simp: run_visitor_single split: prod.splits sum.splits)

lemma run_authorizing:
  "\<not> av_allowed s \<Longrightarrow>
   av_allowed (fst (run_visitor (authorizingVisitor_visit a) es s)) \<longleftrightarrow> RulesAllow a (event_rules es)"
proof (induction es arbitrary: s)
  case (Cons e es)
  obtain src r err where e: "e = (src, r, err)" by (cases e)
  have "event_rules (e # es) = (case r of Some x \<Rightarrow> [x] | None \<Rightarrow> []) @ event_rules es"
    by (simp add: e event_rules_def List.map_filter_def split: option.splits)
  then show ?case
    using Cons by (cases r; cases err) (auto simp: e authorizingVisitor_visit_def)
qed simp

lemma Authorize_events:
  "fst (Authorize r a) = (if RulesAllow a (event_rules (kiosk_events r (aa_user a) (aa_namespace a)))
     then DecisionAllow else DecisionNoOpinion)"
  unfolding Authorize_def Let_def kiosk_VisitRulesFor_run
  using run_authorizing [of "\<lparr>av_allowed = False, av_reason = [], av_errors = []\<rparr>" a
    "kiosk_events r (aa_user a) (aa_namespace a)"] by auto

section \<open>The indexed client\<close>

locale indexed_client =
  fixes c :: rbac_client and crbs rbs :: "binding list"
  assumes crb_all: "kc_ListClusterRoleBindings c None = Inr crbs"
    and crb_key: "kc_ListClusterRoleBindings c (Some k) = Inr (filter (\<lambda>b. k \<in> set (index_ClusterRoleBinding b)) crbs)"
    and rb_all: "kc_ListRoleBindings c ns None = Inr (filter (\<lambda>b. bn_namespace b = ns) rbs)"
    and rb_key: "kc_ListRoleBindings c ns (Some k) =
       Inr (filter (\<lambda>b. bn_namespace b = ns \<and> k \<in> set (index_RoleBinding b)) rbs)"
begin

lemma list_by_subjects_filter:
  "list_by_subjects (\<lambda>k. Inr (filter (P k) bs)) ks acc = Inr (acc @ concat (map (\<lambda>k. filter (P k) bs) ks))"
  by (induction ks arbitrary: acc) auto

lemma granted_crb:
  "(\<exists>b \<in> set (case listClusterRoleBindings \<lparr>dr_ListAll = la, dr_Client = c\<rparr> user of Inr bs \<Rightarrow> bs | Inl _ \<Rightarrow> []).
      (\<exists>s \<in> set (bn_subjects b). appliesToUser user s []) \<and> P b) \<longleftrightarrow>
   (\<exists>b \<in> set crbs. (\<exists>s \<in> set (bn_subjects b). appliesToUser user s []) \<and> P b)"
  by (cases la) (auto simp: listClusterRoleBindings_def crb_all crb_key list_by_subjects_filter
    index_ClusterRoleBinding_def applies_iff_indexed)

lemma granted_rb:
  "(\<exists>b \<in> set (case listRoleBindings \<lparr>dr_ListAll = la, dr_Client = c\<rparr> user ns of Inr bs \<Rightarrow> bs | Inl _ \<Rightarrow> []).
      (\<exists>s \<in> set (bn_subjects b). appliesToUser user s ns) \<and> P b) \<longleftrightarrow>
   (\<exists>b \<in> set rbs. bn_namespace b = ns \<and> (\<exists>s \<in> set (bn_subjects b). appliesToUser user s ns) \<and> P b)"
  by (cases la) (auto simp: listRoleBindings_def rb_all rb_key list_by_subjects_filter
    index_RoleBinding_def applies_iff_indexed)

lemma lists_ok:
  "\<exists>bs. listClusterRoleBindings \<lparr>dr_ListAll = la, dr_Client = c\<rparr> user = Inr bs"
  "\<exists>bs. listRoleBindings \<lparr>dr_ListAll = la, dr_Client = c\<rparr> user ns = Inr bs"
  by (simp_all add: listClusterRoleBindings_def listRoleBindings_def crb_all crb_key rb_all rb_key
    list_by_subjects_filter)

lemma kiosk_rules:
  fixes la user ns
  defines "r \<equiv> \<lparr>dr_ListAll = la, dr_Client = c\<rparr>"
  shows "x \<in> set (event_rules (kiosk_events r user ns)) \<longleftrightarrow>
    (\<exists>b \<in> set crbs. (\<exists>s \<in> set (bn_subjects b). appliesToUser user s []) \<and>
       (\<exists>rules. kiosk_GetRoleReferenceRules r (bn_roleRef b) [] = Inr rules \<and> x \<in> set rules))
    \<or> (ns \<noteq> [] \<and> (\<exists>b \<in> set rbs. bn_namespace b = ns \<and> (\<exists>s \<in> set (bn_subjects b). appliesToUser user s ns) \<and>
       (\<exists>rules. kiosk_GetRoleReferenceRules r (bn_roleRef b) ns = Inr rules \<and> x \<in> set rules)))"
proof -
  obtain cs where cs: "listClusterRoleBindings r user = Inr cs" using lists_ok(1) r_def by blast
  obtain bs where bs: "listRoleBindings r user ns = Inr bs" using lists_ok(2) r_def by blast
  show ?thesis
    using granted_crb [of la user "\<lambda>b. \<exists>rules. kiosk_GetRoleReferenceRules r (bn_roleRef b) [] = Inr rules \<and> x \<in> set rules"]
      granted_rb [of la user ns "\<lambda>b. \<exists>rules. kiosk_GetRoleReferenceRules r (bn_roleRef b) ns = Inr rules \<and> x \<in> set rules"]
      cs bs
    by (simp add: kiosk_events_def event_rules_binding_events flip: r_def)
qed

end

text \<open>The cached client over a store of objects, with the indices that \<open>AddManagerIndices\<close> registers.\<close>

definition store_client :: "static_roles \<Rightarrow> rbac_client" where
  "store_client st = \<lparr>
     kc_ListClusterRoleBindings = (\<lambda>key. Inr (case key of
        None \<Rightarrow> stat_clusterRoleBindings st
      | Some k \<Rightarrow> filter (\<lambda>b. k \<in> set (index_ClusterRoleBinding b)) (stat_clusterRoleBindings st))),
     kc_ListRoleBindings = (\<lambda>ns key. Inr (case key of
        None \<Rightarrow> filter (\<lambda>b. bn_namespace b = ns) (stat_roleBindings st)
      | Some k \<Rightarrow> filter (\<lambda>b. bn_namespace b = ns \<and> k \<in> set (index_RoleBinding b)) (stat_roleBindings st))),
     kc_GetRole = (\<lambda>ns name.
        case find (\<lambda>r. ro_namespace r = ns \<and> ro_name r = name) (stat_roles st) of
          Some r \<Rightarrow> Inr r | None \<Rightarrow> Inl (NotFoundErr name)),
     kc_GetClusterRole = (\<lambda>name.
        case find (\<lambda>r. ro_name r = name) (stat_clusterRoles st) of
          Some r \<Rightarrow> Inr r | None \<Rightarrow> Inl (NotFoundErr name))\<rparr>"

interpretation store: indexed_client "store_client st" "stat_clusterRoleBindings st" "stat_roleBindings st" for st
  by unfold_locales (simp_all add: store_client_def)

section \<open>Filtered lists\<close>

record group_version_resource =
  gvr_group :: string
  gvr_version :: string
  gvr_resource :: string

text \<open>
  The attributes variable of the loop is updated in place, so it is passed along: an object
  without a namespace is checked with the namespace of the previous one.
\<close>

fun filter_loop ::
  "(auth_attributes \<Rightarrow> decision \<times> string \<times> gerror option) \<Rightarrow> bool \<Rightarrow> string \<Rightarrow> auth_attributes \<Rightarrow>
   obj_meta list \<Rightarrow> obj_meta list \<Rightarrow> gerror + obj_meta list"
where
  "filter_loop authorize nameAsNamespace path attributes [] newObjs = Inr newObjs"
| "filter_loop authorize nameAsNamespace path attributes (m # objs) newObjs =
    (let attributes = attributes\<lparr>aa_name := om_name m\<rparr>;
         attributes = (if nameAsNamespace then attributes\<lparr>aa_namespace := aa_name attributes\<rparr>
                       else if om_namespace m \<noteq> [] then attributes\<lparr>aa_namespace := om_namespace m\<rparr>
                       else attributes);
         attributes = attributes\<lparr>aa_path := path @ ''/'' @ om_name m\<rparr>
     in case authorize attributes of
          (d, _, err) \<Rightarrow>
            (case err of
               Some e \<Rightarrow> Inl e
             | None \<Rightarrow> filter_loop authorize nameAsNamespace path attributes objs
                         (if d = DecisionAllow then newObjs @ [m] else newObjs)))"

definition filter_List ::
  "(auth_attributes \<Rightarrow> decision \<times> string \<times> gerror option) \<Rightarrow> gerror + auth_attributes \<Rightarrow>
   group_version_resource \<Rightarrow> gerror + obj_meta list \<Rightarrow> gerror + obj_meta list"
where
  "filter_List authorize ctxAttributes gvr listed =
    (case ctxAttributes of
       Inl err \<Rightarrow> Inl err
     | Inr a \<Rightarrow>
         (case listed of
            Inl err \<Rightarrow> Inl err
          | Inr objs \<Rightarrow>
              let nameAsNamespace = (gvr_group gvr = [] \<and> gvr_version gvr = ''v1'' \<and> gvr_resource gvr = ''namespaces'')
              in if length objs > 0 then
                   (let attributes = a\<lparr>aa_verb := ''get'', aa_apiGroup := gvr_group gvr,
                          aa_resource := gvr_resource gvr, aa_name := []\<rparr>
                    in case filter_loop authorize nameAsNamespace (aa_path a) attributes objs [] of
                         Inl err \<Rightarrow> Inl err
                       | Inr newObjs \<Rightarrow> Inr (sort_key om_name newObjs))
                 else Inr objs))"

text \<open>What an object of the list is checked with, when all objects have a namespace or none has.\<close>

definition object_attributes :: "auth_attributes \<Rightarrow> group_version_resource \<Rightarrow> obj_meta \<Rightarrow> auth_attributes" where
  "object_attributes a gvr m = a\<lparr>aa_verb := ''get'', aa_apiGroup := gvr_group gvr,
     aa_resource := gvr_resource gvr, aa_name := om_name m,
     aa_namespace := (if gvr_group gvr = [] \<and> gvr_version gvr = ''v1'' \<and> gvr_resource gvr = ''namespaces'' then om_name m
                      else if om_namespace m \<noteq> [] then om_namespace m else aa_namespace a),
     aa_path := aa_path a @ ''/'' @ om_name m\<rparr>"

definition uniform_namespaces :: "group_version_resource \<Rightarrow> obj_meta list \<Rightarrow> bool" where
  "uniform_namespaces gvr objs \<longleftrightarrow>
     (gvr_group gvr = [] \<and> gvr_version gvr = ''v1'' \<and> gvr_resource gvr = ''namespaces'')
     \<or> list_all (\<lambda>m. om_namespace m \<noteq> []) objs \<or> list_all (\<lambda>m. om_namespace m = []) objs"

lemma filter_loop_mono:
  "filter_loop authorize nan path att objs acc = Inr res \<Longrightarrow> \<exists>r. res = acc @ r \<and> set r \<subseteq> set objs"
proof (induction objs arbitrary: att acc)
  case (Cons m objs)
  then show ?case
    by (fastforce simp: Let_def split: prod.splits option.splits if_splits)
qed simp

lemma filter_loop_filter:
  assumes "filter_loop authorize nan path att objs acc = Inr res"
    and "nan \<longleftrightarrow> gvr_group gvr = [] \<and> gvr_version gvr = ''v1'' \<and> gvr_resource gvr = ''namespaces''"
    and "path = aa_path a"
    and "att\<lparr>aa_name := [], aa_namespace := [], aa_path := []\<rparr> =
         a\<lparr>aa_verb := ''get'', aa_apiGroup := gvr_group gvr, aa_resource := gvr_resource gvr,
           aa_name := [], aa_namespace := [], aa_path := []\<rparr>"
    and "nan \<or> list_all (\<lambda>m. om_namespace m \<noteq> []) objs
         \<or> (list_all (\<lambda>m. om_namespace m = []) objs \<and> aa_namespace att = aa_namespace a)"
  shows "res = acc @ filter (\<lambda>m. fst (authorize (object_attributes a gvr m)) = DecisionAllow) objs"
  using assms
proof (induction objs arbitrary: att acc)
  case (Cons m objs)
  define att' where "att' = (let attributes = att\<lparr>aa_name := om_name m\<rparr>;
         attributes = (if nan then attributes\<lparr>aa_namespace := aa_name attributes\<rparr>
                       else if om_namespace m \<noteq> [] then attributes\<lparr>aa_namespace := om_namespace m\<rparr>
                       else attributes)
     in attributes\<lparr>aa_path := path @ ''/'' @ om_name m\<rparr>)"
  obtain d rs where au: "authorize att' = (d, rs, None)"
    and rec: "filter_loop authorize nan path att' objs (if d = DecisionAllow then acc @ [m] else acc) = Inr res"
    using Cons.prems(1) by (auto simp: att'_def Let_def split: prod.splits option.splits)
  have eq: "att' = object_attributes a gvr m"
    using Cons.prems(2-5) unfolding att'_def object_attributes_def
    by (cases att; cases a) (auto simp: Let_def)
  have "res = (if d = DecisionAllow then acc @ [m] else acc)
      @ filter (\<lambda>m. fst (authorize (object_attributes a gvr m)) = DecisionAllow) objs"
  proof (rule Cons.IH [OF rec Cons.prems(2,3)])
    show "att'\<lparr>aa_name := [], aa_namespace := [], aa_path := []\<rparr> =
         a\<lparr>aa_verb := ''get'', aa_apiGroup := gvr_group gvr, aa_resource := gvr_resource gvr,
           aa_name := [], aa_namespace := [], aa_path := []\<rparr>"
      by (simp add: eq object_attributes_def)
    show "nan \<or> list_all (\<lambda>m. om_namespace m \<noteq> []) objs
         \<or> (list_all (\<lambda>m. om_namespace m = []) objs \<and> aa_namespace att' = aa_namespace a)"
      using Cons.prems(2,5) by (auto simp: eq object_attributes_def)
  qed
  then show ?case using au eq by auto
qed simp

section \<open>Membership in an account\<close>

definition IsUserPartOfAccount :: "user_info \<Rightarrow> account \<Rightarrow> bool" where
  "IsUserPartOfAccount userInfo account =
    (let subjects = fold (\<lambda>group. put (GroupPrefix @ group) True) (ui_groups userInfo)
           (put (UserPrefix @ ui_name userInfo) True [])
     in list_ex (\<lambda>accountSubject. map_of subjects (ConvertSubject [] accountSubject) = Some True)
          (acs_subjects (ac_spec account)))"

lemma map_of_user_set:
  "map_of (fold (\<lambda>g. put (GroupPrefix @ g) True) gs m) k = Some True \<longleftrightarrow>
    (\<exists>g \<in> set gs. k = GroupPrefix @ g) \<or> map_of m k = Some True"
  by (induction gs arbitrary: m) (auto simp: map_of_put)

section \<open>Properties\<close>

text \<open>C5. The decision of the authorizer: with the indexed lookup (\<open>ListAll\<close> false) or the full
  scan, a request is allowed exactly when some rule that a cluster role binding, or a role binding of the
  request's namespace, grants to the user allows it; otherwise there is no opinion. It is never denied
  outright and no error is returned.\<close>

theorem Authorize_correct:
  defines "r la st \<equiv> \<lparr>dr_ListAll = la, dr_Client = store_client st\<rparr>"
  shows "(fst (Authorize (r la st) a) = DecisionAllow) =
      ((\<exists>b \<in> set (stat_clusterRoleBindings st). \<exists>rules. (\<exists>s \<in> set (bn_subjects b). appliesToUser (aa_user a) s [])
          \<and> kiosk_GetRoleReferenceRules (r la st) (bn_roleRef b) [] = Inr rules \<and> RulesAllow a rules)
       \<or> (aa_namespace a \<noteq> [] \<and> (\<exists>b \<in> set (stat_roleBindings st). \<exists>rules. bn_namespace b = aa_namespace a
          \<and> (\<exists>s \<in> set (bn_subjects b). appliesToUser (aa_user a) s (aa_namespace a))
          \<and> kiosk_GetRoleReferenceRules (r la st) (bn_roleRef b) (aa_namespace a) = Inr rules \<and> RulesAllow a rules)))
    \<and> fst (Authorize (r la st) a) \<noteq> DecisionDeny \<and> snd (snd (Authorize (r la st) a)) = None"
proof -
  have "RulesAllow a (event_rules (kiosk_events (r la st) (aa_user a) (aa_namespace a))) =
      ((\<exists>b \<in> set (stat_clusterRoleBindings st). \<exists>rules. (\<exists>s \<in> set (bn_subjects b). appliesToUser (aa_user a) s [])
          \<and> kiosk_GetRoleReferenceRules (r la st) (bn_roleRef b) [] = Inr rules \<and> RulesAllow a rules)
       \<or> (aa_namespace a \<noteq> [] \<and> (\<exists>b \<in> set (stat_roleBindings st). \<exists>rules. bn_namespace b = aa_namespace a
          \<and> (\<exists>s \<in> set (bn_subjects b). appliesToUser (aa_user a) s (aa_namespace a))
          \<and> kiosk_GetRoleReferenceRules (r la st) (bn_roleRef b) (aa_namespace a) = Inr rules \<and> RulesAllow a rules)))"
    unfolding RulesAllow_def Bex_def r_def store.kiosk_rules by blast
  moreover have "snd (snd (Authorize (r la st) a)) = None"
    by (simp add: Authorize_def Let_def)
  ultimately show ?thesis
    by (simp add: Authorize_events)
qed

text \<open>The subject index loses nothing: for every request the authorizer that looks bindings
  up by subject and the one that lists all bindings come to the same decision.\<close>

lemma Authorize_index_equivalent:
  "fst (Authorize \<lparr>dr_ListAll = False, dr_Client = store_client st\<rparr> a) =
   fst (Authorize \<lparr>dr_ListAll = True, dr_Client = store_client st\<rparr> a)"
proof -
  have get: "kiosk_GetRoleReferenceRules \<lparr>dr_ListAll = False, dr_Client = store_client st\<rparr> =
      kiosk_GetRoleReferenceRules \<lparr>dr_ListAll = True, dr_Client = store_client st\<rparr>"
    by (intro ext) (simp add: kiosk_GetRoleReferenceRules_def)
  show ?thesis
    unfolding Authorize_events RulesAllow_def Bex_def store.kiosk_rules get ..
qed

text \<open>Errors never open access: whatever client the resolver runs on, a request is allowed
  only if one of the rules it retrieved allows it, and a client all of whose calls fail allows nothing.\<close>

lemma Authorize_fail_closed:
  assumes "\<And>k. isl (kc_ListClusterRoleBindings c k)" "\<And>ns k. isl (kc_ListRoleBindings c ns k)"
  shows "fst (Authorize \<lparr>dr_ListAll = la, dr_Client = c\<rparr> a) = DecisionNoOpinion"
proof -
  define r where "r = \<lparr>dr_ListAll = la, dr_Client = c\<rparr>"
  have ne: "user_keys u \<noteq> []" for u
    using set_user_keys [of u] by auto
  have "isl (listClusterRoleBindings r u)" for u
    using assms(1) ne by (simp add: listClusterRoleBindings_def r_def list_by_subjects_err)
  moreover have "isl (listRoleBindings r u ns)" for u ns
    using assms(2) ne by (simp add: listRoleBindings_def r_def list_by_subjects_err)
  ultimately have "event_rules (kiosk_events r u ns) = []" for u ns
    by (auto simp: kiosk_events_def event_rules_def List.map_filter_def isl_def split: sum.splits)
      (metis sum.simps(4))+
  then show ?thesis by (simp add: Authorize_events flip: r_def)
qed

theorem Authorize_fail_closed_witness:
  "fst (Authorize \<lparr>dr_ListAll = False, dr_Client =
     (store_client ex_static)\<lparr>kc_ListClusterRoleBindings := \<lambda>_. Inl (OtherErr ''down''),
        kc_ListRoleBindings := \<lambda>_ _. Inl (OtherErr ''down'')\<rparr>\<rparr> ex_request) = DecisionNoOpinion"
  by (rule Authorize_fail_closed) simp_all

text \<open>A filtered list contains exactly the listed objects which the user may get, each
  checked under its own name and namespace, sorted by name, for lists in which all objects or none have a
  namespace.\<close>

lemma filter_List_exact:
  assumes "filter_List authorize (Inr a) gvr (Inr objs) = Inr res"
    and "uniform_namespaces gvr objs"
  shows "sorted (map om_name res) \<and>
    mset res = filter_mset (\<lambda>m. fst (authorize (object_attributes a gvr m)) = DecisionAllow) (mset objs)"
proof (cases "objs = []")
  case False
  define nan where "nan \<longleftrightarrow> gvr_group gvr = [] \<and> gvr_version gvr = ''v1'' \<and> gvr_resource gvr = ''namespaces''"
  define att where "att = a\<lparr>aa_verb := ''get'', aa_apiGroup := gvr_group gvr, aa_resource := gvr_resource gvr, aa_name := []\<rparr>"
  obtain new where new: "filter_loop authorize nan (aa_path a) att objs [] = Inr new"
    and res: "res = sort_key om_name new"
    using assms(1) False by (auto simp: filter_List_def Let_def nan_def att_def split: sum.splits)
  have "new = [] @ filter (\<lambda>m. fst (authorize (object_attributes a gvr m)) = DecisionAllow) objs"
    by (rule filter_loop_filter [OF new nan_def refl])
      (use assms(2) in \<open>auto simp: att_def uniform_namespaces_def nan_def\<close>)
  then show ?thesis by (simp add: res mset_filter)
qed (use assms(1) in \<open>simp add: filter_List_def\<close>)

theorem filter_List_exact_witness:
  "\<exists>res. filter_List (\<lambda>x. (if aa_name x = ''b'' then DecisionAllow else DecisionNoOpinion, [], None)) (Inr ex_request)
      \<lparr>gvr_group = [], gvr_version = ''v1'', gvr_resource = ''namespaces''\<rparr>
      (Inr [empty_meta\<lparr>om_name := ''b''\<rparr>, empty_meta\<lparr>om_name := ''a''\<rparr>]) = Inr res
    \<and> sorted (map om_name res)"
proof (intro exI conjI)
  show eq: "filter_List (\<lambda>x. (if aa_name x = ''b'' then DecisionAllow else DecisionNoOpinion, [], None)) (Inr ex_request)
      \<lparr>gvr_group = [], gvr_version = ''v1'', gvr_resource = ''namespaces''\<rparr>
      (Inr [empty_meta\<lparr>om_name := ''b''\<rparr>, empty_meta\<lparr>om_name := ''a''\<rparr>]) = Inr [empty_meta\<lparr>om_name := ''b''\<rparr>]"
    by (simp add: filter_List_def empty_meta_def)
  show "sorted (map om_name [empty_meta\<lparr>om_name := ''b''\<rparr>])"
    using filter_List_exact [OF eq] by (simp add: uniform_namespaces_def)
qed

text \<open>A user is part of an account exactly when one of the account's subjects applies to
  the user: by user name, by one of the groups, or as the service account it names with its namespace.\<close>

lemma IsUserPartOfAccount_iff:
  "IsUserPartOfAccount user account \<longleftrightarrow> (\<exists>s \<in> set (acs_subjects (ac_spec account)). appliesToUser user s [])"
proof -
  have "map_of (fold (\<lambda>g. put (GroupPrefix @ g) True) (ui_groups user) (put (UserPrefix @ ui_name user) True [])) k = Some True
      \<longleftrightarrow> k \<noteq> [] \<and> k \<in> set (user_keys user)" for k
    unfolding map_of_user_set set_user_keys by (auto simp: map_of_put)
  then show ?thesis
    by (simp add: IsUserPartOfAccount_def Let_def list_ex_iff appliesToUser_key)
qed

end
