(* ===== verification/AccountQuota.thy ===== *)
theory AccountQuota
  imports QuotaAccess Authorizer
begin

text \<open>
  Admission against account quotas (\<open>pkg/manager/quota\<close>): the accessor presents the account quotas of a
  namespace's account as resource quotas of the namespace and books their updates on the namespace, and the
  admission serialises workers with locks per quota. The manager's client is a parameter whose laws
  are the locale \<open>account_client\<close>.
\<close>

section \<open>Usage by namespace\<close>

fun GetResourceQuotasStatusByNamespace :: "quota_by_namespace list \<Rightarrow> string \<Rightarrow> quota_status \<times> bool" where
  "GetResourceQuotasStatusByNamespace [] namespace = (\<lparr>st_hard = None, st_used = None\<rparr>, False)"
| "GetResourceQuotasStatusByNamespace (cur # namespaceStatuses) namespace =
     (if qn_namespace cur = namespace then (qn_status cur, True)
      else GetResourceQuotasStatusByNamespace namespaceStatuses namespace)"

definition InsertResourceQuotasStatus :: "quota_by_namespace list \<Rightarrow> quota_by_namespace \<Rightarrow> quota_by_namespace list" where
  "InsertResourceQuotasStatus namespaceStatuses newStatus =
    (case fold (\<lambda>cur (newNamespaceStatuses, found).
         if qn_namespace cur = qn_namespace newStatus then (newNamespaceStatuses @ [newStatus], True)
         else (newNamespaceStatuses @ [cur], found)) namespaceStatuses ([], False) of
       (newNamespaceStatuses, found) \<Rightarrow>
         if \<not> found then newNamespaceStatuses @ [newStatus] else newNamespaceStatuses)"

section \<open>The accessor\<close>

record 'w aq_client =
  kc_GetAccountQuota :: "string \<Rightarrow> 'w \<Rightarrow> (gerror + account_quota) \<times> 'w"
  kc_GetNamespace :: "string \<Rightarrow> 'w \<Rightarrow> (gerror + namespace) \<times> 'w"
  kc_ListAccountQuotas :: "string \<Rightarrow> 'w \<Rightarrow> (gerror + account_quota list) \<times> 'w"
  kc_UpdateStatus :: "account_quota \<Rightarrow> 'w \<Rightarrow> (gerror + account_quota) \<times> 'w"

record 'w aq_access =
  aa_world :: 'w
  aa_updatedAccountQuotas :: "account_quota lru"

definition newAccountQuotaAccessor :: "'w \<Rightarrow> 'w aq_access" where
  "newAccountQuotaAccessor w = \<lparr>aa_world = w, aa_updatedAccountQuotas = []\<rparr>"

definition aq_checkCache :: "account_quota \<Rightarrow> account_quota lru \<Rightarrow> (gerror + account_quota) \<times> account_quota lru" where
  "aq_checkCache accountQuota updated =
    (case lru_Get (om_name (aq_meta accountQuota)) updated of
       (None, c) \<Rightarrow> (Inr accountQuota, c)
     | (Some cachedQuota, c) \<Rightarrow>
         (case CompareResourceVersion (aq_meta accountQuota) (aq_meta cachedQuota) of
            Inl err \<Rightarrow> (Inl err, c)
          | Inr r \<Rightarrow> if r \<ge> 0 then (Inr accountQuota, lru_Remove (om_name (aq_meta accountQuota)) c)
                     else (Inr cachedQuota, c)))"

text \<open>What \<open>UpdateQuotaStatus\<close> makes of the account quota it has read, before it is written.\<close>

definition book_usage :: "resource_quota \<Rightarrow> account_quota \<Rightarrow> account_quota" where
  "book_usage newQuota accountQuota =
    (let accountQuota = accountQuota\<lparr>aq_meta := (rq_meta newQuota)\<lparr>om_namespace := []\<rparr>\<rparr>;
         usageDiff = Subtract_rl (used_of newQuota) (the_rl (st_used (aq_total accountQuota)));
         accountQuota = accountQuota\<lparr>aq_total := (aq_total accountQuota)\<lparr>st_used := st_used (rq_status newQuota)\<rparr>\<rparr>;
         (oldNamespaceTotals, _) =
           GetResourceQuotasStatusByNamespace (aq_namespaces accountQuota) (om_namespace (rq_meta newQuota));
         newNamespaceTotals =
           oldNamespaceTotals\<lparr>st_used := Some (Add_rl (the_rl (st_used oldNamespaceTotals)) usageDiff)\<rparr>
     in accountQuota\<lparr>aq_namespaces := InsertResourceQuotasStatus (aq_namespaces accountQuota)
          \<lparr>qn_namespace = om_namespace (rq_meta newQuota), qn_status = newNamespaceTotals\<rparr>\<rparr>)"

definition aq_UpdateQuotaStatus :: "'w aq_client \<Rightarrow> resource_quota \<Rightarrow> 'w aq_access \<Rightarrow> gerror option \<times> 'w aq_access" where
  "aq_UpdateQuotaStatus client newQuota e =
    (case kc_GetAccountQuota client (om_name (rq_meta newQuota)) (aa_world e) of
       (Inl err, w) \<Rightarrow> (Some err, e\<lparr>aa_world := w\<rparr>)
     | (Inr accountQuota, w) \<Rightarrow>
         (case aq_checkCache accountQuota (aa_updatedAccountQuotas e) of
            (Inl err, c) \<Rightarrow> (Some err, e\<lparr>aa_world := w, aa_updatedAccountQuotas := c\<rparr>)
          | (Inr accountQuota, c) \<Rightarrow>
              (case kc_UpdateStatus client (book_usage newQuota accountQuota) w of
                 (Inl err, w) \<Rightarrow> (Some err, e\<lparr>aa_world := w, aa_updatedAccountQuotas := c\<rparr>)
               | (Inr accountQuota, w) \<Rightarrow>
                   (None, e\<lparr>aa_world := w,
                      aa_updatedAccountQuotas := lru_Add (om_name (aq_meta accountQuota)) accountQuota c\<rparr>))))"

section \<open>Reading the quotas of a namespace\<close>

text \<open>\<open>wait.PollImmediate\<close>: the condition is tried at once and at every tick until the timeout.\<close>

fun PollImmediate :: "nat \<Rightarrow> ('w \<Rightarrow> (gerror + 'a option) \<times> 'w) \<Rightarrow> 'w \<Rightarrow> (gerror + 'a) \<times> 'w" where
  "PollImmediate ticks cond w =
     (case cond w of
        (Inl err, w) \<Rightarrow> (Inl err, w)
      | (Inr (Some x), w) \<Rightarrow> (Inr x, w)
      | (Inr None, w) \<Rightarrow>
          (case ticks of
             0 \<Rightarrow> (Inl (OtherErr ''timed out waiting for the condition''), w)
           | Suc n \<Rightarrow> PollImmediate n cond w))"

declare PollImmediate.simps [simp del]

lemma PollImmediate_keeps:
  assumes "\<And>w r w'. W w \<Longrightarrow> cond w = (r, w') \<Longrightarrow> W w' \<and> (\<forall>x. r = Inr (Some x) \<longrightarrow> Q x)"
  shows "W w \<Longrightarrow> PollImmediate n cond w = (r, w') \<Longrightarrow> W w' \<and> (\<forall>x. r = Inr x \<longrightarrow> Q x)"
proof (induction n arbitrary: w)
  case 0
  obtain c w1 where c: "cond w = (c, w1)" by fastforce
  then show ?case
    using assms [OF 0(1) c] 0(2) by (auto simp: PollImmediate.simps [of 0] split: sum.splits option.splits)
next
  case (Suc n)
  obtain c w1 where c: "cond w = (c, w1)" by fastforce
  then show ?case
    using assms [OF Suc.prems(1) c] Suc.prems(2) Suc.IH [of w1]
    by (auto simp: PollImmediate.simps [of "Suc n"] split: sum.splits option.splits)
qed

lemma PollImmediate_invariant:
  assumes "\<And>w r w'. W w \<Longrightarrow> cond w = (r, w') \<Longrightarrow> W w'" "W w" "PollImmediate n cond w = (r, w')"
  shows "W w'"
  using PollImmediate_keeps [where W = W and Q = "\<lambda>_. True" and cond = cond, OF _ assms(2,3)] assms(1) by blast

lemma PollImmediate_done: "PollImmediate n cond w = (Inr x, w') \<Longrightarrow> \<exists>v. cond v = (Inr (Some x), w')"
proof (induction n arbitrary: w)
  case 0
  obtain r v where c: "cond w = (r, v)" by fastforce
  then have "r = Inr (Some x) \<and> v = w'"
    using 0 unfolding PollImmediate.simps [of 0 cond w] c by (cases r) (auto split: option.splits)
  then show ?case using c by metis
next
  case (Suc n)
  obtain r v where c: "cond w = (r, v)" by fastforce
  then have "r = Inr (Some x) \<and> v = w' \<or> PollImmediate n cond v = (Inr x, w')"
    using Suc.prems unfolding PollImmediate.simps [of "Suc n" cond w] c by (cases r) (auto split: option.splits)
  then show ?case using c Suc.IH [of v] by metis
qed

text \<open>Eight seconds in steps of 100 milliseconds.\<close>

definition poll_ticks :: nat where "poll_ticks = 80"

definition ready_account_quotas :: "'w aq_client \<Rightarrow> string \<Rightarrow> 'w \<Rightarrow> (gerror + account_quota list option) \<times> 'w" where
  "ready_account_quotas client namespaceName w =
    (case kc_GetNamespace client namespaceName w of
       (Inl err, w) \<Rightarrow> if IsNotFound err then (Inr None, w) else (Inl err, w)
     | (Inr namespace, w) \<Rightarrow>
         let accountName = label_value (om_labels (ns_meta namespace)) SpaceLabelAccount in
         if accountName = [] then (Inr (Some []), w)
         else (case kc_ListAccountQuotas client accountName w of
                 (Inl err, w) \<Rightarrow> (Inl err, w)
               | (Inr accountQuotaList, w) \<Rightarrow> (Inr (Some accountQuotaList), w)))"

definition waitForReadyAccountQuotaNames :: "'w aq_client \<Rightarrow> string \<Rightarrow> 'w \<Rightarrow> (gerror + account_quota list) \<times> 'w" where
  "waitForReadyAccountQuotaNames client namespaceName w =
    PollImmediate poll_ticks (ready_account_quotas client namespaceName) w"

definition convert_quota :: "string \<Rightarrow> account_quota \<Rightarrow> resource_quota" where
  "convert_quota namespaceName accountQuota =
    \<lparr>rq_meta = (aq_meta accountQuota)\<lparr>om_namespace := namespaceName\<rparr>,
     rq_spec = aq_quota accountQuota, rq_status = aq_total accountQuota\<rparr>"

fun convert_all ::
  "string \<Rightarrow> account_quota list \<Rightarrow> account_quota lru \<Rightarrow> resource_quota list \<Rightarrow> (gerror + resource_quota list) \<times> account_quota lru"
where
  "convert_all namespaceName [] c resourceQuotas = (Inr resourceQuotas, c)"
| "convert_all namespaceName (accountQuota # accountQuotas) c resourceQuotas =
     (case aq_checkCache accountQuota c of
        (Inl err, c) \<Rightarrow> (Inl err, c)
      | (Inr accountQuota, c) \<Rightarrow>
          convert_all namespaceName accountQuotas c (resourceQuotas @ [convert_quota namespaceName accountQuota]))"

definition aq_GetQuotas :: "'w aq_client \<Rightarrow> string \<Rightarrow> 'w aq_access \<Rightarrow> (gerror + resource_quota list) \<times> 'w aq_access" where
  "aq_GetQuotas client namespaceName e =
    (case waitForReadyAccountQuotaNames client namespaceName (aa_world e) of
       (Inl err, w) \<Rightarrow> (Inl err, e\<lparr>aa_world := w\<rparr>)
     | (Inr accountQuotas, w) \<Rightarrow>
         (case convert_all namespaceName accountQuotas (aa_updatedAccountQuotas e) [] of
            (r, c) \<Rightarrow> (r, e\<lparr>aa_world := w, aa_updatedAccountQuotas := c\<rparr>)))"

definition accountQuotaAccessor :: "'w aq_client \<Rightarrow> 'w aq_access quota_accessor" where
  "accountQuotaAccessor client =
    \<lparr>qa_UpdateQuotaStatus = aq_UpdateQuotaStatus client, qa_GetQuotas = aq_GetQuotas client\<rparr>"

section \<open>The admission\<close>

text \<open>The locks are taken in the order of the names; sorting happens in the slice of the caller.\<close>

definition ByName :: "resource_quota list \<Rightarrow> resource_quota list" where
  "ByName quotas = sort_key (\<lambda>q. om_name (rq_meta q)) quotas"

definition lock_names :: "resource_quota list \<Rightarrow> string list" where
  "lock_names quotas = map (\<lambda>q. om_name (rq_meta q)) (ByName quotas)"

definition NewQuotaConfiguration ::
  "((group_resource \<times> resource_name) list \<Rightarrow> (group_resource \<times> resource_name) list) \<Rightarrow>
   lister_for_resource \<Rightarrow> int \<Rightarrow> quota_configuration"
where
  "NewQuotaConfiguration order f now =
    \<lparr>qc_evaluators = NewEvaluators order f now, qc_ignoredResources = ignoredResources\<rparr>"

definition new_account_evaluator :: "quota_configuration \<Rightarrow> quota_evaluator_config" where
  "new_account_evaluator config = NewQuotaEvaluator (qc_ignoredResources config) (NewRegistry (qc_evaluators config))
     (Some ByName) (Some [])"

text \<open>The evaluator is created by the first request that gets that far (\<open>init.Do\<close>).\<close>

definition account_Validate ::
  "'w aq_client \<Rightarrow> quota_configuration \<Rightarrow> bool \<Rightarrow> attributes \<Rightarrow> quota_evaluator_config option \<Rightarrow> 'w aq_access \<Rightarrow>
   gerror option \<times> quota_evaluator_config option \<times> 'w aq_access"
where
  "account_Validate client config synced a evaluator s =
    (if at_subresource a \<noteq> [] then (None, evaluator, s)
     else if at_namespace a = [] then (None, evaluator, s)
     else if \<not> synced then (Some (ForbiddenErr ''caches not synchronized''), evaluator, s)
     else
       let e = (case evaluator of Some e \<Rightarrow> e | None \<Rightarrow> new_account_evaluator config)
       in case Evaluate_alone (accountQuotaAccessor client) a e s of (r, e, s) \<Rightarrow> (r, Some e, s))"

fun account_Validates ::
  "'w aq_client \<Rightarrow> quota_configuration \<Rightarrow> (bool \<times> attributes) list \<Rightarrow> quota_evaluator_config option \<Rightarrow> 'w aq_access \<Rightarrow>
   gerror option list \<times> quota_evaluator_config option \<times> 'w aq_access"
where
  "account_Validates client config [] evaluator s = ([], evaluator, s)"
| "account_Validates client config ((synced, a) # as) evaluator s =
     (case account_Validate client config synced a evaluator s of
        (r, evaluator, s) \<Rightarrow>
          (case account_Validates client config as evaluator s of (rs, evaluator, s) \<Rightarrow> (r # rs, evaluator, s)))"

section \<open>Lemmas on the usage by namespace\<close>

abbreviation replace_status :: "quota_by_namespace \<Rightarrow> quota_by_namespace list \<Rightarrow> quota_by_namespace list" where
  "replace_status new \<equiv> map (\<lambda>cur. if qn_namespace cur = qn_namespace new then new else cur)"

lemma replace_absent: "qn_namespace new \<notin> qn_namespace ` set xs \<Longrightarrow> replace_status new xs = xs"
  by (induction xs) auto

lemma Insert_eq:
  "InsertResourceQuotasStatus xs new =
    (if qn_namespace new \<in> qn_namespace ` set xs then replace_status new xs else xs @ [new])"
proof -
  have "fold (\<lambda>cur (acc, found). if qn_namespace cur = qn_namespace new then (acc @ [new], True) else (acc @ [cur], found))
      xs (acc, found) = (acc @ replace_status new xs, found \<or> qn_namespace new \<in> qn_namespace ` set xs)" for acc found
    by (induction xs arbitrary: acc found) auto
  then show ?thesis by (auto simp: InsertResourceQuotasStatus_def replace_absent)
qed

lemma replace_namespaces: "map qn_namespace (replace_status new xs) = map qn_namespace xs"
  by (induction xs) auto

lemma Insert_namespaces:
  "map qn_namespace (InsertResourceQuotasStatus xs new) =
    (if qn_namespace new \<in> qn_namespace ` set xs then map qn_namespace xs else map qn_namespace xs @ [qn_namespace new])"
  unfolding Insert_eq by (simp only: replace_namespaces if_distrib [of "map qn_namespace"] map_append list.map)

lemma Get_absent:
  "ns \<notin> qn_namespace ` set xs \<Longrightarrow> GetResourceQuotasStatusByNamespace xs ns = (\<lparr>st_hard = None, st_used = None\<rparr>, False)"
  by (induction xs) auto

lemma Get_Insert:
  "GetResourceQuotasStatusByNamespace (InsertResourceQuotasStatus xs new) ns =
    (if ns = qn_namespace new then (qn_status new, True) else GetResourceQuotasStatusByNamespace xs ns)"
proof -
  have new: "qn_namespace new \<in> qn_namespace ` set xs \<Longrightarrow>
      GetResourceQuotasStatusByNamespace (replace_status new xs) (qn_namespace new) = (qn_status new, True)"
    by (induction xs) auto
  have other: "ns \<noteq> qn_namespace new \<Longrightarrow>
      GetResourceQuotasStatusByNamespace (replace_status new xs) ns = GetResourceQuotasStatusByNamespace xs ns"
    by (induction xs) auto
  have "GetResourceQuotasStatusByNamespace (xs @ ys) ns =
      (if ns \<in> qn_namespace ` set xs then GetResourceQuotasStatusByNamespace xs ns else GetResourceQuotasStatusByNamespace ys ns)" for ys
    by (induction xs) auto
  then show ?thesis using new other Get_absent [of ns xs] by (cases "ns = qn_namespace new") (simp_all add: Insert_eq)
qed

definition namespaces_sum :: "(quota_status \<Rightarrow> int) \<Rightarrow> quota_by_namespace list \<Rightarrow> int" where
  "namespaces_sum f xs = (\<Sum>n \<leftarrow> xs. f (qn_status n))"

lemma sum_Insert:
  assumes "distinct (map qn_namespace xs)" "f \<lparr>st_hard = None, st_used = None\<rparr> = 0"
  shows "namespaces_sum f (InsertResourceQuotasStatus xs new) =
    namespaces_sum f xs - f (fst (GetResourceQuotasStatusByNamespace xs (qn_namespace new))) + f (qn_status new)"
proof (cases "qn_namespace new \<in> qn_namespace ` set xs")
  case True
  have "namespaces_sum f (replace_status new xs) =
      namespaces_sum f xs - f (fst (GetResourceQuotasStatusByNamespace xs (qn_namespace new))) + f (qn_status new)"
    using True assms(1)
  proof (induction xs)
    case (Cons c xs)
    show ?case
    proof (cases "qn_namespace c = qn_namespace new")
      case True
      then have "qn_namespace new \<notin> qn_namespace ` set xs" using Cons.prems(2) by auto
      then show ?thesis using True replace_absent [of new xs] by (simp add: namespaces_sum_def)
    next
      case False
      then show ?thesis using Cons by (auto simp: namespaces_sum_def)
    qed
  qed simp
  then show ?thesis using True by (simp add: Insert_eq)
next
  case False
  then have "GetResourceQuotasStatusByNamespace xs (qn_namespace new) = (\<lparr>st_hard = None, st_used = None\<rparr>, False)"
    by (rule Get_absent)
  then show ?thesis using False assms(2) by (simp add: Insert_eq namespaces_sum_def)
qed

lemma set_Insert: "set (InsertResourceQuotasStatus xs new) \<subseteq> insert new (set xs)"
  by (auto simp: Insert_eq)

text \<open>An account quota whose namespaces add up to its total, resource by resource.\<close>

definition total_used :: "account_quota \<Rightarrow> resource_list" where
  "total_used a = the_rl (st_used (aq_total a))"

definition status_amount :: "resource_name \<Rightarrow> quota_status \<Rightarrow> int" where
  "status_amount k st = amount (the_rl (st_used st)) k"

definition aq_wf :: "account_quota \<Rightarrow> bool" where
  "aq_wf a \<longleftrightarrow> wf_map (total_used a) \<and> distinct (map qn_namespace (aq_namespaces a))
     \<and> (\<forall>n \<in> set (aq_namespaces a). wf_map (the_rl (st_used (qn_status n))))"

definition balanced :: "account_quota \<Rightarrow> bool" where
  "balanced a \<longleftrightarrow> (\<forall>k. namespaces_sum (status_amount k) (aq_namespaces a) = amount (total_used a) k)"

definition namespace_used :: "account_quota \<Rightarrow> string \<Rightarrow> resource_name \<Rightarrow> int" where
  "namespace_used a ns k = status_amount k (fst (GetResourceQuotasStatusByNamespace (aq_namespaces a) ns))"

lemma status_amount_none [simp]: "status_amount k \<lparr>st_hard = None, st_used = None\<rparr> = 0"
  by (simp add: status_amount_def)

lemma Get_wf: "\<forall>n \<in> set xs. wf_map (the_rl (st_used (qn_status n))) \<Longrightarrow>
    wf_map (the_rl (st_used (fst (GetResourceQuotasStatusByNamespace xs ns))))"
  by (induction xs) auto

lemma book_usage_namespaces:
  "\<exists>st. aq_namespaces (book_usage q a) = InsertResourceQuotasStatus (aq_namespaces a) \<lparr>qn_namespace = om_namespace (rq_meta q), qn_status = st\<rparr>
     \<and> st = (fst (GetResourceQuotasStatusByNamespace (aq_namespaces a) (om_namespace (rq_meta q))))\<lparr>st_used :=
         Some (Add_rl (the_rl (st_used (fst (GetResourceQuotasStatusByNamespace (aq_namespaces a) (om_namespace (rq_meta q))))))
                 (Subtract_rl (used_of q) (total_used a)))\<rparr>"
  by (simp add: book_usage_def Let_def total_used_def split: prod.splits)

lemma book_usage_simps [simp]:
  "aq_total (book_usage q a) = (aq_total a)\<lparr>st_used := st_used (rq_status q)\<rparr>"
  "aq_meta (book_usage q a) = (rq_meta q)\<lparr>om_namespace := []\<rparr>"
  "aq_account (book_usage q a) = aq_account a" "aq_quota (book_usage q a) = aq_quota a"
  "total_used (book_usage q a) = used_of q"
  by (simp_all add: book_usage_def total_used_def used_of_def Let_def split: prod.splits)

lemma book_usage_wf: "aq_wf a \<Longrightarrow> wf_map (used_of q) \<Longrightarrow> aq_wf (book_usage q a)"
proof -
  assume wf: "aq_wf a" "wf_map (used_of q)"
  obtain st where ns: "aq_namespaces (book_usage q a) = InsertResourceQuotasStatus (aq_namespaces a)
      \<lparr>qn_namespace = om_namespace (rq_meta q), qn_status = st\<rparr>" and st: "wf_map (the_rl (st_used st))"
    using book_usage_namespaces [of q a] by fastforce
  show "aq_wf (book_usage q a)"
    using wf st set_Insert [of "aq_namespaces a" "\<lparr>qn_namespace = om_namespace (rq_meta q), qn_status = st\<rparr>"]
    by (auto simp: aq_wf_def ns Insert_namespaces)
qed

lemma book_usage_used:
  assumes "aq_wf a" "wf_map (used_of q)"
  shows "namespace_used (book_usage q a) ns k =
    namespace_used a ns k + (if ns = om_namespace (rq_meta q) then amount (used_of q) k - amount (total_used a) k else 0)"
  using book_usage_namespaces [of q a] assms Get_wf
  by (auto simp: namespace_used_def Get_Insert status_amount_def aq_wf_def)

lemma book_usage_balanced:
  assumes "aq_wf a" "wf_map (used_of q)" "balanced a"
  shows "balanced (book_usage q a)"
  unfolding balanced_def
proof
  fix k
  obtain st where ns: "aq_namespaces (book_usage q a) = InsertResourceQuotasStatus (aq_namespaces a)
      \<lparr>qn_namespace = om_namespace (rq_meta q), qn_status = st\<rparr>"
    using book_usage_namespaces [of q a] by blast
  have d: "distinct (map qn_namespace (aq_namespaces a))" using assms(1) by (simp add: aq_wf_def)
  have "namespace_used (book_usage q a) (om_namespace (rq_meta q)) k = status_amount k st"
    by (simp add: namespace_used_def ns Get_Insert)
  then have "status_amount k st = namespace_used a (om_namespace (rq_meta q)) k + amount (used_of q) k - amount (total_used a) k"
    using book_usage_used [OF assms(1,2)] by simp
  then show "namespaces_sum (status_amount k) (aq_namespaces (book_usage q a)) = amount (total_used (book_usage q a)) k"
    using assms(3) sum_Insert [OF d, of "status_amount k"] by (simp add: ns balanced_def namespace_used_def)
qed

section \<open>The interface of the manager's client\<close>

text \<open>
  A version of an account quota, for given limits \<open>H\<close> by quota name: well formed, the namespaces add up to
  the total, and the total is within the limits. Limits do not change while requests are evaluated.
\<close>

definition version_ok :: "(string \<Rightarrow> resource_list) \<Rightarrow> account_quota \<Rightarrow> bool" where
  "version_ok H a \<longleftrightarrow> aq_wf a \<and> balanced a \<and> H (om_name (aq_meta a)) = the_rl (st_hard (aq_total a))
     \<and> quota_ok (convert_quota [] a)"

definition converted_ok :: "(string \<Rightarrow> resource_list) \<Rightarrow> resource_quota \<Rightarrow> bool" where
  "converted_ok H q \<longleftrightarrow> quota_ok q \<and> H (om_name (rq_meta q)) = hard_of q"

lemma version_ok_convert: "version_ok H a \<Longrightarrow> converted_ok H (convert_quota ns a)"
  by (simp add: version_ok_def converted_ok_def convert_quota_def quota_ok_def wf_quota_def within_def hard_of_def used_of_def)

lemma version_ok_book:
  assumes "version_ok H a" "converted_ok H q" "om_name (aq_meta a) = om_name (rq_meta q)"
  shows "version_ok H (book_usage q a)"
proof -
  have wf: "wf_map (used_of q)" using assms(2) by (simp add: converted_ok_def quota_ok_def wf_quota_def)
  have "quota_ok (convert_quota [] (book_usage q a))"
    using assms by (simp add: version_ok_def converted_ok_def convert_quota_def quota_ok_def wf_quota_def within_def
      hard_of_def used_of_def)
  then show ?thesis
    using assms book_usage_wf [OF _ wf] book_usage_balanced [OF _ wf] by (simp add: version_ok_def)
qed

lemma converted_ok_charged: "converted_ok H q \<Longrightarrow> same_limits q q' \<Longrightarrow> quota_ok q' \<Longrightarrow> converted_ok H q'"
  by (simp add: converted_ok_def same_limits_def)

definition named_ok :: "(string \<Rightarrow> resource_list) \<Rightarrow> string \<Rightarrow> account_quota \<Rightarrow> bool" where
  "named_ok H k a \<longleftrightarrow> version_ok H a \<and> om_name (aq_meta a) = k"

definition aq_inv :: "('w \<Rightarrow> bool) \<Rightarrow> (string \<Rightarrow> resource_list) \<Rightarrow> 'w aq_access \<Rightarrow> bool" where
  "aq_inv W H e \<longleftrightarrow> W (aa_world e) \<and> all_entries (named_ok H) (aa_updatedAccountQuotas e)"

lemma aq_checkCache_entries:
  assumes "all_entries (named_ok H) c" "named_ok H k a" "aq_checkCache a c = (r, c')"
  shows "all_entries (named_ok H) c' \<and> (\<forall>a'. r = Inr a' \<longrightarrow> named_ok H k a')"
proof -
  have k: "om_name (aq_meta a) = k" using assms(2) by (simp add: named_ok_def)
  obtain g c1 where g: "lru_Get k c = (g, c1)" by fastforce
  note c1 = all_entries_lru(2) [OF assms(1) g]
  show ?thesis
  proof (cases g)
    case None
    then show ?thesis using assms(2,3) g c1 by (auto simp: aq_checkCache_def k)
  next
    case (Some ca)
    have ca: "named_ok H k ca" using all_entries_lru(3) [OF assms(1)] g Some by blast
    note c2 = all_entries_lru(4) [OF c1, of k]
    show ?thesis
    proof (cases "CompareResourceVersion (aq_meta a) (aq_meta ca)")
      case (Inl err)
      then show ?thesis using assms(3) g c1 Some by (auto simp: aq_checkCache_def k)
    next
      case (Inr v)
      then show ?thesis
        using assms(2,3) g c1 c2 ca Some by (cases "v \<ge> 0") (auto simp: aq_checkCache_def k)
    qed
  qed
qed

lemma convert_all_entries:
  assumes "all_entries (named_ok H) c" "\<forall>a \<in> set as. version_ok H a" "\<forall>q \<in> set acc. converted_ok H q"
    and "convert_all ns as c acc = (r, c')"
  shows "all_entries (named_ok H) c' \<and> (\<forall>qs. r = Inr qs \<longrightarrow> (\<forall>q \<in> set qs. converted_ok H q))"
  using assms
proof (induction as arbitrary: c acc)
  case (Cons a as)
  obtain g c1 where g: "aq_checkCache a c = (g, c1)" by fastforce
  have k: "all_entries (named_ok H) c1 \<and> (\<forall>a'. g = Inr a' \<longrightarrow> named_ok H (om_name (aq_meta a)) a')"
    by (rule aq_checkCache_entries [OF Cons.prems(1) _ g]) (use Cons.prems(2) in \<open>simp add: named_ok_def\<close>)
  show ?case
  proof (cases g)
    case (Inl err)
    have "r = Inl err" "c' = c1" using Cons.prems(4) g Inl by auto
    then show ?thesis using k by simp
  next
    case (Inr a')
    have eq: "convert_all ns as c1 (acc @ [convert_quota ns a']) = (r, c')" using Cons.prems(4) g Inr by simp
    have a': "converted_ok H (convert_quota ns a')"
      by (rule version_ok_convert) (use k Inr in \<open>simp add: named_ok_def\<close>)
    have acc: "\<forall>q \<in> set (acc @ [convert_quota ns a']). converted_ok H q" using Cons.prems(3) a' by simp
    have as: "\<forall>a \<in> set as. version_ok H a" using Cons.prems(2) by simp
    show ?thesis by (rule Cons.IH [OF conjunct1 [OF k] as acc eq])
  qed
qed auto

text \<open>
  What the client promises: \<open>Get\<close> returns the quota of the name, reads return versions that are \<open>version_ok\<close> as
  long as only such versions are written, and an update returns the version it has written.
\<close>

locale account_client =
  fixes client :: "'w aq_client" and W :: "'w \<Rightarrow> bool" and H :: "string \<Rightarrow> resource_list"
  assumes get_law: "W w \<Longrightarrow> kc_GetAccountQuota client n w = (a, w') \<Longrightarrow> W w' \<and> (\<forall>x. a = Inr x \<longrightarrow> named_ok H n x)"
    and namespace_law: "W w \<Longrightarrow> kc_GetNamespace client ns w = (r, w') \<Longrightarrow> W w'"
    and list_law: "W w \<Longrightarrow> kc_ListAccountQuotas client account w = (l, w') \<Longrightarrow>
      W w' \<and> (\<forall>as. l = Inr as \<longrightarrow> (\<forall>x \<in> set as. version_ok H x))"
    and update_law: "W w \<Longrightarrow> version_ok H x \<Longrightarrow> kc_UpdateStatus client x w = (a, w') \<Longrightarrow>
      W w' \<and> (\<forall>y. a = Inr y \<longrightarrow> version_ok H y)"
begin

lemma update_keeps:
  assumes "aq_inv W H e" "converted_ok H q"
  shows "aq_inv W H (snd (aq_UpdateQuotaStatus client q e))"
proof -
  let ?n = "om_name (rq_meta q)"
  obtain a w where g: "kc_GetAccountQuota client ?n (aa_world e) = (a, w)" by fastforce
  have w: "W w \<and> (\<forall>x. a = Inr x \<longrightarrow> named_ok H ?n x)" using get_law [OF _ g] assms(1) by (simp add: aq_inv_def)
  show ?thesis
  proof (cases a)
    case (Inl err)
    then show ?thesis using g w assms(1) by (simp add: aq_UpdateQuotaStatus_def aq_inv_def)
  next
    case (Inr x)
    obtain b c where cc: "aq_checkCache x (aa_updatedAccountQuotas e) = (b, c)" by fastforce
    have c: "all_entries (named_ok H) c \<and> (\<forall>y. b = Inr y \<longrightarrow> named_ok H ?n y)"
      using aq_checkCache_entries [where H = H, OF _ _ cc] assms(1) w Inr by (auto simp: aq_inv_def)
    show ?thesis
    proof (cases b)
      case (Inl err)
      then show ?thesis using g cc Inr c w by (simp add: aq_UpdateQuotaStatus_def aq_inv_def)
    next
      case (Inr y)
      have y: "version_ok H (book_usage q y)" using version_ok_book assms(2) c Inr by (simp add: named_ok_def)
      obtain r w2 where u: "kc_UpdateStatus client (book_usage q y) w = (r, w2)" by fastforce
      have w2: "W w2 \<and> (\<forall>z. r = Inr z \<longrightarrow> version_ok H z)" using update_law [OF _ y u] w by blast
      have "version_ok H z \<Longrightarrow> all_entries (named_ok H) (lru_Add (om_name (aq_meta z)) z c)" for z
        using all_entries_lru(1) [where Q = "named_ok H"] c by (simp add: named_ok_def)
      then show ?thesis
        using g \<open>a = Inr x\<close> cc Inr u w2 c by (cases r) (simp_all add: aq_UpdateQuotaStatus_def aq_inv_def)
    qed
  qed
qed

lemmas poll_keeps = PollImmediate_keeps [where W = W]

lemma ready_keeps:
  assumes "W w" "ready_account_quotas client ns w = (r, w')"
  shows "W w' \<and> (\<forall>x. r = Inr (Some x) \<longrightarrow> (\<forall>a \<in> set x. version_ok H a))"
proof -
  obtain n w1 where n: "kc_GetNamespace client ns w = (n, w1)" by fastforce
  have w1: "W w1" by (rule namespace_law [OF assms(1) n])
  show ?thesis
  proof (cases n)
    case (Inl err)
    then show ?thesis using assms(2) n w1 by (auto simp: ready_account_quotas_def split: if_splits)
  next
    case (Inr nsp)
    let ?account = "label_value (om_labels (ns_meta nsp)) SpaceLabelAccount"
    obtain l w2 where l: "kc_ListAccountQuotas client ?account w1 = (l, w2)" by fastforce
    then show ?thesis
      using list_law [OF w1 l] assms(2) n w1 Inr
      by (cases l) (auto simp: ready_account_quotas_def Let_def split: if_splits)
  qed
qed

lemma get_keeps:
  assumes "aq_inv W H e" "aq_GetQuotas client ns e = (r, e')"
  shows "aq_inv W H e' \<and> (\<forall>qs. r = Inr qs \<longrightarrow> (\<forall>q \<in> set qs. converted_ok H q))"
proof -
  obtain l w where l: "waitForReadyAccountQuotaNames client ns (aa_world e) = (l, w)" by fastforce
  have w: "W w \<and> (\<forall>x. l = Inr x \<longrightarrow> (\<forall>a \<in> set x. version_ok H a))"
    by (rule poll_keeps [OF ready_keeps _ l [unfolded waitForReadyAccountQuotaNames_def]])
      (use assms(1) in \<open>auto simp: aq_inv_def\<close>)
  show ?thesis
  proof (cases l)
    case (Inl err)
    then show ?thesis using assms l w by (auto simp: aq_GetQuotas_def aq_inv_def)
  next
    case (Inr as)
    obtain r1 c where c: "convert_all ns as (aa_updatedAccountQuotas e) [] = (r1, c)" by fastforce
    have "all_entries (named_ok H) c \<and> (\<forall>qs. r1 = Inr qs \<longrightarrow> (\<forall>q \<in> set qs. converted_ok H q))"
      using convert_all_entries [where H = H, OF _ _ _ c] assms(1) w Inr by (simp add: aq_inv_def)
    moreover have "r = r1" "e' = e\<lparr>aa_world := w, aa_updatedAccountQuotas := c\<rparr>"
      using assms(2) l Inr c by (simp_all add: aq_GetQuotas_def)
    ultimately show ?thesis using w by (simp add: aq_inv_def)
  qed
qed

end

sublocale account_client \<subseteq> accessor: accessor_inv "accountQuotaAccessor client" "aq_inv W H" "converted_ok H"
proof unfold_locales
  fix s q assume "aq_inv W H s" "converted_ok H q"
  then show "aq_inv W H (snd (qa_UpdateQuotaStatus (accountQuotaAccessor client) q s))"
    by (simp add: accountQuotaAccessor_def update_keeps)
next
  fix s ns assume "aq_inv W H s"
  then show "aq_inv W H (snd (qa_GetQuotas (accountQuotaAccessor client) ns s))"
    using get_keeps by (metis accountQuotaAccessor_def quota_accessor.select_convs(2) prod.collapse)
next
  fix s s' ns qs
  assume "aq_inv W H s" "qa_GetQuotas (accountQuotaAccessor client) ns s = (Inr qs, s')"
  then show "\<forall>q \<in> set qs. converted_ok H q"
    using get_keeps [of s ns "Inr qs" s'] by (simp add: accountQuotaAccessor_def)
qed (simp add: converted_ok_def, rule converted_ok_charged)

end
