(* ===== verification/AccountAdmission.thy ===== *)
theory AccountAdmission
  imports AccountQuota
begin

text \<open>
  What admission against account quotas guarantees: the accessor keeps the books, whatever the requests and
  however far the manager's cache lags behind, and workers that take the locks of their quotas never
  wait for each other in a circle.
\<close>

section \<open>The client on a store\<close>

record aq_world =
  kw_quotas :: "account_quota api_store"
  kw_namespaces :: "namespace api_store"

definition aq_merge :: "nat \<Rightarrow> account_quota \<Rightarrow> account_quota \<Rightarrow> account_quota" where
  "aq_merge r old new = old\<lparr>aq_meta := (aq_meta old)\<lparr>om_resourceVersion := string_of_nat r\<rparr>,
     aq_total := aq_total new, aq_namespaces := aq_namespaces new\<rparr>"

definition store_aq_client :: "aq_world aq_client" where
  "store_aq_client = \<lparr>
     kc_GetAccountQuota = (\<lambda>n w. case store_Get n (kw_quotas w) of
       (None, st) \<Rightarrow> (Inl (NotFoundErr n), w\<lparr>kw_quotas := st\<rparr>)
     | (Some a, st) \<Rightarrow> (Inr a, w\<lparr>kw_quotas := st\<rparr>)),
     kc_GetNamespace = (\<lambda>n w. case store_Get n (kw_namespaces w) of
       (None, st) \<Rightarrow> (Inl (NotFoundErr n), w\<lparr>kw_namespaces := st\<rparr>)
     | (Some a, st) \<Rightarrow> (Inr a, w\<lparr>kw_namespaces := st\<rparr>)),
     kc_ListAccountQuotas = (\<lambda>account w. case store_List (\<lambda>a. account \<in> set (index_AccountQuota a)) (kw_quotas w) of
       (as, st) \<Rightarrow> (Inr as, w\<lparr>kw_quotas := st\<rparr>)),
     kc_UpdateStatus = (\<lambda>a w. case store_Update (\<lambda>a. om_resourceVersion (aq_meta a)) aq_merge (om_name (aq_meta a)) a (kw_quotas w) of
       (r, st) \<Rightarrow> (r, w\<lparr>kw_quotas := st\<rparr>))\<rparr>"

abbreviation world_ok :: "(string \<Rightarrow> resource_list) \<Rightarrow> aq_world \<Rightarrow> bool" where
  "world_ok H w \<equiv> store_all (named_ok H) (kw_quotas w)"

lemma named_ok_merge:
  assumes "named_ok H n old" "version_ok H new" "om_name (aq_meta new) = n"
  shows "named_ok H n (aq_merge r old new)"
  using assms by (simp add: named_ok_def version_ok_def aq_merge_def aq_wf_def balanced_def total_used_def convert_quota_def
    quota_ok_def wf_quota_def within_def hard_of_def used_of_def)

lemma config_ok_account: "config_ok (new_account_evaluator (NewQuotaConfiguration order f now))"
  by (simp add: config_ok_def new_account_evaluator_def NewQuotaEvaluator_def NewQuotaConfiguration_def ByName_def
    registry_wf_NewEvaluators)

definition evaluator_ok :: "quota_evaluator_config option \<Rightarrow> bool" where
  "evaluator_ok e \<longleftrightarrow> (\<forall>c. e = Some c \<longrightarrow> config_ok c)"

context account_client
begin

lemma account_Validate_inv:
  assumes "evaluator_ok ev" "aq_inv W H s"
    and "account_Validate client (NewQuotaConfiguration order f now) synced a ev s = (r, ev', s')"
  shows "evaluator_ok ev' \<and> aq_inv W H s'"
proof (cases "at_subresource a \<noteq> [] \<or> at_namespace a = [] \<or> \<not> synced")
  case True
  then show ?thesis using assms by (auto simp: account_Validate_def split: if_splits)
next
  case False
  define e where "e = (case ev of Some e \<Rightarrow> e | None \<Rightarrow> new_account_evaluator (NewQuotaConfiguration order f now))"
  have e: "config_ok e" using assms(1) config_ok_account by (auto simp: e_def evaluator_ok_def split: option.splits)
  obtain r1 e1 s1 where v: "Evaluate_alone (accountQuotaAccessor client) a e s = (r1, e1, s1)" by (metis prod_cases3)
  have "ev' = Some e1" "s' = s1" using assms(3) False v by (auto simp: account_Validate_def Let_def simp flip: e_def)
  then show ?thesis using accessor.Evaluate_alone_inv [OF e assms(2) v] by (simp add: evaluator_ok_def)
qed

lemma account_Validates_inv:
  "evaluator_ok ev \<Longrightarrow> aq_inv W H s \<Longrightarrow>
   account_Validates client (NewQuotaConfiguration order f now) as ev s = (rs, ev', s') \<Longrightarrow> aq_inv W H s'"
proof (induction as arbitrary: ev s rs ev' s')
  case (Cons x as)
  obtain synced a where x: "x = (synced, a)" by force
  obtain r e1 s1 where v: "account_Validate client (NewQuotaConfiguration order f now) synced a ev s = (r, e1, s1)"
    by (metis prod_cases3)
  obtain rs1 e2 s2 where vs: "account_Validates client (NewQuotaConfiguration order f now) as e1 s1 = (rs1, e2, s2)"
    by (metis prod_cases3)
  show ?case
    using account_Validate_inv [OF Cons.prems(1,2) v] Cons.IH [OF _ _ vs] Cons.prems(3) v vs by (simp add: x)
qed simp

end

interpretation aq_store: account_client store_aq_client "world_ok H" H for H
proof unfold_locales
  fix w w' n a assume w: "world_ok H w" and g: "kc_GetAccountQuota store_aq_client n w = (a, w')"
  obtain r st where s: "store_Get n (kw_quotas w) = (r, st)" by fastforce
  show "world_ok H w' \<and> (\<forall>x. a = Inr x \<longrightarrow> named_ok H n x)"
    using store_Get_all [OF w s] g s by (auto simp: store_aq_client_def split: option.splits)
next
  fix w w' ns r assume "world_ok H w" "kc_GetNamespace store_aq_client ns w = (r, w')"
  then show "world_ok H w'" by (auto simp: store_aq_client_def split: prod.splits option.splits)
next
  fix w w' account l assume w: "world_ok H w" and g: "kc_ListAccountQuotas store_aq_client account w = (l, w')"
  obtain as st where s: "store_List (\<lambda>a. account \<in> set (index_AccountQuota a)) (kw_quotas w) = (as, st)" by fastforce
  have as: "\<forall>x \<in> set as. version_ok H x" using store_List_all(2) [OF w s] by (auto simp: named_ok_def)
  show "world_ok H w' \<and> (\<forall>as. l = Inr as \<longrightarrow> (\<forall>x \<in> set as. version_ok H x))"
    using store_List_all(1) [OF w s] as g s by (auto simp: store_aq_client_def)
next
  fix w w' x a assume w: "world_ok H w" and x: "version_ok H x" and u: "kc_UpdateStatus store_aq_client x w = (a, w')"
  obtain r st where s: "store_Update (\<lambda>a. om_resourceVersion (aq_meta a)) aq_merge (om_name (aq_meta x)) x (kw_quotas w) = (r, st)"
    by fastforce
  have "store_all (named_ok H) st \<and> (\<forall>y. r = Inr y \<longrightarrow> named_ok H (om_name (aq_meta x)) y)"
    by (rule store_Update_all [OF w _ s]) (rule named_ok_merge [OF _ x refl])
  then show "world_ok H w' \<and> (\<forall>y. a = Inr y \<longrightarrow> version_ok H y)"
    using u s by (auto simp: store_aq_client_def named_ok_def)
qed

section \<open>Properties\<close>

text \<open>Bookkeeping: booking an update sets the total to the usage that was charged, changes the usage of
  the request's namespace by exactly the difference and no other namespace's, and if the namespaces added up to the
  total before, they do so afterwards, resource by resource.\<close>

lemma book_usage_books:
  assumes "aq_wf a" "wf_map (used_of q)"
  shows "(balanced a \<longrightarrow> balanced (book_usage q a)) \<and> total_used (book_usage q a) = used_of q
    \<and> (\<forall>ns k. namespace_used (book_usage q a) ns k = namespace_used a ns k
         + (if ns = om_namespace (rq_meta q) then amount (used_of q) k - amount (total_used a) k else 0))"
  using book_usage_balanced [OF assms] book_usage_used [OF assms] by simp

text \<open>C2. Account quotas are safe: whatever requests are admitted one after the other, in whatever namespaces,
  and however far the manager's cache lags behind the API server, every stored account quota stays within its
  hard limits and its namespaces keep adding up to its total.\<close>

theorem account_Validates_safe:
  assumes "world_ok H w"
    and "account_Validates store_aq_client (NewQuotaConfiguration order f now) as None (newAccountQuotaAccessor w) = (rs, ev, s)"
    and "map_of (as_objects (kw_quotas (aa_world s))) n = Some a"
  shows "balanced a \<and> (\<forall>k h. map_of (H n) k = Some h \<longrightarrow> amount (total_used a) k \<le> h)"
proof -
  have "aq_inv (world_ok H) H (newAccountQuotaAccessor w)"
    using assms(1) by (simp add: aq_inv_def newAccountQuotaAccessor_def all_entries_Nil)
  from aq_store.account_Validates_inv [OF _ this assms(2)]
  have "world_ok H (aa_world s)" by (simp add: aq_inv_def evaluator_ok_def)
  then have "named_ok H n a" using assms(3) by (auto simp: store_all_def dest: all_entries_lookup)
  then show ?thesis
    by (auto simp: named_ok_def version_ok_def quota_ok_def within_def convert_quota_def hard_of_def used_of_def total_used_def)
qed

definition ex_account_quota :: account_quota where
  "ex_account_quota = \<lparr>aq_meta = empty_meta\<lparr>om_name := ''q''\<rparr>, aq_account = ''acme'',
     aq_quota = \<lparr>qs_hard = [(''count/configmaps'', 2 * 10 ^ 9)], qs_scopes = [], qs_scopeSelector = None\<rparr>,
     aq_total = \<lparr>st_hard = Some [(''count/configmaps'', 2 * 10 ^ 9)], st_used = Some [(''count/configmaps'', 10 ^ 9)]\<rparr>,
     aq_namespaces = [\<lparr>qn_namespace = ''other'', qn_status = \<lparr>st_hard = None, st_used = Some [(''count/configmaps'', 10 ^ 9)]\<rparr>\<rparr>]\<rparr>"

definition ex_namespace :: namespace where
  "ex_namespace = \<lparr>ns_meta = empty_meta\<lparr>om_name := ''ns'', om_labels := [(SpaceLabelAccount, ''acme'')]\<rparr>,
     ns_finalizers = [], ns_phase = []\<rparr>"

definition ex_aq_world :: aq_world where
  "ex_aq_world = \<lparr>
     kw_quotas = \<lparr>as_objects = [(''q'', ex_account_quota)], as_cache = [(''q'', ex_account_quota)], as_lag = [], as_revision = 6\<rparr>,
     kw_namespaces = \<lparr>as_objects = [(''ns'', ex_namespace)], as_cache = [(''ns'', ex_namespace)], as_lag = [], as_revision = 3\<rparr>\<rparr>"

text \<open>Two config maps in a namespace whose account has room for one, seen through a cache that never catches up.\<close>

definition ex_aq_run where
  "ex_aq_run = account_Validates store_aq_client (NewQuotaConfiguration id (\<lambda>_. Inl (OtherErr [])) 0)
     [(True, ex_create ''configmaps''), (True, ex_create ''configmaps'')] None (newAccountQuotaAccessor ex_aq_world)"

lemma ex_aq_run_result:
  "map (\<lambda>r. r = None) (fst ex_aq_run) = [True, False]"
  "map_option (\<lambda>a. (total_used a, map (\<lambda>n. (qn_namespace n, the_rl (st_used (qn_status n)))) (aq_namespaces a)))
     (map_of (as_objects (kw_quotas (aa_world (snd (snd ex_aq_run))))) ''q'') =
   Some ([(''count/configmaps'', 2 * 10 ^ 9)], [(''other'', [(''count/configmaps'', 10 ^ 9)]), (''ns'', [(''count/configmaps'', 10 ^ 9)])])"
  by code_simp+

lemma ex_account_quota_ok: "named_ok (\<lambda>_. [(''count/configmaps'', 2 * 10 ^ 9)]) ''q'' ex_account_quota"
  by (simp add: named_ok_def version_ok_def ex_account_quota_def aq_wf_def balanced_def total_used_def namespaces_sum_def
    status_amount_def convert_quota_def quota_ok_def wf_quota_def within_def hard_of_def used_of_def amount_def)

theorem account_Validates_safe_witness:
  "\<exists>a. map_of (as_objects (kw_quotas (aa_world (snd (snd ex_aq_run))))) ''q'' = Some a \<and> balanced a
     \<and> amount (total_used a) ''count/configmaps'' \<le> 2 * 10 ^ 9"
proof -
  obtain rs ev s where run: "ex_aq_run = (rs, ev, s)" by (metis prod_cases3)
  obtain a where a: "map_of (as_objects (kw_quotas (aa_world s))) ''q'' = Some a"
    using ex_aq_run_result(2) unfolding run snd_conv by blast
  have w: "world_ok (\<lambda>_. [(''count/configmaps'', 2 * 10 ^ 9)]) ex_aq_world"
    using ex_account_quota_ok by (simp add: store_all_def all_entries_def ex_aq_world_def)
  show ?thesis
    using account_Validates_safe [OF w run [unfolded ex_aq_run_def] a] a unfolding run snd_conv by simp
qed

theorem book_usage_books_witness:
  "balanced (book_usage (convert_quota ''ns'' ex_account_quota) ex_account_quota)"
proof -
  have "aq_wf ex_account_quota \<and> balanced ex_account_quota \<and> wf_map (used_of (convert_quota ''ns'' ex_account_quota))"
    using ex_account_quota_ok
    by (simp add: named_ok_def version_ok_def quota_ok_def wf_quota_def convert_quota_def used_of_def)
  then show ?thesis using book_usage_books [of ex_account_quota "convert_quota ''ns'' ex_account_quota"] by blast
qed

section \<open>The locks of the workers\<close>

text \<open>
  Each worker acquires the locks of its quotas by name in the order of \<open>lock_names\<close>, one after the other, and
  gives them back in the reverse order. A worker is the locks it holds, the first acquired first, and those it
  still has to take; a lock is free if no worker holds it.
\<close>

record worker =
  wk_held :: "string list"
  wk_todo :: "string list"

type_synonym lock_state = "nat \<Rightarrow> worker"

definition free_lock :: "lock_state \<Rightarrow> string \<Rightarrow> bool" where
  "free_lock s l \<longleftrightarrow> (\<forall>i. l \<notin> set (wk_held (s i)))"

definition idle :: worker where
  "idle = \<lparr>wk_held = [], wk_todo = []\<rparr>"

lemma idle_simps [simp]: "wk_held idle = []" "wk_todo idle = []"
  by (simp_all add: idle_def)

inductive lock_step :: "lock_state \<Rightarrow> lock_state \<Rightarrow> bool" where
  lock_begin: "s i = idle \<Longrightarrow> distinct (map (\<lambda>q. om_name (rq_meta q)) quotas) \<Longrightarrow>
     lock_step s (s(i := \<lparr>wk_held = [], wk_todo = lock_names quotas\<rparr>))"
| lock_take: "wk_todo (s i) = l # ls \<Longrightarrow> free_lock s l \<Longrightarrow>
     lock_step s (s(i := \<lparr>wk_held = wk_held (s i) @ [l], wk_todo = ls\<rparr>))"
| lock_release: "wk_todo (s i) = [] \<Longrightarrow> wk_held (s i) \<noteq> [] \<Longrightarrow>
     lock_step s (s(i := \<lparr>wk_held = butlast (wk_held (s i)), wk_todo = []\<rparr>))"

inductive_cases lock_stepE: "lock_step s s'"

inductive lock_reachable :: "lock_state \<Rightarrow> bool" where
  lock_start: "lock_reachable (\<lambda>_. idle)"
| lock_more: "lock_reachable s \<Longrightarrow> lock_step s s' \<Longrightarrow> lock_reachable s'"

definition lock_inv :: "lock_state \<Rightarrow> bool" where
  "lock_inv s \<longleftrightarrow> finite {i. s i \<noteq> idle}
     \<and> (\<forall>i. sorted_wrt (<) (wk_held (s i) @ wk_todo (s i)))
     \<and> (\<forall>i j l. l \<in> set (wk_held (s i)) \<and> l \<in> set (wk_held (s j)) \<longrightarrow> i = j)"

lemma sorted_lock_names:
  "distinct (map (\<lambda>q. om_name (rq_meta q)) quotas) \<Longrightarrow> sorted_wrt (<) (lock_names quotas)"
proof -
  assume d: "distinct (map (\<lambda>q. om_name (rq_meta q)) quotas)"
  have "sorted (lock_names quotas)" by (simp add: lock_names_def ByName_def)
  moreover have "mset (lock_names quotas) = mset (map (\<lambda>q. om_name (rq_meta q)) quotas)"
    by (simp add: lock_names_def ByName_def)
  then have "distinct (lock_names quotas)" using d by (metis mset_eq_imp_distinct_iff)
  ultimately show ?thesis by (simp add: strict_sorted_iff)
qed

lemma sorted_butlast: "sorted_wrt R xs \<Longrightarrow> sorted_wrt R (butlast xs)"
  by (metis append_butlast_last_id butlast.simps(1) sorted_wrt_append)

lemma finite_upd: "finite {i. s i \<noteq> (c :: 'a)} \<Longrightarrow> finite {j. (s(i := x)) j \<noteq> c}"
  by (rule finite_subset [of _ "insert i {i. s i \<noteq> c}"]) auto

lemma lock_inv_step:
  assumes "lock_inv s" "lock_step s s'"
  shows "lock_inv s'"
  using assms(2)
proof (cases rule: lock_step.cases)
  case (lock_begin i quotas)
  then show ?thesis
    using assms(1) sorted_lock_names finite_upd [of s idle i] by (auto simp: lock_inv_def)
next
  case (lock_take i l ls)
  have "sorted_wrt (<) (wk_held (s i) @ wk_todo (s i))" using assms(1) by (simp add: lock_inv_def)
  then have "sorted_wrt (<) ((wk_held (s i) @ [l]) @ ls)" by (simp add: lock_take(2))
  then show ?thesis
    using assms(1) lock_take finite_upd [of s idle i] by (auto simp: lock_inv_def free_lock_def; metis)
next
  case (lock_release i)
  have "sorted_wrt (<) (wk_held (s i) @ wk_todo (s i))" using assms(1) by (simp add: lock_inv_def)
  then have "sorted_wrt (<) (wk_held (s i))" by (simp add: lock_release(2))
  then show ?thesis
    using assms(1) lock_release finite_upd [of s idle i] sorted_butlast
    by (auto simp: lock_inv_def; metis in_set_butlastD)
qed

lemma lock_inv_reachable: "lock_reachable s \<Longrightarrow> lock_inv s"
proof (induction rule: lock_reachable.induct)
  case lock_start
  show ?case by (simp add: lock_inv_def)
qed (rule lock_inv_step)

text \<open>As long as some worker has not finished with its locks, one that has not can take its next lock or give back
  its last one.\<close>

lemma lock_possible:
  assumes "lock_reachable s" "s i \<noteq> idle"
  shows "\<exists>j. s j \<noteq> idle \<and> ((\<exists>l ls. wk_todo (s j) = l # ls \<and> free_lock s l) \<or> (wk_todo (s j) = [] \<and> wk_held (s j) \<noteq> []))"
proof (rule ccontr)
  assume stuck: "\<not> ?thesis"
  have inv: "lock_inv s" by (rule lock_inv_reachable [OF assms(1)])
  have todo: "wk_todo (s j) \<noteq> []" if "s j \<noteq> idle" for j
  proof
    assume t: "wk_todo (s j) = []"
    then have "wk_held (s j) \<noteq> []" using that by (auto simp: idle_def)
    then show False using stuck that t by blast
  qed
  have next_held: "\<exists>m. s m \<noteq> idle \<and> hd (wk_todo (s j)) \<in> set (wk_held (s m))" if j: "s j \<noteq> idle" for j
  proof (rule ccontr)
    assume "\<not> ?thesis"
    then have "free_lock s (hd (wk_todo (s j)))" unfolding free_lock_def by (metis empty_iff idle_simps(1) list.set(1))
    then show False using stuck j todo [OF j] by (metis list.collapse)
  qed
  define L where "L = (\<lambda>j. hd (wk_todo (s j))) ` {j. s j \<noteq> idle}"
  have fin: "finite L" using inv by (simp add: L_def lock_inv_def)
  have ne: "L \<noteq> {}" using assms(2) by (auto simp: L_def)
  obtain j where j: "s j \<noteq> idle" "hd (wk_todo (s j)) = Max L" using Max_in [OF fin ne] by (auto simp: L_def)
  obtain m where m: "s m \<noteq> idle" "Max L \<in> set (wk_held (s m))" using next_held [OF j(1)] j(2) by auto
  have "Max L < hd (wk_todo (s m))"
    using inv m todo [OF m(1)] unfolding lock_inv_def sorted_wrt_append by (metis hd_in_set)
  moreover have "hd (wk_todo (s m)) \<le> Max L" using m(1) by (intro Max_ge [OF fin]) (auto simp: L_def)
  ultimately show False by simp
qed

text \<open>No deadlock.\<close>

lemma locks_progress:
  assumes "lock_reachable s" "s i \<noteq> idle"
  shows "\<exists>j s'. s j \<noteq> idle \<and> lock_step s s' \<and> s' = s(j := s' j) \<and> s' j \<noteq> s j"
proof -
  obtain j where j: "s j \<noteq> idle" "(\<exists>l ls. wk_todo (s j) = l # ls \<and> free_lock s l) \<or> (wk_todo (s j) = [] \<and> wk_held (s j) \<noteq> [])"
    using lock_possible [OF assms] by blast
  from j(2) show ?thesis
  proof (elim disjE exE conjE)
    fix l ls assume l: "wk_todo (s j) = l # ls" "free_lock s l"
    have "\<lparr>wk_held = wk_held (s j) @ [l], wk_todo = ls\<rparr> \<noteq> s j" using l(1) by (metis not_Cons_self2 worker.select_convs(2))
    then show ?thesis using lock_step.lock_take [of s j l ls, OF l] j(1) by (intro exI [of _ j] exI) auto
  next
    assume r: "wk_todo (s j) = []" "wk_held (s j) \<noteq> []"
    have "length (butlast (wk_held (s j))) \<noteq> length (wk_held (s j))" using r(2) by (cases "wk_held (s j)") simp_all
    then have "\<lparr>wk_held = butlast (wk_held (s j)), wk_todo = []\<rparr> \<noteq> s j" by (metis worker.select_convs(1))
    then show ?thesis using lock_step.lock_release [of s j, OF r] j(1) by (intro exI [of _ j] exI) auto
  qed
qed

definition ex_two_quotas :: "resource_quota list" where
  "ex_two_quotas = [ex_quota ''b'' ''configmaps'' 1, ex_quota ''a'' ''secrets'' 1]"

lemma ex_lock_names: "lock_names ex_two_quotas = [''a'', ''b'']"
  by (simp add: lock_names_def ByName_def ex_two_quotas_def ex_quota_def)

text \<open>Two workers on the same quotas, the first of which has taken its first lock.\<close>

definition ex_lock_state :: lock_state where
  "ex_lock_state = ((\<lambda>_. idle)(0 := \<lparr>wk_held = [], wk_todo = [''a'', ''b'']\<rparr>, 1 := \<lparr>wk_held = [], wk_todo = [''a'', ''b'']\<rparr>))
     (0 := \<lparr>wk_held = [''a''], wk_todo = [''b'']\<rparr>)"

lemma ex_lock_reachable: "lock_reachable ex_lock_state"
proof -
  let ?s1 = "(\<lambda>_ :: nat. idle)(0 := \<lparr>wk_held = [], wk_todo = [''a'', ''b'']\<rparr>)"
  let ?s2 = "?s1(1 := \<lparr>wk_held = [], wk_todo = [''a'', ''b'']\<rparr>)"
  have d: "distinct (map (\<lambda>q. om_name (rq_meta q)) ex_two_quotas)" by (simp add: ex_two_quotas_def ex_quota_def)
  have "lock_reachable ?s1"
    using lock_more [OF lock_start lock_begin [OF _ d, of "\<lambda>_. idle" 0]] by (simp add: ex_lock_names)
  then have "lock_reachable ?s2"
    using lock_more [OF _ lock_begin [OF _ d, of ?s1 1]] by (simp add: ex_lock_names)
  moreover have "lock_step ?s2 (?s2(0 := \<lparr>wk_held = wk_held (?s2 0) @ [''a''], wk_todo = [''b'']\<rparr>))"
    by (rule lock_step.lock_take [where s = ?s2 and i = 0 and l = "''a''" and ls = "[''b'']"]) (simp_all add: free_lock_def)
  ultimately show ?thesis unfolding ex_lock_state_def by (auto intro: lock_more)
qed

end
