(* ===== verification/Locks.thy ===== *)
theory Locks
  imports AccountAdmission
begin

text \<open>
  The lock factory that hands out the mutex of a quota by its name (pkg/util/locks.go), and its use by the workers of
  the account quota admission. Any number of goroutines call \<open>GetLock\<close> at the same time: a call first looks
  the key up under the read lock, and if there is no mutex yet, looks again under the write lock and creates it. The
  second lookup is what makes all callers agree.

  \<open>GetLock\<close> and \<open>getExistingLock\<close> are the operations as a caller without rivals sees them; the
  step relation \<open>lf_step\<close> is what they do when their steps interleave. It has a step for each operation on the
  read-write mutex and on the table.
\<close>

section \<open>The factory\<close>

text \<open>A mutex is the number under which it has been allocated.\<close>

record defaultLockFactory =
  lf_locks :: "string \<rightharpoonup> nat"
  lf_allocated :: nat

definition NewDefaultLockFactory :: defaultLockFactory where
  "NewDefaultLockFactory = \<lparr>lf_locks = Map.empty, lf_allocated = 0\<rparr>"

definition getExistingLock :: "defaultLockFactory \<Rightarrow> string \<Rightarrow> nat option" where
  "getExistingLock f key = lf_locks f key"

text \<open>The part of \<open>GetLock\<close> that runs under the write lock.\<close>

definition lookup_or_create :: "defaultLockFactory \<Rightarrow> string \<Rightarrow> nat \<times> defaultLockFactory" where
  "lookup_or_create f key = (case lf_locks f key of
     Some lock \<Rightarrow> (lock, f)
   | None \<Rightarrow> (lf_allocated f, f\<lparr>lf_locks := (lf_locks f)(key \<mapsto> lf_allocated f), lf_allocated := Suc (lf_allocated f)\<rparr>))"

definition GetLock :: "defaultLockFactory \<Rightarrow> string \<Rightarrow> nat \<times> defaultLockFactory" where
  "GetLock f key = (case getExistingLock f key of Some lock \<Rightarrow> (lock, f) | None \<Rightarrow> lookup_or_create f key)"

section \<open>Concurrent calls\<close>

text \<open>
  Where the call of a goroutine is: not in the factory, called but not yet holding the read lock, holding the read lock
  before and after the lookup, without a lock after a lookup that has found nothing, waiting as the announced writer,
  holding the write lock before and after the second lookup, or returned with a mutex. The read-write mutex admits one
  announced writer at a time; from then on it admits no new reader, and the writer gets the lock when the last reader has
  left.
\<close>

datatype lf_call =
    Outside
  | Called string
  | Reading string
  | HasRead string "nat option"
  | Missed string
  | Announced string
  | Writing string
  | HasWritten string nat
  | Returned string nat

fun reads :: "lf_call \<Rightarrow> bool" where
  "reads (Reading k) = True"
| "reads (HasRead k r) = True"
| "reads c = False"

fun writes :: "lf_call \<Rightarrow> bool" where
  "writes (Announced k) = True"
| "writes (Writing k) = True"
| "writes (HasWritten k l) = True"
| "writes c = False"

fun owns_write :: "lf_call \<Rightarrow> bool" where
  "owns_write (Writing k) = True"
| "owns_write (HasWritten k l) = True"
| "owns_write c = False"

record lf_state =
  ls_factory :: defaultLockFactory
  ls_calls :: "nat \<Rightarrow> lf_call"

definition no_reader :: "lf_state \<Rightarrow> bool" where
  "no_reader s \<longleftrightarrow> (\<forall>j. \<not> reads (ls_calls s j))"

definition no_writer :: "lf_state \<Rightarrow> bool" where
  "no_writer s \<longleftrightarrow> (\<forall>j. \<not> writes (ls_calls s j))"

abbreviation goes :: "lf_state \<Rightarrow> nat \<Rightarrow> lf_call \<Rightarrow> lf_state" where
  "goes s i c \<equiv> s\<lparr>ls_calls := (ls_calls s)(i := c)\<rparr>"

text \<open>The steps of a call that has begun.\<close>

inductive lf_step :: "lf_state \<Rightarrow> lf_state \<Rightarrow> bool" where
  lf_RLock: "ls_calls s i = Called k \<Longrightarrow> no_writer s \<Longrightarrow> lf_step s (goes s i (Reading k))"
| lf_read: "ls_calls s i = Reading k \<Longrightarrow>
     lf_step s (goes s i (HasRead k (getExistingLock (ls_factory s) k)))"
| lf_RUnlock_found: "ls_calls s i = HasRead k (Some l) \<Longrightarrow> lf_step s (goes s i (Returned k l))"
| lf_RUnlock_missed: "ls_calls s i = HasRead k None \<Longrightarrow> lf_step s (goes s i (Missed k))"
| lf_announce: "ls_calls s i = Missed k \<Longrightarrow> no_writer s \<Longrightarrow> lf_step s (goes s i (Announced k))"
| lf_Lock: "ls_calls s i = Announced k \<Longrightarrow> no_reader s \<Longrightarrow> lf_step s (goes s i (Writing k))"
| lf_write: "ls_calls s i = Writing k \<Longrightarrow> lookup_or_create (ls_factory s) k = (l, f) \<Longrightarrow>
     lf_step s (goes (s\<lparr>ls_factory := f\<rparr>) i (HasWritten k l))"
| lf_Unlock: "ls_calls s i = HasWritten k l \<Longrightarrow> lf_step s (goes s i (Returned k l))"

text \<open>A goroutine may call at any time when it is not in a call, also after an earlier call has returned.\<close>

fun in_call :: "lf_call \<Rightarrow> bool" where
  "in_call Outside = False"
| "in_call (Returned k l) = False"
| "in_call c = True"

inductive lf_begin :: "lf_state \<Rightarrow> lf_state \<Rightarrow> bool" where
  lf_call: "\<not> in_call (ls_calls s i) \<Longrightarrow> lf_begin s (goes s i (Called k))"

definition lf_initial :: lf_state where
  "lf_initial = \<lparr>ls_factory = NewDefaultLockFactory, ls_calls = \<lambda>_. Outside\<rparr>"

inductive lf_run :: "lf_state \<Rightarrow> lf_state \<Rightarrow> bool" where
  lf_here: "lf_run s s"
| lf_more: "lf_run s t \<Longrightarrow> lf_step t u \<or> lf_begin t u \<Longrightarrow> lf_run s u"

inductive_cases lf_beginE: "lf_begin s t"

section \<open>Invariant\<close>

text \<open>The table gives each key a mutex of its own, and what a goroutine has read stays true.\<close>

definition factory_wf :: "defaultLockFactory \<Rightarrow> bool" where
  "factory_wf f \<longleftrightarrow> inj_on (lf_locks f) (dom (lf_locks f)) \<and> (\<forall>l \<in> ran (lf_locks f). l < lf_allocated f)"

fun call_ok :: "defaultLockFactory \<Rightarrow> lf_call \<Rightarrow> bool" where
  "call_ok f (HasRead k (Some l)) = (lf_locks f k = Some l)"
| "call_ok f (HasWritten k l) = (lf_locks f k = Some l)"
| "call_ok f (Returned k l) = (lf_locks f k = Some l)"
| "call_ok f c = True"

definition lf_inv :: "lf_state \<Rightarrow> bool" where
  "lf_inv s \<longleftrightarrow> factory_wf (ls_factory s) \<and> (\<forall>i. call_ok (ls_factory s) (ls_calls s i))
     \<and> (\<forall>i j. writes (ls_calls s i) \<and> writes (ls_calls s j) \<longrightarrow> i = j)
     \<and> (\<forall>i j. owns_write (ls_calls s i) \<longrightarrow> \<not> reads (ls_calls s j))"

lemma lookup_or_create_wf:
  assumes "factory_wf f" "lookup_or_create f k = (l, f')"
  shows "factory_wf f' \<and> lf_locks f' k = Some l \<and> lf_locks f \<subseteq>\<^sub>m lf_locks f'"
proof (cases "lf_locks f k")
  case (Some m)
  then show ?thesis using assms by (auto simp: lookup_or_create_def)
next
  case None
  then have f': "f' = f\<lparr>lf_locks := (lf_locks f)(k \<mapsto> lf_allocated f), lf_allocated := Suc (lf_allocated f)\<rparr>"
    and l: "l = lf_allocated f" using assms(2) by (auto simp: lookup_or_create_def)
  have fresh: "lf_locks f x \<noteq> Some (lf_allocated f)" for x using assms(1) by (auto simp: factory_wf_def ran_def)
  then have "inj_on (lf_locks f') (dom (lf_locks f'))"
    using assms(1) None by (auto simp: f' factory_wf_def inj_on_def dom_def)
  moreover have "\<forall>m \<in> ran (lf_locks f'). m < lf_allocated f'"
    using assms(1) None by (auto simp: f' factory_wf_def)
  moreover have "lf_locks f \<subseteq>\<^sub>m lf_locks f'" using None by (simp add: f' map_le_def dom_def)
  ultimately show ?thesis by (simp add: factory_wf_def f' l)
qed

text \<open>The call without rivals agrees with the invariant of the table.\<close>

lemma GetLock_eq: "GetLock f k = lookup_or_create f k"
  by (simp add: GetLock_def getExistingLock_def lookup_or_create_def split: option.splits)

lemma GetLock_again:
  "factory_wf f \<Longrightarrow> GetLock f k = (l, f') \<Longrightarrow> GetLock f' k = (l, f')"
  unfolding GetLock_eq using lookup_or_create_wf [of f k l f'] by (simp add: lookup_or_create_def [of f'])

lemma call_ok_mono: "call_ok f c \<Longrightarrow> lf_locks f \<subseteq>\<^sub>m lf_locks f' \<Longrightarrow> call_ok f' c"
  by (induction f c rule: call_ok.induct) (auto simp: map_le_def dom_def)

lemma lf_inv_goes:
  assumes "lf_inv s" "call_ok (ls_factory s) c"
    and "writes c \<longrightarrow> no_writer s \<or> writes (ls_calls s i)"
    and "owns_write c \<longrightarrow> no_reader s \<or> owns_write (ls_calls s i)"
    and "reads c \<longrightarrow> no_writer s \<or> reads (ls_calls s i)"
  shows "lf_inv (goes s i c)"
proof -
  have ow: "owns_write x \<Longrightarrow> writes x" "writes x \<Longrightarrow> \<not> reads x" for x by (cases x; simp)+
  have inv: "factory_wf (ls_factory s)" "call_ok (ls_factory s) (ls_calls s j)"
    "writes (ls_calls s j) \<Longrightarrow> writes (ls_calls s k) \<Longrightarrow> j = k" "owns_write (ls_calls s j) \<Longrightarrow> \<not> reads (ls_calls s k)" for j k
    using assms(1) unfolding lf_inv_def by blast+
  have w: "writes c \<Longrightarrow> writes (ls_calls s j) \<Longrightarrow> j = i" for j using assms(3) inv(3) unfolding no_writer_def by blast
  have o: "owns_write c \<Longrightarrow> \<not> reads (ls_calls s j)" for j using assms(4) inv(4) unfolding no_reader_def by blast
  have r: "reads c \<Longrightarrow> \<not> owns_write (ls_calls s j)" for j
    using assms(5) inv(4) ow(1) unfolding no_writer_def by blast
  show ?thesis unfolding lf_inv_def
  proof (intro conjI allI impI)
    fix j k assume "writes (ls_calls (goes s i c) j) \<and> writes (ls_calls (goes s i c) k)"
    then show "j = k" using w inv(3) by (simp split: if_splits)
  next
    fix j k assume "owns_write (ls_calls (goes s i c) j)"
    then show "\<not> reads (ls_calls (goes s i c) k)" using o r ow inv(4) by (auto split: if_splits)
  qed (use inv(1,2) assms(2) in simp_all)
qed

lemma lf_step_inv:
  assumes "lf_step s t" "lf_inv s"
  shows "lf_inv t \<and> lf_locks (ls_factory s) \<subseteq>\<^sub>m lf_locks (ls_factory t)"
  using assms
proof (induction rule: lf_step.induct)
  case (lf_read s i k)
  have "call_ok (ls_factory s) (HasRead k (getExistingLock (ls_factory s) k))"
    by (cases "lf_locks (ls_factory s) k") (simp_all add: getExistingLock_def)
  with lf_read show ?case by (intro conjI lf_inv_goes) simp_all
next
  case (lf_write s i k l f)
  note w = lookup_or_create_wf [OF _ lf_write.hyps(2)]
  have f: "factory_wf (ls_factory s)" using lf_write.prems by (simp add: lf_inv_def)
  have "lf_inv (s\<lparr>ls_factory := f\<rparr>)"
    using lf_write.prems w [OF f] call_ok_mono unfolding lf_inv_def by auto
  then show ?case using w [OF f] lf_write.hyps(1) by (intro conjI lf_inv_goes) simp_all
next
  case (lf_RUnlock_found s i k l)
  have "call_ok (ls_factory s) (HasRead k (Some l))"
    using lf_RUnlock_found unfolding lf_inv_def by metis
  with lf_RUnlock_found show ?case by (intro conjI lf_inv_goes) simp_all
next
  case (lf_Unlock s i k l)
  have "call_ok (ls_factory s) (HasWritten k l)" using lf_Unlock unfolding lf_inv_def by metis
  with lf_Unlock show ?case by (intro conjI lf_inv_goes) simp_all
qed (intro conjI lf_inv_goes; simp)+

lemma lf_begin_inv:
  assumes "lf_begin s t" "lf_inv s"
  shows "lf_inv t \<and> lf_locks (ls_factory s) \<subseteq>\<^sub>m lf_locks (ls_factory t)"
  using assms(1) by (cases rule: lf_begin.cases) (use assms(2) in \<open>simp add: lf_inv_goes\<close>)

lemma lf_run_inv:
  assumes "lf_run s t" "lf_inv s"
  shows "lf_inv t \<and> lf_locks (ls_factory s) \<subseteq>\<^sub>m lf_locks (ls_factory t)"
  using assms
proof (induction rule: lf_run.induct)
  case (lf_more s t u)
  then show ?case using lf_step_inv [of t u] lf_begin_inv [of t u] by (blast intro: map_le_trans)
qed simp

lemma lf_inv_initial: "lf_inv lf_initial"
  by (simp add: lf_inv_def lf_initial_def NewDefaultLockFactory_def factory_wf_def)

lemma lf_inv_reachable: "lf_run lf_initial s \<Longrightarrow> lf_inv s"
  using lf_run_inv lf_inv_initial by blast

section \<open>Progress\<close>

text \<open>How many more steps a call takes at most.\<close>

fun rank :: "lf_call \<Rightarrow> nat" where
  "rank (Called k) = 7"
| "rank (Reading k) = 6"
| "rank (HasRead k r) = 5"
| "rank (Missed k) = 4"
| "rank (Announced k) = 3"
| "rank (Writing k) = 2"
| "rank (HasWritten k l) = 1"
| "rank c = 0"

abbreviation callers :: "lf_state \<Rightarrow> nat set" where
  "callers s \<equiv> {i. in_call (ls_calls s i)}"

lemma rank_le: "rank c \<le> 7"
  by (cases c) simp_all

lemma lf_step_rank:
  assumes "lf_step s t"
  shows "\<exists>i. in_call (ls_calls s i) \<and> rank (ls_calls t i) < rank (ls_calls s i) \<and> (\<forall>j. j \<noteq> i \<longrightarrow> ls_calls t j = ls_calls s j)"
  using assms by (induction rule: lf_step.induct) (rule exI [where x = i for i], force)+

lemma callers_step: "lf_step s t \<Longrightarrow> callers t \<subseteq> callers s"
  using lf_step_rank [of s t] by auto metis

lemma callers_finite: "lf_run s t \<Longrightarrow> finite (callers s) \<Longrightarrow> finite (callers t)"
proof (induction rule: lf_run.induct)
  case (lf_more s t u)
  have "callers u \<subseteq> insert i (callers t)" if "u = goes t i c" for i c using that by auto
  then have "finite (callers u)" if "lf_begin t u" using lf_beginE [OF that] lf_more by (metis finite.insertI finite_subset)
  then show ?case using lf_more callers_step [of t u] finite_subset by blast
qed

lemma lf_steps_bounded:
  assumes "(lf_step ^^ n) s t" "finite A" "callers s \<subseteq> A"
  shows "n + (\<Sum>i\<in>A. rank (ls_calls t i)) \<le> (\<Sum>i\<in>A. rank (ls_calls s i))"
  using assms(1,3)
proof (induction n arbitrary: t)
  case (Suc n)
  then obtain u where u: "(lf_step ^^ n) s u" "lf_step u t" by auto
  obtain i where i: "in_call (ls_calls u i)" "rank (ls_calls t i) < rank (ls_calls u i)"
    "\<And>j. j \<noteq> i \<Longrightarrow> ls_calls t j = ls_calls u j" using lf_step_rank [OF u(2)] by blast
  have "callers u \<subseteq> callers s" using u(1)
  proof (induction n arbitrary: u)
    case (Suc m)
    then show ?case using callers_step by (metis relpowp_Suc_E subset_trans)
  qed simp
  then have "i \<in> A" using i(1) Suc.prems by auto
  have "(\<Sum>j\<in>A. rank (ls_calls t j)) < (\<Sum>j\<in>A. rank (ls_calls u j))"
    by (rule sum_strict_mono_ex1) (use assms(2) i \<open>i \<in> A\<close> in \<open>force simp: le_less\<close>)+
  then show ?case using Suc.IH [OF u(1) Suc.prems(2)] by simp
qed simp

text \<open>Whoever is in a call, somebody who is in a call can go on: a reader or the owner of the write lock always, the announced
  writer when there are no readers, and the others when there is no writer.\<close>

lemma lf_step_possible:
  assumes "in_call (ls_calls s i)"
  shows "\<exists>t. lf_step s t"
proof -
  have r: "\<exists>t. lf_step s t" if "reads (ls_calls s j)" for j
  proof (cases "ls_calls s j")
    case (HasRead k r)
    then show ?thesis by (cases r) (blast intro: lf_step.intros)+
  qed (use that in \<open>auto intro: lf_step.intros\<close>)
  have w: "\<exists>t. lf_step s t" if "writes (ls_calls s j)" for j
  proof (cases "ls_calls s j")
    case (Writing k)
    then show ?thesis by (metis lf_step.lf_write surj_pair)
  next
    case (Announced k)
    then show ?thesis using r lf_step.lf_Lock by (cases "no_reader s") (auto simp: no_reader_def)
  qed (use that in \<open>auto intro: lf_step.intros\<close>)
  show ?thesis
  proof (cases "no_writer s")
    case True
    then show ?thesis using assms r [of i] w [of i] by (cases "ls_calls s i") (auto intro: lf_step.intros)
  qed (use w in \<open>auto simp: no_writer_def\<close>)
qed

lemma lf_step_calls: "lf_step s t \<Longrightarrow> \<exists>i. in_call (ls_calls s i)"
  using lf_step_rank by blast

section \<open>Calls without rivals\<close>

text \<open>If nobody else is inside, the steps of a call amount to the operation \<open>GetLock\<close>.\<close>

lemma lf_run_trans: "lf_run t u \<Longrightarrow> lf_run s t \<Longrightarrow> lf_run s u"
  by (induction rule: lf_run.induct) (auto intro: lf_run.intros)

lemma lf_run_step: "lf_step t u \<Longrightarrow> lf_run s t \<Longrightarrow> lf_run s u"
  by (rule lf_more [OF _ disjI1])

lemma solo_missed:
  assumes "ls_calls s i = Missed k" "no_reader s" "no_writer s" "lookup_or_create (ls_factory s) k = (l, f)"
  shows "lf_run s (goes (s\<lparr>ls_factory := f\<rparr>) i (Returned k l))"
proof -
  let ?a = "goes s i (Announced k)" and ?w = "goes s i (Writing k)" and ?h = "goes (s\<lparr>ls_factory := f\<rparr>) i (HasWritten k l)"
  have "lf_step s ?a" using assms by (intro lf_step.intros)
  note 1 = lf_run_step [OF this lf_here]
  have "lf_step ?a ?w" using lf_step.lf_Lock [of ?a i k] assms(2) by (simp add: no_reader_def)
  note 2 = lf_run_step [OF this 1]
  have "lf_step ?w ?h" using lf_step.lf_write [of ?w i k l f] assms(4) by simp
  note 3 = lf_run_step [OF this 2]
  have "lf_step ?h (goes (s\<lparr>ls_factory := f\<rparr>) i (Returned k l))" using lf_step.lf_Unlock [of ?h i k l] by simp
  then show ?thesis by (rule lf_run_step [OF _ 3])
qed

lemma lf_run_reads:
  assumes "ls_calls s i = Called k" "no_writer s"
  shows "lf_run s (goes s i (case getExistingLock (ls_factory s) k of Some l \<Rightarrow> Returned k l | None \<Rightarrow> Missed k))"
proof -
  let ?r = "goes s i (Reading k)" and ?h = "goes s i (HasRead k (getExistingLock (ls_factory s) k))"
  have "lf_step s ?r" using assms by (intro lf_step.intros)
  note 1 = lf_run_step [OF this lf_here]
  have "lf_step ?r ?h" using lf_step.lf_read [of ?r i k] by simp
  note 2 = lf_run_step [OF this 1]
  have "lf_step ?h (goes s i (case getExistingLock (ls_factory s) k of Some l \<Rightarrow> Returned k l | None \<Rightarrow> Missed k))"
    using lf_step.lf_RUnlock_found [of ?h i k] lf_step.lf_RUnlock_missed [of ?h i k] by (simp split: option.split)
  then show ?thesis by (rule lf_run_step [OF _ 2])
qed

lemma solo_call:
  assumes "ls_calls s i = Called k" "no_reader s" "no_writer s" "GetLock (ls_factory s) k = (l, f)"
  shows "lf_run s (goes (s\<lparr>ls_factory := f\<rparr>) i (Returned k l))"
proof (cases "getExistingLock (ls_factory s) k")
  case None
  let ?m = "goes s i (Missed k)"
  have "lf_run s ?m" using lf_run_reads [OF assms(1,3)] None by simp
  moreover have "lf_run ?m (goes (s\<lparr>ls_factory := f\<rparr>) i (Returned k l))"
    using solo_missed [of ?m i k l f] assms(2-) by (simp add: no_reader_def no_writer_def GetLock_eq)
  ultimately show ?thesis by (rule lf_run_trans [rotated])
next
  case (Some m)
  then have "f = ls_factory s" "l = m" using assms(4) by (simp_all add: GetLock_def)
  then show ?thesis using lf_run_reads [OF assms(1,3)] Some by simp
qed

section \<open>The mutexes of the workers\<close>

text \<open>
  The workers of the quota admission do not take names but the mutexes which the factory gives them for the names of their
  quotas: a worker asks for the mutex of its next quota, and locks it when no worker holds it. This is a refinement of the
  locks by name of \<open>AccountAdmission\<close>: mutexes and names correspond one to one.
\<close>

record mutex_worker =
  mw_held :: "nat list"
  mw_todo :: "string list"

record mutex_state =
  ms_factory :: defaultLockFactory
  ms_workers :: "nat \<Rightarrow> mutex_worker"

definition mutex_idle :: mutex_worker where
  "mutex_idle = \<lparr>mw_held = [], mw_todo = []\<rparr>"

inductive mutex_step :: "mutex_state \<Rightarrow> mutex_state \<Rightarrow> bool" where
  mutex_begin: "ms_workers c i = mutex_idle \<Longrightarrow> distinct (map (\<lambda>q. om_name (rq_meta q)) quotas) \<Longrightarrow>
     mutex_step c (c\<lparr>ms_workers := (ms_workers c)(i := \<lparr>mw_held = [], mw_todo = lock_names quotas\<rparr>)\<rparr>)"
| mutex_GetLock: "mw_todo (ms_workers c i) = l # ls \<Longrightarrow> GetLock (ms_factory c) l = (m, f) \<Longrightarrow>
     mutex_step c (c\<lparr>ms_factory := f\<rparr>)"
| mutex_Lock: "mw_todo (ms_workers c i) = l # ls \<Longrightarrow> getExistingLock (ms_factory c) l = Some m \<Longrightarrow>
     (\<forall>j. m \<notin> set (mw_held (ms_workers c j))) \<Longrightarrow>
     mutex_step c (c\<lparr>ms_workers := (ms_workers c)(i := \<lparr>mw_held = mw_held (ms_workers c i) @ [m], mw_todo = ls\<rparr>)\<rparr>)"
| mutex_Unlock: "mw_todo (ms_workers c i) = [] \<Longrightarrow> mw_held (ms_workers c i) \<noteq> [] \<Longrightarrow>
     mutex_step c (c\<lparr>ms_workers := (ms_workers c)(i := \<lparr>mw_held = butlast (mw_held (ms_workers c i)), mw_todo = []\<rparr>)\<rparr>)"

definition mutex_initial :: mutex_state where
  "mutex_initial = \<lparr>ms_factory = NewDefaultLockFactory, ms_workers = \<lambda>_. mutex_idle\<rparr>"

abbreviation mutex_reachable :: "mutex_state \<Rightarrow> bool" where
  "mutex_reachable \<equiv> mutex_step\<^sup>*\<^sup>* mutex_initial"

text \<open>The mutexes a worker holds are those of the names it holds in the abstract system.\<close>

definition mutexes_of :: "mutex_state \<Rightarrow> lock_state \<Rightarrow> bool" where
  "mutexes_of c s \<longleftrightarrow> factory_wf (ms_factory c)
     \<and> (\<forall>i. wk_todo (s i) = mw_todo (ms_workers c i)
          \<and> map (lf_locks (ms_factory c)) (wk_held (s i)) = map Some (mw_held (ms_workers c i)))"

lemma held_iff:
  assumes "mutexes_of c s" "lf_locks (ms_factory c) l = Some m"
  shows "m \<in> set (mw_held (ms_workers c i)) \<longleftrightarrow> l \<in> set (wk_held (s i))"
proof -
  have e: "Some ` set (mw_held (ms_workers c i)) = lf_locks (ms_factory c) ` set (wk_held (s i))"
    using assms(1) unfolding mutexes_of_def by (metis list.set_map)
  have inj: "lf_locks (ms_factory c) x = Some m \<longleftrightarrow> x = l" for x
    using assms unfolding mutexes_of_def factory_wf_def by (metis domI inj_onD)
  have "m \<in> set (mw_held (ms_workers c i)) \<longleftrightarrow> Some m \<in> Some ` set (mw_held (ms_workers c i))" by auto
  also have "\<dots> \<longleftrightarrow> l \<in> set (wk_held (s i))" unfolding e by (simp add: image_iff eq_commute [of "Some m"] inj)
  finally show ?thesis .
qed

lemma free_iff:
  "mutexes_of c s \<Longrightarrow> lf_locks (ms_factory c) l = Some m \<Longrightarrow> free_lock s l \<longleftrightarrow> (\<forall>j. m \<notin> set (mw_held (ms_workers c j)))"
  by (simp add: free_lock_def held_iff)

lemma mutexes_of_update:
  assumes "mutexes_of c s" "map (lf_locks (ms_factory c)) h = map Some ms"
  shows "mutexes_of (c\<lparr>ms_workers := (ms_workers c)(i := \<lparr>mw_held = ms, mw_todo = t\<rparr>)\<rparr>) (s(i := \<lparr>wk_held = h, wk_todo = t\<rparr>))"
  using assms by (simp add: mutexes_of_def)

lemma mutexes_of_GetLock:
  assumes "mutexes_of c s" "GetLock (ms_factory c) l = (m, f)"
  shows "mutexes_of (c\<lparr>ms_factory := f\<rparr>) s \<and> lf_locks f l = Some m"
proof -
  note f = lookup_or_create_wf [OF _ assms(2) [unfolded GetLock_eq]]
  have wf: "factory_wf (ms_factory c)" using assms(1) by (simp add: mutexes_of_def)
  have "map (lf_locks f) xs = map Some ms" if "map (lf_locks (ms_factory c)) xs = map Some ms" for xs ms
    using that
  proof (induction xs arbitrary: ms)
    case (Cons x xs)
    then obtain y ys where "ms = y # ys" "lf_locks (ms_factory c) x = Some y" by (cases ms) auto
    then show ?case using Cons f [OF wf] by (simp add: map_le_def dom_def)
  qed simp
  then show ?thesis using assms(1) f [OF wf] by (simp add: mutexes_of_def)
qed

lemma mutex_step_refines:
  assumes "mutex_step c c'" "mutexes_of c s"
  shows "\<exists>s'. lock_step\<^sup>=\<^sup>= s s' \<and> mutexes_of c' s'"
  using assms
proof (induction rule: mutex_step.induct)
  case (mutex_begin c i quotas)
  have "wk_todo (s i) = []" "map (lf_locks (ms_factory c)) (wk_held (s i)) = []"
    using mutex_begin.hyps(1) mutex_begin.prems by (simp_all add: mutexes_of_def mutex_idle_def)
  then have "s i = idle" by (cases "s i") (simp add: idle_def)
  from lock_begin [of s i quotas, OF this mutex_begin.hyps(2)] mutexes_of_update [OF mutex_begin.prems, of "[]" "[]"]
  show ?case by auto
next
  case (mutex_GetLock c i l ls m f)
  then show ?case using mutexes_of_GetLock by blast
next
  case (mutex_Lock c i l ls m)
  have l: "lf_locks (ms_factory c) l = Some m" using mutex_Lock.hyps(2) by (simp add: getExistingLock_def)
  have "wk_todo (s i) = l # ls" "free_lock s l"
    using mutex_Lock.hyps mutex_Lock.prems free_iff [OF mutex_Lock.prems l] by (simp_all add: mutexes_of_def)
  from lock_take [of s i l ls, OF this] mutexes_of_update [OF mutex_Lock.prems, of "wk_held (s i) @ [l]" "mw_held (ms_workers c i) @ [m]"]
  show ?case using mutex_Lock.prems l by (auto simp: mutexes_of_def)
next
  case (mutex_Unlock c i)
  have h: "map (lf_locks (ms_factory c)) (wk_held (s i)) = map Some (mw_held (ms_workers c i))" "wk_todo (s i) = []"
    using mutex_Unlock by (simp_all add: mutexes_of_def)
  then have "wk_held (s i) \<noteq> []" using mutex_Unlock.hyps(2) by auto
  from lock_release [of s i, OF h(2) this] mutexes_of_update [OF mutex_Unlock.prems, of "butlast (wk_held (s i))" "butlast (mw_held (ms_workers c i))"]
  show ?case using h(1) by (auto simp: map_butlast)
qed

lemma mutex_reachable_refines:
  "mutex_reachable c \<Longrightarrow> \<exists>s. lock_reachable s \<and> mutexes_of c s"
proof (induction rule: rtranclp_induct)
  case base
  have "mutexes_of mutex_initial (\<lambda>_. idle)"
    by (simp add: mutexes_of_def mutex_initial_def mutex_idle_def idle_def NewDefaultLockFactory_def factory_wf_def)
  then show ?case using lock_start by blast
next
  case (step c c')
  then obtain s s' where "lock_reachable s" "lock_step\<^sup>=\<^sup>= s s'" "mutexes_of c' s'" using mutex_step_refines by blast
  then show ?case by (cases "s' = s") (auto intro: lock_reachable.lock_more)
qed

text \<open>What a worker still has to do: to take and to give back each mutex of a name to come, and to give back each mutex it holds.\<close>

definition work_left :: "mutex_worker \<Rightarrow> nat" where
  "work_left w = 2 * length (mw_todo w) + length (mw_held w)"

lemma mutexes_exclusive:
  assumes "lock_reachable s" "mutexes_of c s" "j \<noteq> k"
  shows "set (mw_held (ms_workers c j)) \<inter> set (mw_held (ms_workers c k)) = {}"
proof (rule ccontr)
  assume "\<not> ?thesis"
  then obtain m where m: "m \<in> set (mw_held (ms_workers c j))" "m \<in> set (mw_held (ms_workers c k))" by blast
  have "Some m \<in> lf_locks (ms_factory c) ` set (wk_held (s j))"
    using assms(2) m(1) unfolding mutexes_of_def by (metis image_eqI list.set_map)
  then obtain l where l: "l \<in> set (wk_held (s j))" "lf_locks (ms_factory c) l = Some m" by auto
  have "l \<in> set (wk_held (s k))" using held_iff [OF assms(2) l(2)] m(2) by blast
  then show False using lock_inv_reachable [OF assms(1)] l(1) assms(3) unfolding lock_inv_def by blast
qed

lemma worker_goes_on:
  assumes "mutexes_of c s" "(\<exists>l ls. wk_todo (s j) = l # ls \<and> free_lock s l) \<or> (wk_todo (s j) = [] \<and> wk_held (s j) \<noteq> [])"
  shows "\<exists>c'. mutex_step\<^sup>*\<^sup>* c c' \<and> ms_workers c' = (ms_workers c)(j := ms_workers c' j)
    \<and> work_left (ms_workers c' j) < work_left (ms_workers c j)"
  using assms(2)
proof (elim disjE exE conjE)
  fix l ls assume l: "wk_todo (s j) = l # ls" "free_lock s l"
  obtain m f where g: "GetLock (ms_factory c) l = (m, f)" by fastforce
  define d where "d = c\<lparr>ms_factory := f\<rparr>"
  have todo: "mw_todo (ms_workers c j) = l # ls" using assms(1) l(1) by (simp add: mutexes_of_def)
  have d: "mutexes_of d s" "lf_locks (ms_factory d) l = Some m" "ms_workers d = ms_workers c"
    using mutexes_of_GetLock [OF assms(1) g] by (simp_all add: d_def)
  have 1: "mutex_step c d" unfolding d_def by (rule mutex_GetLock [OF todo g])
  have "\<forall>k. m \<notin> set (mw_held (ms_workers d k))" using free_iff [OF d(1,2)] l(2) by blast
  with mutex_Lock [of d j l ls m] todo d have
    2: "mutex_step d (d\<lparr>ms_workers := (ms_workers d)(j := \<lparr>mw_held = mw_held (ms_workers d j) @ [m], mw_todo = ls\<rparr>)\<rparr>)"
    by (simp add: getExistingLock_def)
  show ?thesis
    by (rule exI [where x = "d\<lparr>ms_workers := (ms_workers d)(j := \<lparr>mw_held = mw_held (ms_workers d j) @ [m], mw_todo = ls\<rparr>)\<rparr>"])
      (use rtranclp.rtrancl_into_rtrancl [OF r_into_rtranclp [of mutex_step, OF 1] 2] todo d(3) in \<open>simp add: work_left_def\<close>)
next
  assume r: "wk_todo (s j) = []" "wk_held (s j) \<noteq> []"
  have h: "map (lf_locks (ms_factory c)) (wk_held (s j)) = map Some (mw_held (ms_workers c j))" "mw_todo (ms_workers c j) = []"
    using assms(1) r(1) by (simp_all add: mutexes_of_def)
  then have n: "mw_held (ms_workers c j) \<noteq> []" using r(2) by auto
  show ?thesis
    by (rule exI [where x = "c\<lparr>ms_workers := (ms_workers c)(j := \<lparr>mw_held = butlast (mw_held (ms_workers c j)), mw_todo = []\<rparr>)\<rparr>"])
      (use r_into_rtranclp [of mutex_step, OF mutex_Unlock [OF h(2) n]] h(2) n in \<open>simp add: work_left_def\<close>)
qed

lemma busy_worker:
  assumes "mutexes_of c s" "ms_workers c i \<noteq> mutex_idle"
  shows "s i \<noteq> idle"
proof
  assume "s i = idle"
  then have "mw_todo (ms_workers c i) = []" "map Some (mw_held (ms_workers c i)) = []"
    using assms(1) unfolding mutexes_of_def by (metis idle_simps list.simps(8))+
  then show False using assms(2) by (simp add: mutex_idle_def)
qed

section \<open>Properties\<close>

text \<open>C39. However the calls of \<open>GetLock\<close> interleave, two calls that return at any time get the same mutex exactly if they
  ask for the same key.\<close>

theorem GetLock_agrees:
  assumes "lf_run lf_initial s" "lf_run s t" "ls_calls s i = Returned k l" "ls_calls t j = Returned k' l'"
  shows "l = l' \<longleftrightarrow> k = k'"
proof -
  have s: "lf_inv s" by (rule lf_inv_reachable [OF assms(1)])
  then have t: "lf_inv t" "lf_locks (ls_factory s) \<subseteq>\<^sub>m lf_locks (ls_factory t)" using lf_run_inv [OF assms(2)] by auto
  have "lf_locks (ls_factory s) k = Some l" using s assms(3) unfolding lf_inv_def by (metis call_ok.simps(3))
  then have k: "lf_locks (ls_factory t) k = Some l" using t(2) by (metis domI map_le_def)
  have k': "lf_locks (ls_factory t) k' = Some l'" using t(1) assms(4) unfolding lf_inv_def by (metis call_ok.simps(3))
  have "inj_on (lf_locks (ls_factory t)) (dom (lf_locks (ls_factory t)))" using t(1) by (simp add: lf_inv_def factory_wf_def)
  then show ?thesis using k k' by (metis domI inj_onD option.inject)
qed

text \<open>C7. The workers of the quota admission exclude each other and never wait in a circle: no two workers ever hold the same mutex,
  and as long as one of them still has a mutex to take or to give back, some worker can go on to do so.\<close>

theorem mutexes_progress:
  assumes "mutex_reachable c" "ms_workers c i \<noteq> mutex_idle"
  shows "(\<forall>j k. j \<noteq> k \<longrightarrow> set (mw_held (ms_workers c j)) \<inter> set (mw_held (ms_workers c k)) = {})
    \<and> (\<exists>j c'. mutex_step\<^sup>*\<^sup>* c c' \<and> ms_workers c' = (ms_workers c)(j := ms_workers c' j)
         \<and> work_left (ms_workers c' j) < work_left (ms_workers c j))"
proof -
  obtain s where s: "lock_reachable s" "mutexes_of c s" using mutex_reachable_refines [OF assms(1)] by blast
  have "s i \<noteq> idle" by (rule busy_worker [OF s(2) assms(2)])
  from lock_possible [OF s(1) this] show ?thesis using mutexes_exclusive [OF s] worker_goes_on [OF s(2)] by blast
qed

text \<open>Calls return: goroutines that are in calls take at most seven steps each, and as long as one of them has not returned, one
  of them can take a step.\<close>

lemma GetLock_returns:
  assumes "lf_run lf_initial s" "(lf_step ^^ n) s t"
  shows "n \<le> 7 * card (callers s) \<and> ((\<exists>u. lf_step t u) \<longleftrightarrow> callers t \<noteq> {})"
proof -
  have "finite (callers s)" by (rule callers_finite [OF assms(1)]) (simp add: lf_initial_def)
  then have "n \<le> (\<Sum>i\<in>callers s. rank (ls_calls s i))" using lf_steps_bounded [OF assms(2)] by fastforce
  also have "\<dots> \<le> of_nat (card (callers s)) * 7" by (rule sum_bounded_above) (rule rank_le)
  finally show ?thesis using lf_step_possible lf_step_calls by auto
qed

text \<open>Two goroutines that ask for the same key at the same time, and both find no mutex in the first lookup.\<close>

definition ex_race :: "defaultLockFactory \<Rightarrow> lf_call \<Rightarrow> lf_call \<Rightarrow> lf_state" where
  "ex_race f c d = \<lparr>ls_factory = f, ls_calls = (\<lambda>_. Outside)(0 := c, Suc 0 := d)\<rparr>"

lemma ex_race_simps [simp]:
  "ls_factory (ex_race f c d) = f" "ls_calls (ex_race f c d) 0 = c" "ls_calls (ex_race f c d) (Suc 0) = d"
  "goes (ex_race f c d) 0 c' = ex_race f c' d" "goes (ex_race f c d) (Suc 0) d' = ex_race f c d'"
  "ex_race f c d\<lparr>ls_factory := g, ls_calls := (ls_calls (ex_race f c d))(0 := c')\<rparr> = ex_race g c' d"
  "ex_race f c d\<lparr>ls_factory := g, ls_calls := (ls_calls (ex_race f c d))(Suc 0 := d')\<rparr> = ex_race g c d'"
  "no_reader (ex_race f c d) \<longleftrightarrow> \<not> reads c \<and> \<not> reads d" "no_writer (ex_race f c d) \<longleftrightarrow> \<not> writes c \<and> \<not> writes d"
  by (auto simp: ex_race_def no_reader_def no_writer_def fun_upd_twist)

abbreviation ex_factory :: defaultLockFactory where
  "ex_factory \<equiv> \<lparr>lf_locks = [''q'' \<mapsto> 0], lf_allocated = 1\<rparr>"

lemma ex_race_run:
  "lf_run lf_initial (ex_race ex_factory (Returned ''q'' 0) (Missed ''q''))"
  "lf_run (ex_race ex_factory (Returned ''q'' 0) (Missed ''q'')) (ex_race ex_factory (Returned ''q'' 0) (Returned ''q'' 0))"
proof -
  let ?f = NewDefaultLockFactory
  have i: "lf_initial = ex_race ?f Outside Outside" by (auto simp: lf_initial_def ex_race_def)
  have "lf_begin (ex_race ?f Outside Outside) (ex_race ?f (Called ''q'') Outside)"
    using lf_begin.lf_call [of "ex_race ?f Outside Outside" 0] by simp
  moreover have "lf_begin (ex_race ?f (Called ''q'') Outside) (ex_race ?f (Called ''q'') (Called ''q''))"
    using lf_begin.lf_call [of "ex_race ?f (Called ''q'') Outside" "Suc 0"] by simp
  ultimately have "lf_run lf_initial (ex_race ?f (Called ''q'') (Called ''q''))"
    unfolding i by (blast intro: lf_run.intros)
  moreover have "lf_run (ex_race ?f (Called ''q'') (Called ''q'')) (ex_race ?f (Missed ''q'') (Called ''q''))"
    using lf_run_reads [of "ex_race ?f (Called ''q'') (Called ''q'')" 0] by (simp add: getExistingLock_def NewDefaultLockFactory_def)
  moreover have "lf_run (ex_race ?f (Missed ''q'') (Called ''q'')) (ex_race ?f (Missed ''q'') (Missed ''q''))"
    using lf_run_reads [of "ex_race ?f (Missed ''q'') (Called ''q'')" "Suc 0"] by (simp add: getExistingLock_def NewDefaultLockFactory_def)
  moreover have "lf_run (ex_race ?f (Missed ''q'') (Missed ''q'')) (ex_race ex_factory (Returned ''q'' 0) (Missed ''q''))"
    using solo_missed [of "ex_race ?f (Missed ''q'') (Missed ''q'')" 0 _ 0 ex_factory]
    by (simp add: lookup_or_create_def NewDefaultLockFactory_def)
  ultimately show "lf_run lf_initial (ex_race ex_factory (Returned ''q'' 0) (Missed ''q''))" by (blast intro: lf_run_trans)
  show "lf_run (ex_race ex_factory (Returned ''q'' 0) (Missed ''q'')) (ex_race ex_factory (Returned ''q'' 0) (Returned ''q'' 0))"
    using solo_missed [of "ex_race ex_factory (Returned ''q'' 0) (Missed ''q'')" "Suc 0" _ 0 ex_factory]
    by (simp add: lookup_or_create_def)
qed

theorem GetLock_agrees_witness: "(0 :: nat) = 0 \<longleftrightarrow> ''q'' = ''q''"
  by (rule GetLock_agrees [OF ex_race_run, where i = 0 and j = "Suc 0"]) simp_all

text \<open>Two workers on the same quotas, the first of which has taken its first mutex.\<close>

definition ex_mutex_state :: mutex_state where
  "ex_mutex_state = \<lparr>ms_factory = \<lparr>lf_locks = [''a'' \<mapsto> 0], lf_allocated = 1\<rparr>, ms_workers = (\<lambda>_. mutex_idle)
     (0 := \<lparr>mw_held = [0], mw_todo = [''b'']\<rparr>, 1 := \<lparr>mw_held = [], mw_todo = [''a'', ''b'']\<rparr>)\<rparr>"

lemma ex_mutex_reachable: "mutex_reachable ex_mutex_state"
proof -
  define s where "s f a b = \<lparr>ms_factory = f, ms_workers = (\<lambda>_. mutex_idle)(0 := a, 1 := b)\<rparr>" for f a b
  let ?t = "\<lparr>mw_held = [], mw_todo = [''a'', ''b'']\<rparr>" and ?f = "\<lparr>lf_locks = [''a'' \<mapsto> 0], lf_allocated = 1\<rparr>"
  have upd: "s f a b\<lparr>ms_workers := (ms_workers (s f a b))(0 := a')\<rparr> = s f a' b" "s f a b\<lparr>ms_workers := (ms_workers (s f a b))(1 := b')\<rparr> = s f a b'"
    "s f a b\<lparr>ms_factory := g\<rparr> = s g a b" for f g a b a' b'
    by (simp_all add: s_def fun_upd_twist)
  have sel: "ms_workers (s f a b) 0 = a" "ms_workers (s f a b) 1 = b" "ms_factory (s f a b) = f" for f a b by (simp_all add: s_def)
  have d: "distinct (map (\<lambda>q. om_name (rq_meta q)) ex_two_quotas)" by (simp add: ex_two_quotas_def ex_quota_def)
  have 0: "mutex_initial = s NewDefaultLockFactory mutex_idle mutex_idle" by (simp add: mutex_initial_def s_def fun_upd_idem)
  have 1: "mutex_step (s f mutex_idle b) (s f ?t b)" for f b
    using mutex_begin [of "s f mutex_idle b" 0, OF _ d] by (simp add: upd sel ex_lock_names)
  have 2: "mutex_step (s f a mutex_idle) (s f a ?t)" for f a
    using mutex_begin [of "s f a mutex_idle" 1, OF _ d] by (simp only: upd sel ex_lock_names)
  have 3: "mutex_step (s NewDefaultLockFactory ?t ?t) (s ?f ?t ?t)"
    using mutex_GetLock [of "s NewDefaultLockFactory ?t ?t" 0 "''a''" "[''b'']" 0 ?f]
    by (simp add: upd sel GetLock_def getExistingLock_def lookup_or_create_def NewDefaultLockFactory_def)
  have 4: "mutex_step (s ?f ?t ?t) (s ?f \<lparr>mw_held = [0], mw_todo = [''b'']\<rparr> ?t)"
    using mutex_Lock [of "s ?f ?t ?t" 0 "''a''" "[''b'']" 0]
    by (simp add: upd sel getExistingLock_def) (simp add: s_def mutex_idle_def)
  have "ex_mutex_state = s ?f \<lparr>mw_held = [0], mw_todo = [''b'']\<rparr> ?t" by (simp add: ex_mutex_state_def s_def)
  moreover have "mutex_step\<^sup>*\<^sup>* (s NewDefaultLockFactory mutex_idle mutex_idle) (s NewDefaultLockFactory ?t mutex_idle)"
    by (rule r_into_rtranclp) (rule 1)
  then have "mutex_step\<^sup>*\<^sup>* (s NewDefaultLockFactory mutex_idle mutex_idle) (s NewDefaultLockFactory ?t ?t)"
    by (rule rtranclp.rtrancl_into_rtrancl) (rule 2)
  then have "mutex_step\<^sup>*\<^sup>* (s NewDefaultLockFactory mutex_idle mutex_idle) (s ?f ?t ?t)"
    by (rule rtranclp.rtrancl_into_rtrancl) (rule 3)
  then have "mutex_step\<^sup>*\<^sup>* (s NewDefaultLockFactory mutex_idle mutex_idle) (s ?f \<lparr>mw_held = [0], mw_todo = [''b'']\<rparr> ?t)"
    by (rule rtranclp.rtrancl_into_rtrancl) (rule 4)
  ultimately show ?thesis unfolding 0 by simp
qed

theorem mutexes_progress_witness:
  "\<exists>j c'. mutex_step\<^sup>*\<^sup>* ex_mutex_state c' \<and> work_left (ms_workers c' j) < work_left (ms_workers ex_mutex_state j)"
proof -
  have "ms_workers ex_mutex_state 1 \<noteq> mutex_idle" by (simp add: ex_mutex_state_def mutex_idle_def)
  from mutexes_progress [OF ex_mutex_reachable this] show ?thesis by blast
qed

end
