(* ===== verification/RbacBuilders.thy ===== *)
theory RbacBuilders
  imports RbacResolve
begin

text \<open>
  The builders of role bindings (kube/pkg/apis/rbac/v1/helpers.go): a binding starts with a role and no subjects,
  and the methods \<open>Groups\<close>, \<open>Users\<close> and \<open>SAs\<close> append subjects. Related to the resolver,
  which decides whom the subjects of a binding mean.
\<close>

section \<open>The builders\<close>

text \<open>A builder is the binding it is building. The methods append one subject at a time.\<close>

definition rbac_GroupName :: string where
  "rbac_GroupName = ''rbac.authorization.k8s.io''"

definition NewClusterBinding :: "string \<Rightarrow> binding" where
  "NewClusterBinding clusterRoleName =
    \<lparr>bn_namespace = [], bn_name = clusterRoleName, bn_subjects = [],
     bn_roleRef = \<lparr>rr_apiGroup = rbac_GroupName, rr_kind = ''ClusterRole'', rr_name = clusterRoleName\<rparr>\<rparr>"

definition NewRoleBinding :: "string \<Rightarrow> string \<Rightarrow> binding" where
  "NewRoleBinding roleName namespace =
    \<lparr>bn_namespace = namespace, bn_name = roleName, bn_subjects = [],
     bn_roleRef = \<lparr>rr_apiGroup = rbac_GroupName, rr_kind = ''Role'', rr_name = roleName\<rparr>\<rparr>"

definition NewRoleBindingForClusterRole :: "string \<Rightarrow> string \<Rightarrow> binding" where
  "NewRoleBindingForClusterRole roleName namespace =
    \<lparr>bn_namespace = namespace, bn_name = roleName, bn_subjects = [],
     bn_roleRef = \<lparr>rr_apiGroup = rbac_GroupName, rr_kind = ''ClusterRole'', rr_name = roleName\<rparr>\<rparr>"

definition append_subject :: "subject \<Rightarrow> binding \<Rightarrow> binding" where
  "append_subject s b = b\<lparr>bn_subjects := bn_subjects b @ [s]\<rparr>"

definition crb_Groups :: "string list \<Rightarrow> binding \<Rightarrow> binding" where
  "crb_Groups groups r = fold (\<lambda>group. append_subject
     \<lparr>sj_kind = GroupKind, sj_apiGroup = rbac_GroupName, sj_name = group, sj_namespace = []\<rparr>) groups r"

definition crb_Users :: "string list \<Rightarrow> binding \<Rightarrow> binding" where
  "crb_Users users r = fold (\<lambda>user. append_subject
     \<lparr>sj_kind = UserKind, sj_apiGroup = rbac_GroupName, sj_name = user, sj_namespace = []\<rparr>) users r"

definition crb_SAs :: "string \<Rightarrow> string list \<Rightarrow> binding \<Rightarrow> binding" where
  "crb_SAs namespace serviceAccountNames r = fold (\<lambda>saName. append_subject
     \<lparr>sj_kind = ServiceAccountKind, sj_apiGroup = [], sj_name = saName, sj_namespace = namespace\<rparr>) serviceAccountNames r"

definition crb_Binding :: "binding \<Rightarrow> gerror + binding" where
  "crb_Binding r = (if length (bn_subjects r) = 0 then Inl (OtherErr ''subjects are required'') else Inr r)"

text \<open>The panic of \<open>BindingOrDie\<close> is \<open>None\<close>.\<close>

definition crb_BindingOrDie :: "binding \<Rightarrow> binding option" where
  "crb_BindingOrDie r = (case crb_Binding r of Inl err \<Rightarrow> None | Inr ret \<Rightarrow> Some ret)"

text \<open>The builder of role bindings has the same methods, written out a second time in the source.\<close>

definition rb_Groups :: "string list \<Rightarrow> binding \<Rightarrow> binding" where
  "rb_Groups groups r = fold (\<lambda>group. append_subject
     \<lparr>sj_kind = GroupKind, sj_apiGroup = rbac_GroupName, sj_name = group, sj_namespace = []\<rparr>) groups r"

definition rb_Users :: "string list \<Rightarrow> binding \<Rightarrow> binding" where
  "rb_Users users r = fold (\<lambda>user. append_subject
     \<lparr>sj_kind = UserKind, sj_apiGroup = rbac_GroupName, sj_name = user, sj_namespace = []\<rparr>) users r"

definition rb_SAs :: "string \<Rightarrow> string list \<Rightarrow> binding \<Rightarrow> binding" where
  "rb_SAs namespace serviceAccountNames r = fold (\<lambda>saName. append_subject
     \<lparr>sj_kind = ServiceAccountKind, sj_apiGroup = [], sj_name = saName, sj_namespace = namespace\<rparr>) serviceAccountNames r"

definition rb_Binding :: "binding \<Rightarrow> gerror + binding" where
  "rb_Binding r = (if length (bn_subjects r) = 0 then Inl (OtherErr ''subjects are required'') else Inr r)"

definition rb_BindingOrDie :: "binding \<Rightarrow> binding option" where
  "rb_BindingOrDie r = (case rb_Binding r of Inl err \<Rightarrow> None | Inr ret \<Rightarrow> Some ret)"

section \<open>What the methods add\<close>

lemma fold_append_subject:
  "fold (\<lambda>x. append_subject (f x)) xs b = b\<lparr>bn_subjects := bn_subjects b @ map f xs\<rparr>"
  by (induction xs arbitrary: b) (simp_all add: append_subject_def)

lemma rb_methods: "rb_Groups = crb_Groups" "rb_Users = crb_Users" "rb_SAs = crb_SAs" "rb_Binding = crb_Binding"
  by (intro ext; simp add: rb_Groups_def crb_Groups_def rb_Users_def crb_Users_def rb_SAs_def crb_SAs_def
      rb_Binding_def crb_Binding_def)+

lemma builder_frame [simp]:
  "bn_namespace (crb_Groups gs b) = bn_namespace b" "bn_roleRef (crb_Groups gs b) = bn_roleRef b" "bn_name (crb_Groups gs b) = bn_name b"
  "bn_namespace (crb_Users us b) = bn_namespace b" "bn_roleRef (crb_Users us b) = bn_roleRef b" "bn_name (crb_Users us b) = bn_name b"
  "bn_namespace (crb_SAs ns sas b) = bn_namespace b" "bn_roleRef (crb_SAs ns sas b) = bn_roleRef b" "bn_name (crb_SAs ns sas b) = bn_name b"
  by (simp_all add: crb_Groups_def crb_Users_def crb_SAs_def fold_append_subject)

text \<open>To whom a binding applies.\<close>

definition applies :: "user_info \<Rightarrow> binding \<Rightarrow> bool" where
  "applies user b \<longleftrightarrow> snd (appliesTo user (bn_subjects b) (bn_namespace b))"

lemma applies_new [simp]:
  "\<not> applies user (NewClusterBinding r)" "\<not> applies user (NewRoleBinding r ns)" "\<not> applies user (NewRoleBindingForClusterRole r ns)"
  by (simp_all add: applies_def appliesTo_iff NewClusterBinding_def NewRoleBinding_def NewRoleBindingForClusterRole_def)

lemma applies_appended:
  "applies user (b\<lparr>bn_subjects := bn_subjects b @ map f xs\<rparr>) \<longleftrightarrow>
   applies user b \<or> (\<exists>x \<in> set xs. appliesToUser user (f x) (bn_namespace b))"
  by (simp add: applies_def appliesTo_iff bex_Un)

lemma applies_Groups: "applies user (crb_Groups gs b) \<longleftrightarrow> applies user b \<or> set gs \<inter> set (ui_groups user) \<noteq> {}"
  unfolding crb_Groups_def fold_append_subject applies_appended by (auto simp: appliesToUser_def has_def)

lemma applies_Users: "applies user (crb_Users us b) \<longleftrightarrow> applies user b \<or> ui_name user \<in> set us"
  unfolding crb_Users_def fold_append_subject applies_appended by (simp add: appliesToUser_def)

text \<open>A service account without a namespace of its own is one of the namespace of the binding, and of none for a cluster
  role binding.\<close>

lemma applies_SAs:
  "applies user (crb_SAs ns sas b) \<longleftrightarrow> applies user b
     \<or> (let n = if ns = [] then bn_namespace b else ns in n \<noteq> [] \<and> ui_name user \<in> MakeUsername n ` set sas)"
  unfolding crb_SAs_def fold_append_subject applies_appended
  by (auto simp: appliesToUser_def MatchesUsername_iff Let_def image_iff)

text \<open>The finished binding refers to the role it was built for, and applies exactly to the users, groups and service accounts it
  was built from.\<close>

lemma built_cluster_binding:
  assumes "crb_Binding (crb_SAs ns sas (crb_Users us (crb_Groups gs (NewClusterBinding r)))) = Inr b"
  shows "bn_roleRef b = \<lparr>rr_apiGroup = rbac_GroupName, rr_kind = ''ClusterRole'', rr_name = r\<rparr>
    \<and> (applies user b \<longleftrightarrow> ui_name user \<in> set us \<or> set gs \<inter> set (ui_groups user) \<noteq> {}
         \<or> ns \<noteq> [] \<and> ui_name user \<in> MakeUsername ns ` set sas)"
proof -
  have b: "b = crb_SAs ns sas (crb_Users us (crb_Groups gs (NewClusterBinding r)))"
    using assms by (simp add: crb_Binding_def split: if_splits)
  have "bn_roleRef b = \<lparr>rr_apiGroup = rbac_GroupName, rr_kind = ''ClusterRole'', rr_name = r\<rparr>"
    by (simp add: b NewClusterBinding_def)
  moreover have "bn_namespace (NewClusterBinding r) = []" by (simp add: NewClusterBinding_def)
  ultimately show ?thesis unfolding b by (auto simp: applies_SAs applies_Users applies_Groups)
qed

lemma built_role_binding:
  assumes "rb_Binding (rb_SAs ns sas (rb_Users us (rb_Groups gs (NewRoleBinding r namespace)))) = Inr b" "namespace \<noteq> []"
  shows "bn_namespace b = namespace \<and> bn_roleRef b = \<lparr>rr_apiGroup = rbac_GroupName, rr_kind = ''Role'', rr_name = r\<rparr>
    \<and> (applies user b \<longleftrightarrow> ui_name user \<in> set us \<or> set gs \<inter> set (ui_groups user) \<noteq> {}
         \<or> ui_name user \<in> MakeUsername (if ns = [] then namespace else ns) ` set sas)"
proof -
  have b: "b = crb_SAs ns sas (crb_Users us (crb_Groups gs (NewRoleBinding r namespace)))"
    using assms(1) by (simp add: rb_methods crb_Binding_def split: if_splits)
  have "bn_namespace (NewRoleBinding r namespace) = namespace" by (simp add: NewRoleBinding_def)
  then show ?thesis using assms(2) unfolding b
    by (auto simp: applies_SAs applies_Users applies_Groups Let_def) (simp_all add: NewRoleBinding_def)
qed

lemma Binding_fails_iff:
  "isl (crb_Binding (crb_SAs ns sas (crb_Users us (crb_Groups gs (NewClusterBinding r))))) \<longleftrightarrow> gs = [] \<and> us = [] \<and> sas = []"
  by (auto simp: crb_Binding_def crb_SAs_def crb_Users_def crb_Groups_def fold_append_subject NewClusterBinding_def)

text \<open>The rules of a cluster with a single cluster role binding.\<close>

lemma RulesFor_one:
  assumes "rs_ListClusterRoleBindings rs = Inr [b]" "ns \<noteq> [] \<Longrightarrow> rs_ListRoleBindings rs ns = Inr []"
    and "GetRoleReferenceRules rs (bn_roleRef b) [] = Inr rules"
  shows "RulesFor rs user ns = (if snd (appliesTo user (bn_subjects b) []) then rules else [], None)"
proof -
  have "event_errors (rule_events d rules) = []" for d
    by (simp add: event_errors_def rule_events_def List.map_filter_def comp_def)
  moreover have "event_errors [] = []" by (simp add: event_errors_def List.map_filter_def)
  ultimately show ?thesis using assms
    by (cases "appliesTo user (bn_subjects b) []")
      (auto simp: RulesFor_events resolver_events_def binding_events_def NewAggregate_def)
qed

text \<open>A cluster with the one cluster role binding that was built for a cluster role gives the rules of the role to exactly
  the users, the groups and the service accounts it was built from, in every namespace.\<close>

lemma built_binding_grants:
  assumes "crb_BindingOrDie (crb_SAs ns sas (crb_Users us (crb_Groups gs (NewClusterBinding r)))) = Some b"
    and "stat_clusterRoleBindings st = [b]" "stat_roleBindings st = []"
    and "Static_GetClusterRole st r = Inr cr"
  shows "RulesFor (newMockRuleResolver st) user namespace = (if ui_name user \<in> set us \<or> set gs \<inter> set (ui_groups user) \<noteq> {}
      \<or> ns \<noteq> [] \<and> ui_name user \<in> MakeUsername ns ` set sas then ro_rules cr else [], None)"
proof -
  have cb: "crb_Binding (crb_SAs ns sas (crb_Users us (crb_Groups gs (NewClusterBinding r)))) = Inr b"
    using assms(1) by (auto simp: crb_BindingOrDie_def split: sum.splits)
  note built = built_cluster_binding [OF cb, of user]
  have "bn_namespace b = []" using cb by (auto simp: crb_Binding_def NewClusterBinding_def split: if_splits)
  then have "snd (appliesTo user (bn_subjects b) []) \<longleftrightarrow> ui_name user \<in> set us \<or> set gs \<inter> set (ui_groups user) \<noteq> {}
      \<or> ns \<noteq> [] \<and> ui_name user \<in> MakeUsername ns ` set sas" using built by (simp add: applies_def)
  moreover have "GetRoleReferenceRules (newMockRuleResolver st) (bn_roleRef b) [] = Inr (ro_rules cr)"
    using built assms(4) by (simp add: GetRoleReferenceRules_def newMockRuleResolver_def)
  ultimately show ?thesis
    using assms(3) RulesFor_one [of "newMockRuleResolver st" b namespace "ro_rules cr" user]
    by (simp add: newMockRuleResolver_def Static_ListClusterRoleBindings_def Static_ListRoleBindings_eq assms(2))
qed

definition ex_built :: "gerror + binding" where
  "ex_built = crb_Binding (crb_SAs ''ns'' [''builder''] (crb_Users [''alice''] (crb_Groups [''devs''] (NewClusterBinding ''edit''))))"

lemma built_binding_grants_witness:
  "RulesFor (newMockRuleResolver \<lparr>stat_roles = [], stat_roleBindings = [],
       stat_clusterRoles = [\<lparr>ro_namespace = [], ro_name = ''edit'', ro_rules = [empty_rule]\<rparr>],
       stat_clusterRoleBindings = [projr ex_built]\<rparr>)
     \<lparr>ui_name = ''system:serviceaccount:ns:builder'', ui_groups = []\<rparr> ''x'' = ([empty_rule], None)"
proof -
  have "crb_BindingOrDie (crb_SAs ''ns'' [''builder''] (crb_Users [''alice''] (crb_Groups [''devs''] (NewClusterBinding ''edit''))))
      = Some (projr ex_built)" by code_simp
  from built_binding_grants [OF this, where st = "\<lparr>stat_roles = [], stat_roleBindings = [],
       stat_clusterRoles = [\<lparr>ro_namespace = [], ro_name = ''edit'', ro_rules = [empty_rule]\<rparr>],
       stat_clusterRoleBindings = [projr ex_built]\<rparr>"
    and cr = "\<lparr>ro_namespace = [], ro_name = ''edit'', ro_rules = [empty_rule]\<rparr>"
    and user = "\<lparr>ui_name = ''system:serviceaccount:ns:builder'', ui_groups = []\<rparr>" and namespace = "''x''"]
  show ?thesis by (simp add: Static_GetClusterRole_def MakeUsername_def)
qed

end
