(* ===== verification/Validation.thy ===== *)
theory Validation
  imports PodEvaluator KioskTypes ApiServer Quantities
begin

text \<open>
  The validation of accounts, account quotas and template instances (\<open>pkg/apis/config/validation\<close>). A validator returns
  the list of the errors it finds. Only well-formed specifications of quotas are accepted, and all of them whose counts
  are small enough for the 64-bit milli values; what an accepted specification means for the matching of pods is related
  to the evaluator of pods. The messages of the vendored name checks count as one.
\<close>

section \<open>Errors of fields\<close>

datatype field_error =
    FieldRequired string
  | FieldInvalid string string
  | FieldNotSupported string

definition Child :: "string \<Rightarrow> string \<Rightarrow> string" where "Child path n = path @ ''.'' @ n"
definition Key :: "string \<Rightarrow> string \<Rightarrow> string" where "Key path k = path @ ''['' @ k @ '']''"
definition Index :: "string \<Rightarrow> nat \<Rightarrow> string" where "Index path i = path @ ''['' @ string_of_nat i @ '']''"

definition error_if :: "bool \<Rightarrow> field_error \<Rightarrow> field_error list" where
  "error_if b e = (if b then [e] else [])"

lemma error_if_Nil [simp]: "error_if b e = [] \<longleftrightarrow> \<not> b"
  by (simp add: error_if_def)

section \<open>Names of resources\<close>

definition standardResources :: string_set where
  "standardResources = set [''cpu'', ''memory'', ''ephemeral-storage'', ''requests.cpu'', ''requests.memory'',
     ''requests.ephemeral-storage'', ''limits.cpu'', ''limits.memory'', ''limits.ephemeral-storage'', ''pods'',
     ''resourcequotas'', ''services'', ''replicationcontrollers'', ''secrets'', ''configmaps'', ''persistentvolumeclaims'',
     ''storage'', ''requests.storage'', ''services.nodeports'', ''services.loadbalancers'']"

definition standardQuotaResources :: string_set where
  "standardQuotaResources = set [''cpu'', ''memory'', ''ephemeral-storage'', ''requests.cpu'', ''requests.memory'',
     ''requests.storage'', ''requests.ephemeral-storage'', ''limits.cpu'', ''limits.memory'', ''limits.ephemeral-storage'',
     ''pods'', ''resourcequotas'', ''services'', ''replicationcontrollers'', ''secrets'', ''persistentvolumeclaims'',
     ''configmaps'', ''services.nodeports'', ''services.loadbalancers'']"

definition integerResources :: string_set where
  "integerResources = set [''pods'', ''resourcequotas'', ''services'', ''replicationcontrollers'', ''secrets'', ''configmaps'',
     ''persistentvolumeclaims'', ''services.nodeports'', ''services.loadbalancers'']"

definition IsQuotaHugePageResourceName :: "string \<Rightarrow> bool" where
  "IsQuotaHugePageResourceName name \<longleftrightarrow> HasPrefix name ''hugepages-'' \<or> HasPrefix name ''requests.hugepages-''"

definition IsStandardResourceName :: "string \<Rightarrow> bool" where
  "IsStandardResourceName str \<longleftrightarrow> str \<in> standardResources \<or> IsQuotaHugePageResourceName str"

definition IsStandardQuotaResourceName :: "string \<Rightarrow> bool" where
  "IsStandardQuotaResourceName str \<longleftrightarrow> str \<in> standardQuotaResources \<or> IsQuotaHugePageResourceName str"

definition validation_IsNativeResource :: "string \<Rightarrow> bool" where
  "validation_IsNativeResource name \<longleftrightarrow> \<not> StrContains name ''/'' \<or> StrContains name ''kubernetes.io/''"

definition validation_IsExtendedResourceName :: "string \<Rightarrow> bool" where
  "validation_IsExtendedResourceName name =
    (if validation_IsNativeResource name \<or> HasPrefix name DefaultResourceRequestsPrefix then False
     else let nameForQuota = DefaultResourceRequestsPrefix @ name
          in if \<not> IsQualifiedName nameForQuota then False else True)"

definition IsIntegerResourceName :: "string \<Rightarrow> bool" where
  "IsIntegerResourceName str \<longleftrightarrow> str \<in> integerResources \<or> validation_IsExtendedResourceName str"

definition validateResourceName :: "string \<Rightarrow> string \<Rightarrow> field_error list" where
  "validateResourceName value fldPath =
    (if \<not> IsQualifiedName value then [FieldInvalid fldPath ''not a qualified name'']
     else if length (Split value CHR ''/'') = 1 then
       error_if (\<not> IsStandardResourceName value) (FieldInvalid fldPath ''must be a standard resource type or fully qualified'')
     else [])"

definition ValidateResourceQuotaResourceName :: "string \<Rightarrow> string \<Rightarrow> field_error list" where
  "ValidateResourceQuotaResourceName value fldPath =
    (let allErrs = validateResourceName value fldPath in
     if length (Split value CHR ''/'') = 1 \<and> \<not> IsStandardQuotaResourceName value
     then allErrs @ [FieldInvalid fldPath ''must be a standard resource for quota'']
     else allErrs)"

section \<open>Quantities\<close>

text \<open>Quantities come as they are decoded, with their machine representation.\<close>

definition ValidateNonnegativeQuantity :: "quantity_amount \<Rightarrow> string \<Rightarrow> field_error list" where
  "ValidateNonnegativeQuantity value fldPath =
    error_if (QCmp (nanos value) 0 < 0) (FieldInvalid fldPath ''must be greater than or equal to 0'')"

definition ValidateResourceQuantityValue :: "string \<Rightarrow> quantity_amount \<Rightarrow> string \<Rightarrow> field_error list" where
  "ValidateResourceQuantityValue resource value fldPath =
    ValidateNonnegativeQuantity value fldPath @
    (if IsIntegerResourceName resource
     then error_if (MilliValue value smod 1000 \<noteq> 0) (FieldInvalid fldPath ''must be an integer'') else [])"

section \<open>Scopes\<close>

definition standardResourceQuotaScopes :: string_set where
  "standardResourceQuotaScopes = set [''Terminating'', ''NotTerminating'', ''BestEffort'', ''NotBestEffort'', ''PriorityClass'']"

definition IsStandardResourceQuotaScope :: "string \<Rightarrow> bool" where
  "IsStandardResourceQuotaScope str \<longleftrightarrow> str \<in> standardResourceQuotaScopes"

definition podObjectCountQuotaResources :: string_set where
  "podObjectCountQuotaResources = set [''pods'']"

definition podComputeQuotaResources :: string_set where
  "podComputeQuotaResources = set [''cpu'', ''memory'', ''limits.cpu'', ''limits.memory'', ''requests.cpu'', ''requests.memory'']"

definition IsResourceQuotaScopeValidForResource :: "string \<Rightarrow> string \<Rightarrow> bool" where
  "IsResourceQuotaScopeValidForResource scope resource =
    (if scope \<in> set [''Terminating'', ''NotTerminating'', ''NotBestEffort'', ''PriorityClass'']
     then resource \<in> podObjectCountQuotaResources \<or> resource \<in> podComputeQuotaResources
     else if scope = ''BestEffort'' then resource \<in> podObjectCountQuotaResources
     else True)"

text \<open>The loop over the names of the hard limits, in ascending order.\<close>

definition scope_resource_errors :: "string \<Rightarrow> resource_list \<Rightarrow> string \<Rightarrow> field_error list" where
  "scope_resource_errors scope hard fldPath =
    concat (map (\<lambda>k. error_if (IsStandardQuotaResourceName k \<and> \<not> IsResourceQuotaScopeValidForResource scope k)
        (FieldInvalid fldPath ''unsupported scope applied to resource'')) (ListSet (set (map fst hard))))"

definition invalidScopePairs :: "string_set list" where
  "invalidScopePairs = [set [''BestEffort'', ''NotBestEffort''], set [''Terminating'', ''NotTerminating'']]"

definition conflicting_scopes :: "string list \<Rightarrow> string \<Rightarrow> field_error list" where
  "conflicting_scopes scopes fldPath =
    concat (map (\<lambda>pair. error_if (pair \<subseteq> set scopes) (FieldInvalid fldPath ''conflicting scopes'')) invalidScopePairs)"

definition validateResourceQuotaScopes :: "quota_spec \<Rightarrow> string \<Rightarrow> field_error list" where
  "validateResourceQuotaScopes spec fld =
    (if length (qs_scopes spec) = 0 then []
     else let fldPath = Child fld ''scopes'' in
       concat (map (\<lambda>scope.
           error_if (\<not> IsStandardResourceQuotaScope scope) (FieldInvalid fldPath ''unsupported scope'')
           @ scope_resource_errors scope (qs_hard spec) fldPath) (qs_scopes spec))
       @ conflicting_scopes (qs_scopes spec) fldPath)"

definition validate_requirement :: "quota_spec \<Rightarrow> string \<Rightarrow> scope_req \<Rightarrow> field_error list" where
  "validate_requirement spec fldPath req =
    error_if (\<not> IsStandardResourceQuotaScope (sr_scopeName req)) (FieldInvalid (Child fldPath ''scopeName'') ''unsupported scope'')
    @ scope_resource_errors (sr_scopeName req) (qs_hard spec) fldPath
    @ (if sr_scopeName req \<in> set [''BestEffort'', ''NotBestEffort'', ''Terminating'', ''NotTerminating'']
       then error_if (sr_operator req \<noteq> ''Exists'') (FieldInvalid (Child fldPath ''operator'') ''must be Exists'')
       else [])
    @ (if sr_operator req \<in> set [''In'', ''NotIn'']
       then error_if (length (sr_values req) = 0) (FieldRequired (Child fldPath ''values''))
       else if sr_operator req \<in> set [''Exists'', ''DoesNotExist'']
       then error_if (length (sr_values req) \<noteq> 0) (FieldInvalid (Child fldPath ''values'') ''must be no value'')
       else [FieldInvalid (Child fldPath ''operator'') ''not a valid selector operator''])"

definition validateScopedResourceSelectorRequirement :: "quota_spec \<Rightarrow> scope_req list \<Rightarrow> string \<Rightarrow> field_error list" where
  "validateScopedResourceSelectorRequirement spec matchExpressions fld =
    (let fldPath = Child fld ''matchExpressions'' in
     concat (map (validate_requirement spec fldPath) matchExpressions)
     @ conflicting_scopes (map sr_scopeName matchExpressions) fldPath)"

definition validateScopeSelector :: "quota_spec \<Rightarrow> string \<Rightarrow> field_error list" where
  "validateScopeSelector spec fld =
    (case qs_scopeSelector spec of
       None \<Rightarrow> []
     | Some matchExpressions \<Rightarrow> validateScopedResourceSelectorRequirement spec matchExpressions (Child fld ''scopeSelector''))"

definition ValidateResourceQuotaSpec :: "(string \<Rightarrow> quantity_amount) \<Rightarrow> quota_spec \<Rightarrow> string \<Rightarrow> field_error list" where
  "ValidateResourceQuotaSpec amounts spec fld =
    (let fldPath = Child fld ''hard'' in
     concat (map (\<lambda>(k, v).
         ValidateResourceQuotaResourceName k (Key fldPath k) @ ValidateResourceQuantityValue k (amounts k) (Key fldPath k)) (qs_hard spec))
     @ validateResourceQuotaScopes spec fld @ validateScopeSelector spec fld)"

section \<open>Account quotas and template instances\<close>

text \<open>
  A decoded quota, with the machine representation of each hard limit; \<open>decoded_ok\<close> says that it represents the
  limit.\<close>

record decoded_quota = account_quota +
  dq_amounts :: "string \<Rightarrow> quantity_amount"

definition decoded_ok :: "decoded_quota \<Rightarrow> bool" where
  "decoded_ok q \<longleftrightarrow> list_all (\<lambda>(k, v). amount_ok (dq_amounts q k) \<and> nanos (dq_amounts q k) = v) (qs_hard (aq_quota q))"

text \<open>\<open>ValidateImmutableField\<close> of apimachinery.\<close>

definition ValidateImmutableField :: "'v \<Rightarrow> 'v \<Rightarrow> string \<Rightarrow> field_error list" where
  "ValidateImmutableField newVal oldVal fldPath = error_if (newVal \<noteq> oldVal) (FieldInvalid fldPath ''field is immutable'')"

definition ValidateAccountQuotaSpec :: "decoded_quota \<Rightarrow> field_error list" where
  "ValidateAccountQuotaSpec q = ValidateResourceQuotaSpec (dq_amounts q) (aq_quota q) (Child ''spec'' ''quota'')"

definition ValidateAccountQuota :: "decoded_quota \<Rightarrow> field_error list" where
  "ValidateAccountQuota q = ValidateAccountQuotaSpec q"

definition ValidateAccountQuotaUpdate :: "decoded_quota \<Rightarrow> decoded_quota \<Rightarrow> field_error list" where
  "ValidateAccountQuotaUpdate newQ oldQ =
    ValidateImmutableField (aq_account newQ) (aq_account oldQ) (Child ''spec'' ''account'') @ ValidateAccountQuotaSpec newQ"

definition ValidateTemplateInstance :: "template_instance_spec \<Rightarrow> field_error list" where
  "ValidateTemplateInstance ti = []"

definition ValidateTemplateInstanceUpdate :: "template_instance_spec \<Rightarrow> template_instance_spec \<Rightarrow> field_error list" where
  "ValidateTemplateInstanceUpdate newTi oldTi =
    ValidateImmutableField (tis_template newTi) (tis_template oldTi) (Child ''spec'' ''template'')"

section \<open>Accounts\<close>

definition rbac_GroupName :: string where "rbac_GroupName = ''rbac.authorization.k8s.io''"

definition ValidateRoleBindingSubject :: "subject \<Rightarrow> bool \<Rightarrow> string \<Rightarrow> field_error list" where
  "ValidateRoleBindingSubject subject isNamespaced fldPath =
    error_if (length (sj_name subject) = 0) (FieldRequired (Child fldPath ''name''))
    @ (if sj_kind subject = ServiceAccountKind then
         error_if (length (sj_name subject) > 0 \<and> \<not> IsDNS1123Subdomain (sj_name subject))
           (FieldInvalid (Child fldPath ''name'') ''not a DNS subdomain'')
         @ error_if (length (sj_apiGroup subject) > 0) (FieldNotSupported (Child fldPath ''apiGroup''))
         @ error_if (\<not> isNamespaced \<and> length (sj_namespace subject) = 0) (FieldRequired (Child fldPath ''namespace''))
       else if sj_kind subject = UserKind then
         error_if (sj_apiGroup subject \<noteq> rbac_GroupName) (FieldNotSupported (Child fldPath ''apiGroup''))
       else if sj_kind subject = GroupKind then
         error_if (sj_apiGroup subject \<noteq> rbac_GroupName) (FieldNotSupported (Child fldPath ''apiGroup''))
       else [FieldNotSupported (Child fldPath ''kind'')])"

definition validateSubjects :: "subject list \<Rightarrow> field_error list" where
  "validateSubjects subjects =
    concat (map (\<lambda>(i, subject). ValidateRoleBindingSubject subject False (Index ''spec.subjects'' i)) (enumerate 0 subjects))"

text \<open>
  A decoded account, and whether the list of the namespaces in its status is missing, which \<open>reflect.DeepEqual\<close> tells from
  an empty one.\<close>

record decoded_account = account +
  dc_noNamespaces :: bool

definition same_status :: "decoded_account \<Rightarrow> decoded_account \<Rightarrow> bool" where
  "same_status a b \<longleftrightarrow> ac_status a = ac_status b \<and> (ac_status a = [] \<longrightarrow> (dc_noNamespaces a \<longleftrightarrow> dc_noNamespaces b))"

text \<open>The conversion between the two types of subjects keeps their fields.\<close>

definition verifySubjects :: "decoded_account \<Rightarrow> field_error list" where
  "verifySubjects ac = validateSubjects (acs_subjects (ac_spec ac))"

definition spaceTemplateLabelAccountValidation :: "(string \<times> string) list \<Rightarrow> bool" where
  "spaceTemplateLabelAccountValidation labels =
    list_all (\<lambda>(key, value). \<not> (key = SpaceLabelAccount \<and> value \<noteq> [])) labels"

definition ValidateAccountSpaceTemplate :: "obj_meta \<Rightarrow> string \<Rightarrow> field_error list" where
  "ValidateAccountSpaceTemplate spaceTemplate fldPath =
    error_if (\<not> spaceTemplateLabelAccountValidation (om_labels spaceTemplate)) (FieldRequired (Child fldPath ''metadata''))"

definition verifySpace :: "decoded_account \<Rightarrow> field_error list" where
  "verifySpace ac = ValidateAccountSpaceTemplate (as_spaceTemplate (acs_space (ac_spec ac))) ''spec.space''"

definition ValidateAccount :: "decoded_account \<Rightarrow> field_error list" where
  "ValidateAccount ac = verifySubjects ac @ verifySpace ac"

definition ValidateAccountUpdate :: "decoded_account \<Rightarrow> decoded_account \<Rightarrow> field_error list" where
  "ValidateAccountUpdate newAccount oldAccount =
    ValidateAccount newAccount
    @ error_if (\<not> same_status newAccount oldAccount) (FieldInvalid ''status'' ''field is immutable'')
    @ verifySubjects newAccount @ verifySpace newAccount"

section \<open>Well-formed specifications\<close>

text \<open>A name is qualified, and known to the quota system or prefixed by a domain.\<close>

definition wf_resource :: "string \<Rightarrow> bool" where
  "wf_resource k \<longleftrightarrow> IsQualifiedName k \<and> (CHR ''/'' \<in> set k \<or> IsStandardQuotaResourceName k)"

text \<open>
  A value is not negative, and where objects are counted less than a thousandth below a whole number, as long as its
  milli value fits into 64 bits. A specification fits if all counts do.\<close>

definition wf_quantity :: "string \<Rightarrow> quantity \<Rightarrow> bool" where
  "wf_quantity k v \<longleftrightarrow> 0 \<le> v
     \<and> (IsIntegerResourceName k \<and> v \<le> milli_limit \<longrightarrow> (\<exists>n. NewQuantity n - 10 ^ 6 < v \<and> v \<le> NewQuantity n))"

definition counts_fit :: "quota_spec \<Rightarrow> bool" where
  "counts_fit spec \<longleftrightarrow> list_all (\<lambda>(k, v). IsIntegerResourceName k \<longrightarrow> v \<le> milli_limit) (qs_hard spec)"

text \<open>A set of scopes: known, without contradiction, and fit for the limited resources.\<close>

definition wf_scope_set :: "string set \<Rightarrow> string set \<Rightarrow> bool" where
  "wf_scope_set scopes hard \<longleftrightarrow>
    scopes \<subseteq> standardResourceQuotaScopes
    \<and> \<not> {''BestEffort'', ''NotBestEffort''} \<subseteq> scopes \<and> \<not> {''Terminating'', ''NotTerminating''} \<subseteq> scopes
    \<and> (\<forall>scope \<in> scopes. \<forall>k \<in> hard. IsStandardQuotaResourceName k \<longrightarrow> IsResourceQuotaScopeValidForResource scope k)"

definition wf_requirement :: "scope_req \<Rightarrow> bool" where
  "wf_requirement r \<longleftrightarrow>
    (sr_scopeName r = ''PriorityClass'' \<or> sr_operator r = ''Exists'')
    \<and> (if sr_operator r \<in> {''In'', ''NotIn''} then sr_values r \<noteq> []
       else sr_operator r \<in> {''Exists'', ''DoesNotExist''} \<and> sr_values r = [])"

definition wf_quota_spec :: "quota_spec \<Rightarrow> bool" where
  "wf_quota_spec spec \<longleftrightarrow>
    (\<forall>(k, v) \<in> set (qs_hard spec). wf_resource k \<and> wf_quantity k v)
    \<and> wf_scope_set (set (qs_scopes spec)) (fst ` set (qs_hard spec))
    \<and> (case qs_scopeSelector spec of
         None \<Rightarrow> True
       | Some rs \<Rightarrow> wf_scope_set (sr_scopeName ` set rs) (fst ` set (qs_hard spec)) \<and> (\<forall>r \<in> set rs. wf_requirement r))"

text \<open>
  A subject is a user or a group of the RBAC API group, or a service account with a namespace and the name of a DNS
  subdomain; the template of the spaces of an account does not give the label of the account a value.
\<close>

definition wf_subject :: "subject \<Rightarrow> bool" where
  "wf_subject s \<longleftrightarrow> sj_name s \<noteq> []
     \<and> (sj_kind s \<in> {UserKind, GroupKind} \<and> sj_apiGroup s = rbac_GroupName
        \<or> sj_kind s = ServiceAccountKind \<and> sj_apiGroup s = [] \<and> sj_namespace s \<noteq> [] \<and> IsDNS1123Subdomain (sj_name s))"

definition wf_account :: "decoded_account \<Rightarrow> bool" where
  "wf_account ac \<longleftrightarrow> list_all wf_subject (acs_subjects (ac_spec ac))
     \<and> (\<forall>(k, v) \<in> set (om_labels (as_spaceTemplate (acs_space (ac_spec ac)))). k = SpaceLabelAccount \<longrightarrow> v = [])"

lemma Split_one: "length (Split s c) = 1 \<longleftrightarrow> c \<notin> set s"
proof
  show "c \<notin> set s \<Longrightarrow> length (Split s c) = 1" by (simp add: Split_no_sep)
  show "length (Split s c) = 1 \<Longrightarrow> c \<notin> set s"
  proof (induction s)
    case (Cons d s)
    then show ?case by (cases "Split s c") (auto split: if_splits)
  qed simp
qed

lemma standard_quota_is_standard: "IsStandardQuotaResourceName k \<Longrightarrow> IsStandardResourceName k"
  by (auto simp: IsStandardQuotaResourceName_def IsStandardResourceName_def standardQuotaResources_def standardResources_def)

lemma resource_name_ok: "ValidateResourceQuotaResourceName k p = [] \<longleftrightarrow> wf_resource k"
  using standard_quota_is_standard [of k]
  unfolding ValidateResourceQuotaResourceName_def validateResourceName_def wf_resource_def Split_one Let_def
  by auto

lemma ceil_whole: "ceil_div v (10 ^ 6) mod 1000 = 0 \<longleftrightarrow> (\<exists>n. NewQuantity n - 10 ^ 6 < v \<and> v \<le> NewQuantity n)"
proof -
  have "ceil_div v (10 ^ 6) = 1000 * n \<longleftrightarrow> NewQuantity n - 10 ^ 6 < v \<and> v \<le> NewQuantity n" for n
  proof
    obtain m where q: "1000000 * ((- v) div 1000000) + m = - v" "0 \<le> m" "m < 1000000"
      by (metis mult_div_mod_eq pos_mod_bound pos_mod_sign zero_less_numeral)
    assume "ceil_div v (10 ^ 6) = 1000 * n"
    then have "(- v) div 1000000 = - (1000 * n)" by (simp add: ceil_div_def)
    then show "NewQuantity n - 10 ^ 6 < v \<and> v \<le> NewQuantity n"
      using q by (simp add: NewQuantity_def)
  next
    assume "NewQuantity n - 10 ^ 6 < v \<and> v \<le> NewQuantity n"
    then have "1000000000 * n - 1000000 < v" "v \<le> 1000000000 * n" by (simp_all add: NewQuantity_def)
    then have "(- v) div 1000000 = - (1000 * n)"
      by (intro int_div_pos_eq [where r = "- v + 1000 * n * 1000000"]) linarith+
    then show "ceil_div v (10 ^ 6) = 1000 * n" by (simp add: ceil_div_def)
  qed
  then show ?thesis by (auto simp: dvd_def simp flip: dvd_eq_mod_eq_0)
qed

lemma smod_eq_0: "b \<noteq> 0 \<Longrightarrow> a smod b = 0 \<longleftrightarrow> a mod (b :: int) = 0"
  by (auto simp: signed_modulo_int_def abs_dvd_iff dvd_abs_iff sgn_0_0 simp flip: dvd_eq_mod_eq_0)

lemma quantity_ok:
  assumes "amount_ok a" "\<not> IsIntegerResourceName k \<or> nanos a \<le> milli_limit"
  shows "ValidateResourceQuantityValue k a p = [] \<longleftrightarrow> wf_quantity k (nanos a)"
proof (cases "0 \<le> nanos a")
  case True
  have "MilliValue a smod 1000 = 0 \<longleftrightarrow> (\<exists>n. NewQuantity n - 10 ^ 6 < nanos a \<and> nanos a \<le> NewQuantity n)"
    if "IsIntegerResourceName k"
    using MilliValue_exact [OF assms(1) True] assms(2) that ceil_whole [of "nanos a"] by (simp add: smod_eq_0)
  then show ?thesis using True assms(2)
    by (auto simp: ValidateResourceQuantityValue_def ValidateNonnegativeQuantity_def wf_quantity_def)
qed (simp add: ValidateResourceQuantityValue_def ValidateNonnegativeQuantity_def wf_quantity_def)

lemma quantity_accepted:
  assumes "amount_ok a" "ValidateResourceQuantityValue k a p = []"
  shows "wf_quantity k (nanos a)"
proof (cases "IsIntegerResourceName k \<and> milli_limit < nanos a")
  case True
  then show ?thesis using assms(2)
    by (simp add: wf_quantity_def ValidateResourceQuantityValue_def ValidateNonnegativeQuantity_def)
next
  case False
  then show ?thesis using quantity_ok [OF assms(1)] assms(2) by auto
qed

lemma set_ListSet: "finite s \<Longrightarrow> set (ListSet s) = s"
  by (simp add: ListSet_def)

lemma scope_resources_ok:
  "scope_resource_errors scope hard p = [] \<longleftrightarrow>
   (\<forall>k \<in> fst ` set hard. IsStandardQuotaResourceName k \<longrightarrow> IsResourceQuotaScopeValidForResource scope k)"
  by (auto simp: scope_resource_errors_def set_ListSet)

lemma conflicting_ok:
  "conflicting_scopes scopes p = [] \<longleftrightarrow>
   \<not> {''BestEffort'', ''NotBestEffort''} \<subseteq> set scopes \<and> \<not> {''Terminating'', ''NotTerminating''} \<subseteq> set scopes"
  by (simp add: conflicting_scopes_def invalidScopePairs_def)

lemma scopes_ok: "validateResourceQuotaScopes spec p = [] \<longleftrightarrow> wf_scope_set (set (qs_scopes spec)) (fst ` set (qs_hard spec))"
proof (cases "qs_scopes spec = []")
  case False
  then have "validateResourceQuotaScopes spec p = [] \<longleftrightarrow>
      (\<forall>scope \<in> set (qs_scopes spec). IsStandardResourceQuotaScope scope \<and> scope_resource_errors scope (qs_hard spec) (Child p ''scopes'') = [])
      \<and> conflicting_scopes (qs_scopes spec) (Child p ''scopes'') = []"
    by (simp add: validateResourceQuotaScopes_def Let_def)
  then show ?thesis
    unfolding wf_scope_set_def scope_resources_ok conflicting_ok IsStandardResourceQuotaScope_def by blast
qed (simp add: validateResourceQuotaScopes_def wf_scope_set_def)

lemma requirement_ok:
  "validate_requirement spec p r = [] \<longleftrightarrow>
   sr_scopeName r \<in> standardResourceQuotaScopes \<and> wf_requirement r
   \<and> (\<forall>k \<in> fst ` set (qs_hard spec). IsStandardQuotaResourceName k \<longrightarrow> IsResourceQuotaScopeValidForResource (sr_scopeName r) k)"
proof (cases "sr_scopeName r \<in> standardResourceQuotaScopes")
  case True
  let ?n = "sr_scopeName r" and ?op = "sr_operator r"
  have n: "?n \<in> set [''BestEffort'', ''NotBestEffort'', ''Terminating'', ''NotTerminating''] \<longleftrightarrow> ?n \<noteq> ''PriorityClass''"
  proof -
    have "\<forall>n \<in> standardResourceQuotaScopes. n \<in> set [''BestEffort'', ''NotBestEffort'', ''Terminating'', ''NotTerminating'']
      \<longleftrightarrow> n \<noteq> ''PriorityClass''" by code_simp
    then show ?thesis using True by blast
  qed
  have op: "(if ?op \<in> set [''In'', ''NotIn''] then error_if (length (sr_values r) = 0) e1
      else if ?op \<in> set [''Exists'', ''DoesNotExist''] then error_if (length (sr_values r) \<noteq> 0) e2 else [e3]) = []
    \<longleftrightarrow> (if ?op \<in> {''In'', ''NotIn''} then sr_values r \<noteq> [] else ?op \<in> {''Exists'', ''DoesNotExist''} \<and> sr_values r = [])" for e1 e2 e3
    by (simp split: if_split)
  have ex: "(if ?n \<noteq> ''PriorityClass'' then error_if (?op \<noteq> ''Exists'') e else []) = [] \<longleftrightarrow>
      ?n = ''PriorityClass'' \<or> ?op = ''Exists''" for e by (simp split: if_split)
  show ?thesis
    unfolding validate_requirement_def append_is_Nil_conv scope_resources_ok n op ex wf_requirement_def error_if_Nil
      IsStandardResourceQuotaScope_def using True by blast
qed (simp add: validate_requirement_def IsStandardResourceQuotaScope_def)

lemma selector_ok:
  "validateScopeSelector spec p = [] \<longleftrightarrow>
   (case qs_scopeSelector spec of
      None \<Rightarrow> True
    | Some rs \<Rightarrow> wf_scope_set (sr_scopeName ` set rs) (fst ` set (qs_hard spec)) \<and> (\<forall>r \<in> set rs. wf_requirement r))"
proof (cases "qs_scopeSelector spec")
  case (Some rs)
  let ?p = "Child (Child p ''scopeSelector'') ''matchExpressions''"
  have "validateScopeSelector spec p = [] \<longleftrightarrow>
      (\<forall>r \<in> set rs. validate_requirement spec ?p r = []) \<and> conflicting_scopes (map sr_scopeName rs) ?p = []"
    by (simp add: validateScopeSelector_def validateScopedResourceSelectorRequirement_def Some Let_def)
  moreover have "(\<forall>r \<in> set rs. validate_requirement spec ?p r = []) \<longleftrightarrow>
      sr_scopeName ` set rs \<subseteq> standardResourceQuotaScopes \<and> (\<forall>r \<in> set rs. wf_requirement r)
      \<and> (\<forall>scope \<in> sr_scopeName ` set rs. \<forall>k \<in> fst ` set (qs_hard spec).
          IsStandardQuotaResourceName k \<longrightarrow> IsResourceQuotaScopeValidForResource scope k)"
    unfolding requirement_ok by blast
  ultimately show ?thesis
    by (simp only: conflicting_ok wf_scope_set_def Some set_map option.case simp_thms conj_ac)
qed (simp add: validateScopeSelector_def)

lemma spec_accepted:
  assumes "decoded_ok q"
  shows "ValidateAccountQuota q = [] \<Longrightarrow> wf_quota_spec (aq_quota q)"
    and "counts_fit (aq_quota q) \<Longrightarrow> wf_quota_spec (aq_quota q) \<Longrightarrow> ValidateAccountQuota q = []"
proof -
  have e: "ValidateAccountQuota q = [] \<longleftrightarrow>
      (\<forall>(k, v) \<in> set (qs_hard (aq_quota q)). wf_resource k \<and> (\<exists>p. ValidateResourceQuantityValue k (dq_amounts q k) p = []))
      \<and> wf_scope_set (set (qs_scopes (aq_quota q))) (fst ` set (qs_hard (aq_quota q)))
      \<and> (case qs_scopeSelector (aq_quota q) of None \<Rightarrow> True
         | Some rs \<Rightarrow> wf_scope_set (sr_scopeName ` set rs) (fst ` set (qs_hard (aq_quota q))) \<and> (\<forall>r \<in> set rs. wf_requirement r))"
    unfolding ValidateAccountQuota_def ValidateAccountQuotaSpec_def ValidateResourceQuotaSpec_def Let_def
      append_is_Nil_conv scopes_ok selector_ok
    by (auto simp: resource_name_ok ValidateResourceQuantityValue_def ValidateNonnegativeQuantity_def split: if_splits)
  have d: "amount_ok (dq_amounts q k) \<and> nanos (dq_amounts q k) = v" if "(k, v) \<in> set (qs_hard (aq_quota q))" for k v
    using assms that by (auto simp: decoded_ok_def list_all_iff)
  show "ValidateAccountQuota q = [] \<Longrightarrow> wf_quota_spec (aq_quota q)"
    unfolding e wf_quota_spec_def using d quantity_accepted by fastforce
  show "counts_fit (aq_quota q) \<Longrightarrow> wf_quota_spec (aq_quota q) \<Longrightarrow> ValidateAccountQuota q = []"
    unfolding e wf_quota_spec_def counts_fit_def list_all_iff using d quantity_ok by fastforce
qed

section \<open>Properties\<close>

definition ex_valid_spec :: "string list \<Rightarrow> quota_spec" where
  "ex_valid_spec values = \<lparr>qs_hard = [(''pods'', NewQuantity 3), (''requests.cpu'', 1500000000)], qs_scopes = [''NotTerminating''],
     qs_scopeSelector = Some [\<lparr>sr_scopeName = ''PriorityClass'', sr_operator = ''In'', sr_values = values\<rparr>]\<rparr>"

definition ex_plain_pod :: pod where
  "ex_plain_pod = \<lparr>pod_meta = empty_meta, pod_containers = [], pod_initContainers = [], pod_activeDeadlineSeconds = None,
     pod_priorityClassName = [], pod_phase = []\<rparr>"

definition ex_valid_quota :: "string list \<Rightarrow> decoded_quota" where
  "ex_valid_quota values = \<lparr>aq_meta = empty_meta, aq_account = ''acme'', aq_quota = ex_valid_spec values,
     aq_total = \<lparr>st_hard = None, st_used = None\<rparr>, aq_namespaces = [],
     dq_amounts = (\<lambda>k. if k = ''pods'' then Int64Amount 3 0 else Int64Amount 1500 (- 3))\<rparr>"

lemma ex_valid_decoded: "decoded_ok (ex_valid_quota values)"
  by (simp add: decoded_ok_def ex_valid_quota_def ex_valid_spec_def NewQuantity_def)


lemma ex_valid_wf:
  "wf_quota_spec (aq_quota (ex_valid_quota [''high'']))" "\<not> wf_quota_spec (aq_quota (ex_valid_quota []))"
  "counts_fit (aq_quota (ex_valid_quota vs))"
proof -
  show c: "counts_fit (aq_quota (ex_valid_quota vs))" for vs
    by (simp add: counts_fit_def ex_valid_quota_def ex_valid_spec_def milli_limit_def NewQuantity_def)
  have "ValidateAccountQuota (ex_valid_quota [''high'']) = []" "ValidateAccountQuota (ex_valid_quota []) \<noteq> []" by code_simp+
  then show "wf_quota_spec (aq_quota (ex_valid_quota [''high'']))" "\<not> wf_quota_spec (aq_quota (ex_valid_quota []))"
    using spec_accepted [OF ex_valid_decoded] c by blast+
qed




text \<open>What the validation of a quota promises to the admission of pods: matching a pod with the selector of an accepted
  quota never fails, except where the selector names priority classes that are no label values. Such a quota is
  accepted all the same, and then every pod fails to be matched.\<close>

lemma accepted_selector_matches:
  assumes "ValidateAccountQuota q = []" "qs_scopeSelector (aq_quota q) = Some rs" "r \<in> set rs"
  shows "isl (podMatchesScopeFunc r (PodObj p)) \<longleftrightarrow>
    sr_scopeName r = ''PriorityClass'' \<and> \<not> list_all IsValidLabelValue (sr_values r)"
proof -
  have "validateScopeSelector (aq_quota q) (Child ''spec'' ''quota'') = []"
    using assms(1) by (simp add: ValidateAccountQuota_def ValidateAccountQuotaSpec_def ValidateResourceQuotaSpec_def Let_def)
  then have wf: "wf_requirement r" using assms(2,3) by (simp add: selector_ok)
  have q: "IsQualifiedName ''PriorityClass''" by code_simp
  show ?thesis
  proof (cases "sr_scopeName r = ''PriorityClass''")
    case True
    have "isl (podMatchesScopeFunc r (PodObj p)) \<longleftrightarrow> isl (ScopedResourceSelectorRequirementsAsSelector r)"
      using True by (simp add: podMatchesScopeFunc_def toExternalPodOrError_def podMatchesSelector_def Let_def split: sum.split)
    also have "\<dots> \<longleftrightarrow> \<not> list_all IsValidLabelValue (sr_values r)"
    proof -
      have "sr_operator r \<in> {''In'', ''NotIn''} \<and> sr_values r \<noteq> [] \<or> sr_operator r \<in> {''Exists'', ''DoesNotExist''} \<and> sr_values r = []"
        using wf unfolding wf_requirement_def
        by (cases "sr_operator r \<in> {''In'', ''NotIn''}") (simp_all only: if_True if_False simp_thms)
      then consider "sr_operator r = ''In''" "sr_values r \<noteq> []" | "sr_operator r = ''NotIn''" "sr_values r \<noteq> []"
        | "sr_operator r = ''Exists''" "sr_values r = []" | "sr_operator r = ''DoesNotExist''" "sr_values r = []"
        by blast
      then show ?thesis
        by cases (simp_all add: ScopedResourceSelectorRequirementsAsSelector_def NewRequirement_def True q)
    qed
    finally show ?thesis using True by simp
  next
    case False
    then show ?thesis by (simp add: podMatchesScopeFunc_def toExternalPodOrError_def)
  qed
qed

theorem accepted_selector_matches_witness:
  "isl (podMatchesScopeFunc \<lparr>sr_scopeName = ''PriorityClass'', sr_operator = ''In'', sr_values = [''not a label'']\<rparr> (PodObj ex_plain_pod))"
proof -
  let ?r = "\<lparr>sr_scopeName = ''PriorityClass'', sr_operator = ''In'', sr_values = [''not a label'']\<rparr>"
  have v: "ValidateAccountQuota (ex_valid_quota [''not a label'']) = []" by code_simp
  have rs: "qs_scopeSelector (aq_quota (ex_valid_quota [''not a label''])) = Some [?r]"
    by (simp add: ex_valid_quota_def ex_valid_spec_def)
  have n: "\<not> list_all IsValidLabelValue (sr_values ?r)" by code_simp
  show ?thesis using accepted_selector_matches [OF v rs, of ?r ex_plain_pod] n by simp
qed

lemma subjects_ok: "validateSubjects ss = [] \<longleftrightarrow> list_all wf_subject ss"
proof -
  have "ValidateRoleBindingSubject s False p = [] \<longleftrightarrow> wf_subject s" for s p
    by (auto simp: ValidateRoleBindingSubject_def wf_subject_def)
  then have "concat (map (\<lambda>(i, subject). ValidateRoleBindingSubject subject False (Index ''spec.subjects'' i)) (enumerate n ss)) = []
     \<longleftrightarrow> list_all wf_subject ss" for n
    by (induction ss arbitrary: n) simp_all
  then show ?thesis by (simp add: validateSubjects_def)
qed

text \<open>An account is accepted exactly if it is well-formed; an update must leave the status alone in addition.\<close>

lemma account_accepted_iff:
  "(ValidateAccount ac = [] \<longleftrightarrow> wf_account ac)
   \<and> (ValidateAccountUpdate ac old = [] \<longleftrightarrow> wf_account ac \<and> same_status ac old)"
proof -
  have "ValidateAccount ac = [] \<longleftrightarrow> wf_account ac"
    by (simp add: ValidateAccount_def wf_account_def verifySubjects_def subjects_ok verifySpace_def
        ValidateAccountSpaceTemplate_def spaceTemplateLabelAccountValidation_def list_all_iff)
  moreover have "ValidateAccountUpdate ac old = [] \<longleftrightarrow> ValidateAccount ac = [] \<and> same_status ac old"
    by (auto simp: ValidateAccountUpdate_def ValidateAccount_def)
  ultimately show ?thesis by blast
qed

end
