(* ===== verification/Certificates.thy ===== *)
theory Certificates
  imports ApiTypes
begin

text \<open>
  The certificates of kiosk's servers (\<open>pkg/util/secret/store.go\<close>, \<open>pkg/util/certhelper/certhelper.go\<close>): every instance
  takes its certificate from a secret, and creates both where there is none, while other instances do the same. The file
  system, the API server and the generation of keys are parameters; other processes act in \<open>sy_Tick\<close>.
\<close>

section \<open>The system\<close>

record secret =
  se_namespace :: string
  se_name :: string
  se_type :: string
  se_data :: "(string \<times> string) list option"

text \<open>Files are written with permission bits; \<open>sy_GenerateKey\<close> gives the PEM block of a new key,
  \<open>sy_CreateCertificate\<close> that of its certificate for a service in a namespace.\<close>

record 'w system =
  sy_Tick :: "'w \<Rightarrow> 'w"
  sy_GetSecret :: "'w \<Rightarrow> string \<Rightarrow> string \<Rightarrow> gerror + secret"
  sy_CreateSecret :: "'w \<Rightarrow> secret \<Rightarrow> 'w \<times> gerror option"
  sy_DeleteSecret :: "'w \<Rightarrow> secret \<Rightarrow> 'w \<times> gerror option"
  sy_CreateNamespace :: "'w \<Rightarrow> string \<Rightarrow> 'w \<times> gerror option"
  sy_Stat :: "'w \<Rightarrow> string \<Rightarrow> gerror option"
  sy_ReadFile :: "'w \<Rightarrow> string \<Rightarrow> gerror + string"
  sy_WriteFile :: "'w \<Rightarrow> string \<Rightarrow> string \<Rightarrow> nat \<Rightarrow> 'w \<times> gerror option"
  sy_MkdirAll :: "'w \<Rightarrow> string \<Rightarrow> 'w \<times> gerror option"
  sy_GenerateKey :: "'w \<Rightarrow> gerror + string"
  sy_CreateCertificate :: "'w \<Rightarrow> string \<Rightarrow> string \<Rightarrow> string \<Rightarrow> gerror + string"

definition file_in :: "string \<Rightarrow> string \<Rightarrow> string" where
  "file_in folder file = folder @ ''/'' @ file"

definition CurrentNamespace :: "'w system \<Rightarrow> 'w \<Rightarrow> gerror + string" where
  "CurrentNamespace C w = sy_ReadFile C w ''/var/run/secrets/kubernetes.io/serviceaccount/namespace''"

section \<open>Generating a certificate\<close>

definition WebhookCertFolder :: string where "WebhookCertFolder = ''/tmp/k8s-webhook-server/serving-certs''"
definition WebhookServiceName :: string where "WebhookServiceName = ''kiosk''"
definition APIServiceCertFolder :: string where "APIServiceCertFolder = ''/tmp/k8s-apiserver/serving-certs''"
definition APIServiceName :: string where "APIServiceName = ''kiosk-apiservice''"

text \<open>The octal literal 066.\<close>

definition cert_mode :: nat where "cert_mode = 6 * 8 + 6"

definition and_then :: "'w \<times> gerror option \<Rightarrow> ('w \<Rightarrow> 'w \<times> gerror option) \<Rightarrow> 'w \<times> gerror option" where
  "and_then r f = (case r of (w, Some err) \<Rightarrow> (w, Some err) | (w, None) \<Rightarrow> f w)"

definition writeCert :: "'w system \<Rightarrow> 'w \<Rightarrow> string \<Rightarrow> string \<Rightarrow> string \<Rightarrow> 'w \<times> gerror option" where
  "writeCert C w folder cert key =
    and_then (sy_MkdirAll C w folder) (\<lambda>w.
    and_then (sy_WriteFile C w (file_in folder ''tls.crt'') cert cert_mode) (\<lambda>w.
    and_then (sy_WriteFile C w (file_in folder ''ca.crt'') cert cert_mode) (\<lambda>w.
    sy_WriteFile C w (file_in folder ''tls.key'') key cert_mode)))"

definition generateCertificate :: "'w system \<Rightarrow> string \<Rightarrow> string \<Rightarrow> 'w \<Rightarrow> 'w \<times> gerror option" where
  "generateCertificate C folder service w =
    (case sy_Stat C w (file_in folder ''tls.key'') of
       None \<Rightarrow> (w, None)
     | Some err \<Rightarrow>
         if IsNotFound err = False then (w, Some err)
         else
           (case sy_GenerateKey C w of
              Inl err \<Rightarrow> (w, Some err)
            | Inr key \<Rightarrow>
                (case CurrentNamespace C w of
                   Inl err \<Rightarrow> (w, Some err)
                 | Inr namespace \<Rightarrow>
                     (case sy_CreateCertificate C w key service namespace of
                        Inl err \<Rightarrow> (w, Some err)
                      | Inr cert \<Rightarrow> writeCert C w folder cert key))))"

definition GenerateWebhookCertificate :: "'w system \<Rightarrow> 'w \<Rightarrow> 'w \<times> gerror option" where
  "GenerateWebhookCertificate C = generateCertificate C WebhookCertFolder WebhookServiceName"

definition GenerateAPIServiceCertificate :: "'w system \<Rightarrow> 'w \<Rightarrow> 'w \<times> gerror option" where
  "GenerateAPIServiceCertificate C = generateCertificate C APIServiceCertFolder APIServiceName"

section \<open>The secret\<close>

definition WebhookCertSecretName :: string where "WebhookCertSecretName = ''kiosk-webhook-cert''"
definition APIServiceCertSecretName :: string where "APIServiceCertSecretName = ''kiosk-api-service-cert''"

definition cert_files :: "string list" where
  "cert_files = [''ca.crt'', ''tls.crt'', ''tls.key'']"

definition isSecretValid :: "secret \<Rightarrow> bool" where
  "isSecretValid s =
    (case se_data s of
       None \<Rightarrow> False
     | Some data \<Rightarrow>
         if se_type s \<noteq> ''kubernetes.io/tls'' then False
         else if map_of data ''ca.crt'' = None \<or> map_of data ''tls.crt'' = None \<or> map_of data ''tls.key'' = None then False
         else True)"

text \<open>The entry of a key that is absent is empty.\<close>

definition secret_entry :: "secret \<Rightarrow> string \<Rightarrow> string" where
  "secret_entry s k = (case se_data s of None \<Rightarrow> [] | Some data \<Rightarrow> (case map_of data k of None \<Rightarrow> [] | Some v \<Rightarrow> v))"

text \<open>The octal literals 0666.\<close>

definition data_mode :: nat where "data_mode = 6 * 64 + 6 * 8 + 6"

fun write_files :: "'w system \<Rightarrow> secret \<Rightarrow> string \<Rightarrow> string list \<Rightarrow> 'w \<Rightarrow> 'w \<times> gerror option" where
  "write_files C s folder [] w = (w, None)"
| "write_files C s folder (file # files) w =
     and_then (sy_WriteFile C w (file_in folder file) (secret_entry s file) data_mode) (write_files C s folder files)"

definition getDataFromSecret :: "'w system \<Rightarrow> 'w \<Rightarrow> secret \<Rightarrow> string \<Rightarrow> 'w \<times> gerror option" where
  "getDataFromSecret C w s certFolder = and_then (sy_MkdirAll C w certFolder) (write_files C s certFolder cert_files)"

fun read_files :: "'w system \<Rightarrow> 'w \<Rightarrow> string \<Rightarrow> string list \<Rightarrow> (string \<times> string) list \<Rightarrow> gerror + (string \<times> string) list" where
  "read_files C w folder [] data = Inr data"
| "read_files C w folder (file # files) data =
     (case sy_ReadFile C w (file_in folder file) of
        Inl err \<Rightarrow> Inl err
      | Inr out \<Rightarrow> read_files C w folder files (put file out data))"

text \<open>The part without a secret to read: a new one is created; that another instance was faster means to start again.\<close>

datatype outcome = Return "gerror option" | Retry

definition create_secret ::
  "'w system \<Rightarrow> string \<Rightarrow> string \<Rightarrow> string \<Rightarrow> ('w \<Rightarrow> 'w \<times> gerror option) \<Rightarrow> 'w \<Rightarrow> 'w \<times> outcome"
where
  "create_secret C namespace certSecretName certFolder createCert w =
    (case createCert w of
       (w, Some err) \<Rightarrow> (w, Return (Some err))
     | (w, None) \<Rightarrow>
         (case read_files C w certFolder cert_files [] of
            Inl err \<Rightarrow> (w, Return (Some err))
          | Inr data \<Rightarrow>
              (case sy_CreateSecret C (sy_Tick C w) \<lparr>se_namespace = namespace, se_name = certSecretName,
                      se_type = ''kubernetes.io/tls'', se_data = Some data\<rparr> of
                 (w, None) \<Rightarrow> (w, Return None)
               | (w, Some err) \<Rightarrow> if IsAlreadyExists err then (w, Retry) else (w, Return (Some err)))))"

definition ensure_once ::
  "'w system \<Rightarrow> string \<Rightarrow> string \<Rightarrow> string \<Rightarrow> ('w \<Rightarrow> 'w \<times> gerror option) \<Rightarrow> 'w \<Rightarrow> 'w \<times> outcome"
where
  "ensure_once C namespace certSecretName certFolder createCert w =
    (let w = sy_Tick C w in
     case sy_GetSecret C w namespace certSecretName of
       Inl err \<Rightarrow>
         if IsNotFound err = False then (w, Return (Some err))
         else create_secret C namespace certSecretName certFolder createCert w
     | Inr s \<Rightarrow>
         if isSecretValid s then (case getDataFromSecret C w s certFolder of (w, r) \<Rightarrow> (w, Return r))
         else
           (case sy_DeleteSecret C (sy_Tick C w) s of
              (w, Some err) \<Rightarrow> (w, Return (Some err))
            | (w, None) \<Rightarrow> create_secret C namespace certSecretName certFolder createCert w))"

text \<open>The recursion has no bound of its own; \<open>None\<close> is a run that does not end.\<close>

partial_function (option) ensureSecret ::
  "'w system \<Rightarrow> string \<Rightarrow> string \<Rightarrow> string \<Rightarrow> ('w \<Rightarrow> 'w \<times> gerror option) \<Rightarrow> 'w \<Rightarrow> ('w \<times> gerror option) option"
where
  "ensureSecret C namespace certSecretName certFolder createCert w =
    (case ensure_once C namespace certSecretName certFolder createCert w of
       (w, Return r) \<Rightarrow> Some (w, r)
     | (w, Retry) \<Rightarrow> ensureSecret C namespace certSecretName certFolder createCert w)"

lemma ensure_return:
  "ensure_once C ns n folder cert w = (w', Return r) \<Longrightarrow> ensureSecret C ns n folder cert w = Some (w', r)"
  by (subst ensureSecret.simps) simp

lemma ensure_retry:
  "ensure_once C ns n folder cert w = (w', Retry) \<Longrightarrow> ensureSecret C ns n folder cert w = ensureSecret C ns n folder cert w'"
  by (subst ensureSecret.simps) simp

definition EnsureCertSecrets :: "'w system \<Rightarrow> 'w \<Rightarrow> ('w \<times> gerror option) option" where
  "EnsureCertSecrets C w =
    (case CurrentNamespace C w of
       Inl err \<Rightarrow> Some (w, Some err)
     | Inr namespace \<Rightarrow>
         (case sy_CreateNamespace C w namespace of
            (w, r) \<Rightarrow>
              if (case r of None \<Rightarrow> False | Some err \<Rightarrow> IsAlreadyExists err = False) then Some (w, r)
              else
                (case ensureSecret C namespace WebhookCertSecretName WebhookCertFolder (GenerateWebhookCertificate C) w of
                   None \<Rightarrow> None
                 | Some (w, Some err) \<Rightarrow> Some (w, Some (WrapErr ''ensure webhook cert'' err))
                 | Some (w, None) \<Rightarrow>
                     (case ensureSecret C namespace APIServiceCertSecretName APIServiceCertFolder
                         (GenerateAPIServiceCertificate C) w of
                        None \<Rightarrow> None
                      | Some (w, Some err) \<Rightarrow> Some (w, Some (WrapErr ''ensure api service cert'' err))
                      | Some (w, None) \<Rightarrow> Some (w, None)))))"

lemma and_then_ok: "and_then r f = (w', None) \<longleftrightarrow> (\<exists>w. r = (w, None) \<and> f w = (w', None))"
  by (auto simp: and_then_def split: prod.splits option.splits)

section \<open>What the store relies on\<close>

text \<open>
  Over the contents of the files and the secrets: what is read is the content, a write sets the content of its file and
  nothing else, and a secret that was created is there.
\<close>

locale secret_store =
  fixes C :: "'w system" and content :: "'w \<Rightarrow> string \<Rightarrow> string option" and secrets :: "'w \<Rightarrow> string \<Rightarrow> string \<Rightarrow> secret option"
  assumes get_law: "sy_GetSecret C w ns n = Inr s \<Longrightarrow> secrets w ns n = Some s"
    and create_law: "sy_CreateSecret C w s = (w', None) \<Longrightarrow>
      secrets w' (se_namespace s) (se_name s) = Some s \<and> content w' = content w"
    and read_law: "sy_ReadFile C w p = Inr c \<Longrightarrow> content w p = Some c"
    and write_law: "sy_WriteFile C w p c m = (w', None) \<Longrightarrow> content w' = (content w)(p \<mapsto> c) \<and> secrets w' = secrets w"
    and mkdir_law: "sy_MkdirAll C w p = (w', None) \<Longrightarrow> content w' = content w \<and> secrets w' = secrets w"
    and tick_files: "content (sy_Tick C w) = content w"
begin

text \<open>The files of a folder are those of a secret.\<close>

definition installed :: "'w \<Rightarrow> string \<Rightarrow> secret \<Rightarrow> bool" where
  "installed w folder s \<longleftrightarrow> (\<forall>f \<in> set cert_files. content w (file_in folder f) = Some (secret_entry s f))"

lemma write_files_content:
  assumes "write_files C s folder files w = (w', None)"
  shows "secrets w' = secrets w \<and> (\<forall>p. content w' p = (if p \<in> file_in folder ` set files
    then Some (secret_entry s (drop (length folder + 1) p)) else content w p))"
  using assms
proof (induction files arbitrary: w)
  case (Cons f files)
  from Cons.prems obtain w1 where w1: "sy_WriteFile C w (file_in folder f) (secret_entry s f) data_mode = (w1, None)"
    "write_files C s folder files w1 = (w', None)" by (auto simp: and_then_ok)
  have "drop (length folder + 1) (file_in folder f) = f" by (simp add: file_in_def)
  then show ?case using Cons.IH [OF w1(2)] write_law [OF w1(1)] by auto
qed simp

lemma get_data_installs:
  assumes "getDataFromSecret C w s folder = (w', None)"
  shows "installed w' folder s \<and> secrets w' = secrets w"
proof -
  from assms obtain w1 where w1: "sy_MkdirAll C w folder = (w1, None)" "write_files C s folder cert_files w1 = (w', None)"
    by (auto simp: getDataFromSecret_def and_then_ok)
  have "drop (length folder + 1) (file_in folder f) = f" for f by (simp add: file_in_def)
  then show ?thesis
    using write_files_content [OF w1(2)] mkdir_law [OF w1(1)] by (auto simp: installed_def simp del: One_nat_def)
qed

lemma read_files_content:
  assumes "read_files C w folder files data = Inr out" "distinct files"
  shows "\<forall>f. (f \<in> set files \<longrightarrow> content w (file_in folder f) = map_of out f \<and> map_of out f \<noteq> None)
    \<and> (f \<notin> set files \<longrightarrow> map_of out f = map_of data f)"
  using assms
proof (induction files arbitrary: data)
  case (Cons f files)
  from Cons.prems obtain c where c: "sy_ReadFile C w (file_in folder f) = Inr c"
    "read_files C w folder files (put f c data) = Inr out" by (auto split: sum.splits)
  show ?case using Cons.IH [OF c(2)] Cons.prems(2) read_law [OF c(1)] by (auto simp: map_of_put)
qed simp

lemma cert_files_distinct: "distinct cert_files"
  by (simp add: cert_files_def)

lemma create_secret_agrees:
  assumes "create_secret C ns n folder cert w = (w', Return None)"
  shows "\<exists>s. secrets w' ns n = Some s \<and> isSecretValid s \<and> installed w' folder s"
proof -
  obtain w1 r where w1: "cert w = (w1, r)" by fastforce
  with assms have r: "r = None" by (auto simp: create_secret_def split: option.splits)
  obtain data where d: "read_files C w1 folder cert_files [] = Inr data"
    using assms w1 r by (auto simp: create_secret_def split: sum.splits)
  let ?s = "\<lparr>se_namespace = ns, se_name = n, se_type = ''kubernetes.io/tls'', se_data = Some data\<rparr>"
  have c: "sy_CreateSecret C (sy_Tick C w1) ?s = (w', None)"
    using assms w1 r d by (auto simp: create_secret_def split: prod.splits option.splits if_splits)
  note f = read_files_content [OF d cert_files_distinct]
  have content: "content w' = content w1" using create_law [OF c] tick_files by simp
  have "secret_entry ?s g = v" if "map_of data g = Some v" for g v using that by (simp add: secret_entry_def)
  then have "installed w' folder ?s" unfolding installed_def content using f by fastforce
  moreover have "map_of data ''ca.crt'' \<noteq> None \<and> map_of data ''tls.crt'' \<noteq> None \<and> map_of data ''tls.key'' \<noteq> None"
    using f by (simp add: cert_files_def)
  then have "isSecretValid ?s" by (simp add: isSecretValid_def)
  ultimately show ?thesis using create_law [OF c] by auto
qed

lemma ensure_once_agrees:
  assumes "ensure_once C ns n folder cert w = (w', Return None)"
  shows "\<exists>s. secrets w' ns n = Some s \<and> isSecretValid s \<and> installed w' folder s"
proof (cases "sy_GetSecret C (sy_Tick C w) ns n")
  case (Inl err)
  then have "create_secret C ns n folder cert (sy_Tick C w) = (w', Return None)"
    using assms by (auto simp: ensure_once_def Let_def split: if_splits)
  then show ?thesis by (rule create_secret_agrees)
next
  case (Inr s)
  show ?thesis
  proof (cases "isSecretValid s")
    case True
    have "getDataFromSecret C (sy_Tick C w) s folder = (w', None)"
      using assms Inr True by (auto simp: ensure_once_def Let_def split: prod.splits)
    from get_data_installs [OF this] show ?thesis using get_law [OF Inr] True by auto
  next
    case False
    then obtain w1 where "create_secret C ns n folder cert w1 = (w', Return None)"
      using assms Inr by (auto simp: ensure_once_def Let_def split: prod.splits option.splits)
    then show ?thesis by (rule create_secret_agrees)
  qed
qed

lemma ensure_agrees:
  assumes "ensureSecret D ns n folder cert w = Some r"
  shows "D = C \<Longrightarrow> snd r = None \<Longrightarrow> \<exists>s. secrets (fst r) ns n = Some s \<and> isSecretValid s \<and> installed (fst r) folder s"
  using assms
proof (induction D ns n folder cert w r rule: ensureSecret.raw_induct [rotated, consumes 1, case_names run])
  case (run f D ns n folder cert w r)
  obtain w1 out where once: "ensure_once C ns n folder cert w = (w1, out)" by fastforce
  show ?case
  proof (cases out)
    case (Return e)
    then have "r = (w1, e)" using run(2,3) once by simp
    then show ?thesis using ensure_once_agrees [of ns n folder cert w w1] once Return run(4) by simp
  next
    case Retry
    then have "f D ns n folder cert w1 = Some r" using run(2,3) once by simp
    from run(1) [OF this run(3,4)] show ?thesis .
  qed
qed

end

section \<open>A machine\<close>

text \<open>
  The files of a machine with their permissions, and the secrets of the cluster, on which other instances create a secret
  where there is none, or delete one, one action at a time. A secret is read with the name it is stored under. A process that is not root can read a file if the owner can.
\<close>

record machine_file =
  fi_content :: string
  fi_mode :: nat

record machine =
  mc_secrets :: "(string \<times> secret) list"
  mc_files :: "(string \<times> machine_file) list"
  mc_root :: bool
  mc_others :: "(string \<times> secret option) list"
  mc_key :: "gerror + string"
  mc_certificate :: "gerror + string"

definition secret_key :: "string \<Rightarrow> string \<Rightarrow> string" where
  "secret_key ns n = ns @ ''/'' @ n"

definition owner_reads :: "nat \<Rightarrow> bool" where "owner_reads m \<longleftrightarrow> odd (m div 256)"
definition owner_writes :: "nat \<Rightarrow> bool" where "owner_writes m \<longleftrightarrow> odd (m div 128)"

definition others_act :: "machine \<Rightarrow> machine" where
  "others_act m =
    (case mc_others m of
       [] \<Rightarrow> m
     | (k, None) # rest \<Rightarrow> m\<lparr>mc_others := rest, mc_secrets := del k (mc_secrets m)\<rparr>
     | (k, Some s) # rest \<Rightarrow> m\<lparr>mc_others := rest,
         mc_secrets := (if map_of (mc_secrets m) k = None then put k s (mc_secrets m) else mc_secrets m)\<rparr>)"

definition machine_Write :: "machine \<Rightarrow> string \<Rightarrow> string \<Rightarrow> nat \<Rightarrow> machine \<times> gerror option" where
  "machine_Write m p c mode =
    (case map_of (mc_files m) p of
       None \<Rightarrow> (m\<lparr>mc_files := put p \<lparr>fi_content = c, fi_mode = mode\<rparr> (mc_files m)\<rparr>, None)
     | Some f \<Rightarrow>
         if mc_root m \<or> owner_writes (fi_mode f) then (m\<lparr>mc_files := put p (f\<lparr>fi_content := c\<rparr>) (mc_files m)\<rparr>, None)
         else (m, Some (OtherErr ''permission denied'')))"

definition machine_system :: "machine system" where
  "machine_system = \<lparr>
     sy_Tick = others_act,
     sy_GetSecret = (\<lambda>m ns n. case map_of (mc_secrets m) (secret_key ns n) of
         None \<Rightarrow> Inl (NotFoundErr n) | Some s \<Rightarrow> Inr (s\<lparr>se_namespace := ns, se_name := n\<rparr>)),
     sy_CreateSecret = (\<lambda>m s. let k = secret_key (se_namespace s) (se_name s) in
         case map_of (mc_secrets m) k of
           Some _ \<Rightarrow> (m, Some (AlreadyExistsErr k))
         | None \<Rightarrow> (m\<lparr>mc_secrets := put k s (mc_secrets m)\<rparr>, None)),
     sy_DeleteSecret = (\<lambda>m s. let k = secret_key (se_namespace s) (se_name s) in
         case map_of (mc_secrets m) k of
           None \<Rightarrow> (m, Some (NotFoundErr k))
         | Some _ \<Rightarrow> (m\<lparr>mc_secrets := del k (mc_secrets m)\<rparr>, None)),
     sy_CreateNamespace = (\<lambda>m n. (m, Some (AlreadyExistsErr n))),
     sy_Stat = (\<lambda>m p. case map_of (mc_files m) p of None \<Rightarrow> Some (NotFoundErr p) | Some _ \<Rightarrow> None),
     sy_ReadFile = (\<lambda>m p. case map_of (mc_files m) p of
         None \<Rightarrow> Inl (NotFoundErr p)
       | Some f \<Rightarrow> if mc_root m \<or> owner_reads (fi_mode f) then Inr (fi_content f) else Inl (OtherErr ''permission denied'')),
     sy_WriteFile = machine_Write,
     sy_MkdirAll = (\<lambda>m p. (m, None)),
     sy_GenerateKey = mc_key,
     sy_CreateCertificate = (\<lambda>m key service namespace. mc_certificate m)\<rparr>"

abbreviation machine_content :: "machine \<Rightarrow> string \<Rightarrow> string option" where
  "machine_content m p \<equiv> map_option fi_content (map_of (mc_files m) p)"

abbreviation machine_secret :: "machine \<Rightarrow> string \<Rightarrow> string \<Rightarrow> secret option" where
  "machine_secret m ns n \<equiv> map_option (\<lambda>s. s\<lparr>se_namespace := ns, se_name := n\<rparr>) (map_of (mc_secrets m) (secret_key ns n))"

lemma others_act_files [simp]: "mc_files (others_act m) = mc_files m" "mc_root (others_act m) = mc_root m"
  by (auto simp: others_act_def split: list.split option.split)

lemma machine_Write_ok:
  "machine_Write m p c mode = (m', None) \<Longrightarrow>
   machine_content m' = (machine_content m)(p \<mapsto> c) \<and> mc_secrets m' = mc_secrets m \<and> mc_others m' = mc_others m"
  by (auto simp: machine_Write_def fun_eq_iff map_of_put split: option.splits if_splits)

interpretation machine: secret_store machine_system machine_content machine_secret
proof unfold_locales
  fix w p c m w'
  assume "sy_WriteFile machine_system w p c m = (w', None)"
  then show "machine_content w' = (machine_content w)(p \<mapsto> c) \<and> machine_secret w' = machine_secret w"
    using machine_Write_ok by (auto simp: machine_system_def)
qed (auto simp: machine_system_def Let_def map_of_put split: option.splits if_splits)

section \<open>Starting again ends\<close>

lemma Write_keeps: "machine_Write m p c mode = (m', r) \<Longrightarrow> mc_secrets m' = mc_secrets m \<and> mc_others m' = mc_others m"
  by (auto simp: machine_Write_def split: option.splits if_splits)

lemma generate_keeps:
  "generateCertificate machine_system folder service m = (m', r) \<Longrightarrow> mc_secrets m' = mc_secrets m \<and> mc_others m' = mc_others m"
  by (auto simp: generateCertificate_def writeCert_def and_then_def machine_system_def
      split: option.splits sum.splits prod.splits if_splits dest!: Write_keeps)

lemma others_act_less:
  "mc_others m \<noteq> [] \<Longrightarrow> length (mc_others (others_act m)) < length (mc_others m)"
  "length (mc_others (others_act m)) \<le> length (mc_others m)"
  "mc_others m = [] \<Longrightarrow> others_act m = m"
  by (auto simp: others_act_def split: list.splits option.splits)

lemma create_retry:
  assumes "create_secret machine_system ns n folder (generateCertificate machine_system folder service) m = (m', Retry)"
  shows "length (mc_others m') \<le> length (mc_others m) \<and> (mc_others m = [] \<longrightarrow> map_of (mc_secrets m) (secret_key ns n) \<noteq> None)"
proof -
  obtain m1 r where g: "generateCertificate machine_system folder service m = (m1, r)" by fastforce
  note k = generate_keeps [OF g]
  have "m' = others_act m1 \<and> map_of (mc_secrets (others_act m1)) (secret_key ns n) \<noteq> None"
    using assms g by (auto simp: create_secret_def machine_system_def Let_def split: option.splits sum.splits if_splits)
  then show ?thesis using k others_act_less(2) [of m1] others_act_less(3) [of m1] by auto
qed

lemma once_retry:
  assumes "ensure_once machine_system ns n folder (generateCertificate machine_system folder service) m = (m', Retry)"
  shows "length (mc_others m') < length (mc_others m)"
proof -
  let ?c = "generateCertificate machine_system folder service" and ?m1 = "others_act m"
  have tick: "sy_Tick machine_system = others_act" by (simp add: machine_system_def)
  consider "map_of (mc_secrets ?m1) (secret_key ns n) = None" "create_secret machine_system ns n folder ?c ?m1 = (m', Retry)"
    | m2 where "mc_secrets m2 = del (secret_key ns n) (mc_secrets (others_act ?m1))" "mc_others m2 = mc_others (others_act ?m1)"
        "create_secret machine_system ns n folder ?c m2 = (m', Retry)"
  proof (cases "map_of (mc_secrets ?m1) (secret_key ns n)")
    case None
    then show thesis using assms that(1) by (simp add: ensure_once_def tick) (simp add: machine_system_def)
  next
    case (Some s)
    let ?s = "s\<lparr>se_namespace := ns, se_name := n\<rparr>"
    have g: "sy_GetSecret machine_system ?m1 ns n = Inr ?s" by (simp add: machine_system_def Some)
    have v: "\<not> isSecretValid ?s" using assms g by (auto simp: ensure_once_def tick Let_def split: prod.splits)
    then obtain m2 where d: "sy_DeleteSecret machine_system (others_act ?m1) ?s = (m2, None)"
      and c: "create_secret machine_system ns n folder ?c m2 = (m', Retry)"
      using assms g by (auto simp: ensure_once_def tick Let_def split: prod.splits option.splits)
    have "mc_secrets m2 = del (secret_key ns n) (mc_secrets (others_act ?m1)) \<and> mc_others m2 = mc_others (others_act ?m1)"
      using d by (auto simp: machine_system_def Let_def split: option.splits)
    then show thesis using that(2) c by blast
  qed
  then show ?thesis
  proof cases
    case 1
    then show ?thesis
      using create_retry [OF 1(2)] others_act_less [of m] by (cases "mc_others m = []") auto
  next
    case 2
    then have "mc_others m2 \<noteq> []" using create_retry [OF 2(3)] by (auto simp: map_of_del)
    then have "mc_others m \<noteq> []" using 2(2) others_act_less(3) by metis
    then show ?thesis
      using create_retry [OF 2(3)] 2(2) others_act_less [of m] others_act_less(2) [of ?m1] by simp
  qed
qed

section \<open>Properties\<close>

text \<open>C37. Starting again ends: whatever other instances do to the secrets while an instance makes sure that it has a certificate,
  as long as they act finitely often, it returns.\<close>

theorem ensureSecret_returns:
  "\<exists>m' r. ensureSecret machine_system ns n folder (generateCertificate machine_system folder service) m = Some (m', r)"
proof (induction "length (mc_others m)" arbitrary: m rule: less_induct)
  case less
  let ?c = "generateCertificate machine_system folder service"
  obtain m1 out where once: "ensure_once machine_system ns n folder ?c m = (m1, out)" by fastforce
  show ?case
  proof (cases out)
    case Retry
    with once_retry [of ns n folder service m m1] once less [of m1] show ?thesis by (simp add: ensure_retry)
  next
    case (Return r)
    then show ?thesis using ensure_return [of machine_system ns n folder ?c m m1 r] once by blast
  qed
qed

text \<open>C36. All instances serve the certificate of the secret: when an instance returns without an error, the cluster has a valid
  secret, and the files of the instance are its entries, whether the instance has read it or created it.\<close>

theorem ensureSecret_agrees:
  assumes "ensureSecret machine_system ns n folder cert m = Some (m', None)"
  shows "\<exists>s. machine_secret m' ns n = Some s \<and> isSecretValid s
    \<and> (\<forall>f \<in> set cert_files. machine_content m' (file_in folder f) = Some (secret_entry s f))"
  using machine.ensure_agrees [OF assms refl] unfolding machine.installed_def by simp

text \<open>A certificate that was generated cannot be read by its owner: its files are written with the mode 066, which gives the
  owner nothing, so that an instance that does not run as root fails to install the certificate it has just generated.\<close>

lemma generated_unreadable:
  assumes "\<not> mc_root m" "mc_others m = []" "machine_secret m ns n = None"
    and "\<forall>f \<in> set cert_files. map_of (mc_files m) (file_in folder f) = None"
    and "CurrentNamespace machine_system m = Inr namespace" "mc_key m = Inr key" "mc_certificate m = Inr crt"
  shows "\<exists>m'. ensureSecret machine_system ns n folder (generateCertificate machine_system folder service) m
    = Some (m', Some (OtherErr ''permission denied''))"
proof -
  let ?file = "\<lambda>c. \<lparr>fi_content = c, fi_mode = cert_mode\<rparr>"
  let ?m = "m\<lparr>mc_files := put (file_in folder ''tls.key'') (?file key) (put (file_in folder ''ca.crt'') (?file crt)
    (put (file_in folder ''tls.crt'') (?file crt) (mc_files m)))\<rparr>"
  have none: "map_of (mc_files m) (file_in folder ''tls.crt'') = None" "map_of (mc_files m) (file_in folder ''ca.crt'') = None"
    "map_of (mc_files m) (file_in folder ''tls.key'') = None" using assms(4) by (simp_all add: cert_files_def)
  have "generateCertificate machine_system folder service m = writeCert machine_system m folder crt key"
    using assms(5-7) none(3) by (simp add: generateCertificate_def) (simp add: machine_system_def)
  also have "\<dots> = (?m, None)"
    using none by (simp add: writeCert_def and_then_def machine_system_def machine_Write_def map_of_put file_in_def)
  finally have g: "generateCertificate machine_system folder service m = (?m, None)" .
  have "\<not> owner_reads cert_mode" by (simp add: owner_reads_def cert_mode_def)
  then have "sy_ReadFile machine_system ?m (file_in folder ''ca.crt'') = Inl (OtherErr ''permission denied'')"
    using assms(1) by (simp add: machine_system_def map_of_put file_in_def)
  then have "read_files machine_system ?m folder cert_files [] = Inl (OtherErr ''permission denied'')"
    by (simp add: cert_files_def)
  then have c: "create_secret machine_system ns n folder (generateCertificate machine_system folder service) m
      = (?m, Return (Some (OtherErr ''permission denied'')))"
    by (simp add: create_secret_def g)
  have "ensure_once machine_system ns n folder (generateCertificate machine_system folder service) m
      = create_secret machine_system ns n folder (generateCertificate machine_system folder service) m"
    using assms(2,3) by (simp add: ensure_once_def others_act_less(3) machine_system_def)
  from ensure_return [OF trans [OF this c]] show ?thesis by blast
qed

text \<open>Another instance creates the secret between the look at it and the attempt to create it.\<close>

definition ex_tls :: secret where
  "ex_tls = \<lparr>se_namespace = ''kiosk'', se_name = WebhookCertSecretName, se_type = ''kubernetes.io/tls'',
     se_data = Some [(''ca.crt'', ''A''), (''tls.crt'', ''B''), (''tls.key'', ''C'')]\<rparr>"

definition ex_machine :: "bool \<Rightarrow> (string \<times> secret option) list \<Rightarrow> machine" where
  "ex_machine root others = \<lparr>mc_secrets = [], mc_files = [(''/var/run/secrets/kubernetes.io/serviceaccount/namespace'',
       \<lparr>fi_content = ''kiosk'', fi_mode = data_mode\<rparr>)],
     mc_root = root, mc_others = others, mc_key = Inr ''key'', mc_certificate = Inr ''cert''\<rparr>"

definition ex_raced where
  "ex_raced = ensureSecret machine_system ''kiosk'' WebhookCertSecretName WebhookCertFolder
     (generateCertificate machine_system WebhookCertFolder WebhookServiceName)
     (ex_machine True [(''other'', None), (secret_key ''kiosk'' WebhookCertSecretName, Some ex_tls)])"

lemma ex_raced_ok: "map_option snd ex_raced = Some None"
proof -
  define m0 where "m0 = ex_machine True [(''other'', None), (secret_key ''kiosk'' WebhookCertSecretName, Some ex_tls)]"
  define once where "once = ensure_once machine_system ''kiosk'' WebhookCertSecretName WebhookCertFolder
    (generateCertificate machine_system WebhookCertFolder WebhookServiceName)"
  have "snd (once m0) = Retry" unfolding once_def m0_def by code_simp
  then have "ex_raced = ensureSecret machine_system ''kiosk'' WebhookCertSecretName WebhookCertFolder
      (generateCertificate machine_system WebhookCertFolder WebhookServiceName) (fst (once m0))"
    unfolding ex_raced_def once_def m0_def [symmetric] by (intro ensure_retry) (metis prod.collapse)
  moreover have "snd (once (fst (once m0))) = Return None" unfolding once_def m0_def by code_simp
  then have "ensureSecret machine_system ''kiosk'' WebhookCertSecretName WebhookCertFolder
      (generateCertificate machine_system WebhookCertFolder WebhookServiceName) (fst (once m0)) = Some (fst (once (fst (once m0))), None)"
    unfolding once_def by (intro ensure_return) (metis prod.collapse)
  ultimately have "ex_raced = Some (fst (once (fst (once m0))), None)" by (rule trans)
  from arg_cong [OF this, of "map_option snd"] show ?thesis by simp
qed

theorem ensureSecret_agrees_witness:
  "\<exists>m'. ex_raced = Some (m', None) \<and> (\<exists>s. machine_secret m' ''kiosk'' WebhookCertSecretName = Some s
     \<and> machine_content m' (file_in WebhookCertFolder ''tls.key'') = Some (secret_entry s ''tls.key''))"
proof -
  obtain m' where m': "ex_raced = Some (m', None)" using ex_raced_ok by (cases ex_raced) auto
  from ensureSecret_agrees [OF m' [unfolded ex_raced_def]] show ?thesis unfolding m' by (auto simp: cert_files_def)
qed

theorem generated_unreadable_witness:
  "\<exists>m'. ensureSecret machine_system ''kiosk'' WebhookCertSecretName WebhookCertFolder
     (generateCertificate machine_system WebhookCertFolder WebhookServiceName) (ex_machine False [])
   = Some (m', Some (OtherErr ''permission denied''))"
proof (rule generated_unreadable)
  show "CurrentNamespace machine_system (ex_machine False []) = Inr ''kiosk''" by code_simp
  show "\<forall>f \<in> set cert_files. map_of (mc_files (ex_machine False [])) (file_in WebhookCertFolder f) = None" by code_simp
qed (simp_all add: ex_machine_def)

end
