(* ===== verification/Helpers.thy ===== *)
theory Helpers
  imports AccountAdmission Validation Certificates
begin

text \<open>
  Helpers that several parts of the program use: the comparison of string slices and the initialising mark of
  pkg/util/util.go, the search for the deployment that owns the running pod of pkg/util/clienthelper/helper.go, the
  listers of kube/pkg/quota/v1/generic/evaluator.go that answer only when their informer has synced, the wait of the
  account quota admission for the manager's caches (pkg/manager/quota/admission.go), and the check of the configuration
  of the quota admission.
\<close>

section \<open>Comparing strings\<close>

text \<open>\<open>find_unchecked\<close> is the inner loop of \<open>StringsEqual\<close>: the first index with the value that is not yet
  checked.\<close>

definition find_unchecked :: "string list \<Rightarrow> nat set \<Rightarrow> string \<Rightarrow> nat option" where
  "find_unchecked b checkedIndexes needle = find (\<lambda>i. b ! i = needle \<and> i \<notin> checkedIndexes) [0..<length b]"

fun check_needles :: "string list \<Rightarrow> string list \<Rightarrow> nat set \<Rightarrow> bool" where
  "check_needles b [] checkedIndexes = True"
| "check_needles b (needle # a) checkedIndexes =
     (case find_unchecked b checkedIndexes needle of
        None \<Rightarrow> False
      | Some i \<Rightarrow> check_needles b a (insert i checkedIndexes))"

definition StringsEqual :: "string list \<Rightarrow> string list \<Rightarrow> bool" where
  "StringsEqual a b = (if length a \<noteq> length b then False else check_needles b a {})"

text \<open>The strings of \<open>b\<close> that are still to be found.\<close>

definition yet_to_find :: "string list \<Rightarrow> nat set \<Rightarrow> string multiset" where
  "yet_to_find b C = image_mset ((!) b) (mset_set ({..<length b} - C))"

lemma yet_to_find_empty: "yet_to_find b {} = mset b"
  by (simp add: yet_to_find_def lessThan_atLeast0 flip: mset_upt) (metis map_nth mset_map)

lemma find_unchecked_Some:
  assumes "find_unchecked b C needle = Some i"
  shows "yet_to_find b C = add_mset needle (yet_to_find b (insert i C))"
proof -
  have i: "i < length b" "b ! i = needle" "i \<notin> C"
    using assms by (auto simp: find_unchecked_def find_Some_iff)
  define D where "D = {..<length b} - insert i C"
  have "{..<length b} - C = insert i D" "i \<notin> D" "finite D" using i by (auto simp: D_def)
  then show ?thesis using i(2) by (simp add: yet_to_find_def flip: D_def)
qed

lemma find_unchecked_None: "find_unchecked b C needle = None \<Longrightarrow> needle \<notin># yet_to_find b C"
  by (auto simp: find_unchecked_def find_None_iff yet_to_find_def)

lemma check_needles_iff: "check_needles b a C \<longleftrightarrow> mset a \<subseteq># yet_to_find b C"
proof (induction a arbitrary: C)
  case (Cons n a)
  show ?case
  proof (cases "find_unchecked b C n")
    case None
    then have "\<not> mset (n # a) \<subseteq># yet_to_find b C" using find_unchecked_None
      by (metis list.set_intros(1) mset_subset_eqD set_mset_mset)
    then show ?thesis by (simp add: None)
  next
    case (Some i)
    then show ?thesis by (simp add: Cons.IH find_unchecked_Some)
  qed
qed simp

section \<open>Namespaces that are being initialised\<close>

definition IsNamespaceInitializing :: "obj_meta \<Rightarrow> bool" where
  "IsNamespaceInitializing namespace = (map_of (om_annotations namespace) SpaceAnnotationInitializing = Some ''true'')"

section \<open>The deployment of the running pod\<close>

record 'w deployment_client =
  dc_CurrentNamespace :: "'w \<Rightarrow> gerror + string"
  dc_CurrentPod :: "'w \<Rightarrow> string"
  dc_GetPod :: "'w \<Rightarrow> string \<Rightarrow> string \<Rightarrow> gerror + obj_meta"
  dc_GetReplicaSet :: "'w \<Rightarrow> string \<Rightarrow> string \<Rightarrow> gerror + obj_meta"

text \<open>The owner references of an object; the accessor works on every object the client returns.\<close>

definition OwnerOf :: "obj_meta \<Rightarrow> owner_ref list" where
  "OwnerOf obj = om_ownerReferences obj"

definition OwningDeployment :: "'w deployment_client \<Rightarrow> 'w \<Rightarrow> gerror + owner_ref option" where
  "OwningDeployment C w =
    (case dc_CurrentNamespace C w of
       Inl err \<Rightarrow> Inl err
     | Inr namespace \<Rightarrow>
         (case dc_GetPod C w namespace (dc_CurrentPod C w) of
            Inl err \<Rightarrow> if IsNotFound err then Inr None else Inl err
          | Inr currentPod \<Rightarrow>
              (let ownerReferences = OwnerOf currentPod in
               if length ownerReferences \<noteq> 1 then Inr None
               else if ow_apiVersion (ownerReferences ! 0) \<noteq> ''apps/v1'' \<or> ow_kind (ownerReferences ! 0) \<noteq> ''ReplicaSet'' then Inr None
               else
                 (case dc_GetReplicaSet C w namespace (ow_name (ownerReferences ! 0)) of
                    Inl err \<Rightarrow> if IsNotFound err then Inr None else Inl err
                  | Inr currentReplicaSet \<Rightarrow>
                      (let ownerReferences = OwnerOf currentReplicaSet in
                       if length ownerReferences \<noteq> 1 then Inr None
                       else if ow_apiVersion (ownerReferences ! 0) \<noteq> ''apps/v1'' \<or> ow_kind (ownerReferences ! 0) \<noteq> ''Deployment'' then Inr None
                       else Inr (Some (ownerReferences ! 0)))))))"

lemma one_owner_iff: "length rs = Suc 0 \<and> P (rs ! 0) \<longleftrightarrow> (\<exists>r. rs = [r] \<and> P r)"
  by (auto simp: length_Suc_conv)

text \<open>A deployment is found exactly through a pod whose only owner is a replica set whose only owner is the deployment.\<close>

lemma OwningDeployment_iff:
  "OwningDeployment C w = Inr (Some d) \<longleftrightarrow>
    (\<exists>ns pod r rs. dc_CurrentNamespace C w = Inr ns \<and> dc_GetPod C w ns (dc_CurrentPod C w) = Inr pod
       \<and> OwnerOf pod = [r] \<and> ow_apiVersion r = ''apps/v1'' \<and> ow_kind r = ''ReplicaSet''
       \<and> dc_GetReplicaSet C w ns (ow_name r) = Inr rs
       \<and> OwnerOf rs = [d] \<and> ow_apiVersion d = ''apps/v1'' \<and> ow_kind d = ''Deployment'')"
  unfolding OwningDeployment_def Let_def
  by (auto simp: length_Suc_conv split: sum.splits if_splits)

section \<open>Listers that wait for their informer\<close>

text \<open>An informer as its lister sees it: whether it has synced, and the objects of a namespace in its store. A lister is made
  for each listing, so that what it remembers of the informer is used once.\<close>

record informer =
  if_HasSynced :: bool
  if_objects :: "string \<Rightarrow> runtime_object list"

definition ListerFuncForResourceFunc :: "(group_resource \<Rightarrow> gerror + informer) \<Rightarrow> lister_for_resource" where
  "ListerFuncForResourceFunc f = (\<lambda>gvr. case f gvr of
     Inl err \<Rightarrow> Inl err
   | Inr informer \<Rightarrow> Inr \<lparr>nl_hasSynced = fst (cachedHasSynced False (if_HasSynced informer)),
       nl_notReadyErr = OtherErr (gr_resource gvr @ '' not yet synced''),
       nl_List = (\<lambda>namespace. Inr (if_objects informer namespace))\<rparr>)"

definition not_ready :: "(group_resource \<Rightarrow> gerror + informer) \<Rightarrow> group_resource \<Rightarrow> bool" where
  "not_ready f gr \<longleftrightarrow> (case f gr of Inl err \<Rightarrow> True | Inr informer \<Rightarrow> \<not> if_HasSynced informer)"

lemma list_not_ready: "isl (ListResourceUsingListerFunc (ListerFuncForResourceFunc f) gr ns) \<longleftrightarrow> not_ready f gr"
  by (simp add: ListResourceUsingListerFunc_def ListerFuncForResourceFunc_def not_ready_def cachedHasSynced_def
      protectedNamespaceLister_List_def split: sum.split)

lemma usage_not_ready:
  "not_ready f gr \<Longrightarrow> isl (stats_result (CalculateUsageStats options
     (ListResourceUsingListerFunc (ListerFuncForResourceFunc f) gr) scopeFunc usageFunc))"
  using list_not_ready [of f gr "uso_Namespace options"]
  by (auto simp: CalculateUsageStats_def stats_result_def Let_def isl_def)

lemma NewEvaluators_from:
  "set (NewEvaluators order f now) \<subseteq>
      {NewPodEvaluator f now, NewServiceEvaluator f, NewPersistentVolumeClaimEvaluator f}
      \<union> range (\<lambda>(gr, al). NewObjectCountEvaluator gr (ListResourceUsingListerFunc f gr) al)"
proof -
  have "set (fold (\<lambda>(gr, al) result. result @ [NewObjectCountEvaluator gr (ListResourceUsingListerFunc f gr) al]) xs acc)
      \<subseteq> set acc \<union> range (\<lambda>(gr, al). NewObjectCountEvaluator gr (ListResourceUsingListerFunc f gr) al)" for xs acc
    by (induction xs arbitrary: acc) (fastforce simp: image_iff)+
  then show ?thesis unfolding NewEvaluators_def Let_def by (rule subset_trans) simp
qed

text \<open>No usage is counted from a partial cache: while the informer of a resource cannot be had or has not synced, the evaluator of
  the resource reports an error instead of a usage.\<close>

lemma unsynced_usage_fails:
  assumes "e \<in> set (NewEvaluators order (ListerFuncForResourceFunc f) now)" "not_ready f (ev_GroupResource e)"
  shows "isl (ev_UsageStats e options)"
proof -
  consider "e = NewPodEvaluator (ListerFuncForResourceFunc f) now" | "e = NewServiceEvaluator (ListerFuncForResourceFunc f)"
    | "e = NewPersistentVolumeClaimEvaluator (ListerFuncForResourceFunc f)"
    | gr al where "e = NewObjectCountEvaluator gr (ListResourceUsingListerFunc (ListerFuncForResourceFunc f) gr) al"
    using assms(1) NewEvaluators_from by fastforce
  then show ?thesis using assms(2)
    by cases (simp_all add: NewPodEvaluator_def NewServiceEvaluator_def NewPersistentVolumeClaimEvaluator_def
        NewObjectCountEvaluator_def Let_def usage_not_ready)
qed

section \<open>Waiting for the caches\<close>

text \<open>The informers of namespaces and account quotas, which the cache may fail to provide; whether each has synced depends on the
  time, in steps of a tenth of a second. The loop looks at both, then waits for the next step or for the timeout.\<close>

fun wait_synced :: "(nat \<Rightarrow> bool) \<Rightarrow> (nat \<Rightarrow> bool) \<Rightarrow> nat \<Rightarrow> nat \<Rightarrow> bool" where
  "wait_synced namespaces quotas 0 t = (namespaces t \<and> quotas t)"
| "wait_synced namespaces quotas (Suc left) t =
     (if \<not> namespaces t \<or> \<not> quotas t then wait_synced namespaces quotas left (Suc t) else True)"

definition sync_ticks :: nat where "sync_ticks = 100"

definition waitForSyncedStore :: "gerror + (nat \<Rightarrow> bool) \<Rightarrow> gerror + (nat \<Rightarrow> bool) \<Rightarrow> nat \<Rightarrow> bool" where
  "waitForSyncedStore namespaceInformer accountQuotaInformer now =
    (case namespaceInformer of
       Inl err \<Rightarrow> False
     | Inr namespaces \<Rightarrow>
         (case accountQuotaInformer of
            Inl err \<Rightarrow> False
          | Inr quotas \<Rightarrow> wait_synced namespaces quotas sync_ticks now))"

lemma wait_synced_iff: "wait_synced n q k t \<longleftrightarrow> (\<exists>i \<in> {t..t + k}. n i \<and> q i)"
proof (induction k arbitrary: t)
  case (Suc k)
  have "{t..t + Suc k} = insert t {Suc t..Suc t + k}" by auto
  then show ?case using Suc [of "Suc t"] by auto
qed simp

lemma waitForSyncedStore_iff:
  "waitForSyncedStore ni qi now \<longleftrightarrow> (\<exists>n q. ni = Inr n \<and> qi = Inr q \<and> (\<exists>i \<in> {now..now + 100}. n i \<and> q i))"
  by (auto simp: waitForSyncedStore_def wait_synced_iff sync_ticks_def split: sum.splits)

text \<open>A request that must be checked is refused if the caches do not sync within ten seconds.\<close>

lemma account_Validate_unsynced:
  assumes "at_subresource a = []" "at_namespace a \<noteq> []" "\<not> waitForSyncedStore ni qi now"
  shows "account_Validate client config (waitForSyncedStore ni qi now) a ev s
    = (Some (ForbiddenErr ''caches not synchronized''), ev, s)"
  using assms by (simp add: account_Validate_def)

section \<open>The configuration of the quota admission\<close>

definition ValidateConfiguration :: "limited_resource list \<Rightarrow> field_error list" where
  "ValidateConfiguration limitedResources =
    concat (map (\<lambda>(i, limitedResource).
        error_if (length (li_Resource limitedResource) = 0) (FieldRequired (Child (Index ''limitedResources'' i) ''resource'')))
      (enumerate 0 limitedResources))"

lemma ValidateConfiguration_iff:
  "ValidateConfiguration ls = [] \<longleftrightarrow> (\<forall>l \<in> set ls. li_Resource l \<noteq> [])"
  by (simp add: ValidateConfiguration_def all_set_conv_all_nth nth_enumerate_eq)

text \<open>Two slices of strings are equal for \<open>StringsEqual\<close> exactly if they hold the same strings the same number of times,
  in any order.\<close>

lemma StringsEqual_mset: "StringsEqual a b \<longleftrightarrow> mset a = mset b"
proof (cases "length a = length b")
  case True
  have "mset a \<subseteq># mset b \<longleftrightarrow> mset a = mset b"
    using True by (metis mset_subset_size size_mset subset_mset.le_less nat_neq_iff)
  then show ?thesis by (simp add: StringsEqual_def True check_needles_iff yet_to_find_empty)
next
  case False
  then show ?thesis by (metis StringsEqual_def mset_eq_length)
qed

end
