(* ===== verification/AccountQuotaController.thy ===== *)
theory AccountQuotaController
  imports AccountQuota
begin

text \<open>
  The controller that recalculates account quotas (\<open>pkg/manager/quota/controller/controller.go\<close>): which
  events enqueue which quotas in which of its two queues, the work loop, and the full sync of a quota's
  status. The manager's client and the informers behind the evaluators are parameters.
\<close>

section \<open>State and client\<close>

record 'w qc_client =
  qc_Get :: "string \<Rightarrow> 'w \<Rightarrow> gerror + account_quota"
  qc_List :: "'w \<Rightarrow> gerror + account_quota list"
  qc_ListByAccount :: "string \<Rightarrow> 'w \<Rightarrow> gerror + account_quota list"
  qc_GetNamespace :: "string \<Rightarrow> 'w \<Rightarrow> gerror + namespace"
  qc_ListNamespaces :: "string \<Rightarrow> 'w \<Rightarrow> gerror + namespace list"
  qc_UpdateStatus :: "account_quota \<Rightarrow> 'w \<Rightarrow> gerror option \<times> 'w"

record quota_controller =
  cq_queue :: workqueue
  cq_missingUsageQueue :: workqueue
  cq_registry :: quota_registry

definition GetAccountFromNamespace :: "obj_meta \<Rightarrow> string" where
  "GetAccountFromNamespace m = label_value (om_labels m) SpaceLabelAccount"

text \<open>The key of an object: its name, after its namespace if it has one.\<close>

definition KeyFunc :: "obj_meta \<Rightarrow> string" where
  "KeyFunc m = (if om_namespace m \<noteq> [] then om_namespace m @ ''/'' @ om_name m else om_name m)"

section \<open>Events\<close>

definition enqueueAccountQuota :: "account_quota \<Rightarrow> quota_controller \<Rightarrow> quota_controller" where
  "enqueueAccountQuota q rq = rq\<lparr>cq_queue := wq_Add (KeyFunc (aq_meta q)) (cq_queue rq)\<rparr>"

definition enqueueAll :: "'w qc_client \<Rightarrow> 'w \<Rightarrow> quota_controller \<Rightarrow> quota_controller" where
  "enqueueAll client w rq =
    (case qc_List client w of
       Inl _ \<Rightarrow> rq
     | Inr quotas \<Rightarrow> fold enqueueAccountQuota quotas rq)"

definition enqueueNamespace :: "'w qc_client \<Rightarrow> 'w \<Rightarrow> namespace \<Rightarrow> quota_controller \<Rightarrow> quota_controller" where
  "enqueueNamespace client w namespace rq =
    (let account = GetAccountFromNamespace (ns_meta namespace) in
     if account = [] then rq
     else case qc_ListByAccount client account w of
            Inl _ \<Rightarrow> rq
          | Inr quotaList \<Rightarrow> fold (\<lambda>quota rq. rq\<lparr>cq_queue := wq_Add (om_name (aq_meta quota)) (cq_queue rq)\<rparr>) quotaList rq)"

definition updateNamespace :: "'w qc_client \<Rightarrow> 'w \<Rightarrow> namespace \<Rightarrow> namespace \<Rightarrow> quota_controller \<Rightarrow> quota_controller" where
  "updateNamespace client w oldNamespace newNamespace rq =
    (if GetAccountFromNamespace (ns_meta oldNamespace) = GetAccountFromNamespace (ns_meta newNamespace) then rq
     else enqueueNamespace client w newNamespace (enqueueNamespace client w oldNamespace rq))"

text \<open>\<open>Semantic.DeepEqual\<close> on resource lists: nil and empty maps are equal.\<close>

definition SemanticDeepEqual :: "resource_list \<Rightarrow> resource_list \<Rightarrow> bool" where
  "SemanticDeepEqual a b \<longleftrightarrow> length a = length b \<and> list_all (\<lambda>(k, v). map_of b k = Some v) a"

definition addQuota :: "account_quota \<Rightarrow> quota_controller \<Rightarrow> quota_controller" where
  "addQuota accountQuota rq =
    (let key = KeyFunc (aq_meta accountQuota);
         missing = rq\<lparr>cq_missingUsageQueue := wq_Add key (cq_missingUsageQueue rq)\<rparr>
     in if \<not> SemanticDeepEqual (qs_hard (aq_quota accountQuota)) (the_rl (st_hard (aq_total accountQuota))) then missing
        else if list_ex (\<lambda>constraint. \<not> has_key (the_rl (st_used (aq_total accountQuota))) constraint
              \<and> list_ex (\<lambda>evaluator. length (ev_MatchingResources evaluator [constraint]) > 0) (Registry_List (cq_registry rq)))
            (ResourceNames (the_rl (st_hard (aq_total accountQuota)))) then missing
        else rq\<lparr>cq_queue := wq_Add key (cq_queue rq)\<rparr>)"

definition updateQuota :: "account_quota \<Rightarrow> account_quota \<Rightarrow> quota_controller \<Rightarrow> quota_controller" where
  "updateQuota oldAccountQuota curAccountQuota rq =
    (if Equals (qs_hard (aq_quota oldAccountQuota)) (qs_hard (aq_quota curAccountQuota)) then rq
     else addQuota curAccountQuota rq)"

definition replenishQuota :: "'w qc_client \<Rightarrow> 'w \<Rightarrow> group_resource \<Rightarrow> string \<Rightarrow> quota_controller \<Rightarrow> quota_controller" where
  "replenishQuota client w groupResource namespace rq =
    (case Registry_Get (cq_registry rq) groupResource of
       None \<Rightarrow> rq
     | Some evaluator \<Rightarrow>
         (case qc_GetNamespace client namespace w of
            Inl _ \<Rightarrow> rq
          | Inr namespaceObject \<Rightarrow>
              let account = GetAccountFromNamespace (ns_meta namespaceObject) in
              if account = [] then rq
              else (case qc_ListByAccount client account w of
                      Inl _ \<Rightarrow> rq
                    | Inr accountQuotaList \<Rightarrow>
                        if length accountQuotaList = 0 then rq
                        else fold (\<lambda>accountQuota rq.
                               let accountQuotaResources = ResourceNames (the_rl (st_hard (aq_total accountQuota)))
                               in if length (ev_MatchingResources evaluator accountQuotaResources) > 0
                                  then enqueueAccountQuota accountQuota rq else rq) accountQuotaList rq)))"

section \<open>The sync of a quota\<close>

text \<open>One namespace: the status used so far, overwritten with the new usage and masked by the limits.\<close>

definition sync_used :: "account_quota \<Rightarrow> resource_list \<Rightarrow> string \<Rightarrow> resource_list \<Rightarrow> resource_list" where
  "sync_used accountQuota hardLimits name newUsage =
    (let usedList = fold (\<lambda>nsStatus usedList.
           if qn_namespace nsStatus = name \<and> st_used (qn_status nsStatus) \<noteq> None
           then Add_rl [] (the_rl (st_used (qn_status nsStatus))) else usedList) (aq_namespaces accountQuota) [];
         usedList = fold (\<lambda>(key, value). put key value) newUsage usedList
     in Mask_rl usedList (ResourceNames hardLimits))"

fun sync_namespaces ::
  "quota_registry \<Rightarrow> account_quota \<Rightarrow> resource_list \<Rightarrow> namespace list \<Rightarrow>
   quota_by_namespace list \<times> resource_list \<times> gerror list \<Rightarrow> quota_by_namespace list \<times> resource_list \<times> gerror list"
where
  "sync_namespaces registry accountQuota hardLimits [] acc = acc"
| "sync_namespaces registry accountQuota hardLimits (n # namespaces) (used, totalUsed, errors) =
     (let name = om_name (ns_meta n);
          (newUsage, err) = CalculateUsage name (qs_scopes (aq_quota accountQuota)) hardLimits registry
            (qs_scopeSelector (aq_quota accountQuota));
          errors = (case err of Some e \<Rightarrow> errors @ [e] | None \<Rightarrow> errors);
          usedList = sync_used accountQuota hardLimits name newUsage
      in sync_namespaces registry accountQuota hardLimits namespaces
           (used @ [\<lparr>qn_namespace = name, qn_status = \<lparr>st_hard = None, st_used = Some usedList\<rparr>\<rparr>],
            Add_rl totalUsed usedList, errors))"

definition sync_usage :: "quota_registry \<Rightarrow> account_quota \<Rightarrow> namespace list \<Rightarrow> account_quota \<times> gerror list" where
  "sync_usage registry accountQuota namespaceList =
    (let hardLimits = Add_rl [] (qs_hard (aq_quota accountQuota));
         (used, totalUsed, errors) = sync_namespaces registry accountQuota hardLimits namespaceList ([], [], [])
     in (accountQuota\<lparr>aq_total := \<lparr>st_hard = Some hardLimits, st_used = Some totalUsed\<rparr>, aq_namespaces := used\<rparr>, errors))"

definition sync_dirty :: "account_quota \<Rightarrow> account_quota \<Rightarrow> bool" where
  "sync_dirty accountQuota usage \<longleftrightarrow>
     \<not> SemanticDeepEqual (qs_hard (aq_quota accountQuota)) (the_rl (st_hard (aq_total accountQuota)))
     \<or> st_hard (aq_total accountQuota) = None \<or> st_used (aq_total accountQuota) = None
     \<or> \<not> Equals (the_rl (st_used (aq_total usage))) (the_rl (st_used (aq_total accountQuota)))"

definition syncAccountQuota :: "'w qc_client \<Rightarrow> quota_registry \<Rightarrow> account_quota \<Rightarrow> 'w \<Rightarrow> gerror option \<times> 'w" where
  "syncAccountQuota client registry accountQuota w =
    (case qc_ListNamespaces client (aq_account accountQuota) w of
       Inl err \<Rightarrow> (Some err, w)
     | Inr namespaceList \<Rightarrow>
         (case sync_usage registry accountQuota namespaceList of
            (usage, errors) \<Rightarrow>
              if sync_dirty accountQuota usage then
                (case qc_UpdateStatus client usage w of
                   (Some err, w) \<Rightarrow> (NewAggregate (errors @ [err]), w)
                 | (None, w) \<Rightarrow> (NewAggregate errors, w))
              else (NewAggregate errors, w)))"

definition syncAccountQuotaFromKey :: "'w qc_client \<Rightarrow> quota_registry \<Rightarrow> string \<Rightarrow> 'w \<Rightarrow> gerror option \<times> 'w" where
  "syncAccountQuotaFromKey client registry key w =
    (case qc_Get client key w of
       Inl err \<Rightarrow> if IsNotFound err then (None, w) else (Some err, w)
     | Inr accountQuota \<Rightarrow> syncAccountQuota client registry accountQuota w)"

text \<open>
  A worker on one of the queues: \<open>None\<close> when the queue is empty. A failed key is added again (after a delay
  of the rate limiter); \<open>Done\<close> is deferred.
\<close>

definition worker_step ::
  "'w qc_client \<Rightarrow> quota_registry \<Rightarrow> workqueue \<Rightarrow> 'w \<Rightarrow> (string \<times> workqueue \<times> 'w) option"
where
  "worker_step client registry q w =
    (case wq_Get q of
       None \<Rightarrow> None
     | Some (key, q) \<Rightarrow>
         (case syncAccountQuotaFromKey client registry key w of
            (None, w) \<Rightarrow> Some (key, wq_Done key q, w)
          | (Some err, w) \<Rightarrow> Some (key, wq_Done key (wq_Add key q), w)))"

section \<open>Lemmas on the sync\<close>

lemma sync_used_wf: "wf_map (sync_used a hard n u)"
  by (simp add: sync_used_def Let_def)

lemma sync_used_hard: "map_of (sync_used a hard n u) k \<noteq> None \<Longrightarrow> k \<in> set (ResourceNames hard)"
proof -
  have wf: "wf_map (fold (\<lambda>nsStatus usedList.
           if qn_namespace nsStatus = n \<and> st_used (qn_status nsStatus) \<noteq> None
           then Add_rl [] (the_rl (st_used (qn_status nsStatus))) else usedList) xs [])" for xs :: "quota_by_namespace list"
    by (rule wf_fold_cond_put) simp_all
  have "wf_map (fold (\<lambda>(key, value). put key value) u m)" if "wf_map m" for m :: resource_list
    by (rule wf_fold_cond_put [OF that]) (auto split: prod.splits)
  then have "map_of (sync_used a hard n u) k = (if k \<in> set (ResourceNames hard)
      then map_of (fold (\<lambda>(key, value). put key value) u (fold (\<lambda>nsStatus usedList.
           if qn_namespace nsStatus = n \<and> st_used (qn_status nsStatus) \<noteq> None
           then Add_rl [] (the_rl (st_used (qn_status nsStatus))) else usedList) (aq_namespaces a) [])) k else None)"
    unfolding sync_used_def Let_def by (intro map_of_Mask) (use wf in blast)
  then show "map_of (sync_used a hard n u) k \<noteq> None \<Longrightarrow> k \<in> set (ResourceNames hard)"
    by (metis (full_types))
qed

lemma sync_namespaces_spec:
  assumes "sync_namespaces registry a hard ns (used, tot, errs) = (used', tot', errs')"
    and "wf_map tot" "\<forall>k. namespaces_sum (status_amount k) used = amount tot k"
    and "\<forall>n \<in> set used. wf_map (the_rl (st_used (qn_status n)))"
    and "\<forall>k. map_of tot k \<noteq> None \<longrightarrow> k \<in> set (ResourceNames hard)"
  shows "wf_map tot' \<and> (\<forall>k. namespaces_sum (status_amount k) used' = amount tot' k)
    \<and> (\<forall>n \<in> set used'. wf_map (the_rl (st_used (qn_status n))))
    \<and> map qn_namespace used' = map qn_namespace used @ map (\<lambda>n. om_name (ns_meta n)) ns
    \<and> (\<forall>k. map_of tot' k \<noteq> None \<longrightarrow> k \<in> set (ResourceNames hard))"
  using assms
proof (induction ns arbitrary: used tot errs)
  case (Cons n ns)
  obtain u e where u: "CalculateUsage (om_name (ns_meta n)) (qs_scopes (aq_quota a)) hard registry
      (qs_scopeSelector (aq_quota a)) = (u, e)" by fastforce
  define ul where "ul = sync_used a hard (om_name (ns_meta n)) u"
  have ul: "wf_map ul" "\<And>k. map_of ul k \<noteq> None \<Longrightarrow> k \<in> set (ResourceNames hard)"
    unfolding ul_def by (rule sync_used_wf) (rule sync_used_hard)
  let ?used = "used @ [\<lparr>qn_namespace = om_name (ns_meta n), qn_status = \<lparr>st_hard = None, st_used = Some ul\<rparr>\<rparr>]"
  let ?errs = "case e of Some x \<Rightarrow> errs @ [x] | None \<Rightarrow> errs"
  have eq: "sync_namespaces registry a hard ns (?used, Add_rl tot ul, ?errs) = (used', tot', errs')"
    using Cons.prems(1) u by (simp add: Let_def flip: ul_def)
  have sum: "\<forall>k. namespaces_sum (status_amount k) ?used = amount (Add_rl tot ul) k"
    using Cons.prems(2,3) by (simp add: namespaces_sum_def status_amount_def)
  have wfs: "\<forall>n \<in> set ?used. wf_map (the_rl (st_used (qn_status n)))" using Cons.prems(4) ul(1) by simp
  have keys: "\<forall>k. map_of (Add_rl tot ul) k \<noteq> None \<longrightarrow> k \<in> set (ResourceNames hard)"
    using Cons.prems(2,5) ul(2) by (auto simp: map_of_Add split: option.splits)
  show ?case using Cons.IH [OF eq wf_Add sum wfs keys] by simp
qed simp

lemma sync_usage_spec:
  assumes "sync_usage registry a ns = (u, errs)"
  shows "balanced u \<and> wf_map (total_used u) \<and> (\<forall>n \<in> set (aq_namespaces u). wf_map (the_rl (st_used (qn_status n))))
    \<and> map qn_namespace (aq_namespaces u) = map (\<lambda>n. om_name (ns_meta n)) ns
    \<and> (\<forall>k. map_of (total_used u) k \<noteq> None \<longrightarrow> k \<in> set (ResourceNames (qs_hard (aq_quota a))))
    \<and> st_hard (aq_total u) = Some (Add_rl [] (qs_hard (aq_quota a)))
    \<and> aq_quota u = aq_quota a \<and> aq_account u = aq_account a \<and> aq_meta u = aq_meta a"
proof -
  let ?hard = "Add_rl [] (qs_hard (aq_quota a))"
  obtain used tot errs' where s: "sync_namespaces registry a ?hard ns ([], [], []) = (used, tot, errs')"
    by (metis prod_cases3)
  have keys: "k \<in> set (ResourceNames ?hard) \<longleftrightarrow> k \<in> set (ResourceNames (qs_hard (aq_quota a)))" for k
    unfolding ResourceNames_set by (simp add: map_of_Add flip: map_of_conv_key split: option.splits)
  have u: "u = a\<lparr>aq_total := \<lparr>st_hard = Some ?hard, st_used = Some tot\<rparr>, aq_namespaces := used\<rparr>"
    using assms s by (simp add: sync_usage_def Let_def)
  from sync_namespaces_spec [OF s] show ?thesis
    by (simp add: u balanced_def total_used_def namespaces_sum_def keys)
qed

lemma map_le_Some: "m \<subseteq>\<^sub>m m' \<longleftrightarrow> (\<forall>k v. m k = Some v \<longrightarrow> m' k = Some v)"
  by (fastforce simp: map_le_def dom_def)

lemma SemanticDeepEqual_map:
  assumes "wf_map a" "wf_map b" "SemanticDeepEqual a b"
  shows "map_of a = map_of b"
proof (rule map_of_le_eq [OF assms(1,2)])
  show "length a = length b" using assms(3) by (simp add: SemanticDeepEqual_def)
  have "map_of a k = Some v \<Longrightarrow> map_of b k = Some v" for k v
    using assms(3) unfolding SemanticDeepEqual_def list_all_iff by (auto dest!: map_of_SomeD)
  then show "map_of a \<subseteq>\<^sub>m map_of b" by (simp add: map_le_Some)
qed

lemma SemanticDeepEqual_iff:
  assumes "wf_map a" "wf_map b"
  shows "SemanticDeepEqual a b \<longleftrightarrow> map_of a = map_of b"
proof
  assume eq: "map_of a = map_of b"
  then have "length a = length b" by (metis assms length_dom_map_of)
  moreover have "map_of b k = Some v" if "(k, v) \<in> set a" for k v using eq assms(1) that by (metis map_of_is_SomeI)
  ultimately show "SemanticDeepEqual a b" by (auto simp: SemanticDeepEqual_def list_all_iff)
qed (rule SemanticDeepEqual_map [OF assms])

lemma pending_Add: "wq_dirty (wq_Add k q) = insert k (wq_dirty q)"
  by (auto simp: wq_Add_def Let_def)

lemma pending_fold:
  "wq_dirty (cq_queue (fold (\<lambda>x rq. if P x then enqueueAccountQuota x rq else rq) xs rq))
     = wq_dirty (cq_queue rq) \<union> {KeyFunc (aq_meta x) | x. x \<in> set xs \<and> P x}"
  by (induction xs arbitrary: rq) (auto simp: enqueueAccountQuota_def pending_Add)

section \<open>Properties\<close>

text \<open>C9. What a full sync computes: the limits of the specification as status limits, one entry per
  namespace of the account in their order, used amounts only for limited resources, and totals that are the
  sums over the namespaces, whatever the evaluators return.\<close>

theorem sync_usage_books:
  "balanced (fst (sync_usage registry a ns))
    \<and> map qn_namespace (aq_namespaces (fst (sync_usage registry a ns))) = map (\<lambda>n. om_name (ns_meta n)) ns
    \<and> {k. map_of (total_used (fst (sync_usage registry a ns))) k \<noteq> None} \<subseteq> set (ResourceNames (qs_hard (aq_quota a)))
    \<and> st_hard (aq_total (fst (sync_usage registry a ns))) = Some (Add_rl [] (qs_hard (aq_quota a)))
    \<and> aq_meta (fst (sync_usage registry a ns)) = aq_meta a"
  using sync_usage_spec [of registry a ns "fst (sync_usage registry a ns)" "snd (sync_usage registry a ns)"]
  by (simp add: subset_iff)

text \<open>A sync never leaves an outdated total behind: unless the namespaces cannot be listed, either the
  computed status is written, or the stored total and its limits already are the computed ones.\<close>

lemma syncAccountQuota_current:
  assumes "qc_ListNamespaces client (aq_account a) w = Inr ns" "sync_usage registry a ns = (u, errs)"
    and "wf_map (total_used a)" "wf_map (qs_hard (aq_quota a))" "wf_map (the_rl (st_hard (aq_total a)))"
  shows "(\<exists>err. qc_UpdateStatus client u w = (err, snd (syncAccountQuota client registry a w)))
    \<or> (snd (syncAccountQuota client registry a w) = w \<and> map_of (total_used u) = map_of (total_used a)
       \<and> map_of (the_rl (st_hard (aq_total u))) = map_of (the_rl (st_hard (aq_total a))))"
proof (cases "sync_dirty a u")
  case True
  then show ?thesis using assms(1,2) by (auto simp: syncAccountQuota_def split: prod.splits option.splits)
next
  case False
  have u: "wf_map (total_used u)" "st_hard (aq_total u) = Some (Add_rl [] (qs_hard (aq_quota a)))"
    using sync_usage_spec [OF assms(2)] by simp_all
  have "map_of (total_used u) = map_of (total_used a)"
    using False Equals_iff [OF u(1) assms(3)] by (simp add: sync_dirty_def total_used_def)
  moreover have "map_of (qs_hard (aq_quota a)) = map_of (the_rl (st_hard (aq_total a)))"
    by (rule SemanticDeepEqual_map [OF assms(4,5)]) (use False in \<open>simp add: sync_dirty_def\<close>)
  moreover have "map_of (Add_rl [] (qs_hard (aq_quota a))) = map_of (qs_hard (aq_quota a))"
    by (rule ext) (simp add: map_of_Add split: option.splits)
  ultimately show ?thesis using False assms(1,2) u(2) by (simp add: syncAccountQuota_def)
qed

text \<open>Replenishment is exact: an event on a resource queues, of all the account quotas of the namespace's
  account, those with a limit the evaluator of the resource matches, and nothing else.\<close>

lemma replenishQuota_exact:
  assumes "Registry_Get (cq_registry rq) gr = Some ev" "qc_GetNamespace client ns w = Inr n"
    and "GetAccountFromNamespace (ns_meta n) = account" "account \<noteq> []" "qc_ListByAccount client account w = Inr quotas"
  shows "wq_dirty (cq_queue (replenishQuota client w gr ns rq)) = wq_dirty (cq_queue rq)
    \<union> {KeyFunc (aq_meta q) | q. q \<in> set quotas \<and> ev_MatchingResources ev (ResourceNames (the_rl (st_hard (aq_total q)))) \<noteq> []}"
  using assms pending_fold [of "\<lambda>q. ev_MatchingResources ev (ResourceNames (the_rl (st_hard (aq_total q)))) \<noteq> []" quotas rq]
  by (simp add: replenishQuota_def Let_def)

section \<open>Examples\<close>

text \<open>An account with two namespaces; all its config maps are in the second one.\<close>

definition ex_registry :: quota_registry where
  "ex_registry = NewRegistry [NewObjectCountEvaluator (core_resource ''configmaps'')
     (\<lambda>ns. Inr (if ns = ''b'' then [MetaObj empty_meta] else [])) ''configmaps'']"

definition ex_ns :: "string \<Rightarrow> namespace" where
  "ex_ns name = \<lparr>ns_meta = empty_meta\<lparr>om_name := name, om_labels := [(SpaceLabelAccount, ''acme'')]\<rparr>, ns_finalizers = [], ns_phase = []\<rparr>"

definition ex_used :: "string \<Rightarrow> int \<Rightarrow> quota_by_namespace" where
  "ex_used ns n = \<lparr>qn_namespace = ns, qn_status = \<lparr>st_hard = None, st_used = Some [(''configmaps'', n)]\<rparr>\<rparr>"

text \<open>The status says that the config map is in the first namespace.\<close>

definition ex_quota_status :: account_quota where
  "ex_quota_status = \<lparr>aq_meta = empty_meta\<lparr>om_name := ''q''\<rparr>, aq_account = ''acme'',
     aq_quota = \<lparr>qs_hard = [(''configmaps'', 5 * 10 ^ 9)], qs_scopes = [], qs_scopeSelector = None\<rparr>,
     aq_total = \<lparr>st_hard = Some [(''configmaps'', 5 * 10 ^ 9)], st_used = Some [(''configmaps'', 10 ^ 9)]\<rparr>,
     aq_namespaces = [ex_used ''a'' (10 ^ 9), ex_used ''b'' 0]\<rparr>"

text \<open>A client that counts the status updates.\<close>

definition ex_qc_client :: "nat qc_client" where
  "ex_qc_client = \<lparr>qc_Get = (\<lambda>_ _. Inr ex_quota_status), qc_List = (\<lambda>_. Inr [ex_quota_status]),
     qc_ListByAccount = (\<lambda>_ _. Inr [ex_quota_status]), qc_GetNamespace = (\<lambda>n _. Inr (ex_ns n)),
     qc_ListNamespaces = (\<lambda>_ _. Inr [ex_ns ''a'', ex_ns ''b'']), qc_UpdateStatus = (\<lambda>_ n. (None, Suc n))\<rparr>"

text \<open>C29. Only the total decides whether a status is written. For a status that has limits, the ones of the specification,
  and a total, a sync writes what it has computed exactly if the computed total differs from the stored one. The usage
  by namespace is not looked at: when usage has moved from one namespace of an account to another, nothing is written,
  so that the status keeps charging the namespace the objects are gone from.\<close>

theorem sync_keeps_stale_namespaces:
  assumes "qc_ListNamespaces client (aq_account a) w = Inr ns" "sync_usage registry a ns = (u, errs)"
    and "aq_total a = \<lparr>st_hard = Some hard, st_used = Some used\<rparr>" "map_of hard = map_of (qs_hard (aq_quota a))"
    and "wf_map hard" "wf_map used" "wf_map (qs_hard (aq_quota a))"
  shows "syncAccountQuota client registry a w =
    (if map_of (total_used u) = map_of used then (NewAggregate errs, w)
     else (case qc_UpdateStatus client u w of
             (Some err, w') \<Rightarrow> (NewAggregate (errs @ [err]), w')
           | (None, w') \<Rightarrow> (NewAggregate errs, w')))"
proof -
  have "wf_map (total_used u)" using sync_usage_spec [OF assms(2)] by simp
  then have "Equals (total_used u) used \<longleftrightarrow> map_of (total_used u) = map_of used" by (rule Equals_iff [OF _ assms(6)])
  moreover have "SemanticDeepEqual (qs_hard (aq_quota a)) hard"
    using SemanticDeepEqual_iff [OF assms(7,5)] assms(4) by simp
  ultimately have "sync_dirty a u \<longleftrightarrow> map_of (total_used u) \<noteq> map_of used"
    by (simp add: sync_dirty_def assms(3) total_used_def)
  then show ?thesis using assms(1,2) by (simp add: syncAccountQuota_def)
qed

text \<open>The computed usage by namespace is another one than the status has, and no update is sent.\<close>

theorem sync_keeps_stale_namespaces_witness:
  "aq_namespaces (fst (sync_usage ex_registry ex_quota_status [ex_ns ''a'', ex_ns ''b''])) = [ex_used ''a'' 0, ex_used ''b'' (10 ^ 9)]
   \<and> aq_namespaces ex_quota_status = [ex_used ''a'' (10 ^ 9), ex_used ''b'' 0]
   \<and> snd (syncAccountQuota ex_qc_client ex_registry ex_quota_status 0) = 0"
proof (intro conjI)
  show "aq_namespaces (fst (sync_usage ex_registry ex_quota_status [ex_ns ''a'', ex_ns ''b''])) = [ex_used ''a'' 0, ex_used ''b'' (10 ^ 9)]"
    by code_simp
  show "aq_namespaces ex_quota_status = [ex_used ''a'' (10 ^ 9), ex_used ''b'' 0]" by code_simp
  obtain u errs where u: "sync_usage ex_registry ex_quota_status [ex_ns ''a'', ex_ns ''b''] = (u, errs)" by fastforce
  have l: "qc_ListNamespaces ex_qc_client (aq_account ex_quota_status) 0 = Inr [ex_ns ''a'', ex_ns ''b'']"
    by (simp add: ex_qc_client_def)
  have t: "aq_total ex_quota_status = \<lparr>st_hard = Some [(''configmaps'', 5 * 10 ^ 9)], st_used = Some [(''configmaps'', 10 ^ 9)]\<rparr>"
    "qs_hard (aq_quota ex_quota_status) = [(''configmaps'', 5 * 10 ^ 9)]"
    by (simp_all add: ex_quota_status_def)
  have "total_used (fst (sync_usage ex_registry ex_quota_status [ex_ns ''a'', ex_ns ''b''])) = [(''configmaps'', 10 ^ 9)]" by code_simp
  then have "total_used u = [(''configmaps'', 10 ^ 9)]" by (simp add: u)
  then show "snd (syncAccountQuota ex_qc_client ex_registry ex_quota_status 0) = 0"
    using sync_keeps_stale_namespaces [OF l u t(1)] t(2) by simp
qed

theorem syncAccountQuota_current_witness:
  "\<exists>u errs. sync_usage ex_registry ex_quota_status [ex_ns ''a'', ex_ns ''b''] = (u, errs)
     \<and> ((\<exists>err. qc_UpdateStatus ex_qc_client u 0 = (err, snd (syncAccountQuota ex_qc_client ex_registry ex_quota_status 0)))
       \<or> map_of (total_used u) = map_of (total_used ex_quota_status))"
proof -
  obtain u errs where u: "sync_usage ex_registry ex_quota_status [ex_ns ''a'', ex_ns ''b''] = (u, errs)" by fastforce
  have l: "qc_ListNamespaces ex_qc_client (aq_account ex_quota_status) 0 = Inr [ex_ns ''a'', ex_ns ''b'']"
    by (simp add: ex_qc_client_def)
  have wf: "wf_map (total_used ex_quota_status)" "wf_map (qs_hard (aq_quota ex_quota_status))"
    "wf_map (the_rl (st_hard (aq_total ex_quota_status)))"
    by (simp_all add: ex_quota_status_def total_used_def)
  show ?thesis
    by (intro exI conjI, rule u, rule disj_forward [OF syncAccountQuota_current [OF l u wf]]) (assumption, elim conjE, assumption)
qed

text \<open>A failed sync is retried: after a worker has handled a key no worker has it any more, it is queued again
  exactly if the sync failed, and all other queued keys stay queued.\<close>

lemma worker_step_retries:
  assumes "wq_inv q" "worker_step client registry q w = Some (key, q', w')"
  shows "wq_inv q' \<and> key \<notin> wq_processing q' \<and> wq_queued q - {key} \<subseteq> wq_queued q'
    \<and> (key \<in> wq_queued q' \<longleftrightarrow> fst (syncAccountQuotaFromKey client registry key w) \<noteq> None)"
proof -
  obtain q1 where g: "wq_Get q = Some (key, q1)" using assms(2)
    by (auto simp: worker_step_def split: option.splits prod.splits)
  note got = wq.get_inv [OF assms(1) g] wq.get_queued [OF assms(1) g] wq.get_processing [OF assms(1) g] wq.get_redo [OF assms(1) g]
  have redo: "key \<notin> wq_redo q1" using got(3,4) by (simp add: wq_redo_def)
  have key: "key \<in> wq_processing q1" using got(3) by simp
  obtain r w1 where s: "syncAccountQuotaFromKey client registry key w = (r, w1)" by fastforce
  show ?thesis
  proof (cases r)
    case None
    then have "q' = wq_Done key q1" using assms(2) g s by (simp add: worker_step_def)
    then show ?thesis
      using got s None redo wq.fin_inv [OF got(1) key] wq.fin_queued [OF got(1) key] wq.fin_processing [OF got(1) key] by simp
  next
    case (Some err)
    then have q': "q' = wq_Done key (wq_Add key q1)" using assms(2) g s by (simp add: worker_step_def)
    have add: "wq_inv (wq_Add key q1)" "key \<in> wq_processing (wq_Add key q1)" "wq_queued (wq_Add key q1) = wq_queued q1"
      using got(1) key wq.add_inv wq.add_processing wq.add_queued by auto
    show ?thesis
      using q' got s Some add wq.readd_redelivered [OF assms(1) g] wq.fin_inv [OF add(1,2)] wq.fin_queued [OF add(1,2)]
        wq.fin_processing [OF add(1,2)] by auto
  qed
qed

definition ex_failing_client :: "nat qc_client" where
  "ex_failing_client = ex_qc_client\<lparr>qc_Get := (\<lambda>_ _. Inl (OtherErr ''down''))\<rparr>"

theorem worker_step_retries_witness:
  "\<exists>q'. worker_step ex_failing_client ex_registry (wq_Add ''q'' wq_New) 0 = Some (''q'', q', 0) \<and> ''q'' \<in> wq_queued q'"
proof -
  have sync: "syncAccountQuotaFromKey ex_failing_client ex_registry ''q'' 0 = (Some (OtherErr ''down''), 0)"
    by (simp add: syncAccountQuotaFromKey_def ex_failing_client_def)
  obtain q1 where "wq_Get (wq_Add ''q'' wq_New) = Some (''q'', q1)"
    by (simp add: wq_Get_def wq_Add_def wq_New_def Let_def)
  then obtain q' where q': "worker_step ex_failing_client ex_registry (wq_Add ''q'' wq_New) 0 = Some (''q'', q', 0)"
    using sync by (simp add: worker_step_def)
  have "wq_inv (wq_Add ''q'' wq_New)" by (simp add: wq_inv_def wq_Add_def wq_New_def Let_def)
  from worker_step_retries [OF this q'] show ?thesis using q' sync by simp
qed

theorem replenishQuota_exact_witness:
  "''q'' \<in> wq_dirty (cq_queue (replenishQuota ex_qc_client 0 (core_resource ''configmaps'') ''a''
      \<lparr>cq_queue = wq_New, cq_missingUsageQueue = wq_New, cq_registry = ex_registry\<rparr>))"
proof -
  let ?rq = "\<lparr>cq_queue = wq_New, cq_missingUsageQueue = wq_New, cq_registry = ex_registry\<rparr>"
  have i: "Intersection [''configmaps''] [''count/configmaps'', ''configmaps''] \<noteq> []" by code_simp
  obtain ev where ev: "Registry_Get (cq_registry ?rq) (core_resource ''configmaps'') = Some ev"
    and m: "ev_MatchingResources ev [''configmaps''] \<noteq> []"
    using i by (simp add: ex_registry_def NewRegistry_def Registry_Get_def NewObjectCountEvaluator_def Let_def core_resource_def
      objectCount_MatchingResources_def ObjectCountQuotaResourceNameFor_def)
  have n: "qc_GetNamespace ex_qc_client ''a'' 0 = Inr (ex_ns ''a'')" "qc_ListByAccount ex_qc_client ''acme'' 0 = Inr [ex_quota_status]"
    by (simp_all add: ex_qc_client_def)
  have a: "GetAccountFromNamespace (ns_meta (ex_ns ''a'')) = ''acme''"
    by (simp add: GetAccountFromNamespace_def ex_ns_def label_value_def)
  have q: "KeyFunc (aq_meta ex_quota_status) = ''q''" "ResourceNames (the_rl (st_hard (aq_total ex_quota_status))) = [''configmaps'']"
    by (simp_all add: ex_quota_status_def KeyFunc_def empty_meta_def ResourceNames_def)
  show ?thesis
    using replenishQuota_exact [OF ev n(1) a _ n(2)] m q by simp
qed

end
