(* ===== verification/QuotaMonitor.thy ===== *)
theory QuotaMonitor
  imports AccountQuotaController
begin

text \<open>
  The monitors of the quota controller (\<open>pkg/manager/quota/controller/monitor.go\<close>) and its discovery loop
  (\<open>Sync\<close> of \<open>controller.go\<close>): one monitor per quotable resource, kept when the resources change, and the
  events that make the controller recalculate quotas. Informers and discovery are parameters.
\<close>

section \<open>Monitors\<close>

text \<open>A monitor with a stop channel has been started. \<open>qm_closed\<close> lists the monitors whose channels were closed.\<close>

record monitor =
  mo_started :: bool

record monitor_event =
  me_obj :: runtime_object
  me_gvr :: group_version_resource

record quota_monitor =
  qm_monitors :: "(group_version_resource \<times> monitor) list"
  qm_running :: bool
  qm_resourceChanges :: "monitor_event list"
  qm_ignoredResources :: "group_resource list"
  qm_registry :: quota_registry
  qm_closed :: "group_version_resource list"

definition GroupResourceOf :: "group_version_resource \<Rightarrow> group_resource" where
  "GroupResourceOf r = \<lparr>gr_group = gvr_group r, gr_resource = gvr_resource r\<rparr>"

text \<open>The handlers \<open>controllerFor\<close> registers at an informer.\<close>

definition notify_update :: "group_version_resource \<Rightarrow> int \<Rightarrow> runtime_object \<Rightarrow> runtime_object \<Rightarrow> bool" where
  "notify_update resource now oldObj newObj =
    (if GroupResourceOf resource = \<lparr>gr_group = [], gr_resource = ''pods''\<rparr> then
       (case (oldObj, newObj) of
          (PodObj oldPod, PodObj newPod) \<Rightarrow> QuotaV1Pod oldPod now \<and> \<not> QuotaV1Pod newPod now
        | _ \<Rightarrow> False)
     else if GroupResourceOf resource = \<lparr>gr_group = [], gr_resource = ''services''\<rparr> then
       (case (oldObj, newObj) of
          (ServiceObj oldService, ServiceObj newService) \<Rightarrow> GetQuotaServiceType oldService \<noteq> GetQuotaServiceType newService
        | _ \<Rightarrow> False)
     else False)"

definition monitor_UpdateFunc ::
  "group_version_resource \<Rightarrow> int \<Rightarrow> runtime_object \<Rightarrow> runtime_object \<Rightarrow> quota_monitor \<Rightarrow> quota_monitor"
where
  "monitor_UpdateFunc resource now oldObj newObj qm =
    (if notify_update resource now oldObj newObj
     then qm\<lparr>qm_resourceChanges := qm_resourceChanges qm @ [\<lparr>me_obj = newObj, me_gvr = resource\<rparr>]\<rparr> else qm)"

definition monitor_DeleteFunc :: "group_version_resource \<Rightarrow> runtime_object \<Rightarrow> quota_monitor \<Rightarrow> quota_monitor" where
  "monitor_DeleteFunc resource obj qm =
    qm\<lparr>qm_resourceChanges := qm_resourceChanges qm @ [\<lparr>me_obj = obj, me_gvr = resource\<rparr>]\<rparr>"

text \<open>
  \<open>ForResource\<close> is the informer factory: \<open>None\<close> when it has an informer for the resource. The iteration over the
  set of resources is over a list of its elements.
\<close>

fun sync_resources ::
  "(group_version_resource \<Rightarrow> gerror option) \<Rightarrow> lister_for_resource \<Rightarrow> group_resource list \<Rightarrow> group_version_resource list \<Rightarrow>
   (group_version_resource \<times> monitor) list \<Rightarrow> (group_version_resource \<times> monitor) list \<Rightarrow> gerror list \<Rightarrow> quota_registry \<Rightarrow>
   (group_version_resource \<times> monitor) list \<times> (group_version_resource \<times> monitor) list \<times> gerror list \<times> quota_registry"
where
  "sync_resources ForResource f ignored [] toRemove current errs registry = (toRemove, current, errs, registry)"
| "sync_resources ForResource f ignored (resource # resources) toRemove current errs registry =
     (if GroupResourceOf resource \<in> set ignored then
        sync_resources ForResource f ignored resources toRemove current errs registry
      else
        (case map_of toRemove resource of
           Some m \<Rightarrow>
             sync_resources ForResource f ignored resources (del resource toRemove) (put resource m current) errs registry
         | None \<Rightarrow>
             (case ForResource resource of
                Some err \<Rightarrow> sync_resources ForResource f ignored resources toRemove current (errs @ [err]) registry
              | None \<Rightarrow>
                  let registry = (case Registry_Get registry (GroupResourceOf resource) of
                        Some _ \<Rightarrow> registry
                      | None \<Rightarrow> Registry_Add registry (NewObjectCountEvaluator (GroupResourceOf resource)
                          (ListResourceUsingListerFunc f (GroupResourceOf resource)) []))
                  in sync_resources ForResource f ignored resources toRemove
                       (put resource \<lparr>mo_started = False\<rparr> current) errs registry)))"

definition SyncMonitors ::
  "(group_version_resource \<Rightarrow> gerror option) \<Rightarrow> lister_for_resource \<Rightarrow> group_version_resource list \<Rightarrow> quota_monitor \<Rightarrow>
   gerror option \<times> quota_monitor"
where
  "SyncMonitors ForResource f resources qm =
    (case sync_resources ForResource f (qm_ignoredResources qm) resources (qm_monitors qm) [] [] (qm_registry qm) of
       (toRemove, current, errs, registry) \<Rightarrow>
         (NewAggregate errs,
          qm\<lparr>qm_monitors := current, qm_registry := registry,
             qm_closed := qm_closed qm @ map fst (filter (\<lambda>(_, m). mo_started m) toRemove)\<rparr>))"

definition StartMonitors :: "quota_monitor \<Rightarrow> quota_monitor" where
  "StartMonitors qm =
    (if \<not> qm_running qm then qm
     else qm\<lparr>qm_monitors := map (\<lambda>(resource, m). (resource, m\<lparr>mo_started := True\<rparr>)) (qm_monitors qm)\<rparr>)"

definition IsSynced :: "(group_version_resource \<Rightarrow> bool) \<Rightarrow> quota_monitor \<Rightarrow> bool" where
  "IsSynced HasSynced qm =
    (if length (qm_monitors qm) = 0 then False else list_all (\<lambda>(resource, _). HasSynced resource) (qm_monitors qm))"

definition Run_start :: "quota_monitor \<Rightarrow> quota_monitor" where
  "Run_start qm = StartMonitors (qm\<lparr>qm_running := True\<rparr>)"

definition Run_stop :: "quota_monitor \<Rightarrow> quota_monitor" where
  "Run_stop qm = qm\<lparr>qm_closed := qm_closed qm @ map fst (filter (\<lambda>(_, m). mo_started m) (qm_monitors qm))\<rparr>"

text \<open>An object without metadata is dropped; the queue hands events out in order.\<close>

definition processResourceChanges ::
  "'w qc_client \<Rightarrow> 'w \<Rightarrow> quota_monitor \<Rightarrow> quota_controller \<Rightarrow> (quota_monitor \<times> quota_controller) option"
where
  "processResourceChanges client w qm rq =
    (case qm_resourceChanges qm of
       [] \<Rightarrow> None
     | event # rest \<Rightarrow>
         let qm = qm\<lparr>qm_resourceChanges := rest\<rparr> in
         (case object_meta (me_obj event) of
            None \<Rightarrow> Some (qm, rq)
          | Some m \<Rightarrow> Some (qm, replenishQuota client w (GroupResourceOf (me_gvr event)) (om_namespace m) rq)))"

section \<open>Discovery\<close>

text \<open>A discovered resource with its verbs; the discovery error tells whether only some groups failed.\<close>

record api_resource =
  ar_gvr :: group_version_resource
  ar_verbs :: "string list"

record discovery_error =
  de_group :: bool
  de_err :: gerror

definition quotable_verbs :: "string list" where
  "quotable_verbs = [''create'', ''list'', ''watch'', ''delete'']"

definition GetQuotableResourcesByFunc ::
  "api_resource list \<times> discovery_error option \<Rightarrow> group_version_resource list \<times> discovery_error option"
where
  "GetQuotableResourcesByFunc = (\<lambda>(possibleResources, discoveryErr).
     case discoveryErr of
       Some e \<Rightarrow>
         if length possibleResources = 0 then ([], Some \<lparr>de_group = False, de_err = OtherErr (''failed to discover resources: '' @ err_msg (de_err e))\<rparr>)
         else (map ar_gvr (filter (\<lambda>r. list_all (\<lambda>v. v \<in> set (ar_verbs r)) quotable_verbs) possibleResources), Some e)
     | None \<Rightarrow> (map ar_gvr (filter (\<lambda>r. list_all (\<lambda>v. v \<in> set (ar_verbs r)) quotable_verbs) possibleResources), None))"

definition resyncMonitors ::
  "(group_version_resource \<Rightarrow> gerror option) \<Rightarrow> lister_for_resource \<Rightarrow> group_version_resource list \<Rightarrow> quota_monitor \<Rightarrow>
   gerror option \<times> quota_monitor"
where
  "resyncMonitors ForResource f resources qm =
    (case SyncMonitors ForResource f resources qm of
       (Some err, qm) \<Rightarrow> (Some err, qm)
     | (None, qm) \<Rightarrow> (None, StartMonitors qm))"

text \<open>
  One round of \<open>Sync\<close>: the resources remembered from the last successful round, and whether the caches of the
  new monitors fill before the timeout.
\<close>

definition Sync_round ::
  "(group_version_resource \<Rightarrow> gerror option) \<Rightarrow> lister_for_resource \<Rightarrow> api_resource list \<times> discovery_error option \<Rightarrow>
   (group_version_resource \<Rightarrow> bool) \<Rightarrow> group_version_resource list \<times> quota_monitor \<Rightarrow> group_version_resource list \<times> quota_monitor"
where
  "Sync_round ForResource f discovery HasSynced = (\<lambda>(oldResources, qm).
     case GetQuotableResourcesByFunc discovery of
       (newResources, err) \<Rightarrow>
         (case (case err of
              None \<Rightarrow> Some newResources
            | Some e \<Rightarrow> if de_group e \<and> length newResources > 0 then Some (newResources @ oldResources) else None) of
            None \<Rightarrow> (oldResources, qm)
          | Some newResources \<Rightarrow>
              if set oldResources = set newResources then (oldResources, qm)
              else (case resyncMonitors ForResource f (remdups newResources) qm of
                      (Some _, qm) \<Rightarrow> (oldResources, qm)
                    | (None, qm) \<Rightarrow> if \<not> IsSynced HasSynced qm then (oldResources, qm) else (remdups newResources, qm))))"

section \<open>What a resync does\<close>

lemma sync_resources_spec:
  assumes "sync_resources ForResource f ignored rs toRemove current errs registry = (rem, cur, errs', reg)"
    and "distinct rs" "wf_map toRemove" "\<forall>r \<in> set rs. map_of current r = None"
  shows "map_of cur r = (if r \<in> set rs \<and> GroupResourceOf r \<notin> set ignored then
           (case map_of toRemove r of Some m \<Rightarrow> Some m
            | None \<Rightarrow> if ForResource r = None then Some \<lparr>mo_started = False\<rparr> else None)
         else map_of current r)
    \<and> map_of rem r = (if r \<in> set rs \<and> GroupResourceOf r \<notin> set ignored then None else map_of toRemove r)
    \<and> wf_map rem"
  using assms
proof (induction rs arbitrary: toRemove current errs registry)
  case (Cons x rs)
  note IH = Cons.IH and prems = Cons.prems
  have d: "x \<notin> set rs" "distinct rs" using prems(2) by simp_all
  show ?case
  proof (cases "GroupResourceOf x \<in> set ignored")
    case True
    then have "sync_resources ForResource f ignored rs toRemove current errs registry = (rem, cur, errs', reg)"
      using prems(1) by simp
    from IH [OF this d(2) prems(3)] prems(4) True show ?thesis by auto
  next
    case False
    show ?thesis
    proof (cases "map_of toRemove x")
      case (Some m)
      then have eq: "sync_resources ForResource f ignored rs (del x toRemove) (put x m current) errs registry = (rem, cur, errs', reg)"
        using prems(1) False by simp
      have "\<forall>r \<in> set rs. map_of (put x m current) r = None" using prems(4) d(1) by (auto simp: map_of_put)
      from IH [OF eq d(2) wf_del [OF prems(3)] this] show ?thesis
        using Some False d by (auto simp: map_of_put map_of_del)
    next
      case None
      show ?thesis
      proof (cases "ForResource x")
        case (Some err)
        then have "sync_resources ForResource f ignored rs toRemove current (errs @ [err]) registry = (rem, cur, errs', reg)"
          using prems(1) False None by simp
        from IH [OF this d(2) prems(3)] show ?thesis using prems(4) Some None d by auto
      next
        case fr: None
        obtain reg1 where eq: "sync_resources ForResource f ignored rs toRemove (put x \<lparr>mo_started = False\<rparr> current) errs reg1
            = (rem, cur, errs', reg)"
          using prems(1) False None fr by (simp add: Let_def)
        have "\<forall>r \<in> set rs. map_of (put x \<lparr>mo_started = False\<rparr> current) r = None" using prems(4) d(1) by (auto simp: map_of_put)
        from IH [OF eq d(2) prems(3) this] show ?thesis
          using None fr False d by (auto simp: map_of_put)
      qed
    qed
  qed
qed simp

section \<open>Properties\<close>

text \<open>Resyncing the monitors keeps the monitor of every resource that is still wanted, with its state, adds an
  unstarted one for every new resource that has an informer, has none for ignored resources, and closes exactly the
  running monitors that are no longer wanted.\<close>

lemma SyncMonitors_exact:
  assumes "distinct resources" "wf_map (qm_monitors qm)" "SyncMonitors ForResource f resources qm = (err, qm')"
  shows "map_of (qm_monitors qm') r =
      (if r \<in> set resources \<and> GroupResourceOf r \<notin> set (qm_ignoredResources qm) then
         (case map_of (qm_monitors qm) r of Some m \<Rightarrow> Some m
          | None \<Rightarrow> if ForResource r = None then Some \<lparr>mo_started = False\<rparr> else None)
       else None)
    \<and> (r \<in> set (qm_closed qm') \<longleftrightarrow> r \<in> set (qm_closed qm)
         \<or> (map_of (qm_monitors qm) r = Some \<lparr>mo_started = True\<rparr>
            \<and> \<not> (r \<in> set resources \<and> GroupResourceOf r \<notin> set (qm_ignoredResources qm))))"
proof -
  obtain rem cur errs reg where s: "sync_resources ForResource f (qm_ignoredResources qm) resources (qm_monitors qm) [] []
      (qm_registry qm) = (rem, cur, errs, reg)" by (metis prod_cases4)
  note spec = sync_resources_spec [OF s assms(1,2), of r]
  have qm': "qm' = qm\<lparr>qm_monitors := cur, qm_registry := reg,
      qm_closed := qm_closed qm @ map fst (filter (\<lambda>(_, m). mo_started m) rem)\<rparr>"
    using assms(3) s by (simp add: SyncMonitors_def)
  have "r \<in> set (map fst (filter (\<lambda>(_, m). mo_started m) rem)) \<longleftrightarrow> (\<exists>m. (r, m) \<in> set rem \<and> mo_started m)"
    by force
  also have "\<dots> \<longleftrightarrow> (\<exists>m. map_of rem r = Some m \<and> mo_started m)"
    using spec by (metis (mono_tags, lifting) map_of_SomeD map_of_is_SomeI list.map(1) map_of.simps(1) ball_empty list.set(1) option.distinct(1) empty_iff)
  also have "\<dots> \<longleftrightarrow> map_of rem r = Some \<lparr>mo_started = True\<rparr>"
    by (metis (full_types) monitor.cases monitor.select_convs(1))
  finally show ?thesis using spec by (auto simp: qm')
qed

definition ex_gvr :: "string \<Rightarrow> group_version_resource" where
  "ex_gvr r = \<lparr>gvr_group = [], gvr_version = ''v1'', gvr_resource = r\<rparr>"

theorem SyncMonitors_exact_witness:
  "ex_gvr ''pods'' \<in> set (qm_closed (snd (SyncMonitors (\<lambda>_. None) (\<lambda>_. Inl (OtherErr [])) [ex_gvr ''services'']
     \<lparr>qm_monitors = [(ex_gvr ''pods'', \<lparr>mo_started = True\<rparr>)], qm_running = True, qm_resourceChanges = [],
       qm_ignoredResources = ignoredResources, qm_registry = [], qm_closed = []\<rparr>)))"
  (is "_ \<in> set (qm_closed (snd (SyncMonitors _ _ _ ?qm)))")
proof -
  obtain err qm' where s: "SyncMonitors (\<lambda>_. None) (\<lambda>_. Inl (OtherErr [])) [ex_gvr ''services''] ?qm = (err, qm')" by fastforce
  have d: "distinct [ex_gvr ''services'']" "wf_map (qm_monitors ?qm)" by simp_all
  show ?thesis using SyncMonitors_exact [OF d s, of "ex_gvr ''pods''"] s by (simp add: ex_gvr_def)
qed

end
