(* ===== verification/Parameters.thy ===== *)
theory Parameters
  imports Prelude
begin

text \<open>
  Parameters of templates (\<open>pkg/util/parameters\<close>): finding the variables of a string, replacing them, and
  replacing the strings of a parsed document. YAML is a parameter.
\<close>

section \<open>Documents\<close>

text \<open>What \<open>yaml.Unmarshal\<close> returns as \<open>interface\{\}\<close>.\<close>

datatype json =
    JNull
  | JBool bool
  | JNum int
  | JStr string
  | JList "json list"
  | JMap "(string \<times> json) list"

text \<open>The type assertion \<open>val.(string)\<close>.\<close>

fun as_string :: "json \<Rightarrow> string option" where
  "as_string (JStr s) = Some s"
| "as_string _ = None"

section \<open>Variables in strings\<close>

text \<open>
  \<open>VarMatchRegex\<close>, at the start of a string: dollar signs, then a non-empty name without closing brace in
  braces. The result is the match and what follows it.
\<close>

definition match_var :: "string \<Rightarrow> (string \<times> string) option" where
  "match_var s =
    (let dollars = takeWhile (\<lambda>c. c = CHR ''$'') s in
     if dollars = [] then None
     else case dropWhile (\<lambda>c. c = CHR ''$'') s of
            [] \<Rightarrow> None
          | c # r \<Rightarrow>
              if c \<noteq> CHR ''{'' then None
              else
                let name = takeWhile (\<lambda>c. c \<noteq> CHR ''}'') r; rest = dropWhile (\<lambda>c. c \<noteq> CHR ''}'') r
                in if name = [] \<or> rest = [] then None else Some (dollars @ ''{'' @ name @ ''}'', tl rest))"

text \<open>\<open>ExpressionVarMatchRegex\<close>: the whole string is a name in double braces.\<close>

definition match_expression :: "string \<Rightarrow> string option" where
  "match_expression s =
    (let name = takeWhile (\<lambda>c. c \<noteq> CHR ''}'') (drop 3 s)
     in if prefix ''${{'' s \<and> name \<noteq> [] \<and> dropWhile (\<lambda>c. c \<noteq> CHR ''}'') (drop 3 s) = ''}}'' then Some name else None)"

lemma match_var_split: "match_var s = Some (m, rest) \<Longrightarrow> s = m @ rest \<and> m \<noteq> []"
proof -
  assume a: "match_var s = Some (m, rest)"
  define ds where "ds = takeWhile (\<lambda>c. c = CHR ''$'') s"
  obtain r where r: "dropWhile (\<lambda>c. c = CHR ''$'') s = CHR ''{'' # r" "ds \<noteq> []"
    "dropWhile (\<lambda>c. c \<noteq> CHR ''}'') r \<noteq> []"
    "m = ds @ ''{'' @ takeWhile (\<lambda>c. c \<noteq> CHR ''}'') r @ ''}''" "rest = tl (dropWhile (\<lambda>c. c \<noteq> CHR ''}'') r)"
    using a by (auto simp: match_var_def Let_def ds_def split: list.splits if_splits)
  have "hd (dropWhile (\<lambda>c. c \<noteq> CHR ''}'') r) = CHR ''}''" using hd_dropWhile [of "\<lambda>c. c \<noteq> CHR ''}''" r] r(3) by simp
  then have "dropWhile (\<lambda>c. c \<noteq> CHR ''}'') r = CHR ''}'' # rest" using r(3,5) by (metis list.collapse)
  moreover have "r = takeWhile (\<lambda>c. c \<noteq> CHR ''}'') r @ dropWhile (\<lambda>c. c \<noteq> CHR ''}'') r" by simp
  ultimately have "r = takeWhile (\<lambda>c. c \<noteq> CHR ''}'') r @ CHR ''}'' # rest" by simp
  moreover have "s = ds @ CHR ''{'' # r" using r(1) by (metis ds_def takeWhile_dropWhile_id)
  ultimately show ?thesis using r(4) by simp
qed

text \<open>
  \<open>FindAllStringIndex\<close>: the matches from left to right, each with the text before it, and the text after the
  last one.
\<close>

function find_vars :: "string \<Rightarrow> (string \<times> string) list \<times> string" where
  "find_vars [] = ([], [])"
| "find_vars (c # cs) =
     (case match_var (c # cs) of
        Some (m, rest) \<Rightarrow> (case find_vars rest of (ms, tail) \<Rightarrow> (([], m) # ms, tail))
      | None \<Rightarrow>
          (case find_vars cs of
             ([], tail) \<Rightarrow> ([], c # tail)
           | ((pre, m) # ms, tail) \<Rightarrow> ((c # pre, m) # ms, tail)))"
  by pat_completeness auto
termination
proof (relation "measure length")
  fix c cs x m rest
  assume "match_var (c # cs) = Some x" "(m, rest) = x"
  then have "c # cs = m @ rest \<and> m \<noteq> []" using match_var_split by metis
  then show "(rest, c # cs) \<in> measure length" by (cases m) auto
qed simp_all

text \<open>The loop over the matches: an escaped match loses its first dollar sign, any other one is replaced.\<close>

fun replace_matches :: "(string \<Rightarrow> gerror + string) \<Rightarrow> (string \<times> string) list \<Rightarrow> string \<Rightarrow> string \<Rightarrow> gerror + string" where
  "replace_matches replace [] tail newValue = Inr (newValue @ tail)"
| "replace_matches replace ((pre, matchStr) # matches) tail newValue =
     (if matchStr ! 0 = CHR ''$'' \<and> matchStr ! 1 = CHR ''$'' then
        replace_matches replace matches tail (newValue @ pre @ tl matchStr)
      else
        (case replace (take (length matchStr - 3) (drop 2 matchStr)) of
           Inl err \<Rightarrow> Inl err
         | Inr replacedValue \<Rightarrow> replace_matches replace matches tail (newValue @ pre @ replacedValue)))"

definition ParseString :: "(string \<Rightarrow> gerror + json) \<Rightarrow> (string \<Rightarrow> gerror + string) \<Rightarrow> string \<Rightarrow> gerror + json" where
  "ParseString unmarshal replace value =
    (case match_expression value of
       Some name \<Rightarrow>
         (case replace name of
            Inl err \<Rightarrow> Inl err
          | Inr replacedValue \<Rightarrow> unmarshal replacedValue)
     | None \<Rightarrow>
         (case find_vars value of
            (matches, tail) \<Rightarrow>
              if length matches = 0 then Inr (JStr value)
              else (case replace_matches replace matches tail [] of
                      Inl err \<Rightarrow> Inl err
                    | Inr newValue \<Rightarrow> Inr (JStr newValue))))"

section \<open>Walking a document\<close>

fun doWalk :: "(string \<Rightarrow> gerror + json) \<Rightarrow> json \<Rightarrow> gerror + json"
and walk_list :: "(string \<Rightarrow> gerror + json) \<Rightarrow> json list \<Rightarrow> gerror + json list"
and walk_map :: "(string \<Rightarrow> gerror + json) \<Rightarrow> (string \<times> json) list \<Rightarrow> gerror + (string \<times> json) list" where
  "doWalk replace (JList t) = (case walk_list replace t of Inl err \<Rightarrow> Inl err | Inr t \<Rightarrow> Inr (JList t))"
| "doWalk replace (JMap t) = (case walk_map replace t of Inl err \<Rightarrow> Inl err | Inr t \<Rightarrow> Inr (JMap t))"
| "doWalk replace d = Inr d"
| "walk_list replace [] = Inr []"
| "walk_list replace (val # t) =
     (case (if as_string val = None then doWalk replace val else replace (the (as_string val))) of
        Inl err \<Rightarrow> Inl err
      | Inr new \<Rightarrow> (case walk_list replace t of Inl err \<Rightarrow> Inl err | Inr t \<Rightarrow> Inr (new # t)))"
| "walk_map replace [] = Inr []"
| "walk_map replace ((key, v) # t) =
     (case (if as_string v = None then doWalk replace v else replace (the (as_string v))) of
        Inl err \<Rightarrow> Inl err
      | Inr new \<Rightarrow> (case walk_map replace t of Inl err \<Rightarrow> Inl err | Inr t \<Rightarrow> Inr ((key, new) # t)))"

definition WalkStringMap :: "(string \<Rightarrow> gerror + json) \<Rightarrow> (string \<times> json) list \<Rightarrow> gerror + (string \<times> json) list" where
  "WalkStringMap replace d = walk_map replace d"

section \<open>Rendering templates\<close>

text \<open>The abstract syntax of a string with variables: text, a variable, and an escaped variable.\<close>

datatype token = Txt string | Var string | Esc nat string

fun render_token :: "token \<Rightarrow> string" where
  "render_token (Txt s) = s"
| "render_token (Var n) = ''${'' @ n @ ''}''"
| "render_token (Esc k n) = replicate (k + 2) CHR ''$'' @ ''{'' @ n @ ''}''"

fun token_wf :: "token \<Rightarrow> bool" where
  "token_wf (Txt s) \<longleftrightarrow> CHR ''$'' \<notin> set s"
| "token_wf (Var n) \<longleftrightarrow> n \<noteq> [] \<and> CHR ''}'' \<notin> set n"
| "token_wf (Esc k n) \<longleftrightarrow> n \<noteq> [] \<and> CHR ''}'' \<notin> set n"

fun subst_token :: "(string \<Rightarrow> gerror + string) \<Rightarrow> token \<Rightarrow> gerror + string" where
  "subst_token replace (Txt s) = Inr s"
| "subst_token replace (Var n) = replace n"
| "subst_token replace (Esc k n) = Inr (replicate (k + 1) CHR ''$'' @ ''{'' @ n @ ''}'')"

fun subst_tokens :: "(string \<Rightarrow> gerror + string) \<Rightarrow> token list \<Rightarrow> gerror + string" where
  "subst_tokens replace [] = Inr []"
| "subst_tokens replace (t # ts) =
     (case subst_token replace t of
        Inl err \<Rightarrow> Inl err
      | Inr s \<Rightarrow> (case subst_tokens replace ts of Inl err \<Rightarrow> Inl err | Inr s' \<Rightarrow> Inr (s @ s')))"

definition render :: "token list \<Rightarrow> string" where
  "render ts = concat (map render_token ts)"

lemma render_Cons [simp]: "render (t # ts) = render_token t @ render ts"
  by (simp add: render_def)

text \<open>The replaced string, independent of how the loop accumulates it.\<close>

definition parse_vars :: "(string \<Rightarrow> gerror + string) \<Rightarrow> string \<Rightarrow> gerror + string" where
  "parse_vars replace s = (case find_vars s of (ms, tail) \<Rightarrow> replace_matches replace ms tail [])"

lemma replace_matches_acc:
  "replace_matches replace ms tail (a @ b) =
    (case replace_matches replace ms tail b of Inl err \<Rightarrow> Inl err | Inr s \<Rightarrow> Inr (a @ s))"
proof (induction replace ms tail b rule: replace_matches.induct)
  case (2 replace pre m ms tail b)
  show ?case
  proof (cases "m ! 0 = CHR ''$'' \<and> m ! 1 = CHR ''$''")
    case True
    then show ?thesis using 2(1) by simp
  next
    case False
    then show ?thesis using 2(2) by (cases "replace (take (length m - 3) (drop 2 m))") auto
  qed
qed simp

lemma parse_vars_Nil: "parse_vars replace [] = Inr []"
  by (simp add: parse_vars_def)

lemma parse_vars_match:
  assumes "match_var s = Some (m, rest)"
  shows "parse_vars replace s =
    (if m ! 0 = CHR ''$'' \<and> m ! 1 = CHR ''$''
     then (case parse_vars replace rest of Inl err \<Rightarrow> Inl err | Inr t \<Rightarrow> Inr (tl m @ t))
     else case replace (take (length m - 3) (drop 2 m)) of
            Inl err \<Rightarrow> Inl err
          | Inr v \<Rightarrow> (case parse_vars replace rest of Inl err \<Rightarrow> Inl err | Inr t \<Rightarrow> Inr (v @ t)))"
proof -
  obtain c cs where s: "s = c # cs" using assms by (cases s) (auto simp: match_var_def)
  obtain ms tail where f: "find_vars rest = (ms, tail)" by fastforce
  have fs: "find_vars s = (([], m) # ms, tail)" using assms s f by simp
  have acc: "replace_matches replace ms tail a =
      (case replace_matches replace ms tail [] of Inl err \<Rightarrow> Inl err | Inr t \<Rightarrow> Inr (a @ t))" for a
    using replace_matches_acc [of replace ms tail a "[]"] by simp
  show ?thesis
  proof (cases "m ! 0 = CHR ''$'' \<and> m ! 1 = CHR ''$''")
    case True
    then show ?thesis using acc [of "tl m"] by (simp add: parse_vars_def f fs)
  next
    case False
    show ?thesis
    proof (cases "replace (take (length m - 3) (drop 2 m))")
      case (Inl err)
      then show ?thesis using False by (auto simp: parse_vars_def fs)
    next
      case (Inr v)
      have "parse_vars replace s = replace_matches replace ms tail v" using False Inr by (auto simp: parse_vars_def fs)
      then show ?thesis using False Inr acc [of v] by (auto simp: parse_vars_def f)
    qed
  qed
qed

lemma parse_vars_skip:
  assumes "match_var (c # cs) = None"
  shows "parse_vars replace (c # cs) = (case parse_vars replace cs of Inl err \<Rightarrow> Inl err | Inr t \<Rightarrow> Inr (c # t))"
proof -
  obtain ms tail where f: "find_vars cs = (ms, tail)" by fastforce
  show ?thesis
  proof (cases ms)
    case Nil
    then show ?thesis using assms f by (simp add: parse_vars_def)
  next
    case (Cons x ms')
    obtain pre m where x: "x = (pre, m)" by force
    show ?thesis
      using assms f Cons x replace_matches_acc [of replace ms' tail "[c]"]
      by (auto simp: parse_vars_def split: sum.splits)
  qed
qed

lemma match_var_text: "c \<noteq> CHR ''$'' \<Longrightarrow> match_var (c # cs) = None"
  by (simp add: match_var_def)

lemma parse_vars_text:
  "CHR ''$'' \<notin> set s \<Longrightarrow>
   parse_vars replace (s @ t) = (case parse_vars replace t of Inl err \<Rightarrow> Inl err | Inr t \<Rightarrow> Inr (s @ t))"
proof (induction s)
  case (Cons c s)
  then show ?case by (auto simp: parse_vars_skip [OF match_var_text] split: sum.splits)
qed (auto split: sum.splits)

lemma takeWhile_name: "CHR ''}'' \<notin> set n \<Longrightarrow> takeWhile (\<lambda>c. c \<noteq> CHR ''}'') (n @ CHR ''}'' # t) = n"
  by (induction n) auto

lemma dropWhile_name: "CHR ''}'' \<notin> set n \<Longrightarrow> dropWhile (\<lambda>c. c \<noteq> CHR ''}'') (n @ CHR ''}'' # t) = CHR ''}'' # t"
  by (induction n) auto

lemma takeWhile_dollars: "takeWhile (\<lambda>c. c = CHR ''$'') (replicate k CHR ''$'' @ CHR ''{'' # t) = replicate k CHR ''$''"
  by (induction k) auto

lemma dropWhile_dollars: "dropWhile (\<lambda>c. c = CHR ''$'') (replicate k CHR ''$'' @ CHR ''{'' # t) = CHR ''{'' # t"
  by (induction k) auto

lemma match_var_render:
  assumes "n \<noteq> []" "CHR ''}'' \<notin> set n" "k > 0"
  shows "match_var (replicate k CHR ''$'' @ ''{'' @ n @ ''}'' @ t) = Some (replicate k CHR ''$'' @ ''{'' @ n @ ''}'', t)"
  using assms takeWhile_name [OF assms(2), of t] dropWhile_name [OF assms(2), of t]
  by (simp add: match_var_def takeWhile_dollars dropWhile_dollars Let_def)

lemma parse_render:
  "\<forall>t \<in> set ts. token_wf t \<Longrightarrow> parse_vars replace (render ts) = subst_tokens replace ts"
proof (induction ts)
  case Nil
  show ?case by (simp add: render_def parse_vars_Nil)
next
  case (Cons t ts)
  have IH: "parse_vars replace (render ts) = subst_tokens replace ts" using Cons by simp
  show ?case
  proof (cases t)
    case (Txt s)
    then show ?thesis using Cons.prems IH by (simp add: parse_vars_text)
  next
    case (Var n)
    then have m: "match_var (render (t # ts)) = Some (''${'' @ n @ ''}'', render ts)"
      using match_var_render [of n 1 "render ts"] Cons.prems by simp
    show ?thesis using parse_vars_match [OF m, of replace] IH Var by (cases "replace n") simp_all
  next
    case (Esc k n)
    then have m: "match_var (render (t # ts)) = Some (replicate (k + 2) CHR ''$'' @ ''{'' @ n @ ''}'', render ts)"
      using match_var_render [of n "k + 2" "render ts"] Cons.prems by simp
    show ?thesis using parse_vars_match [OF m, of replace] IH Esc by (cases "subst_tokens replace ts") simp_all
  qed
qed

lemma find_vars_none: "find_vars s = ([], tail) \<Longrightarrow> tail = s"
proof (induction s arbitrary: tail rule: find_vars.induct)
  case (2 c cs)
  obtain ms tl where f: "find_vars cs = (ms, tl)" by fastforce
  have m: "match_var (c # cs) = None"
    using 2(3) by (cases "match_var (c # cs)") (auto split: prod.splits)
  then have "ms = [] \<and> tail = c # tl" using 2(3) f by (cases ms) auto
  then show ?case using 2(1) [OF m] f by simp
qed simp

section \<open>Strings of a document\<close>

text \<open>The strings the walk replaces, in its order, and the document with every string replaced.\<close>

fun value_strings :: "json \<Rightarrow> string list"
and list_strings :: "json list \<Rightarrow> string list"
and map_strings :: "(string \<times> json) list \<Rightarrow> string list" where
  "value_strings (JStr s) = [s]"
| "value_strings (JList t) = list_strings t"
| "value_strings (JMap t) = map_strings t"
| "value_strings d = []"
| "list_strings [] = []"
| "list_strings (v # t) = value_strings v @ list_strings t"
| "map_strings [] = []"
| "map_strings ((k, v) # t) = value_strings v @ map_strings t"

fun value_subst :: "(string \<Rightarrow> json) \<Rightarrow> json \<Rightarrow> json"
and list_subst :: "(string \<Rightarrow> json) \<Rightarrow> json list \<Rightarrow> json list"
and map_subst :: "(string \<Rightarrow> json) \<Rightarrow> (string \<times> json) list \<Rightarrow> (string \<times> json) list" where
  "value_subst f (JStr s) = f s"
| "value_subst f (JList t) = JList (list_subst f t)"
| "value_subst f (JMap t) = JMap (map_subst f t)"
| "value_subst f d = d"
| "list_subst f [] = []"
| "list_subst f (v # t) = value_subst f v # list_subst f t"
| "map_subst f [] = []"
| "map_subst f ((k, v) # t) = (k, value_subst f v) # map_subst f t"

definition walk_ok :: "(string \<Rightarrow> gerror + json) \<Rightarrow> string list \<Rightarrow> 'a \<Rightarrow> gerror + 'a \<Rightarrow> bool" where
  "walk_ok replace strings d' r \<longleftrightarrow>
     (case r of Inr x \<Rightarrow> (\<forall>s \<in> set strings. \<not> isl (replace s)) \<and> x = d'
      | Inl err \<Rightarrow> \<exists>s \<in> set strings. replace s = Inl err)"

lemma walk_ok_simps [simp]:
  "walk_ok replace strings d' (Inr x) \<longleftrightarrow> (\<forall>s \<in> set strings. \<not> isl (replace s)) \<and> x = d'"
  "walk_ok replace strings d' (Inl err) \<longleftrightarrow> (\<exists>s \<in> set strings. replace s = Inl err)"
  by (simp_all add: walk_ok_def)

lemma walk_ok_cases:
  assumes "walk_ok replace strings d r"
  obtains x where "r = Inr x" "x = d" "\<forall>s \<in> set strings. \<not> isl (replace s)"
  | err s where "r = Inl err" "s \<in> set strings" "replace s = Inl err"
  using assms by (cases r) auto

abbreviation walk_value :: "(string \<Rightarrow> gerror + json) \<Rightarrow> json \<Rightarrow> gerror + json" where
  "walk_value replace v \<equiv> (if as_string v = None then doWalk replace v else replace (the (as_string v)))"

lemma walk_value_ok:
  assumes "as_string v = None \<Longrightarrow> walk_ok replace (value_strings v) (value_subst (\<lambda>s. projr (replace s)) v) (doWalk replace v)"
  shows "walk_ok replace (value_strings v) (value_subst (\<lambda>s. projr (replace s)) v) (walk_value replace v)"
proof (cases "as_string v")
  case None
  then show ?thesis using assms by simp
next
  case (Some s)
  then have "v = JStr s" by (cases v) simp_all
  then show ?thesis by (cases "replace s") auto
qed

lemma doWalk_ok:
  "as_string d = None \<Longrightarrow> walk_ok replace (value_strings d) (value_subst (\<lambda>s. projr (replace s)) d) (doWalk replace d)"
  "walk_ok replace (list_strings t) (list_subst (\<lambda>s. projr (replace s)) t) (walk_list replace t)"
  "walk_ok replace (map_strings m) (map_subst (\<lambda>s. projr (replace s)) m) (walk_map replace m)"
proof (induction replace d and replace t and replace m rule: doWalk_walk_list_walk_map.induct)
  case (1 replace t)
  then show ?case by (cases rule: walk_ok_cases) auto
next
  case (2 replace t)
  then show ?case by (cases rule: walk_ok_cases) auto
next
  case (5 replace v t)
  have v: "walk_ok replace (value_strings v) (value_subst (\<lambda>s. projr (replace s)) v) (walk_value replace v)"
    by (rule walk_value_ok) (rule 5(1))
  then show ?case
  proof (cases rule: walk_ok_cases)
    case (1 x)
    from 5(2) [OF 1(1)] show ?thesis by (rule walk_ok_cases) (use 1 in auto)
  qed auto
next
  case (7 replace k v t)
  have v: "walk_ok replace (value_strings v) (value_subst (\<lambda>s. projr (replace s)) v) (walk_value replace v)"
    by (rule walk_value_ok) (rule 7(1))
  then show ?case
  proof (cases rule: walk_ok_cases)
    case (1 x)
    from 7(2) [OF 1(1)] show ?thesis by (rule walk_ok_cases) (use 1 in auto)
  qed auto
qed simp_all

section \<open>Properties\<close>

text \<open>A whole-string expression, and that it is the only string that matches \<open>ExpressionVarMatchRegex\<close>.\<close>

definition expression :: "string \<Rightarrow> string" where
  "expression name = ''${{'' @ name @ ''}}''"

lemma match_expression_iff:
  "match_expression s = Some name \<longleftrightarrow> name \<noteq> [] \<and> CHR ''}'' \<notin> set name \<and> s = expression name"
proof
  assume m: "match_expression s = Some name"
  then obtain t where s: "s = ''${{'' @ t" by (auto simp: match_expression_def Let_def prefix_def split: if_splits)
  have n: "name = takeWhile (\<lambda>c. c \<noteq> CHR ''}'') t" "name \<noteq> []" "dropWhile (\<lambda>c. c \<noteq> CHR ''}'') t = ''}}''"
    using m by (auto simp: match_expression_def Let_def s split: if_splits)
  have "t = name @ ''}}''" using n(1,3) takeWhile_dropWhile_id [of "\<lambda>c. c \<noteq> CHR ''}''" t] by simp
  then show "name \<noteq> [] \<and> CHR ''}'' \<notin> set name \<and> s = expression name"
    using n(1,2) s set_takeWhileD [of "CHR ''}''" "\<lambda>c. c \<noteq> CHR ''}''" t] by (auto simp: expression_def)
next
  assume a: "name \<noteq> [] \<and> CHR ''}'' \<notin> set name \<and> s = expression name"
  then have "takeWhile (\<lambda>c. c \<noteq> CHR ''}'') (name @ ''}}'') = name" "dropWhile (\<lambda>c. c \<noteq> CHR ''}'') (name @ ''}}'') = ''}}''"
    by (auto simp: takeWhile_append dropWhile_append)
  then show "match_expression s = Some name" using a by (simp add: match_expression_def expression_def Let_def)
qed

lemma ParseString_tokens:
  assumes "\<forall>t \<in> set ts. token_wf t" and e: "match_expression (render ts) = None"
  shows "ParseString unmarshal replace (render ts) =
    (case subst_tokens replace ts of Inl err \<Rightarrow> Inl err | Inr s \<Rightarrow> Inr (JStr s))"
proof -
  obtain ms tail where f: "find_vars (render ts) = (ms, tail)" by fastforce
  have p: "parse_vars replace (render ts) = subst_tokens replace ts" by (rule parse_render [OF assms(1)])
  show ?thesis
  proof (cases ms)
    case Nil
    then have "tail = render ts" using find_vars_none f by simp
    then show ?thesis using e f Nil p [symmetric] by (simp add: ParseString_def parse_vars_def)
  next
    case (Cons x xs)
    then show ?thesis using e f p by (simp add: ParseString_def parse_vars_def del: replace_matches.simps)
  qed
qed

text \<open>C13. Strings are templates. For every sequence of text, variables and escaped variables whose rendering is not one
  expression in double braces as a whole, parsing the rendered string replaces exactly the variables, once each and from
  left to right, drops one dollar sign of each escaped one, and fails exactly with the error of the first variable that
  cannot be replaced. A string that is such an expression becomes whatever document its replacement is.\<close>

theorem ParseString_render:
  assumes "\<forall>t \<in> set ts. token_wf t"
  shows "((\<forall>name. name \<noteq> [] \<and> CHR ''}'' \<notin> set name \<longrightarrow> render ts \<noteq> expression name) \<longrightarrow>
        ParseString unmarshal replace (render ts) =
          (case subst_tokens replace ts of Inl err \<Rightarrow> Inl err | Inr s \<Rightarrow> Inr (JStr s)))
    \<and> (\<forall>name. name \<noteq> [] \<and> CHR ''}'' \<notin> set name \<longrightarrow>
        ParseString unmarshal replace (expression name) =
          (case replace name of Inl err \<Rightarrow> Inl err | Inr v \<Rightarrow> unmarshal v))"
proof (intro conjI impI allI)
  assume "\<forall>name. name \<noteq> [] \<and> CHR ''}'' \<notin> set name \<longrightarrow> render ts \<noteq> expression name"
  then have "match_expression (render ts) = None" using match_expression_iff by (metis option.exhaust)
  then show "ParseString unmarshal replace (render ts) =
      (case subst_tokens replace ts of Inl err \<Rightarrow> Inl err | Inr s \<Rightarrow> Inr (JStr s))"
    by (rule ParseString_tokens [OF assms])
next
  fix name :: string
  assume "name \<noteq> [] \<and> CHR ''}'' \<notin> set name"
  then have "match_expression (expression name) = Some name" by (simp add: match_expression_iff)
  then show "ParseString unmarshal replace (expression name) =
      (case replace name of Inl err \<Rightarrow> Inl err | Inr v \<Rightarrow> unmarshal v)"
    by (simp add: ParseString_def)
qed

definition ex_tokens :: "token list" where
  "ex_tokens = [Txt ''a '', Var ''x'', Esc 0 ''y'', Var ''x'']"

theorem ParseString_render_witness:
  "ParseString (\<lambda>_. Inl (OtherErr [])) (\<lambda>n. Inr (n @ n)) ''a ${x}$${y}${x}'' = Inr (JStr ''a xx${y}xx'')
   \<and> ParseString (\<lambda>s. Inr (JNum (int (length s)))) Inr ''${{xyz}}'' = Inr (JNum 3)"
proof
  have r: "render ex_tokens = ''a ${x}$${y}${x}''" by (simp add: render_def ex_tokens_def numeral_2_eq_2)
  have wf: "\<forall>t \<in> set ex_tokens. token_wf t" by (simp add: ex_tokens_def)
  have e: "\<forall>name. name \<noteq> [] \<and> CHR ''}'' \<notin> set name \<longrightarrow> render ex_tokens \<noteq> expression name" by (simp add: r expression_def)
  have "subst_tokens (\<lambda>n. Inr (n @ n)) ex_tokens = Inr ''a xx${y}xx''" by (simp add: ex_tokens_def)
  then show "ParseString (\<lambda>_. Inl (OtherErr [])) (\<lambda>n. Inr (n @ n)) ''a ${x}$${y}${x}'' = Inr (JStr ''a xx${y}xx'')"
    using ParseString_render [OF wf, of "\<lambda>_. Inl (OtherErr [])" "\<lambda>n. Inr (n @ n)"] e by (simp add: r)
  show "ParseString (\<lambda>s. Inr (JNum (int (length s)))) Inr ''${{xyz}}'' = Inr (JNum 3)"
    using ParseString_render [OF wf, of "\<lambda>s. Inr (JNum (int (length s)))" Inr, THEN conjunct2, rule_format, of "''xyz''"]
    by (simp add: expression_def)
qed

text \<open>Walking a document replaces every string value and nothing else: keys, other values and the shape
  stay, it fails exactly if the replacement of some string fails, with the error of such a string.\<close>

lemma WalkStringMap_spec:
  "case WalkStringMap replace d of
     Inr d' \<Rightarrow> list_all (\<lambda>s. \<not> isl (replace s)) (map_strings d) \<and> d' = map_subst (\<lambda>s. projr (replace s)) d
   | Inl err \<Rightarrow> list_ex (\<lambda>s. replace s = Inl err) (map_strings d)"
  using doWalk_ok(3) [of replace d] unfolding WalkStringMap_def walk_ok_def by (cases "walk_map replace d") (simp_all add: list_all_iff list_ex_iff)

end
