(* ===== verification/Unstructured.thy ===== *)
theory Unstructured
  imports Parameters
begin

text \<open>
  Objects as parsed documents: the accessors of \<open>unstructured.Unstructured\<close> that the code calls
  (\<open>vendor/k8s.io/apimachinery/pkg/apis/meta/v1/unstructured\<close>).
\<close>

type_synonym doc = "(string \<times> json) list"

section \<open>Nested fields\<close>

fun nested :: "json \<Rightarrow> string list \<Rightarrow> json option" where
  "nested v [] = Some v"
| "nested (JMap m) (field # fields) = (case map_of m field of None \<Rightarrow> None | Some v \<Rightarrow> nested v fields)"
| "nested v (field # fields) = None"

definition getNestedString :: "doc \<Rightarrow> string list \<Rightarrow> string" where
  "getNestedString d fields =
    (case nested (JMap d) fields of
       None \<Rightarrow> []
     | Some v \<Rightarrow> (case as_string v of Some s \<Rightarrow> s | None \<Rightarrow> []))"

fun as_map :: "json \<Rightarrow> doc option" where
  "as_map (JMap m) = Some m"
| "as_map _ = None"

fun setNestedField :: "json \<Rightarrow> string list \<Rightarrow> doc \<Rightarrow> doc" where
  "setNestedField v [] d = d"
| "setNestedField v [field] d = put field v d"
| "setNestedField v (field # f # fields) d =
     (case map_of d field of
        None \<Rightarrow> put field (JMap (setNestedField v (f # fields) [])) d
      | Some x \<Rightarrow>
          if as_map x = None then d else put field (JMap (setNestedField v (f # fields) (the (as_map x)))) d)"

fun RemoveNestedField :: "string list \<Rightarrow> doc \<Rightarrow> doc" where
  "RemoveNestedField [] d = d"
| "RemoveNestedField [field] d = del field d"
| "RemoveNestedField (field # f # fields) d =
     (case map_of d field of
        None \<Rightarrow> d
      | Some x \<Rightarrow>
          if as_map x = None then d else put field (JMap (RemoveNestedField (f # fields) (the (as_map x)))) d)"

section \<open>The fields of objects\<close>

definition GetAPIVersion :: "doc \<Rightarrow> string" where
  "GetAPIVersion d = getNestedString d [''apiVersion'']"

definition GetKind :: "doc \<Rightarrow> string" where
  "GetKind d = getNestedString d [''kind'']"

definition GetName :: "doc \<Rightarrow> string" where
  "GetName d = getNestedString d [''metadata'', ''name'']"

definition GetNamespace :: "doc \<Rightarrow> string" where
  "GetNamespace d = getNestedString d [''metadata'', ''namespace'']"

definition GetResourceVersion :: "doc \<Rightarrow> string" where
  "GetResourceVersion d = getNestedString d [''metadata'', ''resourceVersion'']"

definition SetNamespace :: "string \<Rightarrow> doc \<Rightarrow> doc" where
  "SetNamespace namespace d =
    (if namespace = [] then RemoveNestedField [''metadata'', ''namespace''] d
     else setNestedField (JStr namespace) [''metadata'', ''namespace''] d)"

text \<open>A map with a value that is not a string counts as no annotations.\<close>

definition GetAnnotations :: "doc \<Rightarrow> (string \<times> string) list option" where
  "GetAnnotations d =
    (case nested (JMap d) [''metadata'', ''annotations''] of
       None \<Rightarrow> None
     | Some v \<Rightarrow>
         (case as_map v of
            None \<Rightarrow> None
          | Some m \<Rightarrow>
              if list_all (\<lambda>(k, x). as_string x \<noteq> None) m then Some (map (\<lambda>(k, x). (k, the (as_string x))) m) else None))"

text \<open>\<open>schema.ParseGroupVersion\<close>: group and version.\<close>

definition ParseGroupVersion :: "string \<Rightarrow> gerror + (string \<times> string)" where
  "ParseGroupVersion gv =
    (if gv = [] \<or> gv = ''/'' then Inr ([], [])
     else if count_list gv (CHR ''/'') = 0 then Inr ([], gv)
     else if count_list gv (CHR ''/'') = 1 then Inr (SplitN2 gv (CHR ''/''))
     else Inl (OtherErr (''unexpected GroupVersion string: '' @ gv)))"

text \<open>\<open>schema.GroupVersion.String\<close>.\<close>

definition GroupVersionString :: "string \<times> string \<Rightarrow> string" where
  "GroupVersionString gv = (if fst gv \<noteq> [] then fst gv @ ''/'' @ snd gv else snd gv)"

section \<open>Lemmas\<close>

definition metadata_ok :: "doc \<Rightarrow> bool" where
  "metadata_ok d \<longleftrightarrow> (case map_of d ''metadata'' of None \<Rightarrow> True | Some v \<Rightarrow> as_map v \<noteq> None)"

lemma as_map_Some [simp]: "as_map v = Some m \<longleftrightarrow> v = JMap m"
  by (cases v) auto

lemma as_string_Some [simp]: "as_string v = Some s \<longleftrightarrow> v = JStr s"
  by (cases v) auto

lemma GetName_metadata: "GetName d \<noteq> [] \<Longrightarrow> \<exists>m. map_of d ''metadata'' = Some (JMap m)"
proof -
  assume a: "GetName d \<noteq> []"
  then obtain v where v: "map_of d ''metadata'' = Some v"
    by (auto simp: GetName_def getNestedString_def split: option.splits)
  with a show ?thesis by (cases v) (auto simp: GetName_def getNestedString_def)
qed

lemma GetNamespace_SetNamespace:
  assumes "metadata_ok d"
  shows "GetNamespace (SetNamespace ns d) = ns"
proof (cases "map_of d ''metadata''")
  case None
  then show ?thesis by (auto simp: GetNamespace_def SetNamespace_def getNestedString_def map_of_put)
next
  case (Some v)
  then obtain m where "v = JMap m" using assms by (auto simp: metadata_ok_def)
  then show ?thesis using Some by (auto simp: GetNamespace_def SetNamespace_def getNestedString_def map_of_put map_of_del)
qed

lemma SetNamespace_toplevel:
  "field \<noteq> ''metadata'' \<Longrightarrow> map_of (SetNamespace ns d) field = map_of d field"
  by (auto simp: SetNamespace_def map_of_put split: option.splits)

lemma SetNamespace_same:
  "GetName (SetNamespace ns d) = GetName d" "GetAPIVersion (SetNamespace ns d) = GetAPIVersion d"
  "GetKind (SetNamespace ns d) = GetKind d" "metadata_ok (SetNamespace ns d) \<longleftrightarrow> metadata_ok d"
proof -
  show "GetAPIVersion (SetNamespace ns d) = GetAPIVersion d" "GetKind (SetNamespace ns d) = GetKind d"
    by (simp_all add: GetAPIVersion_def GetKind_def getNestedString_def SetNamespace_toplevel)
  show "GetName (SetNamespace ns d) = GetName d" "metadata_ok (SetNamespace ns d) \<longleftrightarrow> metadata_ok d"
    by (auto simp: GetName_def metadata_ok_def SetNamespace_def getNestedString_def map_of_put map_of_del split: option.splits)
qed

lemma GetName_metadata_ok: "GetName d \<noteq> [] \<Longrightarrow> metadata_ok d"
  using GetName_metadata [of d] by (auto simp: metadata_ok_def)

end
