(* ===== verification/Merge.thy ===== *)
theory Merge
  imports Unstructured
begin

text \<open>
  Applying rendered manifests (\<open>pkg/manager/merge\<close>): lists of resources, the update that creates, patches and
  deletes, and the merge of manifests. The REST client of the cluster, the builder of resources and the patch
  libraries are parameters.
\<close>

section \<open>Resources\<close>

record rest_mapping =
  mp_group :: string
  mp_version :: string
  mp_kind :: string
  mp_resource :: string

text \<open>\<open>resource.Info\<close> (\<open>vendor/k8s.io/cli-runtime/pkg/resource/visitor.go\<close>), with \<open>Get\<close> and \<open>Refresh\<close>.\<close>

record info =
  if_mapping :: rest_mapping
  if_namespace :: string
  if_name :: string
  if_object :: doc
  if_resourceVersion :: string

datatype patch_type = MergePatch | StrategicMergePatch

record 'w rest_client =
  rc_Get :: "'w \<Rightarrow> rest_mapping \<Rightarrow> string \<Rightarrow> string \<Rightarrow> gerror + doc"
  rc_GetNamespace :: "'w \<Rightarrow> string \<Rightarrow> gerror option"
  rc_Create :: "'w \<Rightarrow> rest_mapping \<Rightarrow> string \<Rightarrow> doc \<Rightarrow> 'w \<times> (gerror + doc)"
  rc_Patch :: "'w \<Rightarrow> rest_mapping \<Rightarrow> string \<Rightarrow> string \<Rightarrow> patch_type \<Rightarrow> string \<Rightarrow> 'w \<times> (gerror + doc)"
  rc_Delete :: "'w \<Rightarrow> rest_mapping \<Rightarrow> string \<Rightarrow> string \<Rightarrow> string \<Rightarrow> 'w \<times> gerror option"

text \<open>What the client refers to: the key under which the server stores an object.\<close>

datatype obj_key = ObjKey string string string string

definition obj_key :: "rest_mapping \<Rightarrow> string \<Rightarrow> string \<Rightarrow> obj_key" where
  "obj_key m namespace name = ObjKey (mp_group m) (mp_kind m) namespace name"

definition info_key :: "info \<Rightarrow> obj_key" where
  "info_key i = obj_key (if_mapping i) (if_namespace i) (if_name i)"

definition info_Get :: "'w rest_client \<Rightarrow> 'w \<Rightarrow> info \<Rightarrow> gerror + info" where
  "info_Get C w i =
    (case rc_Get C w (if_mapping i) (if_namespace i) (if_name i) of
       Inl err \<Rightarrow>
         if IsNotFound err \<and> if_namespace i \<noteq> [] \<and> if_namespace i \<noteq> ''default'' then
           (case rc_GetNamespace C w (if_namespace i) of
              Some err2 \<Rightarrow> Inl (if IsNotFound err2 then err2 else err)
            | None \<Rightarrow> Inl err)
         else Inl err
     | Inr obj \<Rightarrow> Inr (i\<lparr>if_object := obj, if_resourceVersion := GetResourceVersion obj\<rparr>))"

definition info_Refresh :: "info \<Rightarrow> doc \<Rightarrow> info" where
  "info_Refresh i obj = i\<lparr>if_name := GetName obj, if_namespace := GetNamespace obj,
     if_resourceVersion := GetResourceVersion obj, if_object := obj\<rparr>"

section \<open>Resource lists\<close>

definition isMatchingInfo :: "info \<Rightarrow> info \<Rightarrow> bool" where
  "isMatchingInfo a b \<longleftrightarrow>
     if_name a = if_name b \<and> if_namespace a = if_namespace b \<and> mp_kind (if_mapping a) = mp_kind (if_mapping b)"

fun rl_Visit :: "(info \<Rightarrow> gerror option) \<Rightarrow> info list \<Rightarrow> gerror option" where
  "rl_Visit f [] = None"
| "rl_Visit f (i # r) = (case f i of Some err \<Rightarrow> Some err | None \<Rightarrow> rl_Visit f r)"

definition rl_Filter :: "(info \<Rightarrow> bool) \<Rightarrow> info list \<Rightarrow> info list" where
  "rl_Filter f r = fold (\<lambda>i result. if f i then result @ [i] else result) r []"

definition rl_Get :: "info list \<Rightarrow> info \<Rightarrow> info option" where
  "rl_Get r info = find (\<lambda>i. isMatchingInfo i info) r"

definition rl_Contains :: "info list \<Rightarrow> info \<Rightarrow> bool" where
  "rl_Contains r info \<longleftrightarrow> list_ex (\<lambda>i. isMatchingInfo i info) r"

definition rl_Difference :: "info list \<Rightarrow> info list \<Rightarrow> info list" where
  "rl_Difference r rs = rl_Filter (\<lambda>info. \<not> rl_Contains rs info) r"

definition rl_Intersect :: "info list \<Rightarrow> info list \<Rightarrow> info list" where
  "rl_Intersect r rs = rl_Filter (rl_Contains rs) r"

section \<open>Patches\<close>

text \<open>What \<open>ConvertToVersion\<close> returns, and the libraries that compute patches.\<close>

datatype versioned = VUnstructured doc | VCustomResourceDefinition string | VTyped string

record patch_lib =
  pl_Marshal :: "doc option \<Rightarrow> gerror + string"
  pl_PrioritizedVersions :: "(string \<times> string) list"
  pl_ConvertToVersion :: "doc \<Rightarrow> (string \<times> string) list \<Rightarrow> gerror + versioned"
  pl_CreateMergePatch :: "string \<Rightarrow> string \<Rightarrow> gerror + string option"
  pl_NewPatchMetaFromStruct :: "versioned \<Rightarrow> gerror + string"
  pl_CreateThreeWayMergePatch :: "string \<Rightarrow> string \<Rightarrow> string \<Rightarrow> string \<Rightarrow> bool \<Rightarrow> gerror + string option"

definition convertWithMapper :: "patch_lib \<Rightarrow> doc \<Rightarrow> rest_mapping option \<Rightarrow> versioned" where
  "convertWithMapper L obj mapping =
    (let gv = (case mapping of None \<Rightarrow> pl_PrioritizedVersions L | Some m \<Rightarrow> [(mp_group m, mp_version m)])
     in case pl_ConvertToVersion L obj gv of Inr obj' \<Rightarrow> obj' | Inl err \<Rightarrow> VUnstructured obj)"

definition AsVersioned :: "patch_lib \<Rightarrow> info \<Rightarrow> versioned" where
  "AsVersioned L info = convertWithMapper L (if_object info) (Some (if_mapping info))"

text \<open>The end of \<open>createPatch\<close>, when the three configurations are serialized.\<close>

definition compute_patch :: "patch_lib \<Rightarrow> versioned \<Rightarrow> string \<Rightarrow> string \<Rightarrow> string \<Rightarrow> gerror + string option \<times> patch_type" where
  "compute_patch L versionedObject oldData newData currentData =
    (case versionedObject of
       VTyped _ \<Rightarrow>
         (case pl_NewPatchMetaFromStruct L versionedObject of
            Inl err \<Rightarrow> Inl (WrapErr ''unable to create patch metadata from object'' err)
          | Inr patchMeta \<Rightarrow>
              (case pl_CreateThreeWayMergePatch L oldData newData currentData patchMeta True of
                 Inl err \<Rightarrow> Inl err
               | Inr patch \<Rightarrow> Inr (patch, StrategicMergePatch)))
     | _ \<Rightarrow>
         (case pl_CreateMergePatch L oldData newData of
            Inl err \<Rightarrow> Inl err
          | Inr patch \<Rightarrow> Inr (patch, MergePatch)))"

definition createPatch :: "'w rest_client \<Rightarrow> patch_lib \<Rightarrow> 'w \<Rightarrow> info \<Rightarrow> doc \<Rightarrow> gerror + string option \<times> patch_type" where
  "createPatch C L w target current =
    (case pl_Marshal L (Some current) of
       Inl err \<Rightarrow> Inl (WrapErr ''serializing current configuration'' err)
     | Inr oldData \<Rightarrow>
         (case pl_Marshal L (Some (if_object target)) of
            Inl err \<Rightarrow> Inl (WrapErr ''serializing target configuration'' err)
          | Inr newData \<Rightarrow>
              (let live = rc_Get C w (if_mapping target) (if_namespace target) (if_name target) in
               if isl live \<and> \<not> IsNotFound (projl live) then
                 Inl (WrapErr (''unable to get data for current object '' @ if_namespace target @ ''/'' @ if_name target) (projl live))
               else
                 (case pl_Marshal L (if isl live then None else Some (projr live)) of
                    Inl err \<Rightarrow> Inl (WrapErr ''serializing live configuration'' err)
                  | Inr currentData \<Rightarrow> compute_patch L (AsVersioned L target) oldData newData currentData))))"

section \<open>Operations on one resource\<close>

definition quoted :: "string \<Rightarrow> string" where
  "quoted s = CHR 0x22 # s @ [CHR 0x22]"

definition createResource :: "'w rest_client \<Rightarrow> 'w \<Rightarrow> info \<Rightarrow> 'w \<times> (gerror + info)" where
  "createResource C w info =
    (case rc_Create C w (if_mapping info) (if_namespace info) (if_object info) of
       (w, Inl err) \<Rightarrow> (w, Inl err)
     | (w, Inr obj) \<Rightarrow> (w, Inr (info_Refresh info obj)))"

definition deleteResource :: "'w rest_client \<Rightarrow> 'w \<Rightarrow> info \<Rightarrow> 'w \<times> gerror option" where
  "deleteResource C w info = rc_Delete C w (if_mapping info) (if_namespace info) (if_name info) ''Background''"

definition updateResource :: "'w rest_client \<Rightarrow> patch_lib \<Rightarrow> 'w \<Rightarrow> info \<Rightarrow> doc \<Rightarrow> 'w \<times> (gerror + info)" where
  "updateResource C L w target currentObj =
    (case createPatch C L w target currentObj of
       Inl err \<Rightarrow> (w, Inl (WrapErr ''failed to create patch'' err))
     | Inr (patch, patchType) \<Rightarrow>
         if patch = None \<or> patch = Some ''{}'' then
           (case info_Get C w target of
              Inl err \<Rightarrow> (w, Inl (WrapErr ''failed to refresh resource information'' err))
            | Inr target' \<Rightarrow> (w, Inr target'))
         else
           (case rc_Patch C w (if_mapping target) (if_namespace target) (if_name target) patchType (the patch) of
              (w, Inl err) \<Rightarrow>
                (w, Inl (WrapErr (''cannot patch '' @ quoted (if_name target) @ '' with kind '' @ mp_kind (if_mapping target)) err))
            | (w, Inr obj) \<Rightarrow> (w, Inr (info_Refresh target obj))))"

section \<open>Update\<close>

record result =
  rs_Created :: "info list"
  rs_Updated :: "info list"
  rs_Deleted :: "info list"

text \<open>What the visitor did with one target: nothing, for an error; created it; or updated it, with the error of either.\<close>

datatype visited = Unvisited gerror | Created "gerror option" | Updated "gerror option"

definition visit_target :: "'w rest_client \<Rightarrow> patch_lib \<Rightarrow> info list \<Rightarrow> 'w \<Rightarrow> info \<Rightarrow> 'w \<times> info \<times> visited" where
  "visit_target C L original w info =
    (case rc_Get C w (if_mapping info) (if_namespace info) (if_name info) of
       Inl err \<Rightarrow>
         if \<not> IsNotFound err then (w, info, Unvisited (WrapErr ''could not get information about the resource'' err))
         else
           (case createResource C w info of
              (w, Inl err) \<Rightarrow> (w, info, Created (Some (WrapErr ''failed to create resource'' err)))
            | (w, Inr info) \<Rightarrow> (w, info, Created None))
     | Inr currentObj \<Rightarrow>
         (case updateResource C L w info (case rl_Get original info of None \<Rightarrow> currentObj | Some originalInfo \<Rightarrow> if_object originalInfo) of
            (w, Inl err) \<Rightarrow> (w, info, Updated (Some err))
          | (w, Inr info) \<Rightarrow> (w, info, Updated None)))"

text \<open>The visits of the targets, which are refreshed in place: the list that is returned is the refreshed one.\<close>

fun visit_targets ::
  "'w rest_client \<Rightarrow> patch_lib \<Rightarrow> info list \<Rightarrow> 'w \<Rightarrow> info list \<Rightarrow> string list \<Rightarrow> result
    \<Rightarrow> 'w \<times> info list \<times> string list \<times> result \<times> gerror option"
where
  "visit_targets C L original w [] updateErrors res = (w, [], updateErrors, res, None)"
| "visit_targets C L original w (info # target) updateErrors res =
     (case visit_target C L original w info of
        (w, info, Unvisited err) \<Rightarrow> (w, info # target, updateErrors, res, Some err)
      | (w, info, Created (Some err)) \<Rightarrow>
          (w, info # target, updateErrors, res\<lparr>rs_Created := rs_Created res @ [info]\<rparr>, Some err)
      | (w, info, Created None) \<Rightarrow>
          (case visit_targets C L original w target updateErrors (res\<lparr>rs_Created := rs_Created res @ [info]\<rparr>) of
             (w, target, rest) \<Rightarrow> (w, info # target, rest))
      | (w, info, Updated err) \<Rightarrow>
          (case visit_targets C L original w target
              (case err of None \<Rightarrow> updateErrors | Some e \<Rightarrow> updateErrors @ [err_msg e])
              (res\<lparr>rs_Updated := rs_Updated res @ [info]\<rparr>) of
             (w, target, rest) \<Rightarrow> (w, info # target, rest)))"

definition ResourcePolicyAnno :: string where "ResourcePolicyAnno = ''helm.sh/resource-policy''"
definition KeepPolicy :: string where "KeepPolicy = ''keep''"

definition keep_annotated :: "doc \<Rightarrow> bool" where
  "keep_annotated obj \<longleftrightarrow>
     (case GetAnnotations obj of None \<Rightarrow> False | Some annotations \<Rightarrow> map_of annotations ResourcePolicyAnno = Some KeepPolicy)"

fun delete_originals :: "'w rest_client \<Rightarrow> 'w \<Rightarrow> info list \<Rightarrow> result \<Rightarrow> 'w \<times> result \<times> gerror option" where
  "delete_originals C w [] res = (w, res, None)"
| "delete_originals C w (info # infos) res =
     (let info = (case info_Get C w info of Inl err \<Rightarrow> info | Inr info' \<Rightarrow> info') in
      if keep_annotated (if_object info) then delete_originals C w infos res
      else
        (let res = res\<lparr>rs_Deleted := rs_Deleted res @ [info]\<rparr> in
         case deleteResource C w info of
           (w, None) \<Rightarrow> delete_originals C w infos res
         | (w, Some err) \<Rightarrow>
             if IsNotFound err then delete_originals C w infos res
             else (w, res, Some (WrapErr (''Failed to delete '' @ quoted (if_name info)) err))))"

definition Update :: "'w rest_client \<Rightarrow> patch_lib \<Rightarrow> 'w \<Rightarrow> info list \<Rightarrow> info list \<Rightarrow> 'w \<times> result \<times> gerror option" where
  "Update C L w original target =
    (case visit_targets C L original w target [] \<lparr>rs_Created = [], rs_Updated = [], rs_Deleted = []\<rparr> of
       (w, target, updateErrors, res, err) \<Rightarrow>
         if err \<noteq> None then (w, res, err)
         else if length updateErrors \<noteq> 0 then (w, res, Some (OtherErr (Join updateErrors '' && '')))
         else delete_originals C w (rl_Difference original target) res)"

section \<open>Merge\<close>

definition client_namespace :: "string \<Rightarrow> gerror + string \<Rightarrow> string" where
  "client_namespace namespace config =
    (if namespace \<noteq> [] then namespace else case config of Inr ns \<Rightarrow> ns | Inl err \<Rightarrow> ''default'')"

text \<open>\<open>strings.ReplaceAll\<close> of a non-empty string by the empty string.\<close>

function RemoveAll :: "string \<Rightarrow> string \<Rightarrow> string" where
  "RemoveAll p s =
     (if p = [] \<or> s = [] then s
      else if prefix p s then RemoveAll p (drop (length p) s)
      else hd s # RemoveAll p (tl s))"
  by pat_completeness auto
termination by (relation "measure (\<lambda>(p, s). length s)") auto

declare RemoveAll.simps [simp del]

definition stopValidateMessage :: string where
  "stopValidateMessage = ''if you choose to ignore these errors, turn validation off with --validate=false''"

definition scrubValidationError :: "gerror \<Rightarrow> gerror" where
  "scrubValidationError err =
    (if StrContains (err_msg err) stopValidateMessage
     then OtherErr (RemoveAll (''; '' @ stopValidateMessage) (err_msg err))
     else err)"

text \<open>The factory: the schema for validation, the namespace of the kubeconfig, and the resource builder.\<close>

record factory =
  fa_Validator :: "bool \<Rightarrow> gerror + string"
  fa_Namespace :: "gerror + string"
  fa_Infos :: "string \<Rightarrow> string \<Rightarrow> string \<Rightarrow> gerror + info list"

definition Build :: "factory \<Rightarrow> string \<Rightarrow> string \<Rightarrow> bool \<Rightarrow> gerror + info list" where
  "Build F namespace reader validate =
    (case fa_Validator F validate of
       Inl err \<Rightarrow> Inl err
     | Inr schema \<Rightarrow>
         (case fa_Infos F (client_namespace namespace (fa_Namespace F)) schema reader of
            Inl err \<Rightarrow> Inl (scrubValidationError err)
          | Inr infos \<Rightarrow> Inr infos))"

text \<open>\<open>objectKey\<close> takes version and kind of the object itself: nothing where its version does not parse.\<close>

definition GroupVersionKind :: "doc \<Rightarrow> (string \<times> string) \<times> string" where
  "GroupVersionKind obj =
    (case ParseGroupVersion (GetAPIVersion obj) of Inl err \<Rightarrow> (([], []), []) | Inr gv \<Rightarrow> (gv, GetKind obj))"

definition objectKey :: "info \<Rightarrow> string" where
  "objectKey r =
    (case GroupVersionKind (if_object r) of
       (gv, kind) \<Rightarrow> GroupVersionString gv @ ''/'' @ kind @ ''/'' @ if_namespace r @ ''/'' @ if_name r)"

definition existingResourceConflict :: "'w rest_client \<Rightarrow> 'w \<Rightarrow> info list \<Rightarrow> gerror option" where
  "existingResourceConflict C w resources =
    rl_Visit (\<lambda>info.
      case rc_Get C w (if_mapping info) (if_namespace info) (if_name info) of
        Inl err \<Rightarrow> if IsNotFound err then None else Some (WrapErr ''could not get information about the resource'' err)
      | Inr existing \<Rightarrow> Some (OtherErr ''existing resource conflict'')) resources"

definition Merge :: "'w rest_client \<Rightarrow> patch_lib \<Rightarrow> factory \<Rightarrow> string \<Rightarrow> 'w \<Rightarrow> string \<Rightarrow> string \<Rightarrow> bool \<Rightarrow> 'w \<times> gerror option" where
  "Merge C L F namespace w oldManifests newManifests force =
    (case Build F namespace oldManifests False of
       Inl err \<Rightarrow> (w, Some (WrapErr ''unable to build kubernetes objects from current release manifest'' err))
     | Inr current \<Rightarrow>
         (case Build F namespace newManifests True of
            Inl err \<Rightarrow> (w, Some (WrapErr ''unable to build kubernetes objects from new release manifest'' err))
          | Inr target \<Rightarrow>
              (let conflict =
                 (if force then None
                  else (let existingResources = objectKey ` set current;
                            toBeCreated = filter (\<lambda>r. objectKey r \<notin> existingResources) target
                        in existingResourceConflict C w toBeCreated))
               in case conflict of
                    Some err \<Rightarrow> (w, Some (WrapErr ''rendered manifests contain a new resource that already exists. Unable to continue with update'' err))
                  | None \<Rightarrow> (case Update C L w current target of (w, res, err) \<Rightarrow> (w, err)))))"

section \<open>What the client relies on\<close>

text \<open>
  The laws of the API server, over a view of what it stores: an operation changes no other object, and one that
  succeeds returns what is stored. Deletion may leave a terminating object behind, whose finalizers have to run. An
  operation that fails may have had its effect.
\<close>

definition terminating :: "doc \<Rightarrow> bool" where
  "terminating d \<longleftrightarrow> getNestedString d [''metadata'', ''deletionTimestamp''] \<noteq> []"

definition gone :: "doc option \<Rightarrow> bool" where
  "gone x \<longleftrightarrow> (case x of None \<Rightarrow> True | Some d \<Rightarrow> terminating d)"

definition info_wf :: "info \<Rightarrow> bool" where
  "info_wf i \<longleftrightarrow> if_name i = GetName (if_object i) \<and> if_name i \<noteq> []"

definition same_id :: "info \<Rightarrow> info \<Rightarrow> bool" where
  "same_id i j \<longleftrightarrow> if_mapping i = if_mapping j \<and> if_namespace i = if_namespace j \<and> if_name i = if_name j"

lemma same_id_simps:
  "same_id i i" "same_id i j \<Longrightarrow> info_key i = info_key j" "same_id i j \<Longrightarrow> isMatchingInfo i k = isMatchingInfo j k"
  by (auto simp: same_id_def info_key_def isMatchingInfo_def)

lemma same_id_Get: "info_Get C w i = Inr j \<Longrightarrow> same_id i j"
  by (auto simp: info_Get_def same_id_def split: sum.splits if_splits option.splits)

lemma same_id_Refresh: "GetName d = if_name i \<Longrightarrow> GetNamespace d = if_namespace i \<Longrightarrow> same_id i (info_Refresh i d)"
  by (simp add: same_id_def info_Refresh_def)

lemma rl_Filter_eq [simp]: "rl_Filter f r = filter f r"
  by (simp add: rl_Filter_def fold_filter_append)

lemma rl_Contains_iff: "rl_Contains r i \<longleftrightarrow> (\<exists>j \<in> set r. isMatchingInfo j i)"
  by (auto simp: rl_Contains_def list_ex_iff)

lemma Difference_iff: "i \<in> set (rl_Difference r rs) \<longleftrightarrow> i \<in> set r \<and> \<not> rl_Contains rs i"
  by (auto simp: rl_Difference_def)

lemma key_matching: "info_key i = info_key j \<Longrightarrow> isMatchingInfo i j"
  by (simp add: info_key_def obj_key_def isMatchingInfo_def)

lemma Contains_same_id:
  assumes "list_all2 same_id r r'"
  shows "rl_Contains r i \<longleftrightarrow> rl_Contains r' i"
  using assms by (induction rule: list_all2_induct) (auto simp: rl_Contains_def same_id_simps)

lemma Difference_keys:
  assumes "list_all2 same_id target ts" "t \<in> set target"
  shows "info_key t \<notin> info_key ` set (rl_Difference original ts)"
proof
  assume "info_key t \<in> info_key ` set (rl_Difference original ts)"
  then obtain i where i: "info_key t = info_key i" "\<not> rl_Contains ts i" by (auto simp: Difference_iff)
  then have "\<not> rl_Contains target i" using Contains_same_id [OF assms(1)] by simp
  then show False using assms(2) key_matching [OF i(1)] by (auto simp: rl_Contains_iff)
qed

lemma keys_same_id: "list_all2 same_id r r' \<Longrightarrow> map info_key r = map info_key r'"
  by (induction rule: list_all2_induct) (auto simp: same_id_simps)

text \<open>The outcomes of the operations on one resource.\<close>

lemma updateResource_cases:
  assumes "updateResource C L w i cur = (w', r)"
  obtains e where "w' = w" "r = Inl e"
  | j where "w' = w" "info_Get C w i = Inr j" "r = Inr j"
  | t p e e' where "rc_Patch C w (if_mapping i) (if_namespace i) (if_name i) t p = (w', Inl e)" "r = Inl e'"
  | t p x where "rc_Patch C w (if_mapping i) (if_namespace i) (if_name i) t p = (w', Inr x)" "r = Inr (info_Refresh i x)"
proof (cases "createPatch C L w i cur")
  case (Inl e)
  then show thesis using assms that(1) by (auto simp: updateResource_def)
next
  case (Inr b)
  obtain p t where b: "b = (p, t)" by force
  show thesis
  proof (cases "p = None \<or> p = Some ''{}''")
    case True
    have u: "updateResource C L w i cur = (case info_Get C w i of
        Inl err \<Rightarrow> (w, Inl (WrapErr ''failed to refresh resource information'' err)) | Inr j \<Rightarrow> (w, Inr j))"
      using True Inr b by (auto simp: updateResource_def)
    show thesis
    proof (cases "info_Get C w i")
      case (Inl e)
      then show thesis using assms u that(1) by auto
    next
      case (Inr j)
      have "w = w'" "r = Inr j" using assms u Inr by simp_all
      then show thesis using that(2) [of j] Inr by simp
    qed
  next
    case False
    obtain w1 s where s: "rc_Patch C w (if_mapping i) (if_namespace i) (if_name i) t (the p) = (w1, s)" by fastforce
    show thesis
    proof (cases s)
      case (Inl e)
      have "w' = w1" using assms Inr b s False Inl by (simp add: updateResource_def)
      moreover obtain e' where "r = Inl e'" using assms Inr b s False Inl by (auto simp: updateResource_def)
      ultimately show thesis using that(3) s Inl by simp
    next
      case (Inr x)
      then show thesis using assms \<open>createPatch C L w i cur = Inr b\<close> b s False that(4) by (simp add: updateResource_def)
    qed
  qed
qed

lemma visit_target_cases:
  assumes "visit_target C L original w i = (w', j, v)"
  obtains e where "w' = w" "j = i" "v = Unvisited e"
  | e e' where "createResource C w i = (w', Inl e)" "j = i" "v = Created (Some e')"
  | "createResource C w i = (w', Inr j)" "v = Created None"
  | cur e where "updateResource C L w i cur = (w', Inl e)" "j = i" "v = Updated (Some e)"
  | cur where "updateResource C L w i cur = (w', Inr j)" "v = Updated None"
proof (cases "rc_Get C w (if_mapping i) (if_namespace i) (if_name i)")
  case (Inl e)
  show thesis
  proof (cases "IsNotFound e")
    case False
    then show thesis using assms Inl that(1) by (auto simp: visit_target_def)
  next
    case True
    obtain w1 s where s: "createResource C w i = (w1, s)" by fastforce
    have v: "visit_target C L original w i = (case s of
        Inl err \<Rightarrow> (w1, i, Created (Some (WrapErr ''failed to create resource'' err))) | Inr k \<Rightarrow> (w1, k, Created None))"
      using s True by (simp add: visit_target_def Inl split: sum.splits)
    show thesis
    proof (cases s)
      case (Inl e')
      then have "w1 = w'" "j = i" "v = Created (Some (WrapErr ''failed to create resource'' e'))" using v assms by auto
      then show thesis using that(2) [of e'] s \<open>s = Inl e'\<close> by blast
    next
      case (Inr k)
      then have "w1 = w'" "k = j" "v = Created None" using v assms by auto
      then show thesis using that(3) s Inr by blast
    qed
  qed
next
  case (Inr d)
  define cur where "cur = (case rl_Get original i of None \<Rightarrow> d | Some originalInfo \<Rightarrow> if_object originalInfo)"
  obtain w1 s where s: "updateResource C L w i cur = (w1, s)" by fastforce
  have v: "visit_target C L original w i = (case s of Inl e \<Rightarrow> (w1, i, Updated (Some e)) | Inr k \<Rightarrow> (w1, k, Updated None))"
    using s by (simp add: visit_target_def Inr cur_def split: sum.splits)
  show thesis
  proof (cases s)
    case (Inl e)
    then have "w1 = w'" "j = i" "v = Updated (Some e)" using v assms by auto
    then show thesis using that(4) [of cur e] s Inl by blast
  next
    case (Inr k)
    then have "w1 = w'" "k = j" "v = Updated None" using v assms by auto
    then show thesis using that(5) [of cur] s Inr by blast
  qed
qed

lemma delete_originals_res:
  assumes "delete_originals C w os res = (w', res', err)"
  shows "\<exists>xs. rs_Deleted res' = rs_Deleted res @ xs \<and> (xs = [] \<longrightarrow> w' = w \<and> err = None)"
  using assms
proof (induction os arbitrary: w res)
  case Nil
  then show ?case by auto
next
  case (Cons i os)
  define j where "j = (case info_Get C w i of Inl err \<Rightarrow> i | Inr info' \<Rightarrow> info')"
  show ?case
  proof (cases "keep_annotated (if_object j)")
    case True
    then show ?thesis using Cons by (simp add: j_def [symmetric])
  next
    case False
    obtain w1 e where d: "deleteResource C w j = (w1, e)" by force
    define res1 where "res1 = res\<lparr>rs_Deleted := rs_Deleted res @ [j]\<rparr>"
    have r1: "rs_Deleted res1 = rs_Deleted res @ [j]" by (simp add: res1_def)
    show ?thesis
    proof (cases "e = None \<or> IsNotFound (the e)")
      case True
      then have r: "delete_originals C w1 os res1 = (w', res', err)"
        using Cons.prems False d by (cases e) (auto simp: j_def [symmetric] res1_def)
      show ?thesis using Cons.IH [OF r] r1 by auto
    next
      case False': False
      then have "res' = res1" using Cons.prems False d by (auto simp: j_def [symmetric] res1_def)
      then show ?thesis using r1 by simp
    qed
  qed
qed

locale rest_api =
  fixes C :: "'w rest_client" and view :: "'w \<Rightarrow> obj_key \<Rightarrow> doc option"
  assumes Get_found: "rc_Get C w m ns n = Inr d \<Longrightarrow> view w (obj_key m ns n) = Some d"
    and Get_missing: "rc_Get C w m ns n = Inl err \<Longrightarrow> IsNotFound err \<Longrightarrow> view w (obj_key m ns n) = None"
    and Create_frame: "rc_Create C w m ns d = (w', r) \<Longrightarrow> GetName d \<noteq> [] \<Longrightarrow> k \<noteq> obj_key m ns (GetName d) \<Longrightarrow> view w' k = view w k"
    and Create_done: "rc_Create C w m ns d = (w', Inr x) \<Longrightarrow> GetName d \<noteq> [] \<Longrightarrow>
      view w' (obj_key m ns (GetName d)) = Some x \<and> GetName x = GetName d \<and> GetNamespace x = ns"
    and Patch_frame: "rc_Patch C w m ns n t p = (w', r) \<Longrightarrow> k \<noteq> obj_key m ns n \<Longrightarrow> view w' k = view w k"
    and Patch_done: "rc_Patch C w m ns n t p = (w', Inr x) \<Longrightarrow>
      view w' (obj_key m ns n) = Some x \<and> GetName x = n \<and> GetNamespace x = ns"
    and Delete_frame: "rc_Delete C w m ns n pol = (w', e) \<Longrightarrow> k \<noteq> obj_key m ns n \<Longrightarrow> view w' k = view w k"
    and Delete_done: "rc_Delete C w m ns n pol = (w', None) \<Longrightarrow> gone (view w' (obj_key m ns n))"
    and Delete_missing: "rc_Delete C w m ns n pol = (w', Some err) \<Longrightarrow> IsNotFound err \<Longrightarrow> view w' (obj_key m ns n) = None"
begin

lemma info_Get_view: "info_Get C w i = Inr j \<Longrightarrow> view w (info_key i) = Some (if_object j)"
  by (auto simp: info_Get_def info_key_def Get_found split: sum.splits if_splits option.splits)

lemma createResource_ok:
  assumes "createResource C w i = (w', r)" "info_wf i"
  shows "k \<noteq> info_key i \<Longrightarrow> view w' k = view w k"
    "r = Inr j \<Longrightarrow> same_id i j \<and> view w' (info_key i) = Some (if_object j)"
proof -
  obtain s where s: "rc_Create C w (if_mapping i) (if_namespace i) (if_object i) = (w', s)"
    and r: "r = (case s of Inl err \<Rightarrow> Inl err | Inr obj \<Rightarrow> Inr (info_Refresh i obj))"
    using assms(1) by (auto simp: createResource_def split: prod.splits sum.splits)
  have n: "GetName (if_object i) = if_name i" "GetName (if_object i) \<noteq> []" using assms(2) by (auto simp: info_wf_def)
  show "k \<noteq> info_key i \<Longrightarrow> view w' k = view w k" using Create_frame [OF s n(2)] n(1) by (simp add: info_key_def)
  assume "r = Inr j"
  then obtain x where x: "s = Inr x" "j = info_Refresh i x" using r by (auto split: sum.splits)
  with Create_done [of w "if_mapping i" "if_namespace i" "if_object i" w' x] s n
  show "same_id i j \<and> view w' (info_key i) = Some (if_object j)"
    by (simp add: info_key_def same_id_Refresh info_Refresh_def same_id_def)
qed

lemma updateResource_ok:
  assumes "updateResource C L w i cur = (w', r)"
  shows "k \<noteq> info_key i \<Longrightarrow> view w' k = view w k"
    "r = Inr j \<Longrightarrow> same_id i j \<and> view w' (info_key i) = Some (if_object j)"
proof -
  note cases = updateResource_cases [OF assms]
  show "k \<noteq> info_key i \<Longrightarrow> view w' k = view w k"
    using cases by cases (auto simp: info_key_def dest: Patch_frame)
  assume j: "r = Inr j"
  from cases show "same_id i j \<and> view w' (info_key i) = Some (if_object j)"
  proof cases
    case (2 j')
    then show ?thesis using j same_id_Get [of C w i j] info_Get_view [of w i j] by simp
  next
    case (4 t p x)
    with Patch_done [OF 4(1)] j show ?thesis by (auto simp: info_key_def info_Refresh_def same_id_def)
  qed (use j in simp_all)
qed

lemma visit_target_ok:
  assumes "visit_target C L original w i = (w', j, v)" "info_wf i"
  shows "same_id i j" "k \<noteq> info_key i \<Longrightarrow> view w' k = view w k"
    "v = Created None \<or> v = Updated None \<Longrightarrow> view w' (info_key i) = Some (if_object j)"
proof -
  note cases = visit_target_cases [OF assms(1)]
  show "same_id i j"
    using cases
    by cases (auto simp: same_id_simps dest: createResource_ok(2) [OF _ assms(2)] updateResource_ok(2))
  show "k \<noteq> info_key i \<Longrightarrow> view w' k = view w k"
    using cases by cases (auto dest: createResource_ok(1) [OF _ assms(2)] updateResource_ok(1))
  show "v = Created None \<or> v = Updated None \<Longrightarrow> view w' (info_key i) = Some (if_object j)"
    using cases by cases (auto dest: createResource_ok(2) [OF _ assms(2)] updateResource_ok(2))
qed

lemma visit_targets_ok:
  assumes "visit_targets C L original w ts errs res = (w', ts', errs', res', err)" "\<forall>t \<in> set ts. info_wf t"
  shows "list_all2 same_id ts ts' \<and> rs_Deleted res' = rs_Deleted res \<and> length errs \<le> length errs'
      \<and> (\<forall>k. k \<notin> info_key ` set ts \<longrightarrow> view w' k = view w k)
      \<and> (err = None \<and> length errs' = length errs \<longrightarrow>
           (\<forall>k. view w k \<noteq> None \<longrightarrow> view w' k \<noteq> None) \<and> (\<forall>t \<in> set ts. view w' (info_key t) \<noteq> None)
         \<and> (distinct (map info_key ts) \<longrightarrow> (\<forall>t \<in> set ts'. view w' (info_key t) = Some (if_object t))))"
  using assms
proof (induction ts arbitrary: w errs res ts')
  case Nil
  then show ?case by simp
next
  case (Cons t ts)
  obtain w1 j v where v: "visit_target C L original w t = (w1, j, v)" by (metis prod_cases3)
  have t: "info_wf t" using Cons.prems(2) by simp
  note one = visit_target_ok [OF v t]
  have frame: "view w1 k = view w k" if "k \<noteq> info_key t" for k using one(2) that .
  have refl: "list_all2 same_id ts ts" by (simp add: list_all2_same same_id_simps)
  show ?case
  proof (cases "\<exists>e. v = Unvisited e \<or> v = Created (Some e)")
    case True
    then show ?thesis using Cons.prems(1) v frame one(1) refl by auto
  next
    case False
    define errs1 where "errs1 = (case v of Updated (Some e) \<Rightarrow> errs @ [err_msg e] | _ \<Rightarrow> errs)"
    obtain res1 ts1 where r: "visit_targets C L original w1 ts errs1 res1 = (w', ts1, errs', res', err)"
      and ts': "ts' = j # ts1" and d: "rs_Deleted res1 = rs_Deleted res"
    proof (cases v)
      case (Created c)
      then have "v = Created None" using False by (cases c) auto
      then show thesis using that Cons.prems(1) v by (auto simp: errs1_def split: prod.splits)
    next
      case (Updated c)
      then show thesis using that Cons.prems(1) v by (cases c) (auto simp: errs1_def split: prod.splits)
    qed (use False in auto)
    have IH: "list_all2 same_id ts ts1 \<and> rs_Deleted res' = rs_Deleted res1 \<and> length errs1 \<le> length errs'
        \<and> (\<forall>k. k \<notin> info_key ` set ts \<longrightarrow> view w' k = view w1 k)
        \<and> (err = None \<and> length errs' = length errs1 \<longrightarrow>
           (\<forall>k. view w1 k \<noteq> None \<longrightarrow> view w' k \<noteq> None) \<and> (\<forall>t \<in> set ts. view w' (info_key t) \<noteq> None)
         \<and> (distinct (map info_key ts) \<longrightarrow> (\<forall>t \<in> set ts1. view w' (info_key t) = Some (if_object t))))"
      using Cons.IH [OF r] Cons.prems(2) by simp
    have le: "length errs \<le> length errs1" by (simp add: errs1_def split: visited.splits option.splits)
    have fine: "view w1 (info_key t) = Some (if_object j)" if "length errs' = length errs"
    proof -
      have "length errs1 = length errs" using that le IH by simp
      then have "v = Created None \<or> v = Updated None"
        using False by (cases v) (auto simp: errs1_def split: option.splits)
      then show ?thesis by (rule one(3))
    qed
    have j: "info_key j = info_key t" using one(1) same_id_simps(2) by metis
    have all: "(\<forall>k. view w k \<noteq> None \<longrightarrow> view w' k \<noteq> None) \<and> (\<forall>t \<in> set (t # ts). view w' (info_key t) \<noteq> None)
         \<and> (distinct (map info_key (t # ts)) \<longrightarrow> (\<forall>t \<in> set ts'. view w' (info_key t) = Some (if_object t)))"
      if ok: "err = None \<and> length errs' = length errs"
    proof -
      have e: "err = None \<and> length errs' = length errs1" using ok le IH by simp
      have p: "view w1 k \<noteq> None \<Longrightarrow> view w' k \<noteq> None" for k using IH e by blast
      have pres: "\<forall>k. view w k \<noteq> None \<longrightarrow> view w' k \<noteq> None" using p frame fine ok by (metis option.distinct(1))
      moreover have "view w' (info_key t) \<noteq> None" using p fine ok by simp
      moreover have "view w' (info_key j) = Some (if_object j)" if "distinct (map info_key (t # ts))"
      proof -
        have "view w' (info_key t) = view w1 (info_key t)" using that IH by simp
        then show ?thesis using fine ok j by simp
      qed
      ultimately show ?thesis using IH e ts' by auto
    qed
    have lt: "list_all2 same_id (t # ts) ts' \<and> rs_Deleted res' = rs_Deleted res \<and> length errs \<le> length errs'"
      using IH one(1) ts' d le by simp
    have fr: "\<forall>k. k \<notin> info_key ` set (t # ts) \<longrightarrow> view w' k = view w k" using IH frame by simp
    show ?thesis using lt fr all by blast
  qed
qed

lemma delete_originals_ok:
  assumes "delete_originals C w os res = (w', res', err)"
  shows "(\<forall>k. k \<notin> info_key ` set os \<longrightarrow> view w' k = view w k)
    \<and> (err = None \<longrightarrow> (\<forall>k. view w' k = view w k \<or> gone (view w' k))
       \<and> (\<forall>i \<in> set os. gone (view w' (info_key i)) \<or> keep_annotated (if_object i)
            \<or> (\<exists>d. view w' (info_key i) = Some d \<and> keep_annotated d)))"
  using assms
proof (induction os arbitrary: w res)
  case Nil
  then show ?case by simp
next
  case (Cons i os)
  define j where "j = (case info_Get C w i of Inl err \<Rightarrow> i | Inr info' \<Rightarrow> info')"
  have j: "same_id i j" by (auto simp: j_def same_id_simps same_id_Get split: sum.splits)
  have jobj: "if_object j = if_object i \<or> view w (info_key i) = Some (if_object j)"
    by (auto simp: j_def info_Get_view split: sum.splits)
  have key: "info_key j = info_key i" using j same_id_simps(2) by metis
  show ?case
  proof (cases "keep_annotated (if_object j)")
    case True
    then have r: "delete_originals C w os res = (w', res', err)" using Cons.prems by (simp add: j_def [symmetric])
    note IH = Cons.IH [OF r]
    have "keep_annotated (if_object i) \<or> (\<exists>d. view w (info_key i) = Some d \<and> keep_annotated d)"
      using True jobj by auto
    then have "err = None \<longrightarrow> gone (view w' (info_key i)) \<or> keep_annotated (if_object i)
            \<or> (\<exists>d. view w' (info_key i) = Some d \<and> keep_annotated d)" using IH by metis
    then show ?thesis using IH by auto
  next
    case False
    obtain w1 e where d: "deleteResource C w j = (w1, e)" by force
    have del: "rc_Delete C w (if_mapping j) (if_namespace j) (if_name j) ''Background'' = (w1, e)"
      using d by (simp add: deleteResource_def)
    have frame: "view w1 k = view w k" if "k \<noteq> info_key i" for k
      using Delete_frame [OF del, of k] that unfolding key [symmetric] by (simp add: info_key_def)
    show ?thesis
    proof (cases "e = None \<or> IsNotFound (the e)")
      case True
      then have r: "delete_originals C w1 os (res\<lparr>rs_Deleted := rs_Deleted res @ [j]\<rparr>) = (w', res', err)"
        using Cons.prems False d by (cases e) (auto simp: j_def [symmetric])
      note IH = Cons.IH [OF r]
      have g: "gone (view w1 (info_key i))"
        using True Delete_done [of w "if_mapping j" "if_namespace j" "if_name j" _ w1]
          Delete_missing [of w "if_mapping j" "if_namespace j" "if_name j" _ w1 "the e"] del
        unfolding key [symmetric] by (cases e) (auto simp: info_key_def gone_def)
      have "err = None \<longrightarrow> (\<forall>k. view w' k = view w k \<or> gone (view w' k))" using IH frame g by metis
      moreover have "err = None \<longrightarrow> gone (view w' (info_key i))" using IH g by metis
      ultimately show ?thesis using IH frame by auto
    next
      case False': False
      then have w: "w' = w1" and e: "err \<noteq> None" using Cons.prems False d by (auto simp: j_def [symmetric])
      have "\<forall>k. k \<notin> info_key ` set (i # os) \<longrightarrow> view w' k = view w k" using frame w by simp
      then show ?thesis using e by blast
    qed
  qed
qed

text \<open>What \<open>Update\<close> does to the cluster, whether it succeeds or not.\<close>

lemma Update_cases:
  assumes "Update C L w original target = (w', res, err)"
  obtains ts errs res1 e where
      "visit_targets C L original w target [] \<lparr>rs_Created = [], rs_Updated = [], rs_Deleted = []\<rparr> = (w', ts, errs, res1, e)"
      "err \<noteq> None" "res = res1"
  | w1 ts res1 where "visit_targets C L original w target [] \<lparr>rs_Created = [], rs_Updated = [], rs_Deleted = []\<rparr> = (w1, ts, [], res1, None)"
      "delete_originals C w1 (rl_Difference original ts) res1 = (w', res, err)"
proof -
  obtain w1 ts errs res1 e where v: "visit_targets C L original w target [] \<lparr>rs_Created = [], rs_Updated = [], rs_Deleted = []\<rparr>
      = (w1, ts, errs, res1, e)" by (metis prod_cases5)
  show thesis
  proof (cases "e = None \<and> errs = []")
    case True
    then show thesis using that(2) v assms by (simp add: Update_def)
  next
    case False
    then have "w' = w1 \<and> res = res1 \<and> err \<noteq> None" using v assms by (auto simp: Update_def split: if_splits)
    then show thesis using that(1) v by simp
  qed
qed

lemma Update_frame:
  assumes "Update C L w original target = (w', res, err)" "\<forall>t \<in> set target. info_wf t"
  shows "k \<notin> info_key ` set target \<Longrightarrow> k \<notin> info_key ` set original \<Longrightarrow> view w' k = view w k"
  using assms(1)
proof (cases rule: Update_cases)
  case (1 ts errs res1 e)
  assume "k \<notin> info_key ` set target"
  then show ?thesis using visit_targets_ok [OF 1(1) assms(2)] by blast
next
  case (2 w1 ts res1)
  assume k: "k \<notin> info_key ` set target" "k \<notin> info_key ` set original"
  then have "view w1 k = view w k" using visit_targets_ok [OF 2(1) assms(2)] by blast
  moreover have "k \<notin> info_key ` set (rl_Difference original ts)" using k(2) by (auto simp: Difference_iff)
  ultimately show ?thesis using delete_originals_ok [OF 2(2)] by metis
qed

lemma Update_ok:
  assumes "Update C L w original target = (w', res, None)" "\<forall>t \<in> set target. info_wf t"
  shows "t \<in> set target \<Longrightarrow> view w' (info_key t) \<noteq> None"
    "i \<in> set original \<Longrightarrow> \<not> rl_Contains target i \<Longrightarrow>
       gone (view w' (info_key i)) \<or> keep_annotated (if_object i)
         \<or> (\<exists>d. view w' (info_key i) = Some d \<and> keep_annotated d)"
proof -
  from assms(1) obtain w1 ts res1
    where v: "visit_targets C L original w target [] \<lparr>rs_Created = [], rs_Updated = [], rs_Deleted = []\<rparr> = (w1, ts, [], res1, None)"
      and d: "delete_originals C w1 (rl_Difference original ts) res1 = (w', res, None)"
    by (cases rule: Update_cases) auto
  note V = visit_targets_ok [OF v assms(2)] and D = delete_originals_ok [OF d]
  have same: "list_all2 same_id target ts" using V by blast
  show "t \<in> set target \<Longrightarrow> view w' (info_key t) \<noteq> None"
  proof -
    assume t: "t \<in> set target"
    then have "view w1 (info_key t) \<noteq> None" using V by simp
    moreover have "info_key t \<notin> info_key ` set (rl_Difference original ts)" using Difference_keys [OF same t] .
    ultimately show ?thesis using D by metis
  qed
  assume "i \<in> set original" "\<not> rl_Contains target i"
  then have "i \<in> set (rl_Difference original ts)" using Contains_same_id [OF same] by (simp add: Difference_iff)
  then show "gone (view w' (info_key i)) \<or> keep_annotated (if_object i)
         \<or> (\<exists>d. view w' (info_key i) = Some d \<and> keep_annotated d)" using D by blast
qed

lemma Update_order:
  assumes "Update C L w original target = (w', res, err)" "\<forall>t \<in> set target. info_wf t"
  shows "if rs_Deleted res = [] then k \<in> info_key ` set target \<or> view w' k = view w k
    else \<forall>t \<in> set target. view w' (info_key t) \<noteq> None"
  using assms(1)
proof (cases rule: Update_cases)
  case (1 ts errs res1 e)
  then show ?thesis using visit_targets_ok [OF 1(1) assms(2)] by auto
next
  case (2 w1 ts res1)
  note V = visit_targets_ok [OF 2(1) assms(2)]
  obtain xs where xs: "rs_Deleted res = xs" "xs = [] \<longrightarrow> w' = w1" using delete_originals_res [OF 2(2)] V by auto
  have "view w' (info_key t) \<noteq> None" if t: "t \<in> set target" for t
  proof -
    have "info_key t \<notin> info_key ` set (rl_Difference original ts)"
      using Difference_keys [of target ts t original] V t by simp
    then have "view w' (info_key t) = view w1 (info_key t)" using delete_originals_ok [OF 2(2)] by blast
    then show ?thesis using V t by simp
  qed
  then show ?thesis using xs V by auto
qed

end

section \<open>A cluster\<close>

text \<open>
  The objects of a cluster, its namespaces, and the keys for which it refuses every operation. An object with
  finalizers is only marked when it is deleted. The effect of a patch is a parameter; it may not rename the object.
\<close>

record cluster =
  cl_objects :: "(obj_key \<times> doc) list"
  cl_namespaces :: "string list"
  cl_forbidden :: "obj_key list"

definition cluster_view :: "cluster \<Rightarrow> obj_key \<Rightarrow> doc option" where
  "cluster_view cl = map_of (cl_objects cl)"

definition cluster_put :: "obj_key \<Rightarrow> doc \<Rightarrow> cluster \<Rightarrow> cluster" where
  "cluster_put k d cl = cl\<lparr>cl_objects := put k d (cl_objects cl)\<rparr>"

definition cluster_del :: "obj_key \<Rightarrow> cluster \<Rightarrow> cluster" where
  "cluster_del k cl = cl\<lparr>cl_objects := del k (cl_objects cl)\<rparr>"

lemma cluster_view_simps [simp]:
  "cluster_view (cluster_put k d cl) q = (if q = k then Some d else cluster_view cl q)"
  "cluster_view (cluster_del k cl) q = (if q = k then None else cluster_view cl q)"
  by (simp_all add: cluster_view_def cluster_put_def cluster_del_def map_of_put map_of_del)

definition cluster_Get :: "cluster \<Rightarrow> rest_mapping \<Rightarrow> string \<Rightarrow> string \<Rightarrow> gerror + doc" where
  "cluster_Get cl m ns n =
    (if obj_key m ns n \<in> set (cl_forbidden cl) then Inl (ForbiddenErr n)
     else case cluster_view cl (obj_key m ns n) of None \<Rightarrow> Inl (NotFoundErr n) | Some d \<Rightarrow> Inr d)"

definition cluster_GetNamespace :: "cluster \<Rightarrow> string \<Rightarrow> gerror option" where
  "cluster_GetNamespace cl ns = (if ns \<in> set (cl_namespaces cl) then None else Some (NotFoundErr ns))"

definition cluster_Create :: "cluster \<Rightarrow> rest_mapping \<Rightarrow> string \<Rightarrow> doc \<Rightarrow> cluster \<times> (gerror + doc)" where
  "cluster_Create cl m ns d =
    (let n = GetName d; k = obj_key m ns n; x = SetNamespace ns d in
     if n = [] then (cl, Inl (InvalidErr ''name''))
     else if k \<in> set (cl_forbidden cl) then (cl, Inl (ForbiddenErr n))
     else if ns \<noteq> [] \<and> ns \<notin> set (cl_namespaces cl) then (cl, Inl (NotFoundErr ns))
     else if cluster_view cl k \<noteq> None then (cl, Inl (AlreadyExistsErr n))
     else (cluster_put k x cl, Inr x))"

definition cluster_Patch ::
  "(doc \<Rightarrow> patch_type \<Rightarrow> string \<Rightarrow> gerror + doc)
    \<Rightarrow> cluster \<Rightarrow> rest_mapping \<Rightarrow> string \<Rightarrow> string \<Rightarrow> patch_type \<Rightarrow> string \<Rightarrow> cluster \<times> (gerror + doc)"
where
  "cluster_Patch apply_patch cl m ns n t p =
    (case cluster_Get cl m ns n of
       Inl err \<Rightarrow> (cl, Inl err)
     | Inr d \<Rightarrow>
         (case apply_patch d t p of
            Inl err \<Rightarrow> (cl, Inl err)
          | Inr x \<Rightarrow>
              if GetName x \<noteq> n \<or> GetNamespace x \<noteq> ns then (cl, Inl (InvalidErr n))
              else (cluster_put (obj_key m ns n) x cl, Inr x)))"

definition has_finalizers :: "doc \<Rightarrow> bool" where
  "has_finalizers d \<longleftrightarrow>
    (case nested (JMap d) [''metadata'', ''finalizers''] of Some (JList (x # xs)) \<Rightarrow> True | _ \<Rightarrow> False)"

definition cluster_Delete :: "cluster \<Rightarrow> rest_mapping \<Rightarrow> string \<Rightarrow> string \<Rightarrow> string \<Rightarrow> cluster \<times> gerror option" where
  "cluster_Delete cl m ns n policy =
    (case cluster_Get cl m ns n of
       Inl err \<Rightarrow> (cl, Some err)
     | Inr d \<Rightarrow>
         if has_finalizers d then
           (cluster_put (obj_key m ns n) (setNestedField (JStr ''now'') [''metadata'', ''deletionTimestamp''] d) cl, None)
         else (cluster_del (obj_key m ns n) cl, None))"

definition cluster_client :: "(doc \<Rightarrow> patch_type \<Rightarrow> string \<Rightarrow> gerror + doc) \<Rightarrow> cluster rest_client" where
  "cluster_client P = \<lparr>rc_Get = cluster_Get, rc_GetNamespace = cluster_GetNamespace, rc_Create = cluster_Create,
     rc_Patch = cluster_Patch P, rc_Delete = cluster_Delete\<rparr>"

lemma cluster_Get_Inr: "cluster_Get cl m ns n = Inr d \<longleftrightarrow>
    obj_key m ns n \<notin> set (cl_forbidden cl) \<and> cluster_view cl (obj_key m ns n) = Some d"
  by (auto simp: cluster_Get_def split: option.splits)

lemma cluster_Get_missing: "cluster_Get cl m ns n = Inl err \<Longrightarrow> IsNotFound err \<Longrightarrow> cluster_view cl (obj_key m ns n) = None"
  by (auto simp: cluster_Get_def split: option.splits if_splits)

lemma has_finalizers_metadata: "has_finalizers d \<Longrightarrow> \<exists>m. map_of d ''metadata'' = Some (JMap m)"
proof -
  assume a: "has_finalizers d"
  then obtain v where v: "map_of d ''metadata'' = Some v" by (auto simp: has_finalizers_def split: option.splits)
  with a show ?thesis by (cases v) (auto simp: has_finalizers_def)
qed

lemma terminating_marked:
  "has_finalizers d \<Longrightarrow> terminating (setNestedField (JStr ''now'') [''metadata'', ''deletionTimestamp''] d)"
  by (drule has_finalizers_metadata) (auto simp: terminating_def getNestedString_def map_of_put)

lemma cluster_Create_ok:
  assumes "cluster_Create cl m ns d = (cl', r)"
  shows "k \<noteq> obj_key m ns (GetName d) \<Longrightarrow> cluster_view cl' k = cluster_view cl k"
    "r = Inr x \<Longrightarrow> cluster_view cl' (obj_key m ns (GetName d)) = Some x \<and> GetName x = GetName d \<and> GetNamespace x = ns"
  using assms
  by (auto simp: cluster_Create_def Let_def SetNamespace_same GetNamespace_SetNamespace GetName_metadata_ok split: if_splits)

lemma cluster_Patch_ok:
  assumes "cluster_Patch P cl m ns n t p = (cl', r)"
  shows "k \<noteq> obj_key m ns n \<Longrightarrow> cluster_view cl' k = cluster_view cl k"
    "r = Inr x \<Longrightarrow> cluster_view cl' (obj_key m ns n) = Some x \<and> GetName x = n \<and> GetNamespace x = ns"
  using assms by (auto simp: cluster_Patch_def split: sum.splits if_splits)

lemma cluster_Delete_ok:
  assumes "cluster_Delete cl m ns n pol = (cl', e)"
  shows "k \<noteq> obj_key m ns n \<Longrightarrow> cluster_view cl' k = cluster_view cl k"
    "e = None \<Longrightarrow> gone (cluster_view cl' (obj_key m ns n))"
    "e = Some err \<Longrightarrow> IsNotFound err \<Longrightarrow> cluster_view cl' (obj_key m ns n) = None"
  using assms
  by (auto simp: cluster_Delete_def gone_def terminating_marked cluster_Get_missing simp del: setNestedField.simps
    split: sum.splits if_splits)

interpretation kube: rest_api "cluster_client P" cluster_view for P
proof
qed (simp_all add: cluster_client_def cluster_Get_Inr cluster_Get_missing cluster_Create_ok cluster_Patch_ok cluster_Delete_ok)

section \<open>Properties\<close>

text \<open>An update that replaces one config map by another.\<close>

definition ex_config_map :: "string \<Rightarrow> info" where
  "ex_config_map n =
    \<lparr>if_mapping = \<lparr>mp_group = [], mp_version = ''v1'', mp_kind = ''ConfigMap'', mp_resource = ''configmaps''\<rparr>,
     if_namespace = ''ns'', if_name = n,
     if_object = [(''metadata'', JMap [(''name'', JStr n), (''namespace'', JStr ''ns'')])], if_resourceVersion = []\<rparr>"

definition ex_cluster :: cluster where
  "ex_cluster = \<lparr>cl_objects = [(info_key (ex_config_map ''a''), if_object (ex_config_map ''a''))],
     cl_namespaces = [''ns''], cl_forbidden = []\<rparr>"

definition ex_patch_lib :: patch_lib where
  "ex_patch_lib = \<lparr>pl_Marshal = \<lambda>_. Inr [], pl_PrioritizedVersions = [], pl_ConvertToVersion = \<lambda>d _. Inr (VUnstructured d),
     pl_CreateMergePatch = \<lambda>_ _. Inr (Some ''{}''), pl_NewPatchMetaFromStruct = \<lambda>_. Inr [],
     pl_CreateThreeWayMergePatch = \<lambda>_ _ _ _ _. Inr (Some ''{}'')\<rparr>"

definition ex_client :: "cluster rest_client" where
  "ex_client = cluster_client (\<lambda>d _ _. Inr d)"

definition ex_updated :: "cluster \<times> result \<times> gerror option" where
  "ex_updated = Update ex_client ex_patch_lib ex_cluster [ex_config_map ''a''] [ex_config_map ''b'']"

lemma ex_updated_eq: "snd (snd ex_updated) = None \<and> map fst (cl_objects (fst ex_updated)) = [info_key (ex_config_map ''b'')]"
  by code_simp

lemma ex_updated_run:
  "Update (cluster_client (\<lambda>d _ _. Inr d)) ex_patch_lib ex_cluster [ex_config_map ''a''] [ex_config_map ''b'']
    = (fst ex_updated, fst (snd ex_updated), None)"
  using ex_updated_eq by (simp add: ex_updated_def ex_client_def prod_eq_iff)

lemma ex_updated_wf: "list_all info_wf [ex_config_map ''b'']"
  by (simp add: info_wf_def ex_config_map_def GetName_def getNestedString_def)

definition kept_by_policy :: "cluster \<Rightarrow> info \<Rightarrow> bool" where
  "kept_by_policy cl i \<longleftrightarrow> keep_annotated (if_object i)
     \<or> (case cluster_view cl (info_key i) of None \<Rightarrow> False | Some d \<Rightarrow> keep_annotated d)"

text \<open>C16. An update that succeeds brings the cluster from the old manifests to the new ones: every object of the
  new manifests exists; every object of the old ones is gone, or only terminating, unless its policy says to keep it or
  the new manifests have an object of the same kind, namespace and name, whatever its API group and version; and no other
  object has changed.\<close>

theorem Update_converges:
  assumes "Update (cluster_client P) L cl original target = (cl', res, None)" "list_all info_wf target"
  shows "list_all (\<lambda>t. cluster_view cl' (info_key t) \<noteq> None) target
    \<and> list_all (\<lambda>i. (\<exists>t \<in> set target. mp_kind (if_mapping t) = mp_kind (if_mapping i)
          \<and> if_namespace t = if_namespace i \<and> if_name t = if_name i)
        \<or> gone (cluster_view cl' (info_key i)) \<or> kept_by_policy cl' i) original
    \<and> (k \<in> info_key ` set (original @ target) \<or> cluster_view cl' k = cluster_view cl k)"
proof -
  have wf: "\<forall>t \<in> set target. info_wf t" using assms(2) by (simp add: list_all_iff)
  note ok = kube.Update_ok [OF assms(1) wf] and frame = kube.Update_frame [OF assms(1) wf, of k]
  have "rl_Contains target i \<or> gone (cluster_view cl' (info_key i)) \<or> kept_by_policy cl' i" if "i \<in> set original" for i
    using ok(2) [OF that] by (auto simp: kept_by_policy_def)
  then have "list_all (\<lambda>i. (\<exists>t \<in> set target. mp_kind (if_mapping t) = mp_kind (if_mapping i)
          \<and> if_namespace t = if_namespace i \<and> if_name t = if_name i)
        \<or> gone (cluster_view cl' (info_key i)) \<or> kept_by_policy cl' i) original"
    by (fastforce simp: list_all_iff list_ex_iff rl_Contains_def isMatchingInfo_def)
  then show ?thesis using ok(1) frame by (auto simp: list_all_iff)
qed

theorem Update_converges_witness:
  "cluster_view (fst ex_updated) (info_key (ex_config_map ''b'')) \<noteq> None
   \<and> gone (cluster_view (fst ex_updated) (info_key (ex_config_map ''a'')))"
proof -
  have "if_name (ex_config_map ''b'') \<noteq> if_name (ex_config_map ''a'')" "\<not> kept_by_policy (fst ex_updated) (ex_config_map ''a'')"
    by code_simp+
  then show ?thesis using Update_converges [OF ex_updated_run ex_updated_wf, of undefined] by simp
qed

text \<open>Old objects are deleted last: an update that has not attempted a deletion, as when a target could not be
  created or patched, has changed nothing but the targets, and once it attempts one every target exists, whether the
  update then fails or not.\<close>

lemma Update_deletes_last:
  assumes "Update (cluster_client P) L cl original target = (cl', res, err)" "list_all info_wf target"
  shows "if rs_Deleted res = [] then k \<in> info_key ` set target \<or> cluster_view cl' k = cluster_view cl k
    else list_all (\<lambda>t. cluster_view cl' (info_key t) \<noteq> None) target"
  using kube.Update_order [OF assms(1), of k] assms(2) by (simp add: list_all_iff split: if_splits)

theorem Update_deletes_last_witness:
  "rs_Deleted (fst (snd ex_updated)) \<noteq> [] \<and> cluster_view (fst ex_updated) (info_key (ex_config_map ''b'')) \<noteq> None"
proof -
  have "rs_Deleted (fst (snd ex_updated)) \<noteq> []" by code_simp
  then show ?thesis using Update_deletes_last [OF ex_updated_run ex_updated_wf, of undefined] by simp
qed

text \<open>
  \<open>isMatchingInfo\<close> does not compare API groups: an object whose group changed between the manifests is not deleted,
  though the update succeeds and it is not among the new manifests.
\<close>

definition ex_group :: "string \<Rightarrow> info" where
  "ex_group g = (ex_config_map ''a'')\<lparr>if_mapping := \<lparr>mp_group = g, mp_version = ''v1'', mp_kind = ''Ingress'', mp_resource = ''ingresses''\<rparr>\<rparr>"

lemma Update_ignores_group:
  "case Update ex_client ex_patch_lib (ex_cluster\<lparr>cl_objects := [(info_key (ex_group ''extensions''), if_object (ex_group ''extensions''))]\<rparr>)
      [ex_group ''extensions''] [ex_group ''networking.k8s.io''] of
     (cl, res, err) \<Rightarrow> err = None \<and> rs_Deleted res = [] \<and> cluster_view cl (info_key (ex_group ''extensions'')) \<noteq> None
       \<and> info_key (ex_group ''extensions'') \<noteq> info_key (ex_group ''networking.k8s.io'')"
  by code_simp

end
