(* ===== verification/TemplateInstances.thy ===== *)
theory TemplateInstances
  imports Merge AccountQuotaController
begin

text \<open>
  The controller of template instances (\<open>pkg/manager/controllers/templateinstance_controller.go\<close>) with the
  rendering of Helm charts (\<open>pkg/manager/helm\<close>) and the splitting of manifests (\<open>pkg/util/convert\<close>). YAML, regular
  expressions, compression, the REST mapper and the Helm process are parameters.
\<close>

section \<open>Templates and their instances\<close>

record helm_secret_ref =
  hr_key :: string
  hr_name :: string
  hr_namespace :: string

record helm_set_value =
  hv_name :: string
  hv_value :: string
  hv_forceString :: bool

record helm_repository =
  hp_name :: string
  hp_version :: string
  hp_repoURL :: string
  hp_username :: "helm_secret_ref option"
  hp_password :: "helm_secret_ref option"

record helm_configuration =
  hc_releaseName :: string
  hc_setValues :: "helm_set_value list"
  hc_values :: string
  hc_repository :: "helm_repository option"

record template_parameter =
  tpar_name :: string
  tpar_value :: string
  tpar_required :: bool
  tpar_validation :: string

record template =
  tm_meta :: obj_meta
  tm_manifests :: "string list"
  tm_helm :: "helm_configuration option"
  tm_parameters :: "template_parameter list"

datatype deployment_status = Deployed | Failed | Pending

record template_instance_status =
  tst_status :: deployment_status
  tst_message :: string
  tst_reason :: string
  tst_templateResourceVersion :: string
  tst_templateManifests :: string
  tst_lastAppliedAt :: "int option"

record template_instance =
  ti_meta :: obj_meta
  ti_spec :: template_instance_spec
  ti_status :: template_instance_status

definition TemplateInstanceNoOwnerAnnotation :: string where
  "TemplateInstanceNoOwnerAnnotation = ''templateinstance.config.kiosk.sh/no-owner''"

section \<open>Libraries and clients\<close>

datatype controller_owner = InstanceOwner template_instance | TemplateOwner template

record template_lib =
  tl_MatchString :: "string \<Rightarrow> string \<Rightarrow> gerror + bool"
  tl_UnmarshalMap :: "string \<Rightarrow> gerror + doc"
  tl_UnmarshalObject :: "string \<Rightarrow> gerror + doc"
  tl_UnmarshalValue :: "string \<Rightarrow> gerror + json"
  tl_Marshal :: "doc \<Rightarrow> gerror + string"
  tl_Compress :: "string \<Rightarrow> gerror + string"
  tl_Uncompress :: "string \<Rightarrow> gerror + string"
  tl_IsNoMatchError :: "gerror \<Rightarrow> bool"
  tl_SetControllerReference :: "controller_owner \<Rightarrow> doc \<Rightarrow> doc"

text \<open>The cached client, and the parts of the reconciler. A secret is its data; the REST mapper returns the name of a scope.\<close>

record 'w ti_client =
  tc_GetInstance :: "'w \<Rightarrow> string \<Rightarrow> string \<Rightarrow> gerror + template_instance"
  tc_GetTemplate :: "'w \<Rightarrow> string \<Rightarrow> gerror + template"
  tc_GetNamespace :: "'w \<Rightarrow> string \<Rightarrow> gerror + namespace"
  tc_GetAccount :: "'w \<Rightarrow> string \<Rightarrow> gerror + account"
  tc_GetSecret :: "'w \<Rightarrow> string \<Rightarrow> string \<Rightarrow> gerror + (string \<times> string) list option"
  tc_ListByTemplate :: "'w \<Rightarrow> string \<Rightarrow> gerror + template_instance list"
  tc_UpdateStatus :: "'w \<Rightarrow> template_instance \<Rightarrow> 'w \<times> gerror option"

record 'w ti_reconciler =
  tr_client :: "'w ti_client"
  tr_helm :: "'w \<Rightarrow> string \<Rightarrow> string \<Rightarrow> helm_configuration \<Rightarrow> doc list \<times> gerror option"
  tr_merge :: "'w \<Rightarrow> string \<Rightarrow> string \<Rightarrow> bool \<Rightarrow> 'w \<times> gerror option"
  tr_restMapper :: "(string \<times> string \<Rightarrow> gerror + string option) option"

section \<open>Manifests\<close>

text \<open>The regular expression \<open>\\n---\<close> splits a stream of documents.\<close>

definition diffSeparator :: string where "diffSeparator = CHR 0x0A # ''---''"

function split_manifests :: "string \<Rightarrow> string list" where
  "split_manifests s =
     (if s = [] then [[]]
      else if prefix diffSeparator s then [] # split_manifests (drop 4 s)
      else case split_manifests (tl s) of [] \<Rightarrow> [[hd s]] | part # parts \<Rightarrow> (hd s # part) # parts)"
  by pat_completeness auto
termination by (relation "measure length") auto

declare split_manifests.simps [simp del]

fun convert_parts :: "template_lib \<Rightarrow> string list \<Rightarrow> doc list \<Rightarrow> gerror option \<Rightarrow> doc list \<times> gerror option" where
  "convert_parts L [] objs firstErr = (objs, firstErr)"
| "convert_parts L (part # parts) objs firstErr =
     (case tl_UnmarshalMap L part of
        Inl err \<Rightarrow> convert_parts L parts objs
          (if firstErr = None then Some (OtherErr (''Failed to unmarshal manifest: '' @ err_msg err)) else firstErr)
      | Inr objMap \<Rightarrow>
          if length objMap = 0 then convert_parts L parts objs firstErr
          else (case tl_UnmarshalObject L part of
              Inl err \<Rightarrow> convert_parts L parts objs
                (if firstErr = None then Some (OtherErr (''Failed to unmarshal manifest: '' @ err_msg err)) else firstErr)
            | Inr obj \<Rightarrow> convert_parts L parts (objs @ [obj]) firstErr))"

definition StringToUnstructuredArray :: "template_lib \<Rightarrow> string \<Rightarrow> doc list \<times> gerror option" where
  "StringToUnstructuredArray L out = convert_parts L (split_manifests out) [] None"

section \<open>Helm\<close>

definition squoted :: "string \<Rightarrow> string" where
  "squoted s = CHR 0x27 # s @ [CHR 0x27]"

definition readSecret :: "'w ti_client \<Rightarrow> 'w \<Rightarrow> helm_secret_ref \<Rightarrow> gerror + string" where
  "readSecret C w ref =
    (if hr_name ref = [] then Inl (OtherErr ''secret name must be specifed'')
     else if hr_namespace ref = [] then Inl (OtherErr ''secret namespace must be specified'')
     else if hr_key ref = [] then Inl (OtherErr ''secret key must be specified'')
     else
       (case tc_GetSecret C w (hr_namespace ref) (hr_name ref) of
          Inl err \<Rightarrow> Inl err
        | Inr None \<Rightarrow> Inl (OtherErr (''secret '' @ hr_namespace ref @ ''/'' @ hr_name ref @ '' data is empty''))
        | Inr (Some secret) \<Rightarrow>
            (case map_of secret (hr_key ref) of
               None \<Rightarrow> Inl (OtherErr (''couldn't find key '' @ squoted (hr_key ref) @ '' in secret '' @ hr_namespace ref @ ''/'' @ hr_name ref))
             | Some data \<Rightarrow> Inr data)))"

text \<open>A flag whose value is read from a secret.\<close>

definition secret_flag :: "'w ti_client \<Rightarrow> 'w \<Rightarrow> string \<Rightarrow> string \<Rightarrow> helm_secret_ref option \<Rightarrow> gerror + string list" where
  "secret_flag C w what flag ref =
    (case ref of
       None \<Rightarrow> Inr []
     | Some r \<Rightarrow>
         (case readSecret C w r of
            Inl err \<Rightarrow> Inl (OtherErr (''error reading '' @ what @ '' secret: '' @ err_msg err))
          | Inr v \<Rightarrow> Inr [flag, v]))"

definition set_flags :: "helm_set_value list \<Rightarrow> string list" where
  "set_flags vs = concat (map (\<lambda>v. [if hv_forceString v then ''--set-string'' else ''--set'', hv_name v @ ''='' @ hv_value v]) vs)"

text \<open>The arguments of the Helm process, before the values.\<close>

definition helm_args :: "'w ti_client \<Rightarrow> 'w \<Rightarrow> string \<Rightarrow> string \<Rightarrow> helm_configuration \<Rightarrow> gerror + string list" where
  "helm_args C w name namespace config =
    (case hc_repository config of
       None \<Rightarrow> Inl (OtherErr ''no helm repository given'')
     | Some repo \<Rightarrow>
         if hp_name repo = [] then Inl (OtherErr ''chart name cannot be empty'')
         else if hp_repoURL repo = [] then Inl (OtherErr ''repository url cannot be empty'')
         else
           (case secret_flag C w ''username'' ''--username'' (hp_username repo) of
              Inl err \<Rightarrow> Inl err
            | Inr username \<Rightarrow>
                (case secret_flag C w ''password'' ''--password'' (hp_password repo) of
                   Inl err \<Rightarrow> Inl err
                 | Inr password \<Rightarrow>
                     Inr ([''template'', if hc_releaseName config = [] then name else hc_releaseName config, hp_name repo,
                           ''--repo'', hp_repoURL repo, ''--namespace'', namespace]
                       @ (if hp_version repo \<noteq> [] then [''--version'', hp_version repo] else [])
                       @ username @ password @ set_flags (hc_setValues config)))))"

text \<open>
  \<open>tempfile\<close> is the path of the file the values are written to, or the error of creating or writing it; the runner
  gets the arguments and the values in that file.
\<close>

definition helm_Template ::
  "template_lib \<Rightarrow> (string list \<Rightarrow> string option \<Rightarrow> gerror + string) \<Rightarrow> gerror + string
    \<Rightarrow> 'w ti_client \<Rightarrow> 'w \<Rightarrow> string \<Rightarrow> string \<Rightarrow> helm_configuration \<Rightarrow> doc list \<times> gerror option"
where
  "helm_Template L runner tempfile C w name namespace config =
    (case helm_args C w name namespace config of
       Inl err \<Rightarrow> ([], Some err)
     | Inr args \<Rightarrow>
         (case (if hc_values config = [] then Inr (args, None)
                else case tempfile of Inl err \<Rightarrow> Inl err | Inr p \<Rightarrow> Inr (args @ [''--values'', p], Some (hc_values config))) of
            Inl err \<Rightarrow> ([], Some err)
          | Inr (args, values) \<Rightarrow>
              (case runner (args @ [''--include-crds'']) values of
                 Inl err \<Rightarrow> ([], Some err)
               | Inr out \<Rightarrow> StringToUnstructuredArray L out)))"

section \<open>Validation\<close>

text \<open>The parameters of the instance against one parameter of the template: whether it was found, or the first error.\<close>

fun check_parameter :: "template_lib \<Rightarrow> template_parameter \<Rightarrow> ti_parameter list \<Rightarrow> bool \<Rightarrow> gerror + bool" where
  "check_parameter L parameter [] found = Inr found"
| "check_parameter L parameter (instanceParameter # rest) found =
     (if tp_name instanceParameter = tpar_name parameter then
        (if tpar_validation parameter \<noteq> [] then
           (case tl_MatchString L (tpar_validation parameter) (tp_value instanceParameter) of
              Inl err \<Rightarrow> Inl (WrapErr ''match string'' err)
            | Inr matched \<Rightarrow>
                if \<not> matched then
                  Inl (OtherErr (''parameter '' @ tpar_name parameter @ '' value '' @ tp_value instanceParameter
                    @ '' does not match validation pattern '' @ tpar_validation parameter))
                else check_parameter L parameter rest True)
         else check_parameter L parameter rest True)
      else check_parameter L parameter rest found)"

fun check_parameters :: "template_lib \<Rightarrow> template_parameter list \<Rightarrow> ti_parameter list \<Rightarrow> gerror option" where
  "check_parameters L [] instanceParameters = None"
| "check_parameters L (parameter # rest) instanceParameters =
     (if tpar_name parameter = [] then check_parameters L rest instanceParameters
      else if \<not> tpar_required parameter \<and> tpar_validation parameter = [] then check_parameters L rest instanceParameters
      else
        (case check_parameter L parameter instanceParameters False of
           Inl err \<Rightarrow> Some err
         | Inr found \<Rightarrow>
             if \<not> found \<and> tpar_required parameter then
               Some (OtherErr (''parameter '' @ tpar_name parameter @ '' is required but was not found in template instance''))
             else check_parameters L rest instanceParameters))"

fun check_declared :: "template \<Rightarrow> ti_parameter list \<Rightarrow> gerror option" where
  "check_declared tmpl [] = None"
| "check_declared tmpl (instanceParameter # rest) =
     (if tp_name instanceParameter = [] then check_declared tmpl rest
      else if \<not> list_ex (\<lambda>parameter. tpar_name parameter = tp_name instanceParameter) (tm_parameters tmpl) then
        Some (OtherErr (''parameter '' @ tp_name instanceParameter @ '' does not exist in template '' @ om_name (tm_meta tmpl)))
      else check_declared tmpl rest)"

definition validateParameters :: "template_lib \<Rightarrow> template \<Rightarrow> template_instance \<Rightarrow> gerror option" where
  "validateParameters L tmpl ti =
    (case check_parameters L (tm_parameters tmpl) (tis_parameters (ti_spec ti)) of
       Some err \<Rightarrow> Some err
     | None \<Rightarrow> check_declared tmpl (tis_parameters (ti_spec ti)))"

section \<open>Variables\<close>

definition param_used :: "string \<Rightarrow> string" where
  "param_used value = '', however ${'' @ value @ ''} parameter is used''"

text \<open>An annotation or a label of an object, as both branches of the code look it up. No map and an empty one are the same here.\<close>

definition lookup_meta :: "string \<Rightarrow> string \<Rightarrow> (string \<times> string) list \<Rightarrow> string \<Rightarrow> string \<Rightarrow> string \<Rightarrow> gerror + string option" where
  "lookup_meta what name m maps identifier value =
    (if m = [] then Inl (OtherErr (what @ '' '' @ name @ '' has no '' @ maps @ param_used value))
     else case map_of m identifier of
            None \<Rightarrow> Inl (OtherErr (identifier @ '' not found on '' @ what @ '' '' @ name @ param_used value))
          | Some retVal \<Rightarrow> Inr (Some retVal))"

definition resolvePredefinedVariable :: "'w ti_client \<Rightarrow> 'w \<Rightarrow> template_instance \<Rightarrow> string \<Rightarrow> gerror + string option" where
  "resolvePredefinedVariable C w ti value =
    (let lowerValue = ToLower value;
         isNamespace = (lowerValue = ''namespace'');
         isNamespaceAnnotation = HasPrefix lowerValue ''namespace.metadata.annotations.'';
         isNamespaceLabel = HasPrefix lowerValue ''namespace.metadata.labels.'';
         isAccount = (lowerValue = ''account'');
         isAccountAnnotation = HasPrefix lowerValue ''account.metadata.annotations.'';
         isAccountLabel = HasPrefix lowerValue ''account.metadata.labels.''
     in if isNamespace then Inr (Some (om_namespace (ti_meta ti)))
        else if isNamespaceAnnotation \<or> isNamespaceLabel then
          (case tc_GetNamespace C w (om_namespace (ti_meta ti)) of
             Inl err \<Rightarrow> Inl (WrapErr ''get template instance namespace'' err)
           | Inr ns \<Rightarrow>
               if isNamespaceAnnotation then
                 lookup_meta ''namespace'' (om_name (ns_meta ns)) (om_annotations (ns_meta ns)) ''annotations''
                   (drop (length ''namespace.metadata.annotations.'') value) value
               else
                 lookup_meta ''namespace'' (om_name (ns_meta ns)) (om_labels (ns_meta ns)) ''labels''
                   (drop (length ''namespace.metadata.labels.'') value) value)
        else if isAccount \<or> isAccountAnnotation \<or> isAccountLabel then
          (case tc_GetNamespace C w (om_namespace (ti_meta ti)) of
             Inl err \<Rightarrow> Inl (WrapErr ''get template instance namespace'' err)
           | Inr ns \<Rightarrow>
               (let accountName = label_value (om_labels (ns_meta ns)) SpaceLabelAccount in
                if accountName = [] then Inl (OtherErr (''space is not owned by an account'' @ param_used value))
                else if isAccount then Inr (Some accountName)
                else
                  (case tc_GetAccount C w accountName of
                     Inl err \<Rightarrow> Inl (OtherErr (''account '' @ accountName @ '' that owns namespace '' @ om_name (ns_meta ns)
                       @ '' does not exist'' @ param_used value))
                   | Inr ac \<Rightarrow>
                       if isAccountAnnotation then
                         lookup_meta ''account'' (om_name (ac_meta ac)) (om_annotations (ac_meta ac)) ''annotations''
                           (drop (length ''account.metadata.annotations.'') value) value
                       else
                         lookup_meta ''account'' (om_name (ac_meta ac)) (om_labels (ac_meta ac)) ''labels''
                           (drop (length ''account.metadata.labels.'') value) value)))
        else Inr None)"

definition resolve_variable :: "'w ti_client \<Rightarrow> 'w \<Rightarrow> template \<Rightarrow> template_instance \<Rightarrow> string \<Rightarrow> gerror + string" where
  "resolve_variable C w tmpl ti value =
    (case resolvePredefinedVariable C w ti value of
       Inl err \<Rightarrow> Inl err
     | Inr (Some retValue) \<Rightarrow> Inr retValue
     | Inr None \<Rightarrow>
         (case find (\<lambda>v. tp_name v = value) (tis_parameters (ti_spec ti)) of
            Some v \<Rightarrow> Inr (tp_value v)
          | None \<Rightarrow>
              (case find (\<lambda>v. tpar_name v = value) (tm_parameters tmpl) of
                 Some v \<Rightarrow> Inr (tpar_value v)
               | None \<Rightarrow> Inr (''${'' @ value @ ''}''))))"

definition replaceVariable :: "template_lib \<Rightarrow> 'w ti_client \<Rightarrow> 'w \<Rightarrow> template \<Rightarrow> template_instance \<Rightarrow> string \<Rightarrow> gerror + json" where
  "replaceVariable L C w tmpl ti value = ParseString (tl_UnmarshalValue L) (resolve_variable C w tmpl ti) value"

definition replaceUnstructuredParameters :: "template_lib \<Rightarrow> 'w ti_client \<Rightarrow> 'w \<Rightarrow> template \<Rightarrow> template_instance \<Rightarrow> doc \<Rightarrow> gerror + doc" where
  "replaceUnstructuredParameters L C w tmpl ti obj =
    (case WalkStringMap (replaceVariable L C w tmpl ti) obj of
       Inl err \<Rightarrow> Inl (WrapErr ''replace parameters'' err)
     | Inr obj \<Rightarrow> Inr obj)"

definition replaceHelmValuesParameters :: "template_lib \<Rightarrow> 'w ti_client \<Rightarrow> 'w \<Rightarrow> template \<Rightarrow> template_instance \<Rightarrow> string \<Rightarrow> gerror + string" where
  "replaceHelmValuesParameters L C w tmpl ti values =
    (if values = [] then Inr values
     else
       (case tl_UnmarshalMap L values of
          Inl err \<Rightarrow> Inl (WrapErr ''unmarshal helm values'' err)
        | Inr valuesObj \<Rightarrow>
            (case WalkStringMap (replaceVariable L C w tmpl ti) valuesObj of
               Inl err \<Rightarrow> Inl (WrapErr ''replace parameters'' err)
             | Inr valuesObj \<Rightarrow>
                 (case tl_Marshal L valuesObj of
                    Inl err \<Rightarrow> Inl (WrapErr ''marshal replace helm values'' err)
                  | Inr retValues \<Rightarrow> Inr retValues))))"

section \<open>Rendering\<close>

text \<open>A failure is the reason and the message that become the status of the instance.\<close>

type_synonym failure = "string \<times> string"

fun replace_objects :: "template_lib \<Rightarrow> 'w ti_client \<Rightarrow> 'w \<Rightarrow> template \<Rightarrow> template_instance \<Rightarrow> doc list \<Rightarrow> failure + doc list" where
  "replace_objects L C w tmpl ti [] = Inr []"
| "replace_objects L C w tmpl ti (obj # objs) =
     (case replaceUnstructuredParameters L C w tmpl ti obj of
        Inl err \<Rightarrow> Inl (''ErrorReplaceParameters'', ''Error replacing parameters in manifest: '' @ err_msg err)
      | Inr obj \<Rightarrow> (case replace_objects L C w tmpl ti objs of Inl f \<Rightarrow> Inl f | Inr objs \<Rightarrow> Inr (obj # objs)))"

fun manifest_objects :: "template_lib \<Rightarrow> 'w ti_client \<Rightarrow> 'w \<Rightarrow> template \<Rightarrow> template_instance \<Rightarrow> string list \<Rightarrow> failure + doc list" where
  "manifest_objects L C w tmpl ti [] = Inr []"
| "manifest_objects L C w tmpl ti (manifest # manifests) =
     (case StringToUnstructuredArray L manifest of
        (objs, Some err) \<Rightarrow>
          Inl (''ErrorConvertingManifest'', ''Error converting manifest '' @ manifest @ '': '' @ err_msg err)
      | (objs, None) \<Rightarrow>
          (case replace_objects L C w tmpl ti objs of
             Inl f \<Rightarrow> Inl f
           | Inr objs \<Rightarrow>
               (case manifest_objects L C w tmpl ti manifests of Inl f \<Rightarrow> Inl f | Inr rest \<Rightarrow> Inr (objs @ rest))))"

definition helm_objects :: "template_lib \<Rightarrow> 'w ti_reconciler \<Rightarrow> 'w \<Rightarrow> template \<Rightarrow> template_instance \<Rightarrow> failure + doc list" where
  "helm_objects L R w tmpl ti =
    (case tm_helm tmpl of
       None \<Rightarrow> Inr []
     | Some helmOptions \<Rightarrow>
         (case replaceHelmValuesParameters L (tr_client R) w tmpl ti (hc_values helmOptions) of
            Inl err \<Rightarrow> Inl (''ErrorReplaceParameters'', ''Error replacing parameters in helm values: '' @ err_msg err)
          | Inr values \<Rightarrow>
              (case tr_helm R w (om_name (tm_meta tmpl)) (om_namespace (ti_meta ti)) (helmOptions\<lparr>hc_values := values\<rparr>) of
                 (objs, Some err) \<Rightarrow> Inl (''ErrorHelm'', ''Error during helm template: '' @ err_msg err)
               | (objs, None) \<Rightarrow> Inr objs)))"

text \<open>The first part of \<open>deploy\<close>: the objects of a template for an instance.\<close>

definition gather_objects :: "template_lib \<Rightarrow> 'w ti_reconciler \<Rightarrow> 'w \<Rightarrow> template \<Rightarrow> template_instance \<Rightarrow> failure + doc list" where
  "gather_objects L R w tmpl ti =
    (case validateParameters L tmpl ti of
       Some err \<Rightarrow> Inl (''ErrorValidatingParameters'', err_msg err)
     | None \<Rightarrow>
         (case manifest_objects L (tr_client R) w tmpl ti (tm_manifests tmpl) of
            Inl f \<Rightarrow> Inl f
          | Inr objects \<Rightarrow>
              (case helm_objects L R w tmpl ti of Inl f \<Rightarrow> Inl f | Inr objs \<Rightarrow> Inr (objects @ objs))))"

definition shouldSetOwner :: "template_instance \<Rightarrow> bool" where
  "shouldSetOwner ti \<longleftrightarrow> map_of (om_annotations (ti_meta ti)) TemplateInstanceNoOwnerAnnotation \<noteq> Some ''true''"

text \<open>An object is put into the namespace of the instance and gets the owner that fits its scope.\<close>

definition prepare_object :: "template_lib \<Rightarrow> 'w ti_reconciler \<Rightarrow> template \<Rightarrow> template_instance \<Rightarrow> doc \<Rightarrow> failure + doc" where
  "prepare_object L R tmpl ti obj =
    (let obj = SetNamespace (om_namespace (ti_meta ti)) obj in
     case tr_restMapper R of
       None \<Rightarrow> Inr obj
     | Some restMapping \<Rightarrow>
         (case ParseGroupVersion (GetAPIVersion obj) of
            Inl err \<Rightarrow> Inl (''ParseGroupVersion'', err_msg err)
          | Inr (grp, version) \<Rightarrow>
              (let mapping = restMapping (grp, GetKind obj) in
               if isl mapping \<and> \<not> tl_IsNoMatchError L (projl mapping) then Inl (''FindObjectMapping'', err_msg (projl mapping))
               else if \<not> shouldSetOwner ti then Inr obj
               else if mapping = Inr (Some ''namespace'') then Inr (tl_SetControllerReference L (InstanceOwner ti) obj)
               else Inr (tl_SetControllerReference L (TemplateOwner tmpl) obj))))"

fun render_objects :: "template_lib \<Rightarrow> 'w ti_reconciler \<Rightarrow> template \<Rightarrow> template_instance \<Rightarrow> doc list \<Rightarrow> failure + string list" where
  "render_objects L R tmpl ti [] = Inr []"
| "render_objects L R tmpl ti (obj # objects) =
     (case prepare_object L R tmpl ti obj of
        Inl f \<Rightarrow> Inl f
      | Inr obj \<Rightarrow>
          (case tl_Marshal L obj of
             Inl err \<Rightarrow> Inl (''ObjectToYamlError'', err_msg err)
           | Inr yaml \<Rightarrow> (case render_objects L R tmpl ti objects of Inl f \<Rightarrow> Inl f | Inr ys \<Rightarrow> Inr (yaml # ys))))"

section \<open>Reconciling\<close>

record reconcile_result =
  rr_requeue :: bool
  rr_requeueAfter :: nat

definition no_requeue :: reconcile_result where
  "no_requeue = \<lparr>rr_requeue = False, rr_requeueAfter = 0\<rparr>"

text \<open>Five minutes, in seconds.\<close>

definition setFailed :: "'w ti_reconciler \<Rightarrow> 'w \<Rightarrow> template_instance \<Rightarrow> failure \<Rightarrow> 'w \<times> reconcile_result \<times> gerror option" where
  "setFailed R w ti f =
    (case f of
       (reason, message) \<Rightarrow>
         (case tc_UpdateStatus (tr_client R) w
             (ti\<lparr>ti_status := \<lparr>tst_status = Failed, tst_message = message, tst_reason = reason,
                tst_templateResourceVersion = tst_templateResourceVersion (ti_status ti),
                tst_templateManifests = tst_templateManifests (ti_status ti), tst_lastAppliedAt = None\<rparr>\<rparr>) of
            (w, err) \<Rightarrow> (w, \<lparr>rr_requeue = True, rr_requeueAfter = 5 * 60\<rparr>, err)))"

text \<open>The end of \<open>deployObjects\<close>: applying the rendered manifests and recording them.\<close>

definition apply_manifests ::
  "template_lib \<Rightarrow> 'w ti_reconciler \<Rightarrow> 'w \<Rightarrow> template_instance \<Rightarrow> string \<Rightarrow> 'w \<times> reconcile_result \<times> gerror option"
where
  "apply_manifests L R w ti manifests =
    (case (if tst_templateManifests (ti_status ti) \<noteq> [] then tl_Uncompress L (tst_templateManifests (ti_status ti)) else Inr []) of
       Inl err \<Rightarrow> setFailed R w ti (''DecompressOldManifests'', err_msg err)
     | Inr oldManifests \<Rightarrow>
         (case (if oldManifests \<noteq> manifests then tr_merge R w oldManifests manifests True else (w, None)) of
            (w, Some err) \<Rightarrow> setFailed R w ti (''ApplyManifests'', err_msg err)
          | (w, None) \<Rightarrow>
              (case tl_Compress L manifests of
                 Inl err \<Rightarrow> setFailed R w ti (''CompressManifests'', err_msg err)
               | Inr compressed \<Rightarrow>
                   (let ti = ti\<lparr>ti_status := (ti_status ti)\<lparr>tst_templateManifests := compressed\<rparr>\<rparr> in
                    case tc_UpdateStatus (tr_client R) w ti of
                      (w, Some err) \<Rightarrow>
                        setFailed R w ti (''ErrorUpdatingStatus'', ''Couldn't update template instance status: '' @ err_msg err)
                    | (w, None) \<Rightarrow> (w, no_requeue, None)))))"

definition deployObjects ::
  "template_lib \<Rightarrow> 'w ti_reconciler \<Rightarrow> int \<Rightarrow> 'w \<Rightarrow> template \<Rightarrow> template_instance \<Rightarrow> doc list
    \<Rightarrow> 'w \<times> reconcile_result \<times> gerror option"
where
  "deployObjects L R now w tmpl ti objects =
    (let ti = ti\<lparr>ti_status := \<lparr>tst_status = Deployed, tst_message = [], tst_reason = [],
           tst_templateResourceVersion = om_resourceVersion (tm_meta tmpl),
           tst_templateManifests = tst_templateManifests (ti_status ti), tst_lastAppliedAt = Some now\<rparr>\<rparr>
     in case render_objects L R tmpl ti objects of
          Inl f \<Rightarrow> setFailed R w ti f
        | Inr manifestsArray \<Rightarrow> apply_manifests L R w ti (Join manifestsArray (diffSeparator @ [CHR 0x0A])))"

definition deploy ::
  "template_lib \<Rightarrow> 'w ti_reconciler \<Rightarrow> int \<Rightarrow> 'w \<Rightarrow> template \<Rightarrow> template_instance \<Rightarrow> 'w \<times> reconcile_result \<times> gerror option"
where
  "deploy L R now w tmpl ti =
    (case gather_objects L R w tmpl ti of
       Inl f \<Rightarrow> setFailed R w ti f
     | Inr objects \<Rightarrow> deployObjects L R now w tmpl ti objects)"

definition Reconcile ::
  "template_lib \<Rightarrow> 'w ti_reconciler \<Rightarrow> int \<Rightarrow> 'w \<Rightarrow> string \<Rightarrow> string \<Rightarrow> 'w \<times> reconcile_result \<times> gerror option"
where
  "Reconcile L R now w namespace name =
    (case tc_GetInstance (tr_client R) w namespace name of
       Inl err \<Rightarrow> (w, no_requeue, if IsNotFound err then None else Some err)
     | Inr ti \<Rightarrow>
         if \<not> tis_sync (ti_spec ti) \<and> tst_status (ti_status ti) \<noteq> Pending then (w, no_requeue, None)
         else
           (case tc_GetTemplate (tr_client R) w (tis_template (ti_spec ti)) of
              Inl err \<Rightarrow>
                if IsNotFound err then
                  setFailed R w ti (''TemplateNotFound'',
                    ''The specified template '' @ squoted (tis_template (ti_spec ti)) @ '' couldn't be found.'')
                else (w, no_requeue, Some err)
            | Inr tmpl \<Rightarrow>
                if tst_templateResourceVersion (ti_status ti) = om_resourceVersion (tm_meta tmpl)
                   \<and> tst_status (ti_status ti) = Deployed then (w, no_requeue, None)
                else deploy L R now w tmpl ti))"

text \<open>The instances to reconcile when a template changes: those that sync. Where the list fails there are none.\<close>

definition mapTemplateInstances :: "'w ti_client \<Rightarrow> 'w \<Rightarrow> string \<Rightarrow> (string \<times> string) list" where
  "mapTemplateInstances C w name =
    (let items = (case tc_ListByTemplate C w name of Inl err \<Rightarrow> [] | Inr items \<Rightarrow> items)
     in fold (\<lambda>i requests. if \<not> tis_sync (ti_spec i) then requests
           else requests @ [(om_namespace (ti_meta i), om_name (ti_meta i))]) items [])"

section \<open>Lemmas on validation and rendering\<close>

text \<open>What one parameter of the template demands of the parameters of the instance.\<close>

definition param_satisfied :: "template_lib \<Rightarrow> ti_parameter list \<Rightarrow> template_parameter \<Rightarrow> bool" where
  "param_satisfied L ips p \<longleftrightarrow> tpar_name p = []
     \<or> (tpar_name p \<in> tp_name ` set ips \<or> \<not> tpar_required p)
       \<and> (\<forall>ip \<in> set ips. tp_name ip = tpar_name p \<longrightarrow> tpar_validation p \<noteq> [] \<longrightarrow>
             tl_MatchString L (tpar_validation p) (tp_value ip) = Inr True)"

definition param_declared :: "template \<Rightarrow> ti_parameter \<Rightarrow> bool" where
  "param_declared tmpl ip \<longleftrightarrow> tp_name ip = [] \<or> tp_name ip \<in> tpar_name ` set (tm_parameters tmpl)"

lemma check_parameter_iff:
  "check_parameter L p ips found = Inr b \<longleftrightarrow>
    (\<forall>ip \<in> set ips. tp_name ip = tpar_name p \<longrightarrow> tpar_validation p \<noteq> [] \<longrightarrow>
       tl_MatchString L (tpar_validation p) (tp_value ip) = Inr True)
    \<and> b = (found \<or> tpar_name p \<in> tp_name ` set ips)"
proof (induction ips arbitrary: found)
  case (Cons ip ips)
  show ?case
  proof (cases "tp_name ip = tpar_name p \<and> tpar_validation p \<noteq> []")
    case True
    then show ?thesis
      using Cons by (cases "tl_MatchString L (tpar_validation p) (tp_value ip)") auto
  next
    case False
    then show ?thesis using Cons by auto
  qed
qed auto

lemma check_parameters_iff: "check_parameters L ps ips = None \<longleftrightarrow> list_all (param_satisfied L ips) ps"
proof (induction ps)
  case (Cons p ps)
  show ?case
  proof (cases "tpar_name p = [] \<or> \<not> tpar_required p \<and> tpar_validation p = []")
    case True
    then show ?thesis using Cons by (auto simp: param_satisfied_def)
  next
    case False
    show ?thesis
    proof (cases "check_parameter L p ips False")
      case (Inl e)
      then have "\<not> param_satisfied L ips p" using False check_parameter_iff [of L p ips False]
        by (auto simp: param_satisfied_def)
      then show ?thesis using False Inl by auto
    next
      case (Inr b)
      then show ?thesis using False check_parameter_iff [of L p ips False b] Cons
        by (auto simp: param_satisfied_def)
    qed
  qed
qed simp

lemma check_declared_iff: "check_declared tmpl ips = None \<longleftrightarrow> list_all (param_declared tmpl) ips"
proof (induction ips)
  case (Cons ip ips)
  have "list_ex (\<lambda>parameter. tpar_name parameter = tp_name ip) (tm_parameters tmpl)
      \<longleftrightarrow> tp_name ip \<in> tpar_name ` set (tm_parameters tmpl)" by (force simp: list_ex_iff)
  then show ?case using Cons by (auto simp: param_declared_def)
qed simp

lemma fold_skip_append: "fold (\<lambda>x acc. if \<not> P x then acc else acc @ [f x]) xs acc = acc @ map f (filter P xs)"
  by (induction xs arbitrary: acc) auto

lemma mapTemplateInstances_eq:
  "mapTemplateInstances C w name = map (\<lambda>i. (om_namespace (ti_meta i), om_name (ti_meta i)))
     (filter (\<lambda>i. tis_sync (ti_spec i)) (case tc_ListByTemplate C w name of Inl err \<Rightarrow> [] | Inr items \<Rightarrow> items))"
  using fold_skip_append [of "\<lambda>i. tis_sync (ti_spec i)" "\<lambda>i. (om_namespace (ti_meta i), om_name (ti_meta i))" _ "[]"]
  by (simp add: mapTemplateInstances_def)

text \<open>
  What the rendered manifests are, piece by piece: the parameters are valid; each manifest of the template is split into
  its documents, with the variables of each replaced; the helm chart, if there is one, is rendered with the variables of
  its values replaced; and each object is prepared for the instance as it is to be recorded and marshalled.
\<close>

definition replaced_docs :: "template_lib \<Rightarrow> 'w ti_client \<Rightarrow> 'w \<Rightarrow> template \<Rightarrow> template_instance \<Rightarrow> string \<Rightarrow> doc list \<Rightarrow> bool" where
  "replaced_docs L C w tmpl ti manifest docs \<longleftrightarrow>
    (\<exists>raw. StringToUnstructuredArray L manifest = (raw, None)
      \<and> list_all2 (\<lambda>r d. replaceUnstructuredParameters L C w tmpl ti r = Inr d) raw docs)"

definition helm_docs :: "template_lib \<Rightarrow> 'w ti_reconciler \<Rightarrow> 'w \<Rightarrow> template \<Rightarrow> template_instance \<Rightarrow> doc list \<Rightarrow> bool" where
  "helm_docs L R w tmpl ti docs \<longleftrightarrow>
    (case tm_helm tmpl of
       None \<Rightarrow> docs = []
     | Some h \<Rightarrow> \<exists>values. replaceHelmValuesParameters L (tr_client R) w tmpl ti (hc_values h) = Inr values
         \<and> tr_helm R w (om_name (tm_meta tmpl)) (om_namespace (ti_meta ti)) (h\<lparr>hc_values := values\<rparr>) = (docs, None))"

definition rendered ::
  "template_lib \<Rightarrow> 'w ti_reconciler \<Rightarrow> 'w \<Rightarrow> template \<Rightarrow> template_instance \<Rightarrow> template_instance \<Rightarrow> string \<Rightarrow> bool"
where
  "rendered L R w tmpl ti recorded manifests \<longleftrightarrow> validateParameters L tmpl ti = None
    \<and> (\<exists>docs charts yamls. list_all2 (replaced_docs L (tr_client R) w tmpl ti) (tm_manifests tmpl) docs
         \<and> helm_docs L R w tmpl ti charts
         \<and> list_all2 (\<lambda>d yaml. \<exists>p. prepare_object L R tmpl recorded d = Inr p \<and> tl_Marshal L p = Inr yaml)
             (concat docs @ charts) yamls
         \<and> manifests = Join yamls (diffSeparator @ [CHR 0x0A]))"

text \<open>The status a deployment records, without its manifests.\<close>

definition deployed_instance :: "template \<Rightarrow> int \<Rightarrow> template_instance \<Rightarrow> template_instance" where
  "deployed_instance tmpl now ti = ti\<lparr>ti_status := \<lparr>tst_status = Deployed, tst_message = [], tst_reason = [],
     tst_templateResourceVersion = om_resourceVersion (tm_meta tmpl),
     tst_templateManifests = tst_templateManifests (ti_status ti), tst_lastAppliedAt = Some now\<rparr>\<rparr>"

lemma replace_objects_docs:
  "replace_objects L C w tmpl ti raw = Inr docs \<Longrightarrow> list_all2 (\<lambda>r d. replaceUnstructuredParameters L C w tmpl ti r = Inr d) raw docs"
  by (induction raw arbitrary: docs) (auto split: sum.splits)

lemma manifest_objects_docs:
  "manifest_objects L C w tmpl ti ms = Inr objs \<Longrightarrow>
   \<exists>docs. list_all2 (replaced_docs L C w tmpl ti) ms docs \<and> objs = concat docs"
proof (induction ms arbitrary: objs)
  case (Cons m ms)
  obtain raw where raw: "StringToUnstructuredArray L m = (raw, None)"
    using Cons.prems by (auto split: prod.splits option.splits)
  obtain ds where ds: "replace_objects L C w tmpl ti raw = Inr ds" using Cons.prems raw by (auto split: sum.splits)
  obtain rest where rest: "manifest_objects L C w tmpl ti ms = Inr rest" "objs = ds @ rest"
    using Cons.prems raw ds by (auto split: sum.splits)
  obtain docs where "list_all2 (replaced_docs L C w tmpl ti) ms docs \<and> rest = concat docs" using Cons.IH [OF rest(1)] by blast
  moreover have "replaced_docs L C w tmpl ti m ds" using raw replace_objects_docs [OF ds] by (auto simp: replaced_docs_def)
  ultimately show ?case using rest(2) by (intro exI [of _ "ds # docs"]) simp
qed simp

lemma render_objects_yamls:
  "render_objects L R tmpl ti objs = Inr yamls \<Longrightarrow>
   list_all2 (\<lambda>d yaml. \<exists>p. prepare_object L R tmpl ti d = Inr p \<and> tl_Marshal L p = Inr yaml) objs yamls"
  by (induction objs arbitrary: yamls) (auto split: sum.splits)

lemma gather_rendered:
  assumes "gather_objects L R w tmpl ti = Inr objs" "render_objects L R tmpl recorded objs = Inr yamls"
  shows "rendered L R w tmpl ti recorded (Join yamls (diffSeparator @ [CHR 0x0A]))"
proof -
  have v: "validateParameters L tmpl ti = None" using assms(1) by (auto simp: gather_objects_def split: option.splits)
  obtain ms hs where m: "manifest_objects L (tr_client R) w tmpl ti (tm_manifests tmpl) = Inr ms"
    "helm_objects L R w tmpl ti = Inr hs" "objs = ms @ hs"
    using assms(1) v by (auto simp: gather_objects_def split: sum.splits)
  have "helm_docs L R w tmpl ti hs"
    using m(2) by (auto simp: helm_objects_def helm_docs_def split: option.splits sum.splits prod.splits)
  then show ?thesis
    using v manifest_objects_docs [OF m(1)] render_objects_yamls [OF assms(2)] m(3) unfolding rendered_def by blast
qed

definition keeps_namespace :: "template_lib \<Rightarrow> bool" where
  "keeps_namespace L \<longleftrightarrow> (\<forall>ow d. GetNamespace (tl_SetControllerReference L ow d) = GetNamespace d)"

lemma prepare_object_namespace:
  assumes "prepare_object L R tmpl ti obj = Inr d" "keeps_namespace L" "metadata_ok obj"
  shows "GetNamespace d = om_namespace (ti_meta ti)"
proof -
  have "GetNamespace (SetNamespace (om_namespace (ti_meta ti)) obj) = om_namespace (ti_meta ti)"
    by (rule GetNamespace_SetNamespace [OF assms(3)])
  then show ?thesis using assms(1,2)
    by (auto simp: prepare_object_def Let_def keeps_namespace_def split: option.splits sum.splits if_splits)
qed

section \<open>What is recorded\<close>

text \<open>
  The client that the controller relies on, over a view of the stored statuses: an update of a status that succeeds
  changes the status of that instance, one that fails changes none, and merging manifests changes none.
\<close>

definition instance_key :: "string \<Rightarrow> string \<Rightarrow> string" where
  "instance_key namespace name = namespace @ ''/'' @ name"

definition ti_key :: "template_instance \<Rightarrow> string" where
  "ti_key ti = instance_key (om_namespace (ti_meta ti)) (om_name (ti_meta ti))"

text \<open>What a status may record: what was recorded before, or manifests to which a merge from those has led.\<close>

definition old_manifests :: "template_lib \<Rightarrow> string \<Rightarrow> gerror + string" where
  "old_manifests L recorded = (if recorded \<noteq> [] then tl_Uncompress L recorded else Inr [])"

definition recordable :: "template_lib \<Rightarrow> 'w ti_reconciler \<Rightarrow> 'w \<Rightarrow> string \<Rightarrow> template_instance_status \<Rightarrow> bool" where
  "recordable L R w recorded st \<longleftrightarrow>
     tst_status st = Failed \<and> tst_templateManifests st = recorded
   \<or> (\<exists>old new. old_manifests L recorded = Inr old \<and> (new = old \<or> snd (tr_merge R w old new True) = None) \<and> tl_Compress L new = Inr (tst_templateManifests st))"

locale instance_client =
  fixes R :: "'w ti_reconciler" and stored :: "'w \<Rightarrow> string \<Rightarrow> template_instance_status option"
  assumes update_done: "tc_UpdateStatus (tr_client R) w ti = (w', None) \<Longrightarrow> stored w' = (stored w)(ti_key ti \<mapsto> ti_status ti)"
    and update_failed: "tc_UpdateStatus (tr_client R) w ti = (w', Some e) \<Longrightarrow> stored w' = stored w"
    and merge_stored: "tr_merge R w old new force = (w', r) \<Longrightarrow> stored w' = stored w"
begin

lemma setFailed_stored:
  assumes "setFailed R w ti f = (w', res, err)"
  shows "rr_requeue res"
    "if err = None then \<exists>st. stored w' = (stored w)(ti_key ti \<mapsto> st) \<and> tst_status st = Failed
         \<and> tst_templateManifests st = tst_templateManifests (ti_status ti)
         \<and> tst_templateResourceVersion st = tst_templateResourceVersion (ti_status ti)
     else stored w' = stored w"
proof -
  obtain reason message where f: "f = (reason, message)" by force
  define ti1 where "ti1 = ti\<lparr>ti_status := \<lparr>tst_status = Failed, tst_message = message, tst_reason = reason,
                tst_templateResourceVersion = tst_templateResourceVersion (ti_status ti),
                tst_templateManifests = tst_templateManifests (ti_status ti), tst_lastAppliedAt = None\<rparr>\<rparr>"
  have u: "tc_UpdateStatus (tr_client R) w ti1 = (w', err)" and "rr_requeue res"
    using assms by (auto simp: setFailed_def f ti1_def split: prod.splits)
  then show "rr_requeue res" by simp
  have k: "ti_key ti1 = ti_key ti" by (simp add: ti_key_def ti1_def)
  show "if err = None then \<exists>st. stored w' = (stored w)(ti_key ti \<mapsto> st) \<and> tst_status st = Failed
         \<and> tst_templateManifests st = tst_templateManifests (ti_status ti)
         \<and> tst_templateResourceVersion st = tst_templateResourceVersion (ti_status ti)
     else stored w' = stored w"
  proof (cases err)
    case None
    have "stored w' = (stored w)(ti_key ti \<mapsto> ti_status ti1)" using update_done [OF u [unfolded None]] k by simp
    then show ?thesis using None by (auto simp: ti1_def)
  next
    case (Some e)
    then show ?thesis using update_failed [of w ti1 w' e] u by simp
  qed
qed

text \<open>The outcomes of applying manifests: recorded as failed, or merged and recorded.\<close>

lemma apply_manifests_cases:
  assumes "apply_manifests L R w ti manifests = (w', res, err)"
  obtains w1 ti1 f where "setFailed R w1 ti1 f = (w', res, err)" "stored w1 = stored w" "ti_key ti1 = ti_key ti"
      "tst_templateManifests (ti_status ti1) = tst_templateManifests (ti_status ti)
       \<or> (\<exists>old. old_manifests L (tst_templateManifests (ti_status ti)) = Inr old
            \<and> (old = manifests \<or> snd (tr_merge R w old manifests True) = None)
            \<and> tl_Compress L manifests = Inr (tst_templateManifests (ti_status ti1)))"
  | old w1 c where "old_manifests L (tst_templateManifests (ti_status ti)) = Inr old"
      "if old = manifests then w1 = w else tr_merge R w old manifests True = (w1, None)"
      "tl_Compress L manifests = Inr c"
      "tc_UpdateStatus (tr_client R) w1 (ti\<lparr>ti_status := (ti_status ti)\<lparr>tst_templateManifests := c\<rparr>\<rparr>) = (w', None)"
      "res = no_requeue" "err = None"
proof (cases "old_manifests L (tst_templateManifests (ti_status ti))")
  case (Inl e)
  then have "setFailed R w ti (''DecompressOldManifests'', err_msg e) = (w', res, err)"
    using assms by (simp add: apply_manifests_def old_manifests_def)
  then show thesis by (rule that(1)) simp_all
next
  case (Inr old)
  define m where "m = (if old \<noteq> manifests then tr_merge R w old manifests True else (w, None))"
  obtain w1 e where m1: "m = (w1, e)" by force
  have st: "stored w1 = stored w" using m1 merge_stored [of w old manifests True w1 e] by (auto simp: m_def split: if_splits)
  have a: "(case m of
            (w, Some err) \<Rightarrow> setFailed R w ti (''ApplyManifests'', err_msg err)
          | (w, None) \<Rightarrow>
              (case tl_Compress L manifests of
                 Inl err \<Rightarrow> setFailed R w ti (''CompressManifests'', err_msg err)
               | Inr compressed \<Rightarrow>
                   (let ti = ti\<lparr>ti_status := (ti_status ti)\<lparr>tst_templateManifests := compressed\<rparr>\<rparr> in
                    case tc_UpdateStatus (tr_client R) w ti of
                      (w, Some err) \<Rightarrow>
                        setFailed R w ti (''ErrorUpdatingStatus'', ''Couldn't update template instance status: '' @ err_msg err)
                    | (w, None) \<Rightarrow> (w, no_requeue, None)))) = (w', res, err)"
    using assms Inr by (simp add: apply_manifests_def old_manifests_def m_def)
  show thesis
  proof (cases e)
    case (Some err1)
    then have "setFailed R w1 ti (''ApplyManifests'', err_msg err1) = (w', res, err)" using a m1 by simp
    then show thesis by (rule that(1)) (simp_all add: st)
  next
    case None
    have merged: "old = manifests \<or> snd (tr_merge R w old manifests True) = None"
      using m1 None by (auto simp: m_def split: if_splits)
    show thesis
    proof (cases "tl_Compress L manifests")
      case (Inl err1)
      then have "setFailed R w1 ti (''CompressManifests'', err_msg err1) = (w', res, err)" using a m1 None by simp
      then show thesis by (rule that(1)) (simp_all add: st)
    next
      case c: (Inr c)
      define ti1 where "ti1 = ti\<lparr>ti_status := (ti_status ti)\<lparr>tst_templateManifests := c\<rparr>\<rparr>"
      have k: "ti_key ti1 = ti_key ti" by (simp add: ti1_def ti_key_def)
      obtain w2 e2 where u: "tc_UpdateStatus (tr_client R) w1 ti1 = (w2, e2)" by force
      show thesis
      proof (cases e2)
        case (Some err2)
        then have "stored w2 = stored w" using update_failed u st by metis
        moreover have "setFailed R w2 ti1 (''ErrorUpdatingStatus'', ''Couldn't update template instance status: '' @ err_msg err2) = (w', res, err)"
          using a m1 None c u Some by (simp add: ti1_def [symmetric])
        moreover have "tst_templateManifests (ti_status ti1) = c" by (simp add: ti1_def)
        ultimately show thesis using that(1) [of w2 ti1] k Inr merged c by blast
      next
        case None': None
        then have "w2 = w'" "res = no_requeue" "err = None" using a m1 None c u by (simp_all add: ti1_def [symmetric])
        moreover have "if old = manifests then w1 = w else tr_merge R w old manifests True = (w1, None)"
          using m1 None by (auto simp: m_def)
        ultimately show thesis using that(2) [OF Inr _ c] u None' unfolding ti1_def by blast
      qed
    qed
  qed
qed

lemma setFailed_recordable:
  assumes "setFailed R w1 ti1 f = (w', res, err)" "stored w1 = stored w" "ti_key ti1 = ti_key ti"
    "tst_templateManifests (ti_status ti1) = recorded
       \<or> (\<exists>old new. old_manifests L recorded = Inr old \<and> (new = old \<or> snd (tr_merge R w old new True) = None)
            \<and> tl_Compress L new = Inr (tst_templateManifests (ti_status ti1)))"
  shows "stored w' = stored w \<or> (\<exists>st. stored w' = (stored w)(ti_key ti \<mapsto> st) \<and> recordable L R w recorded st)"
proof (cases err)
  case None
  then obtain st where st: "stored w' = (stored w1)(ti_key ti1 \<mapsto> st)" "tst_status st = Failed"
      "tst_templateManifests st = tst_templateManifests (ti_status ti1)"
    using setFailed_stored(2) [OF assms(1)] by auto
  have "recordable L R w recorded st"
    using assms(4) st by (auto simp: recordable_def)
  then show ?thesis using st(1) assms(2,3) by auto
next
  case (Some e)
  then show ?thesis using setFailed_stored(2) [OF assms(1)] assms(2) by simp
qed

end

section \<open>The ways a reconciliation ends\<close>

text \<open>The world changes only by status updates and merges.\<close>

locale ti_invariant =
  fixes R :: "'w ti_reconciler" and I :: "'w \<Rightarrow> bool"
  assumes update_keeps: "tc_UpdateStatus (tr_client R) w ti = (w', e) \<Longrightarrow> I w \<Longrightarrow> I w'"
    and merge_keeps: "tr_merge R w old new force = (w', e) \<Longrightarrow> I w \<Longrightarrow> I w'"
begin

lemma setFailed_keeps: "setFailed R w ti f = (w', res, err) \<Longrightarrow> I w \<Longrightarrow> I w'"
  by (auto simp: setFailed_def update_keeps split: prod.splits)

lemma apply_manifests_keeps:
  assumes "apply_manifests L R w ti manifests = (w', res, err)" "I w"
  shows "I w'"
proof (cases "old_manifests L (tst_templateManifests (ti_status ti))")
  case (Inl e)
  then show ?thesis using assms by (auto simp: apply_manifests_def old_manifests_def intro: setFailed_keeps)
next
  case (Inr old)
  obtain w1 e where m: "(if old \<noteq> manifests then tr_merge R w old manifests True else (w, None)) = (w1, e)" by force
  have w1: "I w1" using m assms(2) merge_keeps by (auto split: if_splits)
  show ?thesis
  proof (cases e)
    case (Some err1)
    then show ?thesis using assms Inr m w1 by (simp add: apply_manifests_def old_manifests_def setFailed_keeps)
  next
    case None
    show ?thesis
    proof (cases "tl_Compress L manifests")
      case (Inl err1)
      then show ?thesis using assms Inr m None w1
        by (auto simp: apply_manifests_def old_manifests_def intro: setFailed_keeps)
    next
      case c: (Inr c)
      obtain w2 e2 where u: "tc_UpdateStatus (tr_client R) w1
          (ti\<lparr>ti_status := (ti_status ti)\<lparr>tst_templateManifests := c\<rparr>\<rparr>) = (w2, e2)" by force
      have "I w2" using u w1 by (rule update_keeps)
      then show ?thesis using assms Inr m None c u
        by (cases e2) (auto simp: apply_manifests_def old_manifests_def Let_def intro: setFailed_keeps)
    qed
  qed
qed

lemma Reconcile_keeps: "Reconcile L R now w namespace name = (w', res, err) \<Longrightarrow> I w \<Longrightarrow> I w'"
  by (auto simp: Reconcile_def deploy_def deployObjects_def Let_def setFailed_keeps apply_manifests_keeps
      split: sum.splits if_splits)

end

definition needs_deploy :: "template_instance \<Rightarrow> template \<Rightarrow> bool" where
  "needs_deploy ti tmpl \<longleftrightarrow> (tis_sync (ti_spec ti) \<or> tst_status (ti_status ti) = Pending)
     \<and> (tst_templateResourceVersion (ti_status ti) \<noteq> om_resourceVersion (tm_meta tmpl) \<or> tst_status (ti_status ti) \<noteq> Deployed)"

context instance_client
begin

lemma Reconcile_cases:
  assumes "Reconcile L R now w namespace name = (w', res, err)"
  obtains "w' = w" "res = no_requeue"
      "\<And>ti tmpl. tc_GetInstance (tr_client R) w namespace name = Inr ti
        \<Longrightarrow> tc_GetTemplate (tr_client R) w (tis_template (ti_spec ti)) = Inr tmpl \<Longrightarrow> \<not> needs_deploy ti tmpl"
  | ti w1 ti1 f where "tc_GetInstance (tr_client R) w namespace name = Inr ti" "setFailed R w1 ti1 f = (w', res, err)"
      "stored w1 = stored w" "ti_key ti1 = ti_key ti"
      "tst_templateManifests (ti_status ti1) = tst_templateManifests (ti_status ti)
       \<or> (\<exists>old new. old_manifests L (tst_templateManifests (ti_status ti)) = Inr old
            \<and> (new = old \<or> snd (tr_merge R w old new True) = None)
            \<and> tl_Compress L new = Inr (tst_templateManifests (ti_status ti1)))"
  | ti tmpl old new w1 c where "tc_GetInstance (tr_client R) w namespace name = Inr ti"
      "tc_GetTemplate (tr_client R) w (tis_template (ti_spec ti)) = Inr tmpl" "needs_deploy ti tmpl"
      "old_manifests L (tst_templateManifests (ti_status ti)) = Inr old"
      "if old = new then w1 = w else tr_merge R w old new True = (w1, None)" "tl_Compress L new = Inr c"
      "tc_UpdateStatus (tr_client R) w1 (ti\<lparr>ti_status := \<lparr>tst_status = Deployed, tst_message = [], tst_reason = [],
         tst_templateResourceVersion = om_resourceVersion (tm_meta tmpl), tst_templateManifests = c,
         tst_lastAppliedAt = Some now\<rparr>\<rparr>) = (w', None)"
      "res = no_requeue" "err = None" "rendered L R w tmpl ti (deployed_instance tmpl now ti) new"
proof (cases "tc_GetInstance (tr_client R) w namespace name")
  case (Inl e)
  then show thesis using assms that(1) by (simp add: Reconcile_def)
next
  case (Inr ti)
  note ti = Inr
  show thesis
  proof (cases "\<not> tis_sync (ti_spec ti) \<and> tst_status (ti_status ti) \<noteq> Pending")
    case True
    then have "w' = w" "res = no_requeue" using assms Inr by (auto simp: Reconcile_def)
    then show thesis by (rule that(1)) (use True ti in \<open>auto simp: needs_deploy_def\<close>)
  next
    case active: False
    show thesis
    proof (cases "tc_GetTemplate (tr_client R) w (tis_template (ti_spec ti))")
      case (Inl e)
      show thesis
      proof (cases "IsNotFound e")
        case True
        then obtain f where "setFailed R w ti f = (w', res, err)" using assms ti active Inl by (auto simp: Reconcile_def)
        then show thesis using that(2) [of ti w ti] ti by blast
      next
        case False
        then have "w' = w" "res = no_requeue" using assms ti active Inl by (auto simp: Reconcile_def)
        then show thesis by (rule that(1)) (use ti Inl in auto)
      qed
    next
      case tmpl: (Inr tmpl)
      show thesis
      proof (cases "needs_deploy ti tmpl")
        case False
        then have "w' = w" "res = no_requeue" using assms ti active tmpl by (auto simp: Reconcile_def needs_deploy_def)
        then show thesis by (rule that(1)) (use ti tmpl False in auto)
      next
        case True
        then have d: "deploy L R now w tmpl ti = (w', res, err)"
          using assms ti active tmpl by (auto simp: Reconcile_def needs_deploy_def)
        show thesis
        proof (cases "gather_objects L R w tmpl ti")
          case (Inl f)
          then show thesis using d ti that(2) [of ti w ti f] by (simp add: deploy_def)
        next
          case (Inr objects)
          note gathered = Inr
          define ti0 where "ti0 = deployed_instance tmpl now ti"
          have k: "ti_key ti0 = ti_key ti" and r: "tst_templateManifests (ti_status ti0) = tst_templateManifests (ti_status ti)"
            by (simp_all add: ti0_def deployed_instance_def ti_key_def)
          have o: "deployObjects L R now w tmpl ti objects = (w', res, err)" using d Inr by (simp add: deploy_def)
          show thesis
          proof (cases "render_objects L R tmpl ti0 objects")
            case (Inl f)
            then have "setFailed R w ti0 f = (w', res, err)" using o by (simp add: deployObjects_def deployed_instance_def [symmetric] ti0_def)
            then show thesis using that(2) [OF ti _ refl k] r by simp
          next
            case (Inr ys)
            define ms where "ms = Join ys (diffSeparator @ [CHR 0x0A])"
            have "apply_manifests L R w ti0 ms = (w', res, err)"
              using o Inr by (simp add: deployObjects_def deployed_instance_def [symmetric] ti0_def ms_def)
            then show thesis
            proof (cases rule: apply_manifests_cases)
              case (1 w1 ti1 f)
              have "tst_templateManifests (ti_status ti1) = tst_templateManifests (ti_status ti)
                 \<or> (\<exists>old new. old_manifests L (tst_templateManifests (ti_status ti)) = Inr old
                      \<and> (new = old \<or> snd (tr_merge R w old new True) = None)
                      \<and> tl_Compress L new = Inr (tst_templateManifests (ti_status ti1)))"
                using 1(4) unfolding r by metis
              then show thesis using that(2) [OF ti 1(1) 1(2)] 1(3) k by simp
            next
              case (2 old w1 c)
              have "ti0\<lparr>ti_status := (ti_status ti0)\<lparr>tst_templateManifests := c\<rparr>\<rparr> = ti\<lparr>ti_status := \<lparr>tst_status = Deployed,
                 tst_message = [], tst_reason = [], tst_templateResourceVersion = om_resourceVersion (tm_meta tmpl),
                 tst_templateManifests = c, tst_lastAppliedAt = Some now\<rparr>\<rparr>" by (simp add: ti0_def deployed_instance_def)
              moreover have "rendered L R w tmpl ti ti0 ms" using gather_rendered [OF gathered Inr] by (simp add: ms_def)
              ultimately show thesis using that(3) [OF ti tmpl True 2(1) [unfolded r] 2(2) 2(3)] 2(4,5,6) by (simp add: ti0_def)
            qed
          qed
        qed
      qed
    qed
  qed
qed

lemma Reconcile_stored:
  assumes "Reconcile L R now w namespace name = (w', res, err)"
  shows "stored w' = stored w \<or> (\<exists>ti st. tc_GetInstance (tr_client R) w namespace name = Inr ti
      \<and> stored w' = (stored w)(ti_key ti \<mapsto> st) \<and> recordable L R w (tst_templateManifests (ti_status ti)) st)"
  using assms
proof (cases rule: Reconcile_cases)
  case (2 ti w1 ti1 f)
  then show ?thesis using setFailed_recordable [OF 2(2,3,4,5)] by blast
next
  case (3 ti tmpl old new w1 c)
  define st where "st = \<lparr>tst_status = Deployed, tst_message = [], tst_reason = [],
         tst_templateResourceVersion = om_resourceVersion (tm_meta tmpl), tst_templateManifests = c,
         tst_lastAppliedAt = Some now\<rparr>"
  have "stored w1 = stored w" using 3(5) merge_stored by (cases "old = new") auto
  then have "stored w' = (stored w)(ti_key ti \<mapsto> st)"
    using update_done [OF 3(7)] by (simp add: st_def ti_key_def)
  moreover have "new = old \<or> snd (tr_merge R w old new True) = None" using 3(5) by (cases "old = new") simp_all
  then have "recordable L R w (tst_templateManifests (ti_status ti)) st" using 3(4,6) by (auto simp: recordable_def st_def)
  ultimately show ?thesis using 3(1) by blast
qed simp

end

section \<open>The controller on a cluster\<close>

text \<open>
  The world of the controller: the stored template instances behind a cache, the other objects it reads, and the
  objects of the cluster. A status update changes only status and resource version of the stored instance, and is
  refused where the cached copy is stale.
\<close>

record ti_world =
  tw_instances :: "template_instance api_store"
  tw_templates :: "(string \<times> template) list"
  tw_namespaces :: "(string \<times> namespace) list"
  tw_accounts :: "(string \<times> account) list"
  tw_secrets :: "((string \<times> string) \<times> (string \<times> string) list option) list"
  tw_cluster :: cluster

definition found_in :: "(string \<times> 'o) list \<Rightarrow> string \<Rightarrow> gerror + 'o" where
  "found_in m k = (case map_of m k of None \<Rightarrow> Inl (NotFoundErr k) | Some x \<Rightarrow> Inr x)"

definition take_status :: "nat \<Rightarrow> template_instance \<Rightarrow> template_instance \<Rightarrow> template_instance" where
  "take_status r old new = old\<lparr>ti_meta := (ti_meta old)\<lparr>om_resourceVersion := string_of_nat r\<rparr>, ti_status := ti_status new\<rparr>"

definition world_UpdateStatus :: "ti_world \<Rightarrow> template_instance \<Rightarrow> ti_world \<times> gerror option" where
  "world_UpdateStatus w ti =
    (case store_Update (\<lambda>x. om_resourceVersion (ti_meta x)) take_status (ti_key ti) ti (tw_instances w) of
       (Inl err, st) \<Rightarrow> (w\<lparr>tw_instances := st\<rparr>, Some err)
     | (Inr x, st) \<Rightarrow> (w\<lparr>tw_instances := st\<rparr>, None))"

definition world_client :: "ti_world ti_client" where
  "world_client = \<lparr>
     tc_GetInstance = \<lambda>w ns n. found_in (as_cache (tw_instances w)) (instance_key ns n),
     tc_GetTemplate = \<lambda>w n. found_in (tw_templates w) n,
     tc_GetNamespace = \<lambda>w n. found_in (tw_namespaces w) n,
     tc_GetAccount = \<lambda>w n. found_in (tw_accounts w) n,
     tc_GetSecret = \<lambda>w ns n. (case map_of (tw_secrets w) (ns, n) of None \<Rightarrow> Inl (NotFoundErr n) | Some s \<Rightarrow> Inr s),
     tc_ListByTemplate = \<lambda>w n. Inr (filter (\<lambda>i. tis_template (ti_spec i) = n) (map snd (as_cache (tw_instances w)))),
     tc_UpdateStatus = world_UpdateStatus\<rparr>"

definition world_reconciler ::
  "template_lib \<Rightarrow> patch_lib \<Rightarrow> (doc \<Rightarrow> patch_type \<Rightarrow> string \<Rightarrow> gerror + doc) \<Rightarrow> factory
    \<Rightarrow> (string list \<Rightarrow> string option \<Rightarrow> gerror + string) \<Rightarrow> gerror + string
    \<Rightarrow> (string \<times> string \<Rightarrow> gerror + string option) option \<Rightarrow> ti_world ti_reconciler"
where
  "world_reconciler L PL apply_patch F runner tempfile restMapper = \<lparr>
     tr_client = world_client,
     tr_helm = helm_Template L runner tempfile world_client,
     tr_merge = \<lambda>w old new force.
       (case Merge (cluster_client apply_patch) PL F [] (tw_cluster w) old new force of
          (cl, err) \<Rightarrow> (w\<lparr>tw_cluster := cl\<rparr>, err)),
     tr_restMapper = restMapper\<rparr>"

definition stored_status :: "ti_world \<Rightarrow> string \<Rightarrow> template_instance_status option" where
  "stored_status w k = map_option ti_status (map_of (as_objects (tw_instances w)) k)"

lemma world_UpdateStatus_cases:
  assumes "world_UpdateStatus w ti = (w', e)"
  obtains err where "e = Some err" "w' = w"
  | old r where "e = None" "map_of (as_objects (tw_instances w)) (ti_key ti) = Some old"
      "w' = w\<lparr>tw_instances := (tw_instances w)\<lparr>as_objects := put (ti_key ti) (take_status r old ti) (as_objects (tw_instances w)),
         as_revision := r\<rparr>\<rparr>"
proof -
  obtain x st where u: "store_Update (\<lambda>x. om_resourceVersion (ti_meta x)) take_status (ti_key ti) ti (tw_instances w) = (x, st)"
    by force
  then show thesis
  proof (cases rule: store_Update_cases)
    case (1 err)
    then have "e = Some err" "w' = w" using assms u by (auto simp: world_UpdateStatus_def)
    then show thesis by (rule that(1))
  next
    case (2 old y)
    have "e = None" "w' = w\<lparr>tw_instances := st\<rparr>" using assms u 2(3) by (auto simp: world_UpdateStatus_def)
    then show thesis using that(2) [of old "Suc (as_revision (tw_instances w))"] 2(1,2,5) by simp
  qed
qed

interpretation ti_on_cluster: instance_client "world_reconciler L PL P F runner tempfile rm" stored_status
  for L PL P F runner tempfile rm
proof
  fix w ti w' e
  show "tc_UpdateStatus (tr_client (world_reconciler L PL P F runner tempfile rm)) w ti = (w', None)
    \<Longrightarrow> stored_status w' = (stored_status w)(ti_key ti \<mapsto> ti_status ti)"
    by (rule world_UpdateStatus_cases [of w ti w' None])
      (auto simp: world_reconciler_def world_client_def stored_status_def map_of_put take_status_def)
  show "tc_UpdateStatus (tr_client (world_reconciler L PL P F runner tempfile rm)) w ti = (w', Some e)
    \<Longrightarrow> stored_status w' = stored_status w"
    by (rule world_UpdateStatus_cases [of w ti w' "Some e"]) (auto simp: world_reconciler_def world_client_def)
qed (auto simp: world_reconciler_def stored_status_def split: prod.splits)

lemma world_UpdateStatus_specs:
  assumes "world_UpdateStatus w ti = (w', e)"
  shows "tw_templates w' = tw_templates w"
    "map_option ti_spec (map_of (as_objects (tw_instances w')) k) = map_option ti_spec (map_of (as_objects (tw_instances w)) k)"
  using assms by (cases rule: world_UpdateStatus_cases; simp add: map_of_put take_status_def)+

text \<open>Only the status of instances and the objects of the cluster change.\<close>

definition same_specs :: "ti_world \<Rightarrow> ti_world \<Rightarrow> bool" where
  "same_specs w0 w \<longleftrightarrow> tw_templates w = tw_templates w0
     \<and> (\<forall>k. map_option ti_spec (map_of (as_objects (tw_instances w)) k) = map_option ti_spec (map_of (as_objects (tw_instances w0)) k))"

interpretation ti_specs: ti_invariant "world_reconciler L PL P F runner tempfile rm" "same_specs w0"
  for L PL P F runner tempfile rm w0
proof
  fix w ti w' e
  show "tc_UpdateStatus (tr_client (world_reconciler L PL P F runner tempfile rm)) w ti = (w', e)
    \<Longrightarrow> same_specs w0 w \<Longrightarrow> same_specs w0 w'"
    using world_UpdateStatus_specs [of w ti w' e] by (simp add: world_reconciler_def world_client_def same_specs_def)
qed (auto simp: world_reconciler_def same_specs_def split: prod.splits)

text \<open>The cache catches up with the stored instance.\<close>

definition catch_up :: "string \<Rightarrow> ti_world \<Rightarrow> ti_world" where
  "catch_up k w = w\<lparr>tw_instances := deliver k (tw_instances w)\<rparr>"

definition fresh :: "string \<Rightarrow> ti_world \<Rightarrow> bool" where
  "fresh k w \<longleftrightarrow> map_of (as_cache (tw_instances w)) k = map_of (as_objects (tw_instances w)) k"

text \<open>What a merge leaves in the cluster.\<close>

definition cluster_matches :: "factory \<Rightarrow> cluster \<Rightarrow> string \<Rightarrow> string \<Rightarrow> bool" where
  "cluster_matches F cl old new \<longleftrightarrow>
    (case (Build F [] old False, Build F [] new True) of
       (Inr current, Inr target) \<Rightarrow>
         list_all (\<lambda>t. cluster_view cl (info_key t) \<noteq> None) target
         \<and> list_all (\<lambda>i. rl_Contains target i \<or> gone (cluster_view cl (info_key i)) \<or> kept_by_policy cl i) current
     | _ \<Rightarrow> False)"

definition builder_ok :: "factory \<Rightarrow> bool" where
  "builder_ok F \<longleftrightarrow> (\<forall>ns schema reader infos. fa_Infos F ns schema reader = Inr infos \<longrightarrow> list_all info_wf infos)"

lemma Merge_matches:
  assumes "Merge (cluster_client P) PL F [] cl old new True = (cl', None)" "builder_ok F"
  shows "cluster_matches F cl' old new"
proof (cases "Build F [] old False")
  case (Inl e)
  then show ?thesis using assms(1) by (simp add: Merge_def)
next
  case current: (Inr current)
  show ?thesis
  proof (cases "Build F [] new True")
    case (Inl e)
    then show ?thesis using assms(1) current by (simp add: Merge_def)
  next
    case (Inr target)
    then obtain res where u: "Update (cluster_client P) PL cl current target = (cl', res, None)"
      using assms(1) current by (auto simp: Merge_def split: prod.splits)
    have "list_all info_wf target"
      using Inr assms(2) by (auto simp: Build_def builder_ok_def split: sum.splits)
    then have wf: "\<forall>t \<in> set target. info_wf t" by (simp add: list_all_iff)
    note ok = kube.Update_ok [OF u wf]
    have "rl_Contains target i \<or> gone (cluster_view cl' (info_key i)) \<or> kept_by_policy cl' i" if "i \<in> set current" for i
      using ok(2) [OF that] by (auto simp: kept_by_policy_def)
    then show ?thesis using ok(1) Inr current by (simp add: cluster_matches_def list_all_iff)
  qed
qed

lemma catch_up_Get: "tc_GetInstance world_client (catch_up (instance_key ns n) w) ns n
    = found_in (as_objects (tw_instances w)) (instance_key ns n)"
  by (simp add: world_client_def catch_up_def deliver_def found_in_def map_of_put map_of_del split: option.splits)

lemma world_Get: "tc_GetInstance world_client w ns n = Inr ti \<longleftrightarrow> map_of (as_cache (tw_instances w)) (instance_key ns n) = Some ti"
  by (simp add: world_client_def found_in_def split: option.splits)

lemma world_GetTemplate: "tc_GetTemplate world_client w n = found_in (tw_templates w) n"
  by (simp add: world_client_def)

lemma tr_client_world: "tr_client (world_reconciler L PL P F runner tempfile rm) = world_client"
  by (simp add: world_reconciler_def)

lemma catch_up_templates: "tw_templates (catch_up k w) = tw_templates w"
  by (simp add: catch_up_def)

text \<open>A reconciliation that finds nothing to do.\<close>

lemma Reconcile_idle:
  assumes "tc_GetInstance (tr_client R) w ns n = Inr ti"
    "\<And>tmpl. (tis_sync (ti_spec ti) \<or> tst_status (ti_status ti) = Pending) \<Longrightarrow>
       \<exists>tmpl. tc_GetTemplate (tr_client R) w (tis_template (ti_spec ti)) = Inr tmpl \<and> \<not> needs_deploy ti tmpl"
  shows "Reconcile L R now w ns n = (w, no_requeue, None)"
proof (cases "tis_sync (ti_spec ti) \<or> tst_status (ti_status ti) = Pending")
  case True
  then show ?thesis using assms by (auto simp: Reconcile_def needs_deploy_def)
qed (use assms(1) in \<open>simp add: Reconcile_def\<close>)

section \<open>An example\<close>

text \<open>A template with one manifest and an instance of it, or of a template that does not exist.\<close>

definition ex_tlib :: template_lib where
  "ex_tlib = \<lparr>tl_MatchString = \<lambda>_ _. Inr True,
     tl_UnmarshalMap = \<lambda>s. Inr [(''metadata'', JMap [(''name'', JStr s)])],
     tl_UnmarshalObject = \<lambda>s. Inr [(''metadata'', JMap [(''name'', JStr s)])],
     tl_UnmarshalValue = \<lambda>_. Inr JNull, tl_Marshal = \<lambda>d. Inr (GetName d), tl_Compress = Inr, tl_Uncompress = Inr,
     tl_IsNoMatchError = \<lambda>_. False, tl_SetControllerReference = \<lambda>_ d. d\<rparr>"

definition ex_factory :: factory where
  "ex_factory = \<lparr>fa_Validator = \<lambda>_. Inr [], fa_Namespace = Inr ''ns'',
     fa_Infos = \<lambda>_ _ reader. Inr (if reader = [] then [] else [ex_config_map reader])\<rparr>"

lemma ex_factory_ok: "builder_ok ex_factory"
  by (simp add: builder_ok_def ex_factory_def info_wf_def ex_config_map_def GetName_def getNestedString_def)

definition ex_instance :: "string \<Rightarrow> template_instance" where
  "ex_instance tn = \<lparr>ti_meta = empty_meta\<lparr>om_name := ''i'', om_namespace := ''ns'', om_resourceVersion := ''1''\<rparr>,
     ti_spec = \<lparr>tis_template = tn, tis_sync = False, tis_parameters = []\<rparr>,
     ti_status = \<lparr>tst_status = Pending, tst_message = [], tst_reason = [], tst_templateResourceVersion = [],
       tst_templateManifests = [], tst_lastAppliedAt = None\<rparr>\<rparr>"

definition ex_template :: template where
  "ex_template = \<lparr>tm_meta = empty_meta\<lparr>om_name := ''t'', om_resourceVersion := ''7''\<rparr>, tm_manifests = [''a''],
     tm_helm = None, tm_parameters = []\<rparr>"

definition ex_world :: "string \<Rightarrow> ti_world" where
  "ex_world tn = \<lparr>
     tw_instances = \<lparr>as_objects = [(''ns/i'', ex_instance tn)], as_cache = [(''ns/i'', ex_instance tn)], as_lag = [], as_revision = 1\<rparr>,
     tw_templates = [(''t'', ex_template)], tw_namespaces = [], tw_accounts = [], tw_secrets = [],
     tw_cluster = \<lparr>cl_objects = [], cl_namespaces = [''ns''], cl_forbidden = []\<rparr>\<rparr>"

definition ex_reconciler :: "ti_world ti_reconciler" where
  "ex_reconciler = world_reconciler ex_tlib ex_patch_lib (\<lambda>d _ _. Inr d) ex_factory (\<lambda>_ _. Inr []) (Inr []) None"

definition ex_reconciled :: "string \<Rightarrow> ti_world \<times> reconcile_result \<times> gerror option" where
  "ex_reconciled tn = Reconcile ex_tlib ex_reconciler 0 (ex_world tn) ''ns'' ''i''"

lemma ex_reconciled_deployed:
  "snd (snd (ex_reconciled ''t'')) = None \<and> \<not> rr_requeue (fst (snd (ex_reconciled ''t'')))
   \<and> map fst (cl_objects (tw_cluster (fst (ex_reconciled ''t'')))) = [info_key (ex_config_map ''a'')]
   \<and> stored_status (fst (ex_reconciled ''t'')) ''ns/i'' \<noteq> stored_status (ex_world ''t'') ''ns/i''"
  by code_simp

lemma ex_reconciled_failed:
  "snd (snd (ex_reconciled ''u'')) = None \<and> rr_requeue (fst (snd (ex_reconciled ''u'')))"
  by code_simp

lemma ex_reconciled_run:
  assumes "snd (snd (ex_reconciled tn)) = None"
  shows "Reconcile ex_tlib (world_reconciler ex_tlib ex_patch_lib (\<lambda>d _ _. Inr d) ex_factory (\<lambda>_ _. Inr []) (Inr []) None) 0
      (ex_world tn) ''ns'' ''i'' = (fst (ex_reconciled tn), fst (snd (ex_reconciled tn)), None)"
  using assms by (simp add: ex_reconciled_def ex_reconciler_def prod_eq_iff)

lemma ex_world_simps:
  "map_of (as_cache (tw_instances (ex_world tn))) (instance_key ''ns'' ''i'') = Some (ex_instance tn)"
  "fresh (instance_key ''ns'' ''i'') (ex_world tn)" "ti_key (ex_instance tn) = instance_key ''ns'' ''i''"
  "instance_key ''ns'' ''i'' = ''ns/i''"
  by (simp_all add: ex_world_def instance_key_def fresh_def ti_key_def ex_instance_def)

section \<open>Properties\<close>

text \<open>The parameters of an instance are accepted exactly if every named parameter of the template is satisfied, that
  is given where it is required and matched by its pattern everywhere it is given, and every named parameter of the
  instance is declared by the template.\<close>

lemma validateParameters_iff:
  "validateParameters L tmpl ti = None \<longleftrightarrow>
     list_all (param_satisfied L (tis_parameters (ti_spec ti))) (tm_parameters tmpl)
   \<and> list_all (param_declared tmpl) (tis_parameters (ti_spec ti))"
  by (simp add: validateParameters_def check_parameters_iff [symmetric] check_declared_iff [symmetric] split: option.splits)

text \<open>Everything a template renders stays in the namespace of its instance: each manifest is the document of an object
  with that namespace, whatever namespace the template names, provided the owner reference leaves it alone.\<close>

lemma render_objects_namespaced:
  assumes "render_objects L R tmpl ti objects = Inr manifests" "keeps_namespace L" "list_all metadata_ok objects"
  shows "list_all2 (\<lambda>obj yaml. \<exists>d. prepare_object L R tmpl ti obj = Inr d \<and> tl_Marshal L d = Inr yaml
    \<and> GetNamespace d = om_namespace (ti_meta ti)) objects manifests"
  using assms
proof (induction objects arbitrary: manifests)
  case (Cons obj objects)
  obtain d yaml ys where d: "prepare_object L R tmpl ti obj = Inr d" "tl_Marshal L d = Inr yaml"
    "render_objects L R tmpl ti objects = Inr ys" "manifests = yaml # ys"
    using Cons.prems(1) by (auto split: sum.splits)
  then show ?case using Cons prepare_object_namespace [OF d(1)] by simp
qed simp

definition ex_object :: doc where
  "ex_object = [(''kind'', JStr ''ConfigMap''), (''metadata'', JMap [(''name'', JStr ''a''), (''namespace'', JStr ''kube-system'')])]"

theorem render_objects_namespaced_witness:
  "\<exists>d. prepare_object (ex_tlib\<lparr>tl_Marshal := \<lambda>d. Inr (GetNamespace d)\<rparr>) ex_reconciler ex_template (ex_instance ''t'') ex_object = Inr d
     \<and> GetNamespace d = ''ns''"
proof -
  have r: "render_objects (ex_tlib\<lparr>tl_Marshal := \<lambda>d. Inr (GetNamespace d)\<rparr>) ex_reconciler ex_template (ex_instance ''t'') [ex_object]
      = Inr [''ns'']" by code_simp
  have k: "keeps_namespace (ex_tlib\<lparr>tl_Marshal := \<lambda>d. Inr (GetNamespace d)\<rparr>)" by (simp add: keeps_namespace_def ex_tlib_def)
  have m: "list_all metadata_ok [ex_object]" by (simp add: metadata_ok_def ex_object_def)
  have n: "om_namespace (ti_meta (ex_instance ''t'')) = ''ns''" by (simp add: ex_instance_def)
  from render_objects_namespaced [OF r k m] show ?thesis by (auto simp: n)
qed

text \<open>What has been applied is never forgotten: a reconciliation changes the stored status of no other instance, and
  the manifests it records are the ones that were recorded before, with a failure, or those that a merge from the
  recorded ones has applied.\<close>

lemma Reconcile_records:
  assumes "Reconcile L (world_reconciler L PL P F runner tempfile rm) now w ns n = (w', res, err)"
  shows "stored_status w' = stored_status w
    \<or> (\<exists>ti st. map_of (as_cache (tw_instances w)) (instance_key ns n) = Some ti
         \<and> stored_status w' = (stored_status w)(ti_key ti \<mapsto> st)
         \<and> recordable L (world_reconciler L PL P F runner tempfile rm) w (tst_templateManifests (ti_status ti)) st)"
  using ti_on_cluster.Reconcile_stored [OF assms] unfolding tr_client_world world_Get by blast

theorem Reconcile_records_witness:
  "\<exists>st. stored_status (fst (ex_reconciled ''t'')) = (stored_status (ex_world ''t''))(''ns/i'' \<mapsto> st)
     \<and> recordable ex_tlib ex_reconciler (ex_world ''t'') [] st"
proof -
  have d: "snd (snd (ex_reconciled ''t'')) = None"
    and ne: "stored_status (fst (ex_reconciled ''t'')) ''ns/i'' \<noteq> stored_status (ex_world ''t'') ''ns/i''"
    using ex_reconciled_deployed by blast+
  have m: "tst_templateManifests (ti_status (ex_instance ''t'')) = []" by (simp add: ex_instance_def)
  have c: "map_of (as_cache (tw_instances (ex_world ''t''))) ''ns/i'' = Some (ex_instance ''t'')"
    and k: "ti_key (ex_instance ''t'') = ''ns/i''" using ex_world_simps by metis+
  from Reconcile_records [OF ex_reconciled_run [OF d]] ne show ?thesis
    by (auto simp: ex_world_simps(4) c k ex_reconciler_def m)
qed

text \<open>C17. A reconciliation that deploys and asks for no retry has rendered the template for the instance, the documents
  of all its manifests and then those of its helm chart, each with the variables replaced, prepared and in this order;
  it has recorded the instance as deployed at the version of the template with these manifests; and, unless they are
  the ones that were recorded before, it has brought the cluster to them: all their objects exist, and those of the
  manifests before are gone or kept by policy, where the new ones have none of the same kind, namespace and name.\<close>

theorem Reconcile_deploys:
  assumes "Reconcile L (world_reconciler L PL P F runner tempfile rm) now w ns n = (w', res, err)" "\<not> rr_requeue res"
    "map_of (as_cache (tw_instances w)) (instance_key ns n) = Some ti"
    "map_of (tw_templates w) (tis_template (ti_spec ti)) = Some tmpl" "needs_deploy ti tmpl" "builder_ok F"
  shows "\<exists>old new c. rendered L (world_reconciler L PL P F runner tempfile rm) w tmpl ti (deployed_instance tmpl now ti) new
    \<and> old_manifests L (tst_templateManifests (ti_status ti)) = Inr old \<and> tl_Compress L new = Inr c
    \<and> stored_status w' (ti_key ti) = Some \<lparr>tst_status = Deployed, tst_message = [], tst_reason = [],
         tst_templateResourceVersion = om_resourceVersion (tm_meta tmpl), tst_templateManifests = c,
         tst_lastAppliedAt = Some now\<rparr>
    \<and> (new = old \<or> cluster_matches F (tw_cluster w') old new)"
  using assms(1)
proof (cases rule: ti_on_cluster.Reconcile_cases)
  case 1
  then show ?thesis using assms(3,4,5) unfolding tr_client_world world_Get by (auto simp: world_GetTemplate found_in_def)
next
  case (2 ti1 w1 ti2 f)
  then show ?thesis using ti_on_cluster.setFailed_stored(1) assms(2) by blast
next
  case (3 ti1 tmpl1 old new w1 c)
  define st where "st = \<lparr>tst_status = Deployed, tst_message = [], tst_reason = [],
         tst_templateResourceVersion = om_resourceVersion (tm_meta tmpl), tst_templateManifests = c,
         tst_lastAppliedAt = Some now\<rparr>"
  have ti: "ti1 = ti" "tmpl1 = tmpl" using 3(1,2) assms(3,4) unfolding tr_client_world world_Get
    by (auto simp: world_GetTemplate found_in_def)
  have st: "stored_status w' (ti_key ti) = Some st"
    using ti_on_cluster.update_done [OF 3(7)] by (simp add: ti_key_def st_def ti)
  have cl: "tw_cluster w' = tw_cluster w1" using 3(7) unfolding tr_client_world
    by (rule_tac world_UpdateStatus_cases [of w1 _ w' None]) (auto simp: world_client_def)
  have "new = old \<or> cluster_matches F (tw_cluster w') old new"
  proof (cases "old = new")
    case False
    then have "tr_merge (world_reconciler L PL P F runner tempfile rm) w old new True = (w1, None)" using 3(5) by simp
    then have "Merge (cluster_client P) PL F [] (tw_cluster w) old new True = (tw_cluster w1, None)"
      by (auto simp: world_reconciler_def split: prod.splits)
    then show ?thesis using Merge_matches assms(6) cl by simp
  qed simp
  then show ?thesis using 3(4,6,10) st unfolding st_def ti by blast
qed

theorem Reconcile_deploys_witness:
  "\<exists>new. rendered ex_tlib ex_reconciler (ex_world ''t'') ex_template (ex_instance ''t'')
        (deployed_instance ex_template 0 (ex_instance ''t'')) new
     \<and> map_option tst_templateManifests (stored_status (fst (ex_reconciled ''t'')) ''ns/i'') = Some new
     \<and> (new = [] \<or> cluster_matches ex_factory (tw_cluster (fst (ex_reconciled ''t''))) [] new)"
proof -
  have d: "snd (snd (ex_reconciled ''t'')) = None" "\<not> rr_requeue (fst (snd (ex_reconciled ''t'')))"
    using ex_reconciled_deployed by blast+
  have tm: "map_of (tw_templates (ex_world ''t'')) (tis_template (ti_spec (ex_instance ''t''))) = Some ex_template"
    by (simp add: ex_world_def ex_instance_def)
  have nd: "needs_deploy (ex_instance ''t'') ex_template" by (simp add: needs_deploy_def ex_instance_def)
  have old: "old_manifests ex_tlib (tst_templateManifests (ti_status (ex_instance ''t''))) = Inr []"
    by (simp add: old_manifests_def ex_instance_def)
  have c: "tl_Compress ex_tlib s = Inr s" for s by (simp add: ex_tlib_def)
  show ?thesis
    using Reconcile_deploys [OF ex_reconciled_run [OF d(1)] d(2) ex_world_simps(1) tm nd ex_factory_ok] old c
    by (auto simp: ex_world_simps ex_reconciler_def)
qed

text \<open>What the following reconciliation sees.\<close>

lemma after_Reconcile:
  assumes "Reconcile L (world_reconciler L PL P F runner tempfile rm) now w ns n = (w', res, err)"
    "map_of (as_cache (tw_instances w)) (instance_key ns n) = Some ti" "fresh (instance_key ns n) w"
  obtains x where "tc_GetInstance world_client (catch_up (instance_key ns n) w') ns n = Inr x" "ti_spec x = ti_spec ti"
    "stored_status w' (instance_key ns n) = Some (ti_status x)" "tw_templates w' = tw_templates w"
proof -
  have o: "map_of (as_objects (tw_instances w)) (instance_key ns n) = Some ti"
    using assms(2,3) unfolding fresh_def by metis
  have "same_specs w w'" using ti_specs.Reconcile_keeps [OF assms(1), of w] by (simp add: same_specs_def)
  then have t: "tw_templates w' = tw_templates w"
    and s: "map_option ti_spec (map_of (as_objects (tw_instances w')) (instance_key ns n)) = Some (ti_spec ti)"
    using o by (simp_all add: same_specs_def)
  from s obtain x where x: "map_of (as_objects (tw_instances w')) (instance_key ns n) = Some x" "ti_spec x = ti_spec ti" by auto
  show thesis by (rule that [of x]) (use x t in \<open>simp_all add: catch_up_Get found_in_def stored_status_def\<close>)
qed

text \<open>C22. Reconciling settles: after a reconciliation that reports neither an error nor a retry, and with the cache
  caught up, the next one for an unchanged template does nothing.\<close>

theorem Reconcile_settles:
  assumes "Reconcile L (world_reconciler L PL P F runner tempfile rm) now w ns n = (w', res, None)" "\<not> rr_requeue res"
    "map_of (as_cache (tw_instances w)) (instance_key ns n) = Some ti" "fresh (instance_key ns n) w"
    "ti_key ti = instance_key ns n"
  shows "Reconcile L (world_reconciler L PL P F runner tempfile rm) now' (catch_up (instance_key ns n) w') ns n
    = (catch_up (instance_key ns n) w', no_requeue, None)"
proof -
  obtain x where x: "tc_GetInstance world_client (catch_up (instance_key ns n) w') ns n = Inr x" "ti_spec x = ti_spec ti"
    "stored_status w' (instance_key ns n) = Some (ti_status x)" "tw_templates w' = tw_templates w"
    using after_Reconcile [OF assms(1,3,4)] .
  have idle: "\<exists>tmpl. tc_GetTemplate world_client (catch_up (instance_key ns n) w') (tis_template (ti_spec x)) = Inr tmpl
      \<and> \<not> needs_deploy x tmpl" if active: "tis_sync (ti_spec x) \<or> tst_status (ti_status x) = Pending"
    using assms(1)
  proof (cases rule: ti_on_cluster.Reconcile_cases)
    case 1
    have "map_of (as_objects (tw_instances w)) (instance_key ns n) = Some ti" using assms(3,4) unfolding fresh_def by metis
    then have same: "ti_status x = ti_status ti" using x(3) 1(1) by (simp add: stored_status_def)
    show ?thesis
    proof (cases "map_of (tw_templates w) (tis_template (ti_spec ti))")
      case None
      have "Reconcile L (world_reconciler L PL P F runner tempfile rm) now w ns n =
         setFailed (world_reconciler L PL P F runner tempfile rm) w ti (''TemplateNotFound'',
                    ''The specified template '' @ squoted (tis_template (ti_spec ti)) @ '' couldn't be found.'')"
        using active assms(3) None same x(2)
        by (auto simp: Reconcile_def tr_client_world world_client_def found_in_def)
      then have "rr_requeue res" using assms(1) ti_on_cluster.setFailed_stored(1) by metis
      then show ?thesis using assms(2) by simp
    next
      case (Some tmpl)
      then have "\<not> needs_deploy ti tmpl"
        using 1(3) assms(3) unfolding tr_client_world world_Get by (simp add: world_GetTemplate found_in_def)
      then show ?thesis using Some x same
        by (auto simp: world_GetTemplate found_in_def catch_up_templates needs_deploy_def)
    qed
  next
    case (2 ti1 w1 ti2 f)
    then show ?thesis using ti_on_cluster.setFailed_stored(1) assms(2) by blast
  next
    case (3 ti1 tmpl old new w1 c)
    have ti: "ti1 = ti" using 3(1) assms(3) unfolding tr_client_world world_Get by simp
    have "stored_status w' (instance_key ns n) = Some \<lparr>tst_status = Deployed, tst_message = [], tst_reason = [],
         tst_templateResourceVersion = om_resourceVersion (tm_meta tmpl), tst_templateManifests = c,
         tst_lastAppliedAt = Some now\<rparr>"
      using ti_on_cluster.update_done [OF 3(7)] assms(5) by (simp add: ti_key_def ti)
    then show ?thesis using 3(2) x ti unfolding tr_client_world
      by (auto simp: world_GetTemplate found_in_def catch_up_templates needs_deploy_def)
  qed
  show ?thesis
    by (rule Reconcile_idle [of _ _ _ _ x]) (use x(1) idle in \<open>simp_all add: tr_client_world\<close>)
qed

theorem Reconcile_settles_witness:
  "Reconcile ex_tlib ex_reconciler 1 (catch_up ''ns/i'' (fst (ex_reconciled ''t''))) ''ns'' ''i''
    = (catch_up ''ns/i'' (fst (ex_reconciled ''t'')), no_requeue, None)"
proof -
  have d: "snd (snd (ex_reconciled ''t'')) = None" "\<not> rr_requeue (fst (snd (ex_reconciled ''t'')))"
    using ex_reconciled_deployed by blast+
  from Reconcile_settles [OF ex_reconciled_run [OF d(1)] d(2) ex_world_simps(1-3), of 1] show ?thesis
    by (simp add: ex_world_simps(4) ex_reconciler_def)
qed

text \<open>C23. A failed instance that does not sync stays failed: the failure asks for a retry in five minutes, but the
  retry finds an instance that is not pending and does nothing, whatever the reason of the failure was.\<close>

theorem Reconcile_failed_stays:
  assumes "Reconcile L (world_reconciler L PL P F runner tempfile rm) now w ns n = (w', res, None)" "rr_requeue res"
    "map_of (as_cache (tw_instances w)) (instance_key ns n) = Some ti" "fresh (instance_key ns n) w"
    "ti_key ti = instance_key ns n" "\<not> tis_sync (ti_spec ti)"
  shows "rr_requeueAfter res = 300
    \<and> map_option tst_status (stored_status w' (instance_key ns n)) = Some Failed
    \<and> Reconcile L (world_reconciler L PL P F runner tempfile rm) now' (catch_up (instance_key ns n) w') ns n
       = (catch_up (instance_key ns n) w', no_requeue, None)"
proof -
  obtain x where x: "tc_GetInstance world_client (catch_up (instance_key ns n) w') ns n = Inr x" "ti_spec x = ti_spec ti"
    "stored_status w' (instance_key ns n) = Some (ti_status x)"
    using after_Reconcile [OF assms(1,3,4)] .
  have f: "rr_requeueAfter res = 300 \<and> tst_status (ti_status x) = Failed"
    using assms(1)
  proof (cases rule: ti_on_cluster.Reconcile_cases)
    case (2 ti1 w1 ti2 f)
    have ti: "ti1 = ti" using 2(1) assms(3) unfolding tr_client_world world_Get by simp
    have "rr_requeueAfter res = 300" using 2(2) by (auto simp: setFailed_def split: prod.splits)
    moreover have "tst_status (ti_status x) = Failed"
      using ti_on_cluster.setFailed_stored(2) [OF 2(2)] x(3) 2(4) ti assms(5) by auto
    ultimately show ?thesis by simp
  qed (use assms(2) in \<open>simp_all add: no_requeue_def\<close>)
  have "Reconcile L (world_reconciler L PL P F runner tempfile rm) now' (catch_up (instance_key ns n) w') ns n
       = (catch_up (instance_key ns n) w', no_requeue, None)"
    by (rule Reconcile_idle [of _ _ _ _ x]) (use x f assms(6) in \<open>simp_all add: tr_client_world\<close>)
  then show ?thesis using f x(3) by simp
qed

theorem Reconcile_failed_stays_witness:
  "map_option tst_status (stored_status (fst (ex_reconciled ''u'')) ''ns/i'') = Some Failed
   \<and> Reconcile ex_tlib ex_reconciler 1 (catch_up ''ns/i'' (fst (ex_reconciled ''u''))) ''ns'' ''i''
    = (catch_up ''ns/i'' (fst (ex_reconciled ''u'')), no_requeue, None)"
proof -
  have d: "snd (snd (ex_reconciled ''u'')) = None" "rr_requeue (fst (snd (ex_reconciled ''u'')))"
    using ex_reconciled_failed by blast+
  have s: "\<not> tis_sync (ti_spec (ex_instance ''u''))" by (simp add: ex_instance_def)
  from Reconcile_failed_stays [OF ex_reconciled_run [OF d(1)] d(2) ex_world_simps(1-3) s, of 1] show ?thesis
    by (simp add: ex_world_simps(4) ex_reconciler_def)
qed

end
