(* ===== verification/Spaces.thy ===== *)
theory Spaces
  imports AccountAdmission TemplateInstances
begin

text \<open>
  The spaces of the aggregated API server (\<open>pkg/apiserver/registry/space\<close>, \<open>pkg/apiserver/registry/util\<close>): the
  conversion between spaces and namespaces, the operations of the REST storage with their authorization, and what a
  watcher is shown. The client of the cluster is a parameter; its reads and writes are instantaneous, other
  processes act in \<open>sc_Tick\<close>.
\<close>

section \<open>Conversion\<close>

definition ConvertSpace :: "space \<Rightarrow> namespace" where
  "ConvertSpace sp =
    \<lparr>ns_meta = (sp_meta sp)\<lparr>om_labels := put SpaceLabelAccount (sp_account sp) (om_labels (sp_meta sp))\<rparr>,
     ns_finalizers = sp_finalizers sp, ns_phase = sp_phase sp\<rparr>"

definition ConvertNamespace :: "namespace \<Rightarrow> space" where
  "ConvertNamespace ns =
    \<lparr>sp_meta = (ns_meta ns)\<lparr>om_labels := del SpaceLabelAccount (om_labels (ns_meta ns))\<rparr>,
     sp_account = label_value (om_labels (ns_meta ns)) SpaceLabelAccount,
     sp_finalizers = ns_finalizers ns, sp_phase = ns_phase ns\<rparr>"

section \<open>Requests\<close>

record request_context =
  cx_user :: "user_info option"
  cx_attributes :: "gerror + auth_attributes"

definition ChangeAttributesResource :: "auth_attributes \<Rightarrow> group_version_resource \<Rightarrow> string \<Rightarrow> auth_attributes" where
  "ChangeAttributesResource a gvr namespace =
    a\<lparr>aa_namespace := namespace, aa_apiGroup := gvr_group gvr, aa_resource := gvr_resource gvr\<rparr>"

definition namespaces_gvr :: group_version_resource where
  "namespaces_gvr = \<lparr>gvr_group = [], gvr_version = ''v1'', gvr_resource = ''namespaces''\<rparr>"

definition ForbiddenMessage :: "auth_attributes \<Rightarrow> string" where
  "ForbiddenMessage a =
    (let subject = ''User '' @ quoted (ui_name (aa_user a)) @ '' cannot '' @ quoted (aa_verb a);
         resource = (if length (aa_subresource a) > 0 then aa_resource a @ ''/'' @ aa_subresource a else aa_resource a)
     in if \<not> aa_isResourceRequest a then subject @ '' path '' @ quoted (aa_path a)
        else if length (aa_namespace a) > 0 then
          subject @ '' resource '' @ quoted resource @ '' in API group '' @ quoted (aa_apiGroup a)
            @ '' in the namespace '' @ quoted (aa_namespace a)
        else subject @ '' resource '' @ quoted resource @ '' in API group '' @ quoted (aa_apiGroup a) @ '' at the cluster scope'')"

text \<open>The client of the storage, and the bindings its authorizer sees.\<close>

record 'w space_client =
  sc_Resolver :: "'w \<Rightarrow> default_rule_resolver"
  sc_GetAccount :: "'w \<Rightarrow> string \<Rightarrow> gerror + account"
  sc_GetNamespace :: "'w \<Rightarrow> string \<Rightarrow> gerror + namespace"
  sc_ListNamespaces :: "'w \<Rightarrow> (string \<times> string) list \<Rightarrow> gerror + namespace list"
  sc_CreateNamespace :: "'w \<Rightarrow> namespace \<Rightarrow> 'w \<times> (gerror + namespace)"
  sc_UpdateNamespace :: "'w \<Rightarrow> namespace \<Rightarrow> 'w \<times> (gerror + namespace)"
  sc_PatchNamespace :: "'w \<Rightarrow> namespace \<Rightarrow> namespace \<Rightarrow> 'w \<times> (gerror + namespace)"
  sc_DeleteNamespace :: "'w \<Rightarrow> namespace \<Rightarrow> 'w \<times> gerror option"
  sc_CreateInstance :: "'w \<Rightarrow> template_instance \<Rightarrow> 'w \<times> (gerror + template_instance)"
  sc_ListInstances :: "'w \<Rightarrow> string \<Rightarrow> gerror + template_instance list"
  sc_CreateRoleBinding :: "'w \<Rightarrow> string \<Rightarrow> account \<Rightarrow> binding \<Rightarrow> 'w \<times> gerror option"
  sc_SetControllerReference :: "account \<Rightarrow> gerror option"
  sc_Tick :: "'w \<Rightarrow> 'w"

abbreviation sc_Authorize :: "'w space_client \<Rightarrow> 'w \<Rightarrow> auth_attributes \<Rightarrow> decision \<times> string \<times> gerror option" where
  "sc_Authorize C w a \<equiv> Authorize (sc_Resolver C w) a"

text \<open>The check of a request against the namespace behind a space: an error, or whether it is allowed.\<close>

definition authorize_namespace :: "'w space_client \<Rightarrow> 'w \<Rightarrow> auth_attributes \<Rightarrow> string \<Rightarrow> gerror + bool" where
  "authorize_namespace C w a name =
    (case sc_Authorize C w (ChangeAttributesResource a namespaces_gvr name) of
       (decision, _, Some err) \<Rightarrow> Inl err
     | (decision, _, None) \<Rightarrow> Inr (decision = DecisionAllow))"

section \<open>Reading\<close>

text \<open>The filtered list works on the metadata of the namespaces, whose names are distinct.\<close>

definition space_List :: "'w space_client \<Rightarrow> 'w \<Rightarrow> request_context \<Rightarrow> (string \<times> string) list \<Rightarrow> gerror + space list" where
  "space_List C w ctx labels =
    (let namespaces = (case sc_ListNamespaces C w labels of Inl err \<Rightarrow> [] | Inr xs \<Rightarrow> xs) in
     case filter_List (sc_Authorize C w) (cx_attributes ctx) namespaces_gvr
         (case sc_ListNamespaces C w labels of Inl err \<Rightarrow> Inl err | Inr xs \<Rightarrow> Inr (map ns_meta xs)) of
       Inl err \<Rightarrow> Inl err
     | Inr metas \<Rightarrow> Inr (map ConvertNamespace (List.map_filter (\<lambda>m. find (\<lambda>n. ns_meta n = m) namespaces) metas)))"

definition space_Get :: "'w space_client \<Rightarrow> 'w \<Rightarrow> request_context \<Rightarrow> string \<Rightarrow> gerror + space" where
  "space_Get C w ctx name =
    (case cx_attributes ctx of
       Inl err \<Rightarrow> Inl err
     | Inr a \<Rightarrow>
         (case authorize_namespace C w a name of
            Inl err \<Rightarrow> Inl err
          | Inr allowed \<Rightarrow>
              if \<not> allowed then Inl (NotFoundErr name)
              else
                (case sc_GetNamespace C w name of
                   Inl err \<Rightarrow> Inl (if IsNotFound err then NotFoundErr name else err)
                 | Inr namespaceObj \<Rightarrow> Inr (ConvertNamespace namespaceObj))))"

section \<open>Initializing a space\<close>

text \<open>The instance of a template of the account in the namespace.\<close>

definition account_instance :: "string \<Rightarrow> account_ti_template \<Rightarrow> template_instance" where
  "account_instance namespace instSpec =
    (let m = (ati_meta instSpec)\<lparr>om_namespace := namespace\<rparr> in
     \<lparr>ti_meta = (if om_name m = [] \<and> om_generateName m = []
                 then m\<lparr>om_generateName := tis_template (ati_spec instSpec) @ ''-''\<rparr> else m),
      ti_spec = ati_spec instSpec,
      ti_status = \<lparr>tst_status = Pending, tst_message = [], tst_reason = [], tst_templateResourceVersion = [],
        tst_templateManifests = [], tst_lastAppliedAt = None\<rparr>\<rparr>)"

fun create_instances ::
  "'w space_client \<Rightarrow> 'w \<Rightarrow> string \<Rightarrow> account_ti_template list \<Rightarrow> template_instance list
    \<Rightarrow> 'w \<times> (gerror + template_instance list)"
where
  "create_instances C w namespace [] templateInstances = (w, Inr templateInstances)"
| "create_instances C w namespace (instSpec # rest) templateInstances =
     (if tis_template (ati_spec instSpec) = [] then create_instances C w namespace rest templateInstances
      else
        (case sc_CreateInstance C w (account_instance namespace instSpec) of
           (w, Inl err) \<Rightarrow> (w, Inl err)
         | (w, Inr templateInstance) \<Rightarrow>
             create_instances C w namespace rest (templateInstances @ [templateInstance])))"

text \<open>
  Whether an instance is among those of the namespace and deployed; that it is pending or not found both mean to
  poll again.
\<close>

fun check_instance :: "string \<Rightarrow> template_instance list \<Rightarrow> bool \<Rightarrow> gerror + bool" where
  "check_instance name [] found = Inr found"
| "check_instance name (realInst # rest) found =
     (if name = om_name (ti_meta realInst) then
        (case tst_status (ti_status realInst) of
           Pending \<Rightarrow> Inr False
         | Failed \<Rightarrow> Inl (OtherErr (''TemplateInstance '' @ squoted (om_name (ti_meta realInst)) @ '' failed with ''
             @ tst_reason (ti_status realInst) @ '': '' @ tst_message (ti_status realInst)))
         | Deployed \<Rightarrow> check_instance name rest True)
      else check_instance name rest found)"

fun instances_ready :: "template_instance list \<Rightarrow> template_instance list \<Rightarrow> gerror + bool" where
  "instances_ready [] instanceList = Inr True"
| "instances_ready (inst # rest) instanceList =
     (case check_instance (om_name (ti_meta inst)) instanceList False of
        Inl err \<Rightarrow> Inl err
      | Inr ok \<Rightarrow> if ok then instances_ready rest instanceList else Inr False)"

definition poll_instances :: "'w space_client \<Rightarrow> string \<Rightarrow> template_instance list \<Rightarrow> 'w \<Rightarrow> (gerror + unit option) \<times> 'w" where
  "poll_instances C namespace templateInstances w =
    (let w = sc_Tick C w in
     case sc_ListInstances C w namespace of
       Inl err \<Rightarrow> (Inl err, w)
     | Inr instanceList \<Rightarrow>
         (case instances_ready templateInstances instanceList of
            Inl err \<Rightarrow> (Inl err, w)
          | Inr ok \<Rightarrow> (Inr (if ok then Some () else None), w)))"

definition GetClusterRoleFor :: "account \<Rightarrow> string" where
  "GetClusterRoleFor account =
    (case as_clusterRole (acs_space (ac_spec account)) of None \<Rightarrow> ''admin'' | Some clusterRole \<Rightarrow> clusterRole)"

definition account_role_binding :: "string \<Rightarrow> account \<Rightarrow> binding" where
  "account_role_binding namespace owner =
    \<lparr>bn_namespace = namespace, bn_name = [], bn_subjects = acs_subjects (ac_spec owner),
     bn_roleRef = \<lparr>rr_apiGroup = ''rbac.authorization.k8s.io'', rr_kind = ''ClusterRole'', rr_name = GetClusterRoleFor owner\<rparr>\<rparr>"

definition CreateRoleBinding :: "'w space_client \<Rightarrow> 'w \<Rightarrow> string \<Rightarrow> account \<Rightarrow> 'w \<times> gerror option" where
  "CreateRoleBinding C w namespace owner =
    (if GetClusterRoleFor owner = [] then (w, None)
     else
       (case sc_SetControllerReference C owner of
          Some err \<Rightarrow> (w, Some err)
        | None \<Rightarrow> sc_CreateRoleBinding C w (om_name (ac_meta owner) @ ''-'') owner (account_role_binding namespace owner)))"

text \<open>A minute, and five seconds, in steps of a second.\<close>

definition instance_ticks :: nat where "instance_ticks = 60"
definition access_ticks :: nat where "access_ticks = 5"

definition initializeSpace :: "'w space_client \<Rightarrow> 'w \<Rightarrow> namespace \<Rightarrow> account \<Rightarrow> 'w \<times> (gerror + namespace)" where
  "initializeSpace C w namespace account =
    (case create_instances C w (om_name (ns_meta namespace)) (as_templateInstances (acs_space (ac_spec account))) [] of
       (w, Inl err) \<Rightarrow> (w, Inl err)
     | (w, Inr templateInstances) \<Rightarrow>
         (case PollImmediate instance_ticks (poll_instances C (om_name (ns_meta namespace)) templateInstances) w of
            (Inl err, w) \<Rightarrow> (w, Inl err)
          | (Inr _, w) \<Rightarrow>
              (case CreateRoleBinding C w (om_name (ns_meta namespace)) account of
                 (w, Some err) \<Rightarrow> (w, Inl err)
               | (w, None) \<Rightarrow>
                   sc_PatchNamespace C w namespace
                     (namespace\<lparr>ns_meta := (ns_meta namespace)\<lparr>om_annotations :=
                        del SpaceAnnotationInitializing (om_annotations (ns_meta namespace))\<rparr>\<rparr>))))"

definition poll_access :: "'w space_client \<Rightarrow> auth_attributes \<Rightarrow> 'w \<Rightarrow> (gerror + unit option) \<times> 'w" where
  "poll_access C a w =
    (let w = sc_Tick C w in
     case sc_Authorize C w a of
       (decision, _, Some err) \<Rightarrow> (Inl err, w)
     | (decision, _, None) \<Rightarrow> (Inr (if decision = DecisionAllow then Some () else None), w))"

definition waitForAccess :: "'w space_client \<Rightarrow> 'w \<Rightarrow> user_info \<Rightarrow> namespace \<Rightarrow> (gerror + unit) \<times> 'w" where
  "waitForAccess C w user namespace =
    PollImmediate access_ticks
      (poll_access C \<lparr>aa_user = user, aa_verb = ''get'', aa_namespace = om_name (ns_meta namespace), aa_apiGroup = [],
         aa_resource = ''namespaces'', aa_subresource = [], aa_name = om_name (ns_meta namespace), aa_path = [],
         aa_isResourceRequest = True\<rparr>) w"

section \<open>Creating a space\<close>

definition ValidateSpace :: "space \<Rightarrow> gerror list" where
  "ValidateSpace sp = []"

definition ValidateSpaceUpdate :: "space \<Rightarrow> space \<Rightarrow> gerror list" where
  "ValidateSpaceUpdate newSpace oldSpace = [] @ ValidateSpace newSpace"

text \<open>
  \<open>rest.FillObjectMetaSystemFields\<close> gives the object a new identity.
\<close>

definition FillObjectMetaSystemFields :: "string \<Rightarrow> obj_meta \<Rightarrow> obj_meta" where
  "FillObjectMetaSystemFields uid m = m\<lparr>om_uid := uid\<rparr>"

text \<open>Whether the user may create the space: the account it is created for, if any.\<close>

definition check_account :: "'w space_client \<Rightarrow> 'w \<Rightarrow> user_info \<Rightarrow> auth_attributes \<Rightarrow> space \<Rightarrow> gerror + account option" where
  "check_account C w userInfo a sp =
    (if sp_account sp = [] then
       (case authorize_namespace C w a (om_name (sp_meta sp)) of
          Inl err \<Rightarrow> Inl err
        | Inr allowed \<Rightarrow> if \<not> allowed then Inl (BadRequestErr ''spec.account is required'') else Inr None)
     else
       (case sc_GetAccount C w (sp_account sp) of
          Inl err \<Rightarrow> Inl err
        | Inr ac \<Rightarrow>
            if IsUserPartOfAccount userInfo ac then Inr (Some ac)
            else
              (case authorize_namespace C w a (om_name (sp_meta sp)) of
                 Inl err \<Rightarrow> Inl err
               | Inr allowed \<Rightarrow> if \<not> allowed then Inl (ForbiddenErr (ForbiddenMessage a)) else Inr (Some ac))))"

definition string_of_int :: "int \<Rightarrow> string" where
  "string_of_int n = (if n < 0 then ''-'' @ string_of_nat (nat (- n)) else string_of_nat (nat n))"

definition check_limit :: "'w space_client \<Rightarrow> 'w \<Rightarrow> account \<Rightarrow> gerror option" where
  "check_limit C w ac =
    (case as_limit (acs_space (ac_spec ac)) of
       None \<Rightarrow> None
     | Some limit \<Rightarrow>
         (case sc_ListNamespaces C w [(SpaceLabelAccount, om_name (ac_meta ac))] of
            Inl err \<Rightarrow> Some err
          | Inr namespaceList \<Rightarrow>
              if int (length namespaceList) \<ge> limit then
                Some (ForbiddenErr (''space limit of '' @ string_of_int limit @ '' reached for account '' @ om_name (ac_meta ac)))
              else None))"

text \<open>Labels and annotations of the account's template override those of the space.\<close>

definition apply_space_template :: "account \<Rightarrow> space \<Rightarrow> space" where
  "apply_space_template ac sp =
    (let tmpl = as_spaceTemplate (acs_space (ac_spec ac)) in
     sp\<lparr>sp_meta := (sp_meta sp)\<lparr>
          om_labels := fold (\<lambda>(k, v). put k v) (om_labels tmpl) (om_labels (sp_meta sp)),
          om_annotations := fold (\<lambda>(k, v). put k v) (om_annotations tmpl) (om_annotations (sp_meta sp))\<rparr>\<rparr>)"

text \<open>The namespace of a space of an account is created, initialized, or deleted again where that fails.\<close>

definition create_account_namespace :: "'w space_client \<Rightarrow> 'w \<Rightarrow> user_info \<Rightarrow> namespace \<Rightarrow> account \<Rightarrow> 'w \<times> (gerror + space)" where
  "create_account_namespace C w user namespace ac =
    (let namespace = namespace\<lparr>ns_meta := (ns_meta namespace)\<lparr>om_annotations :=
           put SpaceAnnotationInitializing ''true'' (om_annotations (ns_meta namespace))\<rparr>\<rparr>
     in case sc_CreateNamespace C w namespace of
          (w, Inl err) \<Rightarrow> (w, Inl err)
        | (w, Inr namespace) \<Rightarrow>
            (case initializeSpace C w namespace ac of
               (w, Inl err) \<Rightarrow> (fst (sc_DeleteNamespace C w namespace), Inl err)
             | (w, Inr namespace) \<Rightarrow> (snd (waitForAccess C w user namespace), Inr (ConvertNamespace namespace))))"

definition space_Create ::
  "'w space_client \<Rightarrow> 'w \<Rightarrow> request_context \<Rightarrow> string \<Rightarrow> (space \<Rightarrow> gerror option) \<Rightarrow> space option \<Rightarrow> 'w \<times> (gerror + space)"
where
  "space_Create C w ctx uid createValidation obj =
    (case cx_user ctx of
       None \<Rightarrow> (w, Inl (OtherErr ''couldn't find user in request''))
     | Some userInfo \<Rightarrow>
         (case obj of
            None \<Rightarrow> (w, Inl (OtherErr ''not a space''))
          | Some sp \<Rightarrow>
              (let sp = sp\<lparr>sp_meta := FillObjectMetaSystemFields uid (sp_meta sp)\<rparr>; errs = ValidateSpace sp in
               if length errs > 0 then (w, Inl (InvalidErr (om_name (sp_meta sp))))
               else
                 (case createValidation sp of
                    Some err \<Rightarrow> (w, Inl err)
                  | None \<Rightarrow>
                      (case cx_attributes ctx of
                         Inl err \<Rightarrow> (w, Inl err)
                       | Inr a \<Rightarrow>
                           (case check_account C w userInfo a sp of
                              Inl err \<Rightarrow> (w, Inl err)
                            | Inr None \<Rightarrow>
                                (case sc_CreateNamespace C w (ConvertSpace sp) of
                                   (w, Inl err) \<Rightarrow> (w, Inl err)
                                 | (w, Inr namespace) \<Rightarrow> (w, Inr (ConvertNamespace namespace)))
                            | Inr (Some ac) \<Rightarrow>
                                (case check_limit C w ac of
                                   Some err \<Rightarrow> (w, Inl err)
                                 | None \<Rightarrow>
                                     create_account_namespace C w (aa_user a)
                                       (ConvertSpace (apply_space_template ac sp)) ac)))))))"

section \<open>Updating and deleting\<close>

definition space_Update ::
  "'w space_client \<Rightarrow> 'w \<Rightarrow> request_context \<Rightarrow> string \<Rightarrow> (space \<Rightarrow> gerror + space option)
    \<Rightarrow> (space \<Rightarrow> space \<Rightarrow> gerror option) option \<Rightarrow> 'w \<times> (gerror + space)"
where
  "space_Update C w ctx name updatedObject updateValidation =
    (case cx_attributes ctx of
       Inl err \<Rightarrow> (w, Inl err)
     | Inr a \<Rightarrow>
         (case authorize_namespace C w a name of
            Inl err \<Rightarrow> (w, Inl err)
          | Inr allowed \<Rightarrow>
              if \<not> allowed then (w, Inl (ForbiddenErr (ForbiddenMessage a)))
              else
                (case space_Get C w ctx name of
                   Inl err \<Rightarrow> (w, Inl err)
                 | Inr oldObj \<Rightarrow>
                     (case updatedObject oldObj of
                        Inl err \<Rightarrow> (w, Inl err)
                      | Inr None \<Rightarrow> (w, Inl (OtherErr ''new object is not a space''))
                      | Inr (Some newSpace) \<Rightarrow>
                          (case (case updateValidation of None \<Rightarrow> None | Some validate \<Rightarrow> validate newSpace oldObj) of
                             Some err \<Rightarrow> (w, Inl err)
                           | None \<Rightarrow>
                               (case sc_UpdateNamespace C w (ConvertSpace newSpace) of
                                  (w, Inl err) \<Rightarrow> (w, Inl err)
                                | (w, Inr namespace) \<Rightarrow> (w, Inr (ConvertNamespace namespace))))))))"

definition space_Delete ::
  "'w space_client \<Rightarrow> 'w \<Rightarrow> request_context \<Rightarrow> string \<Rightarrow> (space \<Rightarrow> gerror option) option \<Rightarrow> 'w \<times> (gerror + space)"
where
  "space_Delete C w ctx name deleteValidation =
    (case cx_attributes ctx of
       Inl err \<Rightarrow> (w, Inl err)
     | Inr a \<Rightarrow>
         (case authorize_namespace C w a name of
            Inl err \<Rightarrow> (w, Inl err)
          | Inr allowed \<Rightarrow>
              if \<not> allowed then (w, Inl (ForbiddenErr (ForbiddenMessage a)))
              else
                (case sc_GetNamespace C w name of
                   Inl err \<Rightarrow> (w, Inl err)
                 | Inr namespace \<Rightarrow>
                     (case (case deleteValidation of None \<Rightarrow> None | Some validate \<Rightarrow> validate (ConvertNamespace namespace)) of
                        Some err \<Rightarrow> (w, Inl err)
                      | None \<Rightarrow>
                          (case sc_DeleteNamespace C w namespace of
                             (w, Some err) \<Rightarrow> (w, Inl err)
                           | (w, None) \<Rightarrow> (w, Inr (ConvertNamespace namespace)))))))"

section \<open>Watching\<close>

datatype watch_type = WAdded | WModified | WDeleted

record watcher =
  wt_user :: user_info
  wt_selector :: "((string \<times> string) list \<Rightarrow> bool) option"

text \<open>What a watcher is sent for an event of the namespace informer, whose object may be of another type.\<close>

definition watcher_Observe :: "default_rule_resolver \<Rightarrow> watcher \<Rightarrow> watch_type \<times> namespace option \<Rightarrow> (watch_type \<times> space) option" where
  "watcher_Observe r w ev =
    (case ev of
       (type, None) \<Rightarrow> None
     | (type, Some namespace) \<Rightarrow>
         (let sp = ConvertNamespace namespace in
          case Authorize r \<lparr>aa_user = wt_user w, aa_verb = ''get'', aa_namespace = om_name (sp_meta sp), aa_apiGroup = [],
                 aa_resource = ''namespaces'', aa_subresource = [], aa_name = om_name (sp_meta sp), aa_path = [],
                 aa_isResourceRequest = True\<rparr> of
            (decision, _, err) \<Rightarrow>
              if err \<noteq> None \<or> decision \<noteq> DecisionAllow then None
              else if (case wt_selector w of None \<Rightarrow> False | Some sel \<Rightarrow> \<not> sel (om_labels (sp_meta sp))) then None
              else Some (type, sp)))"

definition space_Watch :: "request_context \<Rightarrow> ((string \<times> string) list \<Rightarrow> bool) option option \<Rightarrow> gerror + watcher" where
  "space_Watch ctx options =
    (case cx_user ctx of
       None \<Rightarrow> Inl (OtherErr ''user is missing in context'')
     | Some userInfo \<Rightarrow> Inr \<lparr>wt_user = userInfo, wt_selector = (case options of None \<Rightarrow> None | Some sel \<Rightarrow> sel)\<rparr>)"

section \<open>What the storage relies on\<close>

text \<open>
  The laws of the client, over a view of the namespaces, the accounts and the role bindings: creating, patching and
  deleting a namespace changes that namespace only, as documented; deletion leaves a terminating namespace; lists are
  complete; and nothing else touches the namespaces while a request is handled. A role binding is a triple of
  namespace, subjects and role.
\<close>

definition ns_name :: "namespace \<Rightarrow> string" where
  "ns_name n = om_name (ns_meta n)"

definition ns_terminating :: "namespace \<Rightarrow> bool" where
  "ns_terminating n \<longleftrightarrow> om_deletionTimestamp (ns_meta n) \<noteq> None"

definition owned_by :: "string \<Rightarrow> namespace \<Rightarrow> bool" where
  "owned_by a n \<longleftrightarrow> map_of (om_labels (ns_meta n)) SpaceLabelAccount = Some a"

definition binding_key :: "binding \<Rightarrow> string \<times> subject list \<times> role_ref" where
  "binding_key b = (bn_namespace b, bn_subjects b, bn_roleRef b)"

definition remove_annotation :: "string \<Rightarrow> namespace \<Rightarrow> namespace" where
  "remove_annotation k n = n\<lparr>ns_meta := (ns_meta n)\<lparr>om_annotations := del k (om_annotations (ns_meta n))\<rparr>\<rparr>"

text \<open>One new namespace.\<close>

definition created :: "(string \<Rightarrow> namespace option) \<Rightarrow> (string \<Rightarrow> namespace option) \<Rightarrow> namespace \<Rightarrow> bool" where
  "created v v' x \<longleftrightarrow> v (ns_name x) = None \<and> v' = v(ns_name x \<mapsto> x)"

definition members :: "(string \<Rightarrow> namespace option) \<Rightarrow> string \<Rightarrow> string set" where
  "members v a = {n. \<exists>x. v n = Some x \<and> owned_by a x}"

lemma members_created:
  assumes "created v v' x"
  shows "members v' a = (if owned_by a x then insert (ns_name x) (members v a) else members v a)"
  using assms by (auto simp: members_def created_def)

lemma created_irrefl: "\<not> created v v x"
  by (auto simp: created_def dest: fun_cong [where x = "ns_name x"])

lemma ConvertSpace_owned: "owned_by (sp_account sp) (ConvertSpace sp)"
  by (simp add: owned_by_def ConvertSpace_def map_of_put)

lemma owned_by_labels: "om_labels (ns_meta x) = om_labels (ns_meta y) \<Longrightarrow> owned_by a x = owned_by a y"
  by (simp add: owned_by_def)

lemma owned_by_unique: "owned_by a x \<Longrightarrow> owned_by b x \<Longrightarrow> a = b"
  by (simp add: owned_by_def)

text \<open>The limit of an account leaves room for another space.\<close>

definition within_limit :: "'w space_client \<Rightarrow> 'w \<Rightarrow> account \<Rightarrow> bool" where
  "within_limit C w ac \<longleftrightarrow>
    (case as_limit (acs_space (ac_spec ac)) of
       None \<Rightarrow> True
     | Some limit \<Rightarrow>
         (case sc_ListNamespaces C w [(SpaceLabelAccount, om_name (ac_meta ac))] of
            Inl err \<Rightarrow> False | Inr xs \<Rightarrow> int (length xs) < limit))"

lemma check_limit_iff: "check_limit C w ac = None \<longleftrightarrow> within_limit C w ac"
  by (auto simp: check_limit_def within_limit_def split: option.splits sum.splits)

text \<open>Who may create a space.\<close>

definition may_create :: "'w space_client \<Rightarrow> 'w \<Rightarrow> user_info \<Rightarrow> auth_attributes \<Rightarrow> space \<Rightarrow> bool" where
  "may_create C w u a sp \<longleftrightarrow>
    (if sp_account sp = [] then authorize_namespace C w a (om_name (sp_meta sp)) = Inr True
     else (case sc_GetAccount C w (sp_account sp) of
             Inl err \<Rightarrow> False
           | Inr ac \<Rightarrow> (IsUserPartOfAccount u ac \<or> authorize_namespace C w a (om_name (sp_meta sp)) = Inr True)
               \<and> within_limit C w ac))"

lemma check_account_cases:
  assumes "check_account C w u a sp = Inr r"
  obtains "r = None" "sp_account sp = []" "authorize_namespace C w a (om_name (sp_meta sp)) = Inr True"
  | ac where "r = Some ac" "sp_account sp \<noteq> []" "sc_GetAccount C w (sp_account sp) = Inr ac"
      "IsUserPartOfAccount u ac \<or> authorize_namespace C w a (om_name (sp_meta sp)) = Inr True"
  using assms by (auto simp: check_account_def split: if_splits sum.splits)

text \<open>The ways a creation ends: refused without an effect, or the creation of the namespace is attempted.\<close>

lemma space_Create_cases:
  assumes "space_Create C w ctx uid val obj = (w', r)"
  obtains e where "w' = w" "r = Inl e"
  | u a sp0 where "cx_user ctx = Some u" "cx_attributes ctx = Inr a" "obj = Some sp0" "sp_account sp0 = []"
      "authorize_namespace C w a (om_name (sp_meta sp0)) = Inr True"
      "(case sc_CreateNamespace C w (ConvertSpace (sp0\<lparr>sp_meta := FillObjectMetaSystemFields uid (sp_meta sp0)\<rparr>)) of
          (w, Inl err) \<Rightarrow> (w, Inl err) | (w, Inr namespace) \<Rightarrow> (w, Inr (ConvertNamespace namespace))) = (w', r)"
  | u a sp0 ac where "cx_user ctx = Some u" "cx_attributes ctx = Inr a" "obj = Some sp0" "sp_account sp0 \<noteq> []"
      "sc_GetAccount C w (sp_account sp0) = Inr ac"
      "IsUserPartOfAccount u ac \<or> authorize_namespace C w a (om_name (sp_meta sp0)) = Inr True" "within_limit C w ac"
      "create_account_namespace C w (aa_user a)
         (ConvertSpace (apply_space_template ac (sp0\<lparr>sp_meta := FillObjectMetaSystemFields uid (sp_meta sp0)\<rparr>))) ac = (w', r)"
proof (cases "cx_user ctx")
  case None
  then have "w' = w" "r = Inl (OtherErr ''couldn't find user in request'')" using assms by (auto simp: space_Create_def)
  then show thesis by (rule that(1))
next
  case u: (Some u)
  show thesis
  proof (cases obj)
    case None
    then have "w' = w" "r = Inl (OtherErr ''not a space'')" using assms u by (auto simp: space_Create_def)
    then show thesis by (rule that(1))
  next
    case o: (Some sp0)
    define sp where "sp = sp0\<lparr>sp_meta := FillObjectMetaSystemFields uid (sp_meta sp0)\<rparr>"
    have sp: "sp_account sp = sp_account sp0" "om_name (sp_meta sp) = om_name (sp_meta sp0)"
      by (simp_all add: sp_def FillObjectMetaSystemFields_def)
    show thesis
    proof (cases "val sp")
      case (Some e)
      then have "w' = w" "r = Inl e" using assms u o by (auto simp: space_Create_def sp_def [symmetric] ValidateSpace_def Let_def)
      then show thesis by (rule that(1))
    next
      case v: None
      show thesis
      proof (cases "cx_attributes ctx")
        case (Inl e)
        then have "w' = w" "r = Inl e" using assms u o v by (auto simp: space_Create_def sp_def [symmetric] ValidateSpace_def Let_def)
        then show thesis by (rule that(1))
      next
        case a: (Inr a)
        have run: "(case check_account C w u a sp of
                              Inl err \<Rightarrow> (w, Inl err)
                            | Inr None \<Rightarrow>
                                (case sc_CreateNamespace C w (ConvertSpace sp) of
                                   (w, Inl err) \<Rightarrow> (w, Inl err)
                                 | (w, Inr namespace) \<Rightarrow> (w, Inr (ConvertNamespace namespace)))
                            | Inr (Some ac) \<Rightarrow>
                                (case check_limit C w ac of
                                   Some err \<Rightarrow> (w, Inl err)
                                 | None \<Rightarrow> create_account_namespace C w (aa_user a)
                                       (ConvertSpace (apply_space_template ac sp)) ac)) = (w', r)"
          using assms u o v a by (simp add: space_Create_def sp_def [symmetric] ValidateSpace_def Let_def)
        show thesis
        proof (cases "check_account C w u a sp")
          case (Inl e)
          then have "w' = w" "r = Inl e" using run by auto
          then show thesis by (rule that(1))
        next
          case c: (Inr s)
          then show thesis
          proof (cases rule: check_account_cases)
            case 1
            then show thesis using that(2) [OF u a o] run c sp unfolding sp_def by simp
          next
            case (2 ac)
            show thesis
            proof (cases "check_limit C w ac")
              case (Some e)
              then have "w' = w" "r = Inl e" using run c 2 by auto
              then show thesis by (rule that(1))
            next
              case None
              then have wl: "within_limit C w ac" by (simp add: check_limit_iff)
              have "create_account_namespace C w (aa_user a) (ConvertSpace (apply_space_template ac sp)) ac = (w', r)"
                using run c 2(1) None by simp
              then show thesis using that(3) [OF u a o _ _ _ wl] 2 sp unfolding sp_def by simp
            qed
          qed
        qed
      qed
    qed
  qed
qed

text \<open>A namespace that is still initializing because its deletion has failed.\<close>

definition left_behind ::
  "'w space_client \<Rightarrow> ('w \<Rightarrow> string \<Rightarrow> namespace option) \<Rightarrow> 'w \<Rightarrow> namespace \<Rightarrow> bool"
where
  "left_behind C view w' x \<longleftrightarrow> has_key (om_annotations (ns_meta x)) SpaceAnnotationInitializing
     \<and> (\<exists>w1 err. view w1 = view w' \<and> snd (sc_DeleteNamespace C w1 x) = Some err)"

locale namespace_store =
  fixes C :: "'w space_client" and view :: "'w \<Rightarrow> string \<Rightarrow> namespace option"
    and bound :: "'w \<Rightarrow> (string \<times> subject list \<times> role_ref) set"
  assumes Create_ok: "sc_CreateNamespace C w n = (w', Inr x) \<Longrightarrow>
      view w (ns_name x) = None \<and> view w' = (view w)(ns_name x \<mapsto> x) \<and> om_labels (ns_meta x) = om_labels (ns_meta n)
      \<and> om_annotations (ns_meta x) = om_annotations (ns_meta n)"
    and Create_failed: "sc_CreateNamespace C w n = (w', Inl e) \<Longrightarrow> view w' = view w"
    and Patch_ok: "sc_PatchNamespace C w n (remove_annotation k n) = (w', Inr x) \<Longrightarrow> view w (ns_name n) = Some n \<Longrightarrow>
      has_key (om_annotations (ns_meta n)) k \<Longrightarrow>
      view w' = (view w)(ns_name n \<mapsto> x) \<and> ns_name x = ns_name n \<and> om_labels (ns_meta x) = om_labels (ns_meta n)
      \<and> om_annotations (ns_meta x) = del k (om_annotations (ns_meta n)) \<and> bound w \<subseteq> bound w'"
    and Patch_failed: "sc_PatchNamespace C w n m = (w', Inl e) \<Longrightarrow> view w' = view w"
    and Delete_view: "sc_DeleteNamespace C w n = (w', d) \<Longrightarrow>
      (if d = None then \<exists>x y. view w (ns_name n) = Some y \<and> view w' = (view w)(ns_name n \<mapsto> x) \<and> ns_terminating x
         \<and> ns_name x = ns_name n \<and> om_labels (ns_meta x) = om_labels (ns_meta y)
       else view w' = view w)"
    and CreateInstance_view: "sc_CreateInstance C w ti = (w', s) \<Longrightarrow> view w' = view w"
    and CreateRoleBinding_view: "sc_CreateRoleBinding C w g ow b = (w', d) \<Longrightarrow> view w' = view w"
    and CreateRoleBinding_ok: "sc_CreateRoleBinding C w g ow b = (w', None) \<Longrightarrow> binding_key b \<in> bound w'"
    and Tick_view: "view (sc_Tick C w) = view w" "bound w \<subseteq> bound (sc_Tick C w)"
    and List_ok: "sc_ListNamespaces C w [(SpaceLabelAccount, a)] = Inr xs \<Longrightarrow>
      length xs = card {n. \<exists>x. view w n = Some x \<and> owned_by a x}"
    and finite_view: "finite (dom (view w))"
    and Account_name: "sc_GetAccount C w a = Inr ac \<Longrightarrow> om_name (ac_meta ac) = a"
begin

lemma create_instances_view:
  "create_instances C w ns specs acc = (w', r) \<Longrightarrow> view w' = view w"
proof (induction specs arbitrary: w acc)
  case (Cons s specs)
  obtain w1 x where c: "sc_CreateInstance C w (account_instance ns s) = (w1, x)" by force
  then have "view w1 = view w" by (rule CreateInstance_view)
  then show ?case using Cons c by (cases x) (auto split: if_splits)
qed simp

lemma poll_instances_view: "poll_instances C ns tis w = (r, w') \<Longrightarrow> view w' = view w"
  by (auto simp: poll_instances_def Let_def Tick_view split: sum.splits)

lemma poll_view:
  assumes "PollImmediate n (poll_instances C ns tis) w = (r, w')"
  shows "view w' = view w"
  by (rule PollImmediate_invariant [where W = "\<lambda>v. view v = view w", OF _ _ assms]) (simp_all add: poll_instances_view)

lemma poll_access_view: "poll_access C a w = (r, w') \<Longrightarrow> view w' = view w \<and> bound w \<subseteq> bound w'"
  using Tick_view [of w] by (auto simp: poll_access_def Let_def split: prod.splits option.splits)

lemma access_view:
  assumes "PollImmediate n (poll_access C a) w = (r, w')"
  shows "view w' = view w \<and> bound w \<subseteq> bound w'"
proof (rule PollImmediate_invariant [where W = "\<lambda>v. view v = view w \<and> bound w \<subseteq> bound v", OF _ _ assms])
  fix v x v'
  assume v: "view v = view w \<and> bound w \<subseteq> bound v" and "poll_access C a v = (x, v')"
  then have "view v' = view v \<and> bound v \<subseteq> bound v'" using poll_access_view by blast
  then show "view v' = view w \<and> bound w \<subseteq> bound v'" using v by auto
qed simp

lemma initializeSpace_view:
  assumes "initializeSpace C w n ac = (w', r)" "view w (ns_name n) = Some n"
    "has_key (om_annotations (ns_meta n)) SpaceAnnotationInitializing"
  shows "case r of Inl e \<Rightarrow> view w' = view w
    | Inr x \<Rightarrow> view w' = (view w)(ns_name n \<mapsto> x) \<and> ns_name x = ns_name n \<and> om_labels (ns_meta x) = om_labels (ns_meta n)
        \<and> om_annotations (ns_meta x) = del SpaceAnnotationInitializing (om_annotations (ns_meta n))
        \<and> (GetClusterRoleFor ac = [] \<or> binding_key (account_role_binding (ns_name n) ac) \<in> bound w')"
proof -
  obtain w1 r1 where c: "create_instances C w (om_name (ns_meta n)) (as_templateInstances (acs_space (ac_spec ac))) [] = (w1, r1)"
    by force
  then have v1: "view w1 = view w" by (rule create_instances_view)
  show ?thesis
  proof (cases r1)
    case (Inl e)
    then have "w' = w1 \<and> r = Inl e" using assms(1) c by (simp add: initializeSpace_def)
    then show ?thesis using v1 by simp
  next
    case tis: (Inr tis)
    obtain r2 w2 where p: "PollImmediate instance_ticks (poll_instances C (om_name (ns_meta n)) tis) w1 = (r2, w2)" by force
    then have v2: "view w2 = view w" using poll_view v1 by metis
    show ?thesis
    proof (cases r2)
      case (Inl e)
      then have "w' = w2 \<and> r = Inl e" using assms(1) c tis p by (simp add: initializeSpace_def)
      then show ?thesis using v2 by simp
    next
      case ready: (Inr u)
      obtain w3 e where b: "CreateRoleBinding C w2 (om_name (ns_meta n)) ac = (w3, e)" by force
      have v3: "view w3 = view w \<and> (e = None \<longrightarrow> GetClusterRoleFor ac = [] \<or> binding_key (account_role_binding (ns_name n) ac) \<in> bound w3)"
        using b v2 CreateRoleBinding_view CreateRoleBinding_ok
        by (auto simp: CreateRoleBinding_def ns_name_def split: if_splits option.splits)
      show ?thesis
      proof (cases e)
        case (Some e1)
        then have "w' = w3 \<and> r = Inl e1" using assms(1) c tis p ready b by (simp add: initializeSpace_def)
        then show ?thesis using v3 by simp
      next
        case None
        have patch: "sc_PatchNamespace C w3 n (remove_annotation SpaceAnnotationInitializing n) = (w', r)"
          using assms(1) c tis p ready b None by (simp add: initializeSpace_def remove_annotation_def)
        show ?thesis
        proof (cases r)
          case (Inl e2)
          then show ?thesis using Patch_failed patch v3 by simp
        next
          case (Inr x)
          have "view w3 (ns_name n) = Some n" using v3 assms(2) by simp
          from Patch_ok [OF patch [unfolded Inr] this assms(3)] show ?thesis using Inr v3 None by auto
        qed
      qed
    qed
  qed
qed

text \<open>What creating a space does to the namespaces.\<close>

lemma create_account_namespace_view:
  assumes "create_account_namespace C w user n ac = (w', r)"
  shows "case r of
      Inr sp \<Rightarrow> \<exists>x. created (view w) (view w') x \<and> sp = ConvertNamespace x \<and> om_labels (ns_meta x) = om_labels (ns_meta n)
        \<and> \<not> has_key (om_annotations (ns_meta x)) SpaceAnnotationInitializing
        \<and> (GetClusterRoleFor ac = [] \<or> binding_key (account_role_binding (ns_name x) ac) \<in> bound w')
    | Inl e \<Rightarrow> view w' = view w \<or> (\<exists>x. created (view w) (view w') x \<and> om_labels (ns_meta x) = om_labels (ns_meta n)
        \<and> (ns_terminating x \<or> left_behind C view w' x))"
proof -
  define n1 where "n1 = n\<lparr>ns_meta := (ns_meta n)\<lparr>om_annotations :=
           put SpaceAnnotationInitializing ''true'' (om_annotations (ns_meta n))\<rparr>\<rparr>"
  obtain w1 r1 where c: "sc_CreateNamespace C w n1 = (w1, r1)" by force
  show ?thesis
  proof (cases r1)
    case (Inl e)
    then have "w' = w1 \<and> r = Inl e" using assms c by (simp add: create_account_namespace_def n1_def)
    then show ?thesis using Create_failed c Inl by simp
  next
    case (Inr x)
    note ok = Create_ok [OF c [unfolded Inr]]
    have x: "view w1 (ns_name x) = Some x" using ok by simp
    have k: "has_key (om_annotations (ns_meta x)) SpaceAnnotationInitializing"
      using ok by (simp add: n1_def map_of_put)
    have labels: "om_labels (ns_meta x) = om_labels (ns_meta n)" using ok by (simp add: n1_def)
    obtain w2 r2 where i: "initializeSpace C w1 x ac = (w2, r2)" by force
    note init = initializeSpace_view [OF i x k]
    have run: "create_account_namespace C w user n ac = (case r2 of
        Inl err \<Rightarrow> (fst (sc_DeleteNamespace C w2 x), Inl err)
      | Inr y \<Rightarrow> (snd (waitForAccess C w2 user y), Inr (ConvertNamespace y)))"
      using c Inr i by (simp add: create_account_namespace_def n1_def split: sum.splits)
    show ?thesis
    proof (cases r2)
      case (Inl e)
      obtain w3 d where d: "sc_DeleteNamespace C w2 x = (w3, d)" by force
      have w: "w' = w3" and r: "r = Inl e" using run assms Inl d by auto
      have v2: "view w2 = view w1" using init Inl by simp
      show ?thesis
      proof (cases d)
        case None
        then obtain y z where y: "view w2 (ns_name x) = Some z" "view w3 = (view w2)(ns_name x \<mapsto> y)" "ns_terminating y"
          "ns_name y = ns_name x" "om_labels (ns_meta y) = om_labels (ns_meta z)" using Delete_view [OF d] by auto
        then have z: "z = x" using v2 x by simp
        have "created (view w) (view w3) y" using y v2 ok by (simp add: created_def)
        then show ?thesis using w r y z labels by auto
      next
        case (Some e1)
        have "view w3 = view w2" using Delete_view [OF d] Some by simp
        then have "created (view w) (view w3) x" using v2 ok by (simp add: created_def)
        moreover have "left_behind C view w' x"
          unfolding left_behind_def using d Some w k \<open>view w3 = view w2\<close> by (intro conjI exI [of _ w2] exI [of _ e1]) auto
        ultimately show ?thesis using w r labels by auto
      qed
    next
      case (Inr y)
      have w: "w' = snd (waitForAccess C w2 user y)" and r: "r = Inr (ConvertNamespace y)" using run assms Inr by auto
      obtain r3 w3 where a: "waitForAccess C w2 user y = (r3, w3)" by force
      have v3: "view w3 = view w2" "bound w2 \<subseteq> bound w3" using access_view a by (auto simp: waitForAccess_def)
      have y: "view w2 = (view w1)(ns_name x \<mapsto> y)" "ns_name y = ns_name x" "om_labels (ns_meta y) = om_labels (ns_meta x)"
        "om_annotations (ns_meta y) = del SpaceAnnotationInitializing (om_annotations (ns_meta x))"
        "GetClusterRoleFor ac = [] \<or> binding_key (account_role_binding (ns_name x) ac) \<in> bound w2"
        using init Inr by simp_all
      have "created (view w) (view w') y" using y(1,2) v3 ok w a by (simp add: created_def)
      moreover have "\<not> has_key (om_annotations (ns_meta y)) SpaceAnnotationInitializing" using y(4) by (simp add: map_of_del)
      moreover have "GetClusterRoleFor ac = [] \<or> binding_key (account_role_binding (ns_name y) ac) \<in> bound w'"
        using y(2,5) v3(2) w a by auto
      ultimately show ?thesis using r y(3) labels by auto
    qed
  qed
qed

lemma space_Create_view:
  assumes "space_Create C w ctx uid val obj = (w', r)"
  shows "case r of
      Inr sp \<Rightarrow> \<exists>sp0 x. obj = Some sp0 \<and> created (view w) (view w') x \<and> sp = ConvertNamespace x
        \<and> owned_by (sp_account sp0) x
        \<and> (sp_account sp0 = [] \<or> \<not> has_key (om_annotations (ns_meta x)) SpaceAnnotationInitializing
             \<and> (\<exists>ac. sc_GetAccount C w (sp_account sp0) = Inr ac
                \<and> (GetClusterRoleFor ac = [] \<or> binding_key (account_role_binding (ns_name x) ac) \<in> bound w')))
    | Inl e \<Rightarrow> view w' = view w \<or> (\<exists>sp0 x. obj = Some sp0 \<and> created (view w) (view w') x \<and> owned_by (sp_account sp0) x
        \<and> (ns_terminating x \<or> left_behind C view w' x))"
  using assms
proof (cases rule: space_Create_cases)
  case (1 e)
  then show ?thesis by simp
next
  case (2 u a sp0)
  define n where "n = ConvertSpace (sp0\<lparr>sp_meta := FillObjectMetaSystemFields uid (sp_meta sp0)\<rparr>)"
  have own: "owned_by (sp_account sp0) n"
    using ConvertSpace_owned [of "sp0\<lparr>sp_meta := FillObjectMetaSystemFields uid (sp_meta sp0)\<rparr>"] by (simp add: n_def)
  obtain w1 s where c: "sc_CreateNamespace C w n = (w1, s)" by force
  show ?thesis
  proof (cases s)
    case (Inl e)
    then have "w' = w1 \<and> r = Inl e" using 2(6) c by (simp add: n_def)
    then show ?thesis using Create_failed c Inl by simp
  next
    case (Inr x)
    then have w: "w' = w1" "r = Inr (ConvertNamespace x)" using 2(6) c by (auto simp: n_def)
    have "created (view w) (view w1) x" using Create_ok [OF c [unfolded Inr]] by (simp add: created_def)
    moreover have "owned_by (sp_account sp0) x" using Create_ok [OF c [unfolded Inr]] own owned_by_labels [of x n] by simp
    ultimately show ?thesis using w 2(3,4) by auto
  qed
next
  case (3 u a sp0 ac)
  define n where "n = ConvertSpace (apply_space_template ac (sp0\<lparr>sp_meta := FillObjectMetaSystemFields uid (sp_meta sp0)\<rparr>))"
  have own: "owned_by (sp_account sp0) n"
    using ConvertSpace_owned [of "apply_space_template ac (sp0\<lparr>sp_meta := FillObjectMetaSystemFields uid (sp_meta sp0)\<rparr>)"]
    by (simp add: n_def apply_space_template_def Let_def)
  note V = create_account_namespace_view [OF 3(8) [folded n_def]]
  show ?thesis
  proof (cases r)
    case (Inl e)
    then consider "view w' = view w"
      | x where "created (view w) (view w') x" "om_labels (ns_meta x) = om_labels (ns_meta n)"
          "ns_terminating x \<or> left_behind C view w' x" using V by auto
    then show ?thesis
    proof cases
      case (2 x)
      have "owned_by (sp_account sp0) x" using own owned_by_labels 2(2) by blast
      then show ?thesis using Inl 3(3) 2(1,3) by auto
    qed (simp add: Inl)
  next
    case (Inr sp)
    then obtain x where x: "created (view w) (view w') x" "sp = ConvertNamespace x" "om_labels (ns_meta x) = om_labels (ns_meta n)"
        "\<not> has_key (om_annotations (ns_meta x)) SpaceAnnotationInitializing"
        "GetClusterRoleFor ac = [] \<or> binding_key (account_role_binding (ns_name x) ac) \<in> bound w'" using V by auto
    have "owned_by (sp_account sp0) x" using own owned_by_labels x(3) by blast
    then show ?thesis using Inr 3(3,5) x(1,2,4,5) by auto
  qed
qed

lemma space_Create_limit:
  assumes "space_Create C w ctx uid val obj = (w', r)" "a \<noteq> []" "sc_GetAccount C w a = Inr ac"
    "as_limit (acs_space (ac_spec ac)) = Some l" "int (card (members (view w) a)) \<le> l"
  shows "int (card (members (view w') a)) \<le> l"
proof -
  have "view w' = view w \<or> (\<exists>sp0 x. obj = Some sp0 \<and> created (view w) (view w') x \<and> owned_by (sp_account sp0) x)"
    using space_Create_view [OF assms(1)] by (cases r) auto
  then show ?thesis
  proof
    assume "view w' = view w"
    then show ?thesis using assms(5) by simp
  next
    assume "\<exists>sp0 x. obj = Some sp0 \<and> created (view w) (view w') x \<and> owned_by (sp_account sp0) x"
    then obtain sp0 x where x: "obj = Some sp0" "created (view w) (view w') x" "owned_by (sp_account sp0) x" by blast
    show ?thesis
    proof (cases "owned_by a x")
      case False
      then show ?thesis using members_created [OF x(2)] assms(5) by simp
    next
      case True
      then have a: "sp_account sp0 = a" using x(3) owned_by_unique by blast
      have fin: "finite (members (view w) a)"
        by (rule finite_subset [OF _ finite_view [of w]]) (auto simp: members_def)
      have "int (card (members (view w) a)) < l"
        using assms(1)
      proof (cases rule: space_Create_cases)
        case (1 e)
        then show ?thesis using x(2) created_irrefl by blast
      next
        case (2 u aa sp1)
        then show ?thesis using x(1) a assms(2) by simp
      next
        case (3 u aa sp1 ac1)
        then have ac: "ac1 = ac" using x(1) a assms(3) by simp
        have n: "om_name (ac_meta ac) = a" by (rule Account_name [OF assms(3)])
        obtain xs where xs: "sc_ListNamespaces C w [(SpaceLabelAccount, a)] = Inr xs" "int (length xs) < l"
          using 3(7) assms(4) unfolding ac by (auto simp: within_limit_def n split: sum.splits)
        then show ?thesis using List_ok [OF xs(1)] by (simp add: members_def)
      qed
      moreover have "card (insert (ns_name x) (members (view w) a)) \<le> Suc (card (members (view w) a))"
        by (rule card_insert_le_m1 [THEN order_trans]) (use fin in \<open>auto simp: card_insert_if\<close>)
      ultimately show ?thesis using members_created [OF x(2), of a] True by simp
    qed
  qed
qed

end

section \<open>A cluster of namespaces\<close>

text \<open>
  Namespaces by name, the accounts, the template instances, the roles with their bindings, and an agenda: the statuses
  that the controller of template instances sets before each poll. Names are generated from the revision. Any write may
  fail: \<open>sw_faults\<close> says for the writes to come which of them the API server refuses or does not answer.
\<close>

record space_world =
  sw_namespaces :: "(string \<times> namespace) list"
  sw_accounts :: "account list"
  sw_instances :: "template_instance list"
  sw_roles :: static_roles
  sw_agenda :: "(string \<times> template_instance_status) list list"
  sw_faults :: "gerror option list"
  sw_revision :: nat

definition generated_name :: "obj_meta \<Rightarrow> nat \<Rightarrow> string" where
  "generated_name m r = (if om_name m \<noteq> [] then om_name m else om_generateName m @ string_of_nat r)"

definition store_namespace :: "namespace \<Rightarrow> space_world \<Rightarrow> space_world" where
  "store_namespace n w = w\<lparr>sw_namespaces := put (ns_name n) n (sw_namespaces w), sw_revision := Suc (sw_revision w)\<rparr>"

definition list_namespaces :: "(string \<times> namespace) list \<Rightarrow> namespace list" where
  "list_namespaces m = map (\<lambda>k. the (map_of m k)) (remdups (map fst m))"

definition world_CreateNamespace :: "space_world \<Rightarrow> namespace \<Rightarrow> space_world \<times> (gerror + namespace)" where
  "world_CreateNamespace w n =
    (let name = generated_name (ns_meta n) (sw_revision w);
         x = \<lparr>ns_meta = (ns_meta n)\<lparr>om_name := name\<rparr>, ns_finalizers = [''kubernetes''], ns_phase = ''Active''\<rparr>
     in if om_name (ns_meta n) = [] \<and> om_generateName (ns_meta n) = [] then (w, Inl (InvalidErr ''name''))
        else if map_of (sw_namespaces w) name \<noteq> None then (w, Inl (AlreadyExistsErr name))
        else (store_namespace x w, Inr x))"

definition world_UpdateNamespace :: "space_world \<Rightarrow> namespace \<Rightarrow> space_world \<times> (gerror + namespace)" where
  "world_UpdateNamespace w n =
    (case map_of (sw_namespaces w) (ns_name n) of
       None \<Rightarrow> (w, Inl (NotFoundErr (ns_name n)))
     | Some old \<Rightarrow> (store_namespace n w, Inr n))"

text \<open>A merge patch sets and removes the keys in which the two objects differ.\<close>

definition patch_map :: "(string \<times> string) list \<Rightarrow> (string \<times> string) list \<Rightarrow> (string \<times> string) list \<Rightarrow> (string \<times> string) list" where
  "patch_map original new live = fold (\<lambda>k m.
     if map_of new k = map_of original k then m
     else case map_of new k of None \<Rightarrow> del k m | Some v \<Rightarrow> put k v m) (map fst original @ map fst new) live"

definition world_PatchNamespace :: "space_world \<Rightarrow> namespace \<Rightarrow> namespace \<Rightarrow> space_world \<times> (gerror + namespace)" where
  "world_PatchNamespace w original new =
    (case map_of (sw_namespaces w) (ns_name original) of
       None \<Rightarrow> (w, Inl (NotFoundErr (ns_name original)))
     | Some live \<Rightarrow>
         (let x = live\<lparr>ns_meta := (ns_meta live)\<lparr>
                om_labels := patch_map (om_labels (ns_meta original)) (om_labels (ns_meta new)) (om_labels (ns_meta live)),
                om_annotations := patch_map (om_annotations (ns_meta original)) (om_annotations (ns_meta new)) (om_annotations (ns_meta live)),
                om_name := ns_name original\<rparr>\<rparr>
          in (store_namespace x w, Inr x)))"

definition world_DeleteNamespace :: "space_world \<Rightarrow> namespace \<Rightarrow> space_world \<times> gerror option" where
  "world_DeleteNamespace w n =
    (case map_of (sw_namespaces w) (ns_name n) of
       None \<Rightarrow> (w, Some (NotFoundErr (ns_name n)))
     | Some live \<Rightarrow>
         (store_namespace (live\<lparr>ns_meta := (ns_meta live)\<lparr>om_name := ns_name n, om_deletionTimestamp := Some 0\<rparr>,
            ns_phase := ''Terminating''\<rparr>) w, None))"

definition world_CreateInstance :: "space_world \<Rightarrow> template_instance \<Rightarrow> space_world \<times> (gerror + template_instance)" where
  "world_CreateInstance w ti =
    (let x = ti\<lparr>ti_meta := (ti_meta ti)\<lparr>om_name := generated_name (ti_meta ti) (sw_revision w)\<rparr>\<rparr> in
     if list_ex (\<lambda>y. ti_key y = ti_key x) (sw_instances w) then (w, Inl (AlreadyExistsErr (ti_key x)))
     else (w\<lparr>sw_instances := sw_instances w @ [x], sw_revision := Suc (sw_revision w)\<rparr>, Inr x))"

definition world_CreateRoleBinding :: "space_world \<Rightarrow> string \<Rightarrow> account \<Rightarrow> binding \<Rightarrow> space_world \<times> gerror option" where
  "world_CreateRoleBinding w generateName owner b =
    (w\<lparr>sw_roles := (sw_roles w)\<lparr>stat_roleBindings := stat_roleBindings (sw_roles w)
          @ [b\<lparr>bn_name := generateName @ string_of_nat (sw_revision w)\<rparr>]\<rparr>,
       sw_revision := Suc (sw_revision w)\<rparr>, None)"

definition world_Tick :: "space_world \<Rightarrow> space_world" where
  "world_Tick w =
    (case sw_agenda w of
       [] \<Rightarrow> w
     | statuses # rest \<Rightarrow>
         w\<lparr>sw_agenda := rest, sw_instances := map (\<lambda>ti. case map_of statuses (om_namespace (ti_meta ti)) of
              None \<Rightarrow> ti | Some st \<Rightarrow> ti\<lparr>ti_status := st\<rparr>) (sw_instances w)\<rparr>)"

definition attempt :: "(gerror \<Rightarrow> 'r) \<Rightarrow> (space_world \<Rightarrow> space_world \<times> 'r) \<Rightarrow> space_world \<Rightarrow> space_world \<times> 'r" where
  "attempt refuse act w =
    (case sw_faults w of
       [] \<Rightarrow> act w
     | None # faults \<Rightarrow> act (w\<lparr>sw_faults := faults\<rparr>)
     | Some err # faults \<Rightarrow> (w\<lparr>sw_faults := faults\<rparr>, refuse err))"

definition world_space_client :: "space_world space_client" where
  "world_space_client = \<lparr>
     sc_Resolver = \<lambda>w. \<lparr>dr_ListAll = False, dr_Client = store_client (sw_roles w)\<rparr>,
     sc_GetAccount = \<lambda>w a. (case find (\<lambda>ac. om_name (ac_meta ac) = a) (sw_accounts w) of
        None \<Rightarrow> Inl (NotFoundErr a) | Some ac \<Rightarrow> Inr ac),
     sc_GetNamespace = \<lambda>w n. found_in (sw_namespaces w) n,
     sc_ListNamespaces = \<lambda>w labels. Inr (filter (\<lambda>n. list_all (\<lambda>(k, v). map_of (om_labels (ns_meta n)) k = Some v) labels)
        (list_namespaces (sw_namespaces w))),
     sc_CreateNamespace = \<lambda>w n. attempt Inl (\<lambda>w. world_CreateNamespace w n) w,
     sc_UpdateNamespace = \<lambda>w n. attempt Inl (\<lambda>w. world_UpdateNamespace w n) w,
     sc_PatchNamespace = \<lambda>w original new. attempt Inl (\<lambda>w. world_PatchNamespace w original new) w,
     sc_DeleteNamespace = \<lambda>w n. attempt Some (\<lambda>w. world_DeleteNamespace w n) w,
     sc_CreateInstance = \<lambda>w ti. attempt Inl (\<lambda>w. world_CreateInstance w ti) w,
     sc_ListInstances = \<lambda>w ns. Inr (filter (\<lambda>ti. om_namespace (ti_meta ti) = ns) (sw_instances w)),
     sc_CreateRoleBinding = \<lambda>w g ow b. attempt Some (\<lambda>w. world_CreateRoleBinding w g ow b) w,
     sc_SetControllerReference = \<lambda>_. None,
     sc_Tick = world_Tick\<rparr>"

definition sw_view :: "space_world \<Rightarrow> string \<Rightarrow> namespace option" where
  "sw_view w = map_of (sw_namespaces w)"

definition sw_bound :: "space_world \<Rightarrow> (string \<times> subject list \<times> role_ref) set" where
  "sw_bound w = binding_key ` set (stat_roleBindings (sw_roles w))"

lemma faults_view [simp]: "sw_view (w\<lparr>sw_faults := fs\<rparr>) = sw_view w" "sw_bound (w\<lparr>sw_faults := fs\<rparr>) = sw_bound w"
  by (simp_all add: sw_view_def sw_bound_def)

lemma attempt_cases:
  assumes "attempt refuse act w = (w', r)"
  obtains v where "act v = (w', r)" "sw_view v = sw_view w" "sw_bound v = sw_bound w"
  | err where "r = refuse err" "sw_view w' = sw_view w" "sw_bound w' = sw_bound w"
  using assms that unfolding attempt_def by (auto split: list.splits option.splits)

lemma store_namespace_view: "sw_view (store_namespace n w) = (sw_view w)(ns_name n \<mapsto> n)"
  "sw_bound (store_namespace n w) = sw_bound w"
  by (auto simp: sw_view_def sw_bound_def store_namespace_def map_of_put)

lemma patch_map_same: "patch_map m m live = live"
proof -
  have "fold (\<lambda>k m. m) ks live = live" for ks :: "string list" by (induction ks) auto
  then show ?thesis by (simp add: patch_map_def)
qed

lemma patch_map_del: "has_key original k \<Longrightarrow> patch_map original (del k original) live = del k live"
proof -
  assume k: "has_key original k"
  have f: "fold (\<lambda>q m. if map_of (del k original) q = map_of original q then m
     else case map_of (del k original) q of None \<Rightarrow> del q m | Some v \<Rightarrow> put q v m) ks live
     = (if k \<in> set ks then del k live else live)" for ks
  proof (induction ks arbitrary: live)
    case (Cons q ks)
    then show ?case using k by (cases "q = k") (auto simp: map_of_del delete_idem)
  qed simp
  have "k \<in> set (map fst original @ map fst (del k original))" using k by (force simp: map_of_eq_None_iff [symmetric])
  then show ?thesis unfolding patch_map_def f by simp
qed

lemma list_namespaces_count:
  "length (filter P (list_namespaces m)) = card {n. \<exists>x. map_of m n = Some x \<and> P x}"
proof -
  have "{n. \<exists>x. map_of m n = Some x \<and> P x} = set (filter (\<lambda>k. P (the (map_of m k))) (remdups (map fst m)))"
  proof (intro set_eqI)
    fix n
    show "n \<in> {n. \<exists>x. map_of m n = Some x \<and> P x} \<longleftrightarrow> n \<in> set (filter (\<lambda>k. P (the (map_of m k))) (remdups (map fst m)))"
      using map_of_conv_key [of m n] by (cases "map_of m n") auto
  qed
  moreover have "card (set (filter (\<lambda>k. P (the (map_of m k))) (remdups (map fst m))))
      = length (filter (\<lambda>k. P (the (map_of m k))) (remdups (map fst m)))"
    by (intro distinct_card distinct_filter distinct_remdups)
  ultimately show ?thesis by (simp add: list_namespaces_def filter_map comp_def)
qed

lemma world_Create_ok:
  assumes "world_CreateNamespace w n = (w', Inr x)"
  shows "sw_view w (ns_name x) = None \<and> sw_view w' = (sw_view w)(ns_name x \<mapsto> x)
      \<and> om_labels (ns_meta x) = om_labels (ns_meta n) \<and> om_annotations (ns_meta x) = om_annotations (ns_meta n)"
  using assms by (auto simp: world_CreateNamespace_def Let_def store_namespace_view split: if_splits)
      (auto simp: sw_view_def ns_name_def)

lemma world_Patch_ok:
  assumes "world_PatchNamespace w n (remove_annotation k n) = (w', Inr x)" "sw_view w (ns_name n) = Some n"
    "has_key (om_annotations (ns_meta n)) k"
  shows "sw_view w' = (sw_view w)(ns_name n \<mapsto> x) \<and> ns_name x = ns_name n \<and> om_labels (ns_meta x) = om_labels (ns_meta n)
      \<and> om_annotations (ns_meta x) = del k (om_annotations (ns_meta n)) \<and> sw_bound w \<subseteq> sw_bound w'"
  using assms by (auto simp: world_PatchNamespace_def Let_def store_namespace_view remove_annotation_def
        patch_map_same patch_map_del sw_view_def [symmetric] split: option.splits) (auto simp: ns_name_def)

lemma world_Delete_view:
  assumes "world_DeleteNamespace w n = (w', d)"
  shows "if d = None then \<exists>x y. sw_view w (ns_name n) = Some y \<and> sw_view w' = (sw_view w)(ns_name n \<mapsto> x) \<and> ns_terminating x
         \<and> ns_name x = ns_name n \<and> om_labels (ns_meta x) = om_labels (ns_meta y)
       else sw_view w' = sw_view w"
  using assms by (auto simp: world_DeleteNamespace_def store_namespace_view ns_terminating_def
        sw_view_def [symmetric] split: option.splits) (auto simp: ns_name_def)

lemma world_failed:
  "world_CreateNamespace w n = (w', Inl e) \<Longrightarrow> w' = w" "world_PatchNamespace w n m = (w', Inl e) \<Longrightarrow> w' = w"
  by (auto simp: world_CreateNamespace_def world_PatchNamespace_def Let_def split: if_splits option.splits)

lemma world_others_view:
  "world_CreateInstance w ti = (w', s) \<Longrightarrow> sw_view w' = sw_view w"
  "world_CreateRoleBinding w g ow b = (w', d) \<Longrightarrow> sw_view w' = sw_view w \<and> binding_key b \<in> sw_bound w'"
  "sw_view (world_Tick w) = sw_view w" "sw_bound (world_Tick w) = sw_bound w"
  by (auto simp: world_CreateInstance_def world_CreateRoleBinding_def world_Tick_def sw_view_def sw_bound_def Let_def
      binding_key_def split: if_splits list.splits)

interpretation spaces: namespace_store world_space_client sw_view sw_bound
proof
  fix w n w' x
  assume "sc_CreateNamespace world_space_client w n = (w', Inr x)"
  then have "attempt Inl (\<lambda>w. world_CreateNamespace w n) w = (w', Inr x)" by (simp add: world_space_client_def)
  then show "sw_view w (ns_name x) = None \<and> sw_view w' = (sw_view w)(ns_name x \<mapsto> x)
      \<and> om_labels (ns_meta x) = om_labels (ns_meta n) \<and> om_annotations (ns_meta x) = om_annotations (ns_meta n)"
    by (cases rule: attempt_cases) (auto dest: world_Create_ok)
next
  fix w n w' e
  assume "sc_CreateNamespace world_space_client w n = (w', Inl e)"
  then have "attempt Inl (\<lambda>w. world_CreateNamespace w n) w = (w', Inl e)" by (simp add: world_space_client_def)
  then show "sw_view w' = sw_view w" by (cases rule: attempt_cases) (auto dest: world_failed)
next
  fix w n k w' x
  assume a: "sc_PatchNamespace world_space_client w n (remove_annotation k n) = (w', Inr x)"
    "sw_view w (ns_name n) = Some n" "has_key (om_annotations (ns_meta n)) k"
  then have "attempt Inl (\<lambda>w. world_PatchNamespace w n (remove_annotation k n)) w = (w', Inr x)"
    by (simp add: world_space_client_def)
  then show "sw_view w' = (sw_view w)(ns_name n \<mapsto> x) \<and> ns_name x = ns_name n \<and> om_labels (ns_meta x) = om_labels (ns_meta n)
      \<and> om_annotations (ns_meta x) = del k (om_annotations (ns_meta n)) \<and> sw_bound w \<subseteq> sw_bound w'"
  proof (cases rule: attempt_cases)
    case (1 v)
    then show ?thesis using world_Patch_ok [OF 1(1)] a(2,3) by simp
  qed simp
next
  fix w n m w' e
  assume "sc_PatchNamespace world_space_client w n m = (w', Inl e)"
  then have "attempt Inl (\<lambda>w. world_PatchNamespace w n m) w = (w', Inl e)" by (simp add: world_space_client_def)
  then show "sw_view w' = sw_view w" by (cases rule: attempt_cases) (auto dest: world_failed)
next
  fix w n w' d
  assume "sc_DeleteNamespace world_space_client w n = (w', d)"
  then have "attempt Some (\<lambda>w. world_DeleteNamespace w n) w = (w', d)" by (simp add: world_space_client_def)
  then show "if d = None then \<exists>x y. sw_view w (ns_name n) = Some y \<and> sw_view w' = (sw_view w)(ns_name n \<mapsto> x) \<and> ns_terminating x
         \<and> ns_name x = ns_name n \<and> om_labels (ns_meta x) = om_labels (ns_meta y)
       else sw_view w' = sw_view w"
  proof (cases rule: attempt_cases)
    case (1 v)
    then show ?thesis using world_Delete_view [OF 1(1)] unfolding 1(2) by blast
  qed simp
next
  fix w ti w' s
  assume "sc_CreateInstance world_space_client w ti = (w', s)"
  then have "attempt Inl (\<lambda>w. world_CreateInstance w ti) w = (w', s)" by (simp add: world_space_client_def)
  then show "sw_view w' = sw_view w" by (cases rule: attempt_cases) (auto dest: world_others_view(1))
next
  fix w g ow b w' d
  assume "sc_CreateRoleBinding world_space_client w g ow b = (w', d)"
  then have "attempt Some (\<lambda>w. world_CreateRoleBinding w g ow b) w = (w', d)" by (simp add: world_space_client_def)
  then show "sw_view w' = sw_view w" by (cases rule: attempt_cases) (auto dest: world_others_view(2))
next
  fix w g ow b w'
  assume "sc_CreateRoleBinding world_space_client w g ow b = (w', None)"
  then have "attempt Some (\<lambda>w. world_CreateRoleBinding w g ow b) w = (w', None)" by (simp add: world_space_client_def)
  then show "binding_key b \<in> sw_bound w'" by (cases rule: attempt_cases) (auto dest: world_others_view(2))
next
  fix w a xs
  assume "sc_ListNamespaces world_space_client w [(SpaceLabelAccount, a)] = Inr xs"
  then show "length xs = card {n. \<exists>x. sw_view w n = Some x \<and> owned_by a x}"
    using list_namespaces_count [of "owned_by a" "sw_namespaces w"]
    by (auto simp: world_space_client_def sw_view_def owned_by_def [symmetric])
next
  fix w a ac
  assume "sc_GetAccount world_space_client w a = Inr ac"
  then show "om_name (ac_meta ac) = a" by (auto simp: world_space_client_def find_Some_iff split: option.splits)
next
  fix w
  show "sw_view (sc_Tick world_space_client w) = sw_view w" "sw_bound w \<subseteq> sw_bound (sc_Tick world_space_client w)"
    by (simp_all add: world_space_client_def world_others_view)
  show "finite (dom (sw_view w))" by (simp add: sw_view_def finite_dom_map_of)
qed

section \<open>Lists and watches\<close>

text \<open>Whether the user may get the object behind a namespace.\<close>

definition may_get :: "'w space_client \<Rightarrow> 'w \<Rightarrow> auth_attributes \<Rightarrow> namespace \<Rightarrow> bool" where
  "may_get C w a n \<longleftrightarrow> fst (sc_Authorize C w (object_attributes a namespaces_gvr (ns_meta n))) = DecisionAllow"

definition matching_namespaces :: "space_world \<Rightarrow> (string \<times> string) list \<Rightarrow> namespace list" where
  "matching_namespaces w labels =
    filter (\<lambda>n. list_all (\<lambda>(k, v). map_of (om_labels (ns_meta n)) k = Some v) labels) (list_namespaces (sw_namespaces w))"

definition named :: "space_world \<Rightarrow> bool" where
  "named w \<longleftrightarrow> list_all (\<lambda>(k, n). ns_name n = k) (sw_namespaces w)"

lemma find_unique:
  assumes "inj_on f (set xs)" "x \<in> set xs"
  shows "find (\<lambda>y. f y = f x) xs = Some x"
proof (cases "find (\<lambda>y. f y = f x) xs")
  case None
  then show ?thesis using assms(2) by (auto simp: find_None_iff)
next
  case (Some y)
  then have "y \<in> set xs" "f y = f x" by (auto simp: find_Some_iff)
  then show ?thesis using Some assms inj_onD by metis
qed

lemma map_filter_map: "(\<And>m. m \<in> set ms \<Longrightarrow> h m = Some (g m)) \<Longrightarrow> List.map_filter h ms = map g ms"
  by (induction ms) simp_all

lemma map_filter_find:
  assumes "inj_on f (set xs)" "mset ms = filter_mset P (mset (map f xs))"
  shows "mset (List.map_filter (\<lambda>m. find (\<lambda>x. f x = m) xs) ms) = filter_mset (\<lambda>x. P (f x)) (mset xs)"
proof -
  define g where "g m = the (find (\<lambda>x. f x = m) xs)" for m
  have g: "g (f x) = x" if "x \<in> set xs" for x using find_unique [OF assms(1) that] by (simp add: g_def)
  have "\<exists>x \<in> set xs. m = f x" if "m \<in> set ms" for m
  proof -
    have "m \<in># filter_mset P (mset (map f xs))" using that assms(2) by (metis set_mset_mset)
    then show ?thesis by auto
  qed
  then have "find (\<lambda>x. f x = m) xs = Some (g m)" if "m \<in> set ms" for m
    using find_unique [OF assms(1)] that unfolding g_def by force
  then have "List.map_filter (\<lambda>m. find (\<lambda>x. f x = m) xs) ms = map g ms" by (rule map_filter_map)
  then have "mset (List.map_filter (\<lambda>m. find (\<lambda>x. f x = m) xs) ms) = image_mset g (filter_mset P (image_mset f (mset xs)))"
    using assms(2) by simp
  also have "\<dots> = image_mset (\<lambda>x. g (f x)) (filter_mset (\<lambda>x. P (f x)) (mset xs))"
    by (simp add: filter_mset_image_mset multiset.map_comp comp_def)
  also have "\<dots> = filter_mset (\<lambda>x. P (f x)) (mset xs)"
    using image_mset_cong [of "filter_mset (\<lambda>x. P (f x)) (mset xs)" "\<lambda>x. g (f x)" id] g by simp
  finally show ?thesis .
qed

lemma matching_inj: "named w \<Longrightarrow> inj_on ns_meta (set (matching_namespaces w labels))"
proof (rule inj_onI)
  fix x y
  assume w: "named w" and x: "x \<in> set (matching_namespaces w labels)" and y: "y \<in> set (matching_namespaces w labels)"
    and e: "ns_meta x = ns_meta y"
  have "map_of (sw_namespaces w) (ns_name z) = Some z" if "z \<in> set (matching_namespaces w labels)" for z
  proof -
    have "z \<in> (\<lambda>k. the (map_of (sw_namespaces w) k)) ` set (map fst (sw_namespaces w))"
      using that by (simp add: matching_namespaces_def list_namespaces_def)
    then obtain k where "k \<in> set (map fst (sw_namespaces w))" "z = the (map_of (sw_namespaces w) k)" by blast
    then have k: "map_of (sw_namespaces w) k = Some z" using map_of_conv_key [of "sw_namespaces w" k] by auto
    then have "ns_name z = k" using w by (auto simp: named_def list_all_iff dest: map_of_SomeD)
    then show ?thesis using k by simp
  qed
  then show "x = y" using x y e unfolding ns_name_def by (metis option.inject)
qed

lemma Authorize_path: "aa_isResourceRequest a \<Longrightarrow> fst (Authorize r (a\<lparr>aa_path := p\<rparr>)) = fst (Authorize r a)"
proof -
  assume a: "aa_isResourceRequest a"
  then have "RulesAllow (a\<lparr>aa_path := p\<rparr>) rs = RulesAllow a rs" for rs
    by (auto simp: RulesAllow_def RuleAllows_def combined_resource_def)
  then show ?thesis by (simp add: Authorize_events)
qed

section \<open>An example\<close>

text \<open>An account of one member with room for one space and one template instance per space.\<close>

definition ex_user :: user_info where "ex_user = \<lparr>ui_name = ''jane'', ui_groups = []\<rparr>"

definition ex_account :: account where
  "ex_account = \<lparr>ac_meta = empty_meta\<lparr>om_name := ''acme''\<rparr>,
     ac_spec = \<lparr>acs_space = \<lparr>as_clusterRole = None, as_limit = Some 1,
         as_templateInstances = [\<lparr>ati_meta = empty_meta, ati_spec = \<lparr>tis_template = ''t'', tis_sync = False, tis_parameters = []\<rparr>\<rparr>],
         as_spaceTemplate = empty_meta\<lparr>om_labels := [(''tier'', ''dev'')]\<rparr>\<rparr>,
       acs_subjects = [\<lparr>sj_kind = ''User'', sj_apiGroup = [], sj_name = ''jane'', sj_namespace = []\<rparr>]\<rparr>,
     ac_status = []\<rparr>"

definition ex_status :: "deployment_status \<Rightarrow> template_instance_status" where
  "ex_status s = \<lparr>tst_status = s, tst_message = [], tst_reason = [], tst_templateResourceVersion = [],
     tst_templateManifests = [], tst_lastAppliedAt = None\<rparr>"

definition ex_space_world :: "deployment_status \<Rightarrow> space_world" where
  "ex_space_world s = \<lparr>sw_namespaces = [], sw_accounts = [ex_account], sw_instances = [],
     sw_roles = \<lparr>stat_roles = [], stat_roleBindings = [],
       stat_clusterRoles = [\<lparr>ro_namespace = [], ro_name = ''admin'', ro_rules = [\<lparr>pr_verbs = [''get''], pr_apiGroups = [[]],
         pr_resources = [''namespaces''], pr_resourceNames = [], pr_nonResourceURLs = None\<rparr>]\<rparr>],
       stat_clusterRoleBindings = []\<rparr>,
     sw_agenda = [[], [(''s'', ex_status s)]], sw_faults = [], sw_revision = 1\<rparr>"

definition ex_attributes :: "string \<Rightarrow> string \<Rightarrow> auth_attributes" where
  "ex_attributes verb name = \<lparr>aa_user = ex_user, aa_verb = verb, aa_namespace = [], aa_apiGroup = ''tenancy.kiosk.sh'',
     aa_resource = ''spaces'', aa_subresource = [], aa_name = name, aa_path = ''/spaces'', aa_isResourceRequest = True\<rparr>"

definition ex_context :: "string \<Rightarrow> string \<Rightarrow> request_context" where
  "ex_context verb name = \<lparr>cx_user = Some ex_user, cx_attributes = Inr (ex_attributes verb name)\<rparr>"

definition ex_space :: space where
  "ex_space = \<lparr>sp_meta = empty_meta\<lparr>om_name := ''s''\<rparr>, sp_account = ''acme'', sp_finalizers = [], sp_phase = []\<rparr>"

definition ex_created :: "deployment_status \<Rightarrow> space_world \<times> (gerror + space)" where
  "ex_created s = space_Create world_space_client (ex_space_world s) (ex_context ''create'' []) ''uid'' (\<lambda>_. None) (Some ex_space)"

lemma ex_created_ok:
  "case ex_created Deployed of (w, r) \<Rightarrow> \<not> isl r \<and> map fst (sw_namespaces w) = [''s''] \<and> named w
     \<and> \<not> isl (space_List world_space_client w (ex_context ''list'' []) [])"
  by code_simp

lemma ex_created_failed: "case ex_created Failed of (w, r) \<Rightarrow> isl r \<and> map fst (sw_namespaces w) = [''s'']"
  by code_simp

section \<open>Properties\<close>

text \<open>Spaces and namespaces convert into each other without loss: a space without the account label comes back from
  its namespace unchanged, and a namespace keeps every label, the account label being that of the space.\<close>

lemma ConvertSpace_roundtrip:
  "(has_key (om_labels (sp_meta sp)) SpaceLabelAccount \<or> ConvertNamespace (ConvertSpace sp) = sp)
   \<and> ConvertNamespace (ConvertSpace (ConvertNamespace ns)) = ConvertNamespace ns
   \<and> label_value (om_labels (ns_meta (ConvertSpace (ConvertNamespace ns)))) k = label_value (om_labels (ns_meta ns)) k
   \<and> ConvertSpace (ConvertNamespace ns) = ns\<lparr>ns_meta := (ns_meta ns)\<lparr>om_labels := om_labels (ns_meta (ConvertSpace (ConvertNamespace ns)))\<rparr>\<rparr>"
proof -
  have d: "del k (put k v m) = del k m" for k :: string and v :: string and m
    by (simp add: delete_update_same)
  have "ConvertNamespace (ConvertSpace sp) = sp" if "\<not> has_key (om_labels (sp_meta sp)) SpaceLabelAccount"
    using that by (simp add: ConvertSpace_def ConvertNamespace_def d label_value_def map_of_put map_of_eq_None_iff)
  then show ?thesis
    by (auto simp: ConvertSpace_def ConvertNamespace_def d label_value_def map_of_put map_of_del delete_idem split: option.splits)
qed

text \<open>C18. Creating a space is guarded: unless the user may create namespaces, or is part of the account the space is
  for, and the account's limit leaves room, the request fails and nothing has changed.\<close>

theorem space_Create_guarded:
  "(\<exists>u a sp. cx_user ctx = Some u \<and> cx_attributes ctx = Inr a \<and> obj = Some sp \<and> may_create C w u a sp)
   \<or> fst (space_Create C w ctx uid val obj) = w \<and> isl (snd (space_Create C w ctx uid val obj))"
proof -
  obtain w' r where c: "space_Create C w ctx uid val obj = (w', r)" by force
  then show ?thesis
  proof (cases rule: space_Create_cases)
    case (2 u a sp0)
    then show ?thesis by (auto simp: may_create_def)
  next
    case (3 u a sp0 ac)
    then show ?thesis by (auto simp: may_create_def)
  qed (simp add: c)
qed

text \<open>C19. No request for a space takes an account over its limit: as many namespaces as the limit stay as many at most, as
  long as nobody else creates namespaces of the account between the check and the creation.\<close>

theorem space_Create_within_limit:
  assumes "account \<noteq> []" "sc_GetAccount world_space_client w account = Inr ac"
    "as_limit (acs_space (ac_spec ac)) = Some limit" "int (card (members (sw_view w) account)) \<le> limit"
  shows "int (card (members (sw_view (fst (space_Create world_space_client w ctx uid val obj))) account)) \<le> limit"
  by (rule spaces.space_Create_limit [OF prod.collapse [symmetric] assms])

theorem space_Create_within_limit_witness:
  "int (card (members (sw_view (fst (ex_created Deployed))) ''acme'')) \<le> 1"
proof -
  have g: "sc_GetAccount world_space_client (ex_space_world Deployed) ''acme'' = Inr ex_account"
    and l: "as_limit (acs_space (ac_spec ex_account)) = Some 1"
    by (simp_all add: world_space_client_def ex_space_world_def ex_account_def)
  have m: "int (card (members (sw_view (ex_space_world Deployed)) ''acme'')) \<le> 1"
    by (simp add: members_def sw_view_def ex_space_world_def)
  show ?thesis unfolding ex_created_def by (rule space_Create_within_limit [OF _ g l m]) simp
qed

text \<open>C20. A space that is created is one new namespace, which belongs to the account of the space, is not initializing
  any more, and in which a role binding grants the account's subjects the cluster role of the account.\<close>

theorem space_Create_owned:
  assumes "space_Create world_space_client w ctx uid val (Some sp) = (w', Inr sp')" "sp_account sp \<noteq> []"
  shows "\<exists>x ac. sw_view w (ns_name x) = None \<and> sw_view w' = (sw_view w)(ns_name x \<mapsto> x) \<and> sp' = ConvertNamespace x
    \<and> owned_by (sp_account sp) x \<and> map_of (om_annotations (ns_meta x)) SpaceAnnotationInitializing = None
    \<and> sc_GetAccount world_space_client w (sp_account sp) = Inr ac
    \<and> (GetClusterRoleFor ac = [] \<or> binding_key (account_role_binding (ns_name x) ac) \<in> sw_bound w')"
  using spaces.space_Create_view [OF assms(1)] assms(2) by (auto simp: created_def)

theorem space_Create_owned_witness:
  "\<exists>x. sw_view (fst (ex_created Deployed)) (ns_name x) = Some x \<and> owned_by ''acme'' x"
proof -
  obtain sp' where "ex_created Deployed = (fst (ex_created Deployed), Inr sp')"
    using ex_created_ok by (cases "ex_created Deployed"; cases "snd (ex_created Deployed)") auto
  from space_Create_owned [OF this [unfolded ex_created_def]] show ?thesis
    by (auto simp: ex_space_def ex_created_def)
qed


text \<open>The instances of the template fail, and the API server does not answer when the namespace is to be deleted.\<close>

definition ex_abandoned :: "space_world \<times> (gerror + space)" where
  "ex_abandoned = space_Create world_space_client
     ((ex_space_world Failed)\<lparr>sw_faults := [None, None, Some (OtherErr ''timeout'')]\<rparr>) (ex_context ''create'' []) ''uid'' (\<lambda>_. None) (Some ex_space)"

lemma ex_abandoned_run:
  "isl (snd ex_abandoned) \<and> map (\<lambda>(k, n). (k, ns_phase n)) (sw_namespaces (fst ex_abandoned)) = [(''s'', ''Active'')]"
  by code_simp


text \<open>The list of spaces is exact: it holds the spaces of the namespaces with the wanted labels which the user may get,
  each once.\<close>

lemma space_List_exact:
  assumes "space_List world_space_client w ctx labels = Inr xs" "cx_attributes ctx = Inr a" "named w"
  shows "mset xs = image_mset ConvertNamespace (filter_mset (may_get world_space_client w a) (mset (matching_namespaces w labels)))"
proof -
  define N where "N = matching_namespaces w labels"
  have l: "sc_ListNamespaces world_space_client w labels = Inr N" by (simp add: world_space_client_def N_def matching_namespaces_def)
  obtain metas where f: "filter_List (sc_Authorize world_space_client w) (Inr a) namespaces_gvr (Inr (map ns_meta N)) = Inr metas"
    and xs: "xs = map ConvertNamespace (List.map_filter (\<lambda>m. find (\<lambda>n. ns_meta n = m) N) metas)"
    using assms(1,2) l by (auto simp: space_List_def Let_def split: sum.splits)
  have u: "uniform_namespaces namespaces_gvr (map ns_meta N)" by (simp add: uniform_namespaces_def namespaces_gvr_def)
  have "mset metas = filter_mset (\<lambda>m. fst (sc_Authorize world_space_client w (object_attributes a namespaces_gvr m)) = DecisionAllow)
      (mset (map ns_meta N))" using filter_List_exact [OF f u] by simp
  from map_filter_find [OF matching_inj [OF assms(3), of labels, folded N_def] this]
  moreover have "may_get world_space_client w a = (\<lambda>n. fst (sc_Authorize world_space_client w
      (object_attributes a namespaces_gvr (ns_meta n))) = DecisionAllow)" by (simp add: fun_eq_iff may_get_def)
  ultimately show ?thesis by (simp add: xs N_def)
qed

theorem space_List_exact_witness:
  "\<exists>xs. space_List world_space_client (fst (ex_created Deployed)) (ex_context ''list'' []) [] = Inr xs
    \<and> mset xs = image_mset ConvertNamespace (filter_mset
        (may_get world_space_client (fst (ex_created Deployed)) (ex_attributes ''list'' []))
        (mset (matching_namespaces (fst (ex_created Deployed)) [])))"
proof -
  have l: "\<not> isl (space_List world_space_client (fst (ex_created Deployed)) (ex_context ''list'' []) [])"
    and n: "named (fst (ex_created Deployed))" using ex_created_ok by (cases "ex_created Deployed"; simp)+
  from l obtain xs where xs: "space_List world_space_client (fst (ex_created Deployed)) (ex_context ''list'' []) [] = Inr xs"
    by (cases "space_List world_space_client (fst (ex_created Deployed)) (ex_context ''list'' []) []") auto
  have c: "cx_attributes (ex_context ''list'' []) = Inr (ex_attributes ''list'' [])" by (simp add: ex_context_def)
  show ?thesis using space_List_exact [OF xs c n] xs by auto
qed

text \<open>Watching shows what reading shows: an event is delivered exactly if its labels are selected and the user's own
  request for the space would return it.\<close>

lemma watch_agrees_with_get:
  assumes "sc_GetNamespace C w name = Inr n" "ns_name n = name"
    "cx_attributes ctx = Inr \<lparr>aa_user = u, aa_verb = ''get'', aa_namespace = [], aa_apiGroup = grp, aa_resource = ''spaces'',
       aa_subresource = [], aa_name = name, aa_path = p, aa_isResourceRequest = True\<rparr>"
  shows "watcher_Observe (sc_Resolver C w) \<lparr>wt_user = u, wt_selector = sel\<rparr> (ty, Some n) =
    (if space_Get C w ctx name = Inr (ConvertNamespace n)
        \<and> (case sel of None \<Rightarrow> True | Some f \<Rightarrow> f (om_labels (sp_meta (ConvertNamespace n))))
     then Some (ty, ConvertNamespace n) else None)"
proof -
  define a where "a = \<lparr>aa_user = u, aa_verb = ''get'', aa_namespace = name, aa_apiGroup = [], aa_resource = ''namespaces'',
       aa_subresource = [], aa_name = name, aa_path = [], aa_isResourceRequest = True\<rparr>"
  have nm: "om_name (sp_meta (ConvertNamespace n)) = name" using assms(2) by (simp add: ConvertNamespace_def ns_name_def)
  have noerr: "snd (snd (Authorize r b)) = None" for r b by (simp add: Authorize_def Let_def)
  have same: "fst (Authorize (sc_Resolver C w) (a\<lparr>aa_path := p\<rparr>)) = fst (Authorize (sc_Resolver C w) a)"
    by (rule Authorize_path) (simp add: a_def)
  have get: "space_Get C w ctx name = (if fst (Authorize (sc_Resolver C w) a) = DecisionAllow
      then Inr (ConvertNamespace n) else Inl (NotFoundErr name))"
    using assms(1,3) same noerr [of "sc_Resolver C w" "a\<lparr>aa_path := p\<rparr>"]
    by (auto simp: space_Get_def authorize_namespace_def ChangeAttributesResource_def namespaces_gvr_def a_def
        split: prod.splits option.splits)
  have obs: "watcher_Observe (sc_Resolver C w) \<lparr>wt_user = u, wt_selector = sel\<rparr> (ty, Some n) =
     (if fst (Authorize (sc_Resolver C w) a) = DecisionAllow
         \<and> (case sel of None \<Rightarrow> True | Some f \<Rightarrow> f (om_labels (sp_meta (ConvertNamespace n))))
      then Some (ty, ConvertNamespace n) else None)"
    using noerr [of "sc_Resolver C w" a] nm
    by (auto simp: watcher_Observe_def Let_def a_def split: prod.splits option.splits)
  show ?thesis unfolding obs get by simp
qed

definition ex_ns_s :: namespace where
  "ex_ns_s = \<lparr>ns_meta = empty_meta\<lparr>om_name := ''s''\<rparr>, ns_finalizers = [], ns_phase = ''Active''\<rparr>"

definition ex_watch_world :: space_world where
  "ex_watch_world = (ex_space_world Deployed)\<lparr>sw_namespaces := [(''s'', ex_ns_s)]\<rparr>"

theorem watch_agrees_with_get_witness:
  "watcher_Observe (sc_Resolver world_space_client ex_watch_world) \<lparr>wt_user = ex_user, wt_selector = None\<rparr> (WAdded, Some ex_ns_s) =
    (if space_Get world_space_client ex_watch_world (ex_context ''get'' ''s'') ''s'' = Inr (ConvertNamespace ex_ns_s)
     then Some (WAdded, ConvertNamespace ex_ns_s) else None)"
proof -
  have g: "sc_GetNamespace world_space_client ex_watch_world ''s'' = Inr ex_ns_s"
    by (simp add: world_space_client_def ex_watch_world_def found_in_def)
  have n: "ns_name ex_ns_s = ''s''" by (simp add: ex_ns_s_def ns_name_def empty_meta_def)
  have c: "cx_attributes (ex_context ''get'' ''s'') = Inr \<lparr>aa_user = ex_user, aa_verb = ''get'', aa_namespace = [],
      aa_apiGroup = ''tenancy.kiosk.sh'', aa_resource = ''spaces'', aa_subresource = [], aa_name = ''s'', aa_path = ''/spaces'',
      aa_isResourceRequest = True\<rparr>" by (simp add: ex_context_def ex_attributes_def)
  show ?thesis using watch_agrees_with_get [OF g n c, of None WAdded] by simp
qed

end
