(* ===== verification/AccountController.thy ===== *)
theory AccountController
  imports AccountQuotaController Spaces
begin

text \<open>
  The controller of accounts (\<open>pkg/manager/controllers/account_controller.go\<close>) with the cluster roles it keeps
  (\<open>pkg/util/clusterrole/helper.go\<close>, \<open>CreateWithOwner\<close>): every account gets one cluster role, bound to the members of
  the account, the role bindings in its spaces follow its members, and its status lists its namespaces. Namespace
  events wake the accounts concerned. The client is a parameter; the locale \<open>rbac_store\<close> states what it does to the
  objects, and a world of objects by name is its instance.
\<close>

section \<open>Objects and the client\<close>

record cluster_role =
  clr_meta :: obj_meta
  clr_rules :: "policy_rule list"

text \<open>A role binding or, without a namespace, a cluster role binding.\<close>

record rbac_binding =
  rbb_meta :: obj_meta
  rbb_subjects :: "subject list"
  rbb_roleRef :: role_ref

text \<open>The lists are those of \<open>MatchingFields\{IndexByAccount: name\}\<close>.\<close>

record 'w reconcile_client =
  rc_GetAccount :: "'w \<Rightarrow> string \<Rightarrow> gerror + account"
  rc_ListNamespaces :: "'w \<Rightarrow> string \<Rightarrow> gerror + namespace list"
  rc_ListRoleBindings :: "'w \<Rightarrow> string \<Rightarrow> gerror + rbac_binding list"
  rc_ListClusterRoles :: "'w \<Rightarrow> string \<Rightarrow> gerror + cluster_role list"
  rc_ListClusterRoleBindings :: "'w \<Rightarrow> string \<Rightarrow> gerror + rbac_binding list"
  rc_UpdateRoleBinding :: "'w \<Rightarrow> rbac_binding \<Rightarrow> 'w \<times> gerror option"
  rc_UpdateClusterRole :: "'w \<Rightarrow> cluster_role \<Rightarrow> 'w \<times> gerror option"
  rc_DeleteClusterRole :: "'w \<Rightarrow> cluster_role \<Rightarrow> 'w \<times> gerror option"
  rc_CreateClusterRole :: "'w \<Rightarrow> cluster_role \<Rightarrow> 'w \<times> (gerror + cluster_role)"
  rc_UpdateClusterRoleBinding :: "'w \<Rightarrow> rbac_binding \<Rightarrow> 'w \<times> gerror option"
  rc_DeleteClusterRoleBinding :: "'w \<Rightarrow> rbac_binding \<Rightarrow> 'w \<times> gerror option"
  rc_CreateClusterRoleBinding :: "'w \<Rightarrow> rbac_binding \<Rightarrow> 'w \<times> (gerror + rbac_binding)"
  rc_UpdateStatus :: "'w \<Rightarrow> account \<Rightarrow> 'w \<times> gerror option"
  rc_SetControllerReference :: "account \<Rightarrow> obj_meta \<Rightarrow> gerror + obj_meta"

section \<open>Cluster roles and their bindings\<close>

fun SyncClusterRoles ::
  "'w reconcile_client \<Rightarrow> 'w \<Rightarrow> policy_rule list \<Rightarrow> bool \<Rightarrow> cluster_role list \<Rightarrow> cluster_role list \<Rightarrow>
   'w \<times> (gerror + cluster_role list)"
where
  "SyncClusterRoles C w rules deleteExcess [] roles = (w, Inr roles)"
| "SyncClusterRoles C w rules deleteExcess (clusterRole # clusterRoles) roles =
    (if deleteExcess \<and> length roles > 0 then
       (case rc_DeleteClusterRole C w clusterRole of
          (w, Some err) \<Rightarrow> (w, Inl err)
        | (w, None) \<Rightarrow> SyncClusterRoles C w rules deleteExcess clusterRoles roles)
     else if clr_rules clusterRole \<noteq> rules then
       (case rc_UpdateClusterRole C w (clusterRole\<lparr>clr_rules := rules\<rparr>) of
          (w, Some err) \<Rightarrow> (w, Inl err)
        | (w, None) \<Rightarrow> SyncClusterRoles C w rules deleteExcess clusterRoles (roles @ [clusterRole\<lparr>clr_rules := rules\<rparr>]))
     else SyncClusterRoles C w rules deleteExcess clusterRoles (roles @ [clusterRole]))"

fun SyncClusterRoleBindings ::
  "'w reconcile_client \<Rightarrow> 'w \<Rightarrow> string \<Rightarrow> subject list \<Rightarrow> bool \<Rightarrow> rbac_binding list \<Rightarrow> rbac_binding list \<Rightarrow>
   'w \<times> (gerror + rbac_binding list)"
where
  "SyncClusterRoleBindings C w clusterRoleName subjects deleteExcess [] bindings = (w, Inr bindings)"
| "SyncClusterRoleBindings C w clusterRoleName subjects deleteExcess (crb # crbs) bindings =
    (if rr_name (rbb_roleRef crb) \<noteq> clusterRoleName \<or> rr_kind (rbb_roleRef crb) \<noteq> ''ClusterRole''
        \<or> deleteExcess \<and> length bindings > 0 then
       (case rc_DeleteClusterRoleBinding C w crb of
          (w, Some err) \<Rightarrow> (w, Inl err)
        | (w, None) \<Rightarrow> SyncClusterRoleBindings C w clusterRoleName subjects deleteExcess crbs bindings)
     else if rbb_subjects crb \<noteq> subjects then
       (case rc_UpdateClusterRoleBinding C w (crb\<lparr>rbb_subjects := subjects\<rparr>) of
          (w, Some err) \<Rightarrow> (w, Inl err)
        | (w, None) \<Rightarrow> SyncClusterRoleBindings C w clusterRoleName subjects deleteExcess crbs
            (bindings @ [crb\<lparr>rbb_subjects := subjects\<rparr>]))
     else SyncClusterRoleBindings C w clusterRoleName subjects deleteExcess crbs (bindings @ [crb]))"

text \<open>\<open>clienthelper.CreateWithOwner\<close>, with the creation and the metadata of the object as arguments.\<close>

definition CreateWithOwner ::
  "'w reconcile_client \<Rightarrow> account \<Rightarrow> obj_meta \<Rightarrow> (obj_meta \<Rightarrow> 'w \<times> (gerror + 'o)) \<Rightarrow> 'w \<Rightarrow> 'w \<times> (gerror + 'o)"
where
  "CreateWithOwner C owner objectMeta create w =
    (case rc_SetControllerReference C owner objectMeta of
       Inl err \<Rightarrow> (w, Inl err)
     | Inr m \<Rightarrow> create m)"

definition RBACGenerateName :: "account \<Rightarrow> string" where
  "RBACGenerateName ac =
    (let name = om_name (ac_meta ac);
         name = (if length name > 42 then take 42 name else name)
     in ''kiosk-account-'' @ name @ ''-'')"

definition tenancy_group :: string where "tenancy_group = ''tenancy.kiosk.sh''"

definition getClusterRoleRules :: "account \<Rightarrow> policy_rule list" where
  "getClusterRoleRules ac =
    [empty_rule\<lparr>pr_verbs := [''list''], pr_apiGroups := [tenancy_group], pr_resources := [''accounts'', ''spaces'']\<rparr>,
     empty_rule\<lparr>pr_verbs := [''get''], pr_apiGroups := [tenancy_group], pr_resources := [''spaces'']\<rparr>,
     empty_rule\<lparr>pr_verbs := [''get''], pr_apiGroups := [tenancy_group], pr_resources := [''accounts''],
       pr_resourceNames := [om_name (ac_meta ac)]\<rparr>]"

text \<open>The loops that give the bindings the subjects of the account; the second one also looks for the role.\<close>

fun sync_subjects ::
  "('w \<Rightarrow> rbac_binding \<Rightarrow> 'w \<times> gerror option) \<Rightarrow> subject list \<Rightarrow> rbac_binding list \<Rightarrow> 'w \<Rightarrow> 'w \<times> gerror option"
where
  "sync_subjects update subjects [] w = (w, None)"
| "sync_subjects update subjects (crb # crbs) w =
    (if rbb_subjects crb \<noteq> subjects then
       (case update w (crb\<lparr>rbb_subjects := subjects\<rparr>) of
          (w, Some err) \<Rightarrow> (w, Some err)
        | (w, None) \<Rightarrow> sync_subjects update subjects crbs w)
     else sync_subjects update subjects crbs w)"

definition syncRoleBindings :: "'w reconcile_client \<Rightarrow> 'w \<Rightarrow> account \<Rightarrow> 'w \<times> gerror option" where
  "syncRoleBindings C w ac =
    (case rc_ListRoleBindings C w (om_name (ac_meta ac)) of
       Inl err \<Rightarrow> (w, Some err)
     | Inr roleBindings \<Rightarrow> sync_subjects (rc_UpdateRoleBinding C) (acs_subjects (ac_spec ac)) roleBindings w)"

definition create_cluster_role :: "'w reconcile_client \<Rightarrow> 'w \<Rightarrow> account \<Rightarrow> 'w \<times> (gerror + cluster_role)" where
  "create_cluster_role C w ac =
    CreateWithOwner C ac (empty_meta\<lparr>om_generateName := RBACGenerateName ac\<rparr>)
      (\<lambda>m. rc_CreateClusterRole C w \<lparr>clr_meta = m, clr_rules = getClusterRoleRules ac\<rparr>) w"

definition create_cluster_role_binding ::
  "'w reconcile_client \<Rightarrow> 'w \<Rightarrow> account \<Rightarrow> string \<Rightarrow> 'w \<times> (gerror + rbac_binding)"
where
  "create_cluster_role_binding C w ac roleName =
    CreateWithOwner C ac (empty_meta\<lparr>om_generateName := RBACGenerateName ac\<rparr>)
      (\<lambda>m. rc_CreateClusterRoleBinding C w \<lparr>rbb_meta = m, rbb_subjects = acs_subjects (ac_spec ac),
         rbb_roleRef = \<lparr>rr_apiGroup = ''rbac.authorization.k8s.io'', rr_kind = ''ClusterRole'', rr_name = roleName\<rparr>\<rparr>) w"

text \<open>The cluster roles of the account, at least one, or the error.\<close>

definition ensure_cluster_role :: "'w reconcile_client \<Rightarrow> 'w \<Rightarrow> account \<Rightarrow> 'w \<times> (gerror + cluster_role list)" where
  "ensure_cluster_role C w ac =
    (case rc_ListClusterRoles C w (om_name (ac_meta ac)) of
       Inl err \<Rightarrow> (w, Inl err)
     | Inr items \<Rightarrow>
         (case SyncClusterRoles C w (getClusterRoleRules ac) True items [] of
            (w, Inl err) \<Rightarrow> (w, Inl err)
          | (w, Inr clusterRoles) \<Rightarrow>
              if length clusterRoles = 0 then
                (case create_cluster_role C w ac of
                   (w, Inl err) \<Rightarrow> (w, Inl err)
                 | (w, Inr clusterRole) \<Rightarrow> (w, Inr [clusterRole]))
              else (w, Inr clusterRoles)))"

text \<open>The loop breaks off at the first error, \<open>found\<close> is then of no interest.\<close>

definition sync_cluster_role_bindings :: "'w reconcile_client \<Rightarrow> 'w \<Rightarrow> account \<Rightarrow> string \<Rightarrow> 'w \<times> gerror option" where
  "sync_cluster_role_bindings C w ac roleName =
    (case rc_ListClusterRoleBindings C w (om_name (ac_meta ac)) of
       Inl err \<Rightarrow> (w, Some err)
     | Inr items \<Rightarrow>
         (case sync_subjects (rc_UpdateClusterRoleBinding C) (acs_subjects (ac_spec ac)) items w of
            (w, Some err) \<Rightarrow> (w, Some err)
          | (w, None) \<Rightarrow>
              if \<not> list_ex (\<lambda>crb. rr_name (rbb_roleRef crb) = roleName) items then
                (case create_cluster_role_binding C w ac roleName of
                   (w, Inl err) \<Rightarrow> (w, Some err)
                 | (w, Inr _) \<Rightarrow> (w, None))
              else (w, None)))"

definition syncClusterRoles :: "'w reconcile_client \<Rightarrow> 'w \<Rightarrow> account \<Rightarrow> 'w \<times> gerror option" where
  "syncClusterRoles C w ac =
    (case ensure_cluster_role C w ac of
       (w, Inl err) \<Rightarrow> (w, Some err)
     | (w, Inr clusterRoles) \<Rightarrow> sync_cluster_role_bindings C w ac (om_name (clr_meta (hd clusterRoles))))"

section \<open>Reconciliation\<close>

text \<open>
  \<open>Semantic.DeepEqual\<close> is false for values of different types. The old status is a pointer already
  (\<open>DeepCopy\<close> returns one), so that \<open>&oldStatus\<close> is a pointer to a pointer.
\<close>

datatype status_arg = StatusPtr "string list" | StatusPtrPtr "string list"

fun DeepEqual_status :: "status_arg \<Rightarrow> status_arg \<Rightarrow> bool" where
  "DeepEqual_status (StatusPtr s) (StatusPtr t) \<longleftrightarrow> s = t"
| "DeepEqual_status (StatusPtrPtr s) (StatusPtrPtr t) \<longleftrightarrow> s = t"
| "DeepEqual_status _ _ \<longleftrightarrow> False"

definition account_Reconcile :: "'w reconcile_client \<Rightarrow> 'w \<Rightarrow> string \<Rightarrow> 'w \<times> gerror option" where
  "account_Reconcile C w name =
    (case rc_GetAccount C w name of
       Inl err \<Rightarrow> (w, if IsNotFound err then None else Some err)
     | Inr account \<Rightarrow>
         (case rc_ListNamespaces C w (om_name (ac_meta account)) of
            Inl err \<Rightarrow> (w, Some err)
          | Inr namespaceList \<Rightarrow>
              (case syncRoleBindings C w account of
                 (w, Some err) \<Rightarrow> (w, Some err)
               | (w, None) \<Rightarrow>
                   (case syncClusterRoles C w account of
                      (w, Some err) \<Rightarrow> (w, Some err)
                    | (w, None) \<Rightarrow>
                        let oldStatus = ac_status account;
                            account = account\<lparr>ac_status := map (\<lambda>n. om_name (ns_meta n)) namespaceList\<rparr>
                        in if \<not> DeepEqual_status (StatusPtrPtr oldStatus) (StatusPtr (ac_status account))
                           then rc_UpdateStatus C w account
                           else (w, None)))))"

section \<open>Events of namespaces\<close>

text \<open>The handler adds the names of accounts to the queue. Labels are nil where the metadata has none.\<close>

definition handleEvent :: "obj_meta option \<Rightarrow> string list \<Rightarrow> string list" where
  "handleEvent meta q =
    (case meta of
       None \<Rightarrow> q
     | Some m \<Rightarrow>
         (case map_of (om_labels m) SpaceLabelAccount of
            Some owner \<Rightarrow> if owner \<noteq> [] then q @ [owner] else q
          | None \<Rightarrow> q))"

datatype namespace_event =
    NamespaceCreated obj_meta
  | NamespaceUpdated obj_meta obj_meta
  | NamespaceDeleted obj_meta
  | NamespaceGeneric obj_meta

fun handle_namespace_event :: "namespace_event \<Rightarrow> string list \<Rightarrow> string list" where
  "handle_namespace_event (NamespaceCreated m) q = handleEvent (Some m) q"
| "handle_namespace_event (NamespaceUpdated old new) q =
     (if GetAccountFromNamespace old = GetAccountFromNamespace new then q
      else handleEvent (Some new) (handleEvent (Some old) q))"
| "handle_namespace_event (NamespaceDeleted m) q = handleEvent (Some m) q"
| "handle_namespace_event (NamespaceGeneric m) q = handleEvent (Some m) q"

section \<open>What the reconciliation is to establish\<close>

text \<open>
  The objects as the API server holds them: owners (the keys under which \<open>IndexByAccount\<close> finds them) with rules, or
  with subjects and role; the namespaces with the accounts they belong to; the statuses of the accounts.
\<close>

datatype object_name = ObjectName string string

record account_rbac =
  v_roles :: "string \<Rightarrow> (string list \<times> policy_rule list) option"
  v_clusterBindings :: "string \<Rightarrow> (string list \<times> subject list \<times> role_ref) option"
  v_bindings :: "object_name \<Rightarrow> (string list \<times> subject list \<times> role_ref) option"
  v_spaces :: "string \<Rightarrow> string list option"
  v_status :: "string \<Rightarrow> string list option"

definition role_item :: "cluster_role \<Rightarrow> string list \<times> policy_rule list" where
  "role_item x = (index_by_controller (clr_meta x), clr_rules x)"

definition binding_item :: "rbac_binding \<Rightarrow> string list \<times> subject list \<times> role_ref" where
  "binding_item b = (index_by_controller (rbb_meta b), rbb_subjects b, rbb_roleRef b)"

definition role_name :: "cluster_role \<Rightarrow> string" where "role_name x = om_name (clr_meta x)"

definition clusterBinding_name :: "rbac_binding \<Rightarrow> string" where "clusterBinding_name b = om_name (rbb_meta b)"

definition binding_name :: "rbac_binding \<Rightarrow> object_name" where
  "binding_name b = ObjectName (om_namespace (rbb_meta b)) (om_name (rbb_meta b))"

definition owned :: "string \<Rightarrow> ('n \<Rightarrow> (string list \<times> 'i) option) \<Rightarrow> 'n set" where
  "owned a f = {n. \<exists>i. f n = Some i \<and> a \<in> set (fst i)}"

text \<open>A list of the objects of an account: each once, as it is stored, and no other.\<close>

definition lists_owned :: "('o \<Rightarrow> 'n) \<Rightarrow> ('o \<Rightarrow> string list \<times> 'i) \<Rightarrow> string \<Rightarrow> ('n \<Rightarrow> (string list \<times> 'i) option) \<Rightarrow> 'o list \<Rightarrow> bool" where
  "lists_owned name item a f xs \<longleftrightarrow>
    distinct (map name xs) \<and> (\<forall>x \<in> set xs. f (name x) = Some (item x)) \<and> name ` set xs = owned a f"

text \<open>
  The account is settled: it owns one cluster role with its rules, a cluster role binding to this role, its bindings
  name its members, and its status lists its namespaces.
\<close>

definition account_settled :: "account_rbac \<Rightarrow> account \<Rightarrow> bool" where
  "account_settled v ac \<longleftrightarrow>
    (let a = om_name (ac_meta ac); subjects = acs_subjects (ac_spec ac) in
     (\<exists>n os. owned a (v_roles v) = {n} \<and> v_roles v n = Some (os, getClusterRoleRules ac)
        \<and> (\<exists>m \<in> owned a (v_clusterBindings v). rr_name (snd (snd (the (v_clusterBindings v m)))) = n))
     \<and> (\<forall>m \<in> owned a (v_clusterBindings v). fst (snd (the (v_clusterBindings v m))) = subjects)
     \<and> (\<forall>m \<in> owned a (v_bindings v). fst (snd (the (v_bindings v m))) = subjects)
     \<and> (\<exists>names. v_status v a = Some names \<and> set names = {n. \<exists>ks. v_spaces v n = Some ks \<and> a \<in> set ks}))"

text \<open>What belongs to other accounts, or to none, stays as it is.\<close>

definition keeps_others :: "string \<Rightarrow> ('n \<Rightarrow> (string list \<times> 'i) option) \<Rightarrow> ('n \<Rightarrow> (string list \<times> 'i) option) \<Rightarrow> bool" where
  "keeps_others a f g \<longleftrightarrow> (\<forall>n i. f n = Some i \<and> a \<notin> set (fst i) \<longrightarrow> g n = Some i)"

definition others_untouched :: "account_rbac \<Rightarrow> account_rbac \<Rightarrow> string \<Rightarrow> bool" where
  "others_untouched v v' a \<longleftrightarrow>
    keeps_others a (v_roles v) (v_roles v') \<and> keeps_others a (v_clusterBindings v) (v_clusterBindings v')
    \<and> keeps_others a (v_bindings v) (v_bindings v') \<and> v_spaces v' = v_spaces v
    \<and> (\<forall>b. b \<noteq> a \<longrightarrow> v_status v' b = v_status v b)"

lemma name_with_subjects [simp]: "binding_name (x\<lparr>rbb_subjects := ss\<rparr>) = binding_name x"
  "clusterBinding_name (x\<lparr>rbb_subjects := ss\<rparr>) = clusterBinding_name x"
  by (simp_all add: binding_name_def clusterBinding_name_def)

lemma keeps_others_refl [simp]: "keeps_others a f f"
  by (simp add: keeps_others_def)

lemma keeps_others_trans: "keeps_others a f g \<Longrightarrow> keeps_others a g h \<Longrightarrow> keeps_others a f h"
  by (auto simp: keeps_others_def)

section \<open>The loop over the bindings\<close>

definition with_subjects :: "subject list \<Rightarrow> string list \<times> subject list \<times> role_ref \<Rightarrow> string list \<times> subject list \<times> role_ref" where
  "with_subjects ss i = (fst i, ss, snd (snd i))"

lemma sync_subjects_items:
  assumes update: "\<And>w w' x. update w x = (w', None) \<Longrightarrow> f w' = (f w)(name x \<mapsto> binding_item x) \<and> rest w' = rest w"
    and name: "\<And>x. name (x\<lparr>rbb_subjects := ss\<rparr>) = name x"
    and "distinct (map name items)" "\<And>x. x \<in> set items \<Longrightarrow> f w (name x) = Some (binding_item x)"
    and "sync_subjects update ss items w = (w', None)"
  shows "f w' = (\<lambda>n. if n \<in> name ` set items then map_option (with_subjects ss) (f w n) else f w n) \<and> rest w' = rest w"
  using assms(3-)
proof (induction items arbitrary: w)
  case (Cons x items)
  have fx: "f w (name x) = Some (binding_item x)" using Cons.prems(2) by simp
  show ?case
  proof (cases "rbb_subjects x = ss")
    case True
    then have "with_subjects ss (binding_item x) = binding_item x" by (simp add: with_subjects_def binding_item_def)
    moreover have "f w' = (\<lambda>n. if n \<in> name ` set items then map_option (with_subjects ss) (f w n) else f w n) \<and> rest w' = rest w"
      using Cons True by simp
    ultimately show ?thesis using fx by auto
  next
    case False
    obtain w1 where u: "update w (x\<lparr>rbb_subjects := ss\<rparr>) = (w1, None)" "sync_subjects update ss items w1 = (w', None)"
      using False Cons.prems(3) by (auto split: prod.splits option.splits)
    have f1: "f w1 = (f w)(name x \<mapsto> binding_item (x\<lparr>rbb_subjects := ss\<rparr>))" "rest w1 = rest w"
      using update [OF u(1)] name by simp_all
    have "\<And>y. y \<in> set items \<Longrightarrow> f w1 (name y) = Some (binding_item y)"
      using Cons.prems(1,2) by (auto simp: f1) (metis image_eqI)
    then have "f w' = (\<lambda>n. if n \<in> name ` set items then map_option (with_subjects ss) (f w1 n) else f w1 n) \<and> rest w' = rest w1"
      using Cons.IH u(2) Cons.prems(1) by simp
    moreover have "binding_item (x\<lparr>rbb_subjects := ss\<rparr>) = with_subjects ss (binding_item x)"
      by (simp add: with_subjects_def binding_item_def)
    ultimately show ?thesis using fx Cons.prems(1) by (auto simp: f1)
  qed
qed simp

text \<open>Without a difference nothing is written.\<close>

lemma sync_subjects_settled: "\<forall>x \<in> set items. rbb_subjects x = ss \<Longrightarrow> sync_subjects update ss items w = (w, None)"
  by (induction items) auto

lemma lists_owned_item: "lists_owned name item a f xs \<Longrightarrow> x \<in> set xs \<Longrightarrow> a \<in> set (fst (item x))"
proof -
  assume l: "lists_owned name item a f xs" and x: "x \<in> set xs"
  then have "name x \<in> owned a f" "f (name x) = Some (item x)" by (auto simp: lists_owned_def)
  then show ?thesis by (auto simp: owned_def)
qed

lemma owned_with_subjects:
  assumes "lists_owned name binding_item a f items"
    and "g = (\<lambda>n. if n \<in> name ` set items then map_option (with_subjects ss) (f n) else f n)"
  shows "owned a g = owned a f" "\<forall>m \<in> owned a g. fst (snd (the (g m))) = ss" "keeps_others a f g"
    "\<And>m. snd (snd (the (f m))) = snd (snd (the (g m))) \<or> f m = None"
  using assms by (auto simp: lists_owned_def owned_def keeps_others_def with_subjects_def)

section \<open>The client's interface\<close>

locale rbac_store =
  fixes C :: "'w reconcile_client" and view :: "'w \<Rightarrow> account_rbac"
  assumes Account_ok: "rc_GetAccount C w a = Inr ac \<Longrightarrow>
      om_name (ac_meta ac) = a \<and> v_status (view w) a = Some (ac_status ac)"
    and Namespaces_ok: "rc_ListNamespaces C w a = Inr ns \<Longrightarrow>
      (\<lambda>n. om_name (ns_meta n)) ` set ns = {n. \<exists>ks. v_spaces (view w) n = Some ks \<and> a \<in> set ks}"
    and Bindings_ok: "rc_ListRoleBindings C w a = Inr bs \<Longrightarrow> lists_owned binding_name binding_item a (v_bindings (view w)) bs"
    and Roles_ok: "rc_ListClusterRoles C w a = Inr rs \<Longrightarrow> lists_owned role_name role_item a (v_roles (view w)) rs"
    and ClusterBindings_ok: "rc_ListClusterRoleBindings C w a = Inr cs \<Longrightarrow>
      lists_owned clusterBinding_name binding_item a (v_clusterBindings (view w)) cs"
    and UpdateBinding_ok: "rc_UpdateRoleBinding C w b = (w', None) \<Longrightarrow>
      view w' = (view w)\<lparr>v_bindings := (v_bindings (view w))(binding_name b \<mapsto> binding_item b)\<rparr>"
    and UpdateRole_ok: "rc_UpdateClusterRole C w r = (w', None) \<Longrightarrow>
      view w' = (view w)\<lparr>v_roles := (v_roles (view w))(role_name r \<mapsto> role_item r)\<rparr>"
    and DeleteRole_ok: "rc_DeleteClusterRole C w r = (w', None) \<Longrightarrow>
      view w' = (view w)\<lparr>v_roles := (v_roles (view w))(role_name r := None)\<rparr>"
    and CreateRole_ok: "rc_CreateClusterRole C w r = (w', Inr r') \<Longrightarrow> v_roles (view w) (role_name r') = None \<and>
      view w' = (view w)\<lparr>v_roles := (v_roles (view w))(role_name r' \<mapsto> role_item r)\<rparr>"
    and UpdateClusterBinding_ok: "rc_UpdateClusterRoleBinding C w b = (w', None) \<Longrightarrow>
      view w' = (view w)\<lparr>v_clusterBindings := (v_clusterBindings (view w))(clusterBinding_name b \<mapsto> binding_item b)\<rparr>"
    and CreateClusterBinding_ok: "rc_CreateClusterRoleBinding C w b = (w', Inr b') \<Longrightarrow>
      v_clusterBindings (view w) (clusterBinding_name b') = None \<and>
      view w' = (view w)\<lparr>v_clusterBindings := (v_clusterBindings (view w))(clusterBinding_name b' \<mapsto> binding_item b)\<rparr>"
    and UpdateStatus_ok: "rc_UpdateStatus C w ac = (w', None) \<Longrightarrow>
      view w' = (view w)\<lparr>v_status := (v_status (view w))(om_name (ac_meta ac) \<mapsto> ac_status ac)\<rparr>"
    and SetController_ok: "rc_SetControllerReference C ac m = Inr m' \<Longrightarrow> index_by_controller m' = [om_name (ac_meta ac)]"
begin

lemma delete_excess:
  "SyncClusterRoles C w rules True xs roles = (w', Inr rs) \<Longrightarrow> roles \<noteq> [] \<Longrightarrow>
   rs = roles \<and> view w' = (view w)\<lparr>v_roles := v_roles (view w) |` (- role_name ` set xs)\<rparr>"
proof (induction xs arbitrary: w)
  case Nil
  then show ?case by simp
next
  case (Cons x xs)
  then obtain w1 where d: "rc_DeleteClusterRole C w x = (w1, None)" "SyncClusterRoles C w1 rules True xs roles = (w', Inr rs)"
    by (auto split: prod.splits option.splits)
  from Cons.IH [OF d(2) Cons.prems(2)] have "rs = roles"
    and v: "view w' = (view w1)\<lparr>v_roles := v_roles (view w1) |` (- role_name ` set xs)\<rparr>" by blast+
  have e: "v_roles (view w1) |` (- role_name ` set xs) = v_roles (view w) |` (- role_name ` set (x # xs))"
    by (auto simp: DeleteRole_ok [OF d(1)] restrict_map_def fun_eq_iff)
  show ?case unfolding v e using \<open>rs = roles\<close> by (simp add: DeleteRole_ok [OF d(1)])
qed

lemma sync_first:
  assumes "SyncClusterRoles C w rules True (x # xs) [] = (w', Inr rs)" "v_roles (view w) (role_name x) = Some (role_item x)"
  shows "(\<exists>r. rs = [r] \<and> role_name r = role_name x) \<and>
    view w' = (view w)\<lparr>v_roles := (v_roles (view w))(role_name x \<mapsto> (fst (role_item x), rules)) |` (- role_name ` set xs)\<rparr>"
proof (cases "clr_rules x = rules")
  case True
  then have "SyncClusterRoles C w rules True xs [x] = (w', Inr rs)" using assms(1) by simp
  from delete_excess [OF this] have "rs = [x]" "view w' = (view w)\<lparr>v_roles := v_roles (view w) |` (- role_name ` set xs)\<rparr>"
    by simp_all
  moreover have "(v_roles (view w))(role_name x \<mapsto> (fst (role_item x), rules)) = v_roles (view w)"
    using assms(2) True by (simp add: role_item_def fun_upd_idem)
  ultimately show ?thesis by simp
next
  case False
  then obtain w1 where u: "rc_UpdateClusterRole C w (x\<lparr>clr_rules := rules\<rparr>) = (w1, None)"
    "SyncClusterRoles C w1 rules True xs [x\<lparr>clr_rules := rules\<rparr>] = (w', Inr rs)"
    using assms(1) by (auto split: prod.splits option.splits)
  then show ?thesis
    using delete_excess [OF u(2)] UpdateRole_ok [OF u(1)] by (simp add: role_name_def role_item_def)
qed

text \<open>The cluster role of the account.\<close>

definition role_ready :: "account \<Rightarrow> account_rbac \<Rightarrow> string \<Rightarrow> bool" where
  "role_ready ac v n \<longleftrightarrow> owned (om_name (ac_meta ac)) (v_roles v) = {n} \<and> (\<exists>os. v_roles v n = Some (os, getClusterRoleRules ac))"

lemma ensure_cluster_role_view:
  assumes "ensure_cluster_role C w ac = (w', Inr rs)"
  shows "role_ready ac (view w') (role_name (hd rs)) \<and> (\<exists>f. view w' = (view w)\<lparr>v_roles := f\<rparr>)
    \<and> keeps_others (om_name (ac_meta ac)) (v_roles (view w)) (v_roles (view w'))"
proof -
  let ?a = "om_name (ac_meta ac)" and ?rules = "getClusterRoleRules ac"
  obtain xs where xs: "rc_ListClusterRoles C w ?a = Inr xs"
    using assms by (auto simp: ensure_cluster_role_def split: sum.splits)
  then have l: "lists_owned role_name role_item ?a (v_roles (view w)) xs" by (rule Roles_ok)
  obtain w1 r1 where s: "SyncClusterRoles C w ?rules True xs [] = (w1, r1)" by force
  show ?thesis
  proof (cases xs)
    case Nil
    then have "w1 = w" "r1 = Inr []" using s by simp_all
    then obtain r where c: "create_cluster_role C w ac = (w', Inr r)" "rs = [r]"
      using assms xs s by (auto simp: ensure_cluster_role_def split: sum.splits prod.splits)
    then obtain m where m: "index_by_controller m = [?a]"
      and "rc_CreateClusterRole C w \<lparr>clr_meta = m, clr_rules = ?rules\<rparr> = (w', Inr r)"
      using SetController_ok by (auto simp: create_cluster_role_def CreateWithOwner_def split: sum.splits)
    from CreateRole_ok [OF this(2)] m show ?thesis
      using l Nil c(2) by (auto simp: role_ready_def role_item_def keeps_others_def lists_owned_def owned_def)
  next
    case (Cons x xs')
    have n: "distinct (map role_name xs)" "\<forall>x \<in> set xs. v_roles (view w) (role_name x) = Some (role_item x)"
      "role_name ` set xs = owned ?a (v_roles (view w))" using l by (simp_all add: lists_owned_def)
    obtain rs1 where rs1: "r1 = Inr rs1" using assms xs s by (cases r1) (simp_all add: ensure_cluster_role_def)
    have v: "\<exists>r. rs1 = [r] \<and> role_name r = role_name x"
      "view w1 = (view w)\<lparr>v_roles := (v_roles (view w))(role_name x \<mapsto> (fst (role_item x), ?rules)) |` (- role_name ` set xs')\<rparr>"
      using sync_first [of w ?rules x xs' w1 rs1] s rs1 Cons n(2) by auto
    then have w': "w' = w1" "rs = rs1" using assms xs s rs1 by (auto simp: ensure_cluster_role_def)
    have x: "?a \<in> set (fst (role_item x))" "role_name x \<notin> role_name ` set xs'"
      using n(1) Cons lists_owned_item [OF l] by auto
    have "owned ?a (v_roles (view w1)) = {role_name x}"
      using x n(3) Cons unfolding v(2) owned_def by (auto simp: restrict_map_def split: if_splits)
    moreover have "v_roles (view w1) (role_name x) = Some (fst (role_item x), ?rules)" using x(2) by (simp add: v(2))
    moreover have "keeps_others ?a (v_roles (view w)) (v_roles (view w1))"
      unfolding keeps_others_def
    proof (intro allI impI)
      fix m i
      assume i: "v_roles (view w) m = Some i \<and> ?a \<notin> set (fst i)"
      then have "m \<notin> owned ?a (v_roles (view w))" by (auto simp: owned_def)
      then have "m \<noteq> role_name x" "m \<notin> role_name ` set xs'" using n(3) Cons by auto
      then show "v_roles (view w1) m = Some i" using i by (simp add: v(2))
    qed
    moreover have "role_name (hd rs) = role_name x" "\<exists>f. view w1 = (view w)\<lparr>v_roles := f\<rparr>" using v w'(2) by auto
    ultimately show ?thesis unfolding role_ready_def w'(1) by metis
  qed
qed

lemma sync_role_bindings_view:
  assumes "syncRoleBindings C w ac = (w', None)"
  shows "(\<exists>f. view w' = (view w)\<lparr>v_bindings := f\<rparr>)
    \<and> (\<forall>m \<in> owned (om_name (ac_meta ac)) (v_bindings (view w')). fst (snd (the (v_bindings (view w') m))) = acs_subjects (ac_spec ac))
    \<and> keeps_others (om_name (ac_meta ac)) (v_bindings (view w)) (v_bindings (view w'))"
proof -
  let ?a = "om_name (ac_meta ac)" and ?ss = "acs_subjects (ac_spec ac)"
  let ?rest = "\<lambda>w. (view w)\<lparr>v_bindings := Map.empty\<rparr>"
  obtain bs where bs: "rc_ListRoleBindings C w ?a = Inr bs" "sync_subjects (rc_UpdateRoleBinding C) ?ss bs w = (w', None)"
    using assms by (auto simp: syncRoleBindings_def split: sum.splits)
  then have l: "lists_owned binding_name binding_item ?a (v_bindings (view w)) bs" by (blast dest: Bindings_ok)
  have f: "v_bindings (view w') = (\<lambda>n. if n \<in> binding_name ` set bs then map_option (with_subjects ?ss) (v_bindings (view w) n)
      else v_bindings (view w) n) \<and> ?rest w' = ?rest w"
    by (rule sync_subjects_items [OF _ _ _ _ bs(2)]) (use l in \<open>auto simp: lists_owned_def dest!: UpdateBinding_ok\<close>)
  then have "view w' = (view w)\<lparr>v_bindings := v_bindings (view w')\<rparr>" by (cases "view w"; cases "view w'") auto
  then show ?thesis using owned_with_subjects [OF l] f by blast
qed

lemma sync_cluster_role_bindings_view:
  assumes "sync_cluster_role_bindings C w ac n = (w', None)"
  defines "a \<equiv> om_name (ac_meta ac)" and "v \<equiv> v_clusterBindings (view w)" and "v' \<equiv> v_clusterBindings (view w')"
  shows "(\<exists>f. view w' = (view w)\<lparr>v_clusterBindings := f\<rparr>)
    \<and> (\<forall>m \<in> owned a v'. fst (snd (the (v' m))) = acs_subjects (ac_spec ac))
    \<and> (\<exists>m \<in> owned a v'. rr_name (snd (snd (the (v' m)))) = n) \<and> keeps_others a v v'"
proof -
  let ?ss = "acs_subjects (ac_spec ac)"
  let ?rest = "\<lambda>w. (view w)\<lparr>v_clusterBindings := Map.empty\<rparr>"
  obtain cs w1 where cs: "rc_ListClusterRoleBindings C w a = Inr cs"
    "sync_subjects (rc_UpdateClusterRoleBinding C) ?ss cs w = (w1, None)"
    using assms(1) by (auto simp: sync_cluster_role_bindings_def a_def split: sum.splits prod.splits option.splits)
  then have l: "lists_owned clusterBinding_name binding_item a v cs" unfolding v_def by (blast dest: ClusterBindings_ok)
  let ?v1 = "v_clusterBindings (view w1)"
  have f: "?v1 = (\<lambda>n. if n \<in> clusterBinding_name ` set cs then map_option (with_subjects ?ss) (v n) else v n) \<and> ?rest w1 = ?rest w"
    unfolding v_def
    by (rule sync_subjects_items [OF _ _ _ _ cs(2)])
      (use l in \<open>auto simp: lists_owned_def v_def dest!: UpdateClusterBinding_ok\<close>)
  then have w1: "view w1 = (view w)\<lparr>v_clusterBindings := ?v1\<rparr>" by (cases "view w"; cases "view w1") auto
  note s = owned_with_subjects [OF l conjunct1 [OF f]]
  show ?thesis
  proof (cases "list_ex (\<lambda>crb. rr_name (rbb_roleRef crb) = n) cs")
    case True
    then obtain c where c: "c \<in> set cs" "rr_name (rbb_roleRef c) = n" by (auto simp: list_ex_iff)
    have "w' = w1" using assms(1) cs True by (simp add: sync_cluster_role_bindings_def a_def)
    moreover have "?v1 (clusterBinding_name c) = Some (with_subjects ?ss (binding_item c))"
      using f l c(1) by (auto simp: lists_owned_def)
    moreover have "clusterBinding_name c \<in> owned a ?v1" using l c(1) s(1) by (auto simp: lists_owned_def)
    ultimately show ?thesis using s w1 c(2) unfolding v'_def
      by (auto simp: with_subjects_def binding_item_def intro!: bexI [of _ "clusterBinding_name c"])
  next
    case False
    then obtain b where b: "create_cluster_role_binding C w1 ac n = (w', Inr b)"
      using assms(1) cs by (auto simp: sync_cluster_role_bindings_def a_def split: sum.splits prod.splits)
    then obtain m where m: "index_by_controller m = [a]"
      and c: "rc_CreateClusterRoleBinding C w1 \<lparr>rbb_meta = m, rbb_subjects = ?ss,
         rbb_roleRef = \<lparr>rr_apiGroup = ''rbac.authorization.k8s.io'', rr_kind = ''ClusterRole'', rr_name = n\<rparr>\<rparr> = (w', Inr b)"
      using SetController_ok unfolding a_def by (auto simp: create_cluster_role_binding_def CreateWithOwner_def split: sum.splits)
    from CreateClusterBinding_ok [OF c] have new: "?v1 (clusterBinding_name b) = None"
      and w': "view w' = (view w1)\<lparr>v_clusterBindings := ?v1(clusterBinding_name b \<mapsto>
        ([a], ?ss, \<lparr>rr_apiGroup = ''rbac.authorization.k8s.io'', rr_kind = ''ClusterRole'', rr_name = n\<rparr>))\<rparr>"
      using m by (simp_all add: binding_item_def)
    have v': "v' = ?v1(clusterBinding_name b \<mapsto>
        ([a], ?ss, \<lparr>rr_apiGroup = ''rbac.authorization.k8s.io'', rr_kind = ''ClusterRole'', rr_name = n\<rparr>))"
      unfolding v'_def w' by simp
    have o: "owned a v' = insert (clusterBinding_name b) (owned a ?v1)" using new by (auto simp: v' owned_def)
    have "\<exists>f. view w' = (view w)\<lparr>v_clusterBindings := f\<rparr>" unfolding w' by (subst w1) auto
    moreover have "\<forall>m \<in> owned a v'. fst (snd (the (v' m))) = ?ss" unfolding o using s(2) by (auto simp: v')
    moreover have "\<exists>m \<in> owned a v'. rr_name (snd (snd (the (v' m)))) = n" unfolding o by (simp add: v')
    moreover have "keeps_others a v v'" using s(3) new by (auto simp: v' keeps_others_def)
    ultimately show ?thesis by blast
  qed
qed

lemma Reconcile_establishes:
  assumes "account_Reconcile C w a = (w', None)" "rc_GetAccount C w a = Inr ac"
  shows "account_settled (view w') ac \<and> others_untouched (view w) (view w') a"
proof -
  have a: "om_name (ac_meta ac) = a" using Account_ok [OF assms(2)] by simp
  obtain ns where ns: "rc_ListNamespaces C w a = Inr ns"
    using assms a by (auto simp: account_Reconcile_def split: sum.splits)
  obtain w1 where w1: "syncRoleBindings C w ac = (w1, None)"
    using assms a ns by (auto simp: account_Reconcile_def split: prod.splits option.splits)
  obtain w2 where w2: "syncClusterRoles C w1 ac = (w2, None)"
    using assms a ns w1 by (auto simp: account_Reconcile_def split: prod.splits option.splits)
  have st: "rc_UpdateStatus C w2 (ac\<lparr>ac_status := map (\<lambda>n. om_name (ns_meta n)) ns\<rparr>) = (w', None)"
    using assms a ns w1 w2 by (simp add: account_Reconcile_def Let_def)
  obtain w3 rs where w3: "ensure_cluster_role C w1 ac = (w3, Inr rs)" "sync_cluster_role_bindings C w3 ac (role_name (hd rs)) = (w2, None)"
    using w2 by (auto simp: syncClusterRoles_def role_name_def split: prod.splits sum.splits)
  note b = sync_role_bindings_view [OF w1, unfolded a]
  note r = ensure_cluster_role_view [OF w3(1), unfolded a]
  note c = sync_cluster_role_bindings_view [OF w3(2), unfolded a]
  note u = UpdateStatus_ok [OF st, simplified, unfolded a]
  obtain f1 f2 f3 where f: "view w1 = (view w)\<lparr>v_bindings := f1\<rparr>" "view w3 = (view w1)\<lparr>v_roles := f2\<rparr>"
    "view w2 = (view w3)\<lparr>v_clusterBindings := f3\<rparr>" using b r c by blast
  have v: "view w' = (view w)\<lparr>v_bindings := f1, v_roles := f2, v_clusterBindings := f3,
      v_status := (v_status (view w))(a \<mapsto> map (\<lambda>n. om_name (ns_meta n)) ns)\<rparr>" by (simp add: u f)
  have fs: "v_bindings (view w1) = f1" "v_roles (view w3) = f2"
    "v_roles (view w1) = v_roles (view w)" "v_clusterBindings (view w2) = f3" "v_clusterBindings (view w3) = v_clusterBindings (view w)"
    by (simp_all add: f)
  obtain os where "owned a f2 = {role_name (hd rs)}" "f2 (role_name (hd rs)) = Some (os, getClusterRoleRules ac)"
    using r unfolding role_ready_def fs a by blast
  then have "account_settled (view w') ac"
    using b c Namespaces_ok [OF ns] unfolding account_settled_def Let_def a v fs by simp
  moreover have "others_untouched (view w) (view w') a"
    using b r c unfolding others_untouched_def v fs by simp
  ultimately show ?thesis by blast
qed

text \<open>Once the account is settled, a reconciliation writes the status again, and nothing else.\<close>

lemma settled_writes_status:
  assumes "account_settled (view w) ac" "rc_GetAccount C w a = Inr ac" "rc_ListNamespaces C w a = Inr ns"
    "rc_ListRoleBindings C w a = Inr bs" "rc_ListClusterRoles C w a = Inr rs" "rc_ListClusterRoleBindings C w a = Inr cs"
  shows "account_Reconcile C w a = rc_UpdateStatus C w (ac\<lparr>ac_status := map (\<lambda>n. om_name (ns_meta n)) ns\<rparr>)"
proof -
  have a: "om_name (ac_meta ac) = a" using Account_ok [OF assms(2)] by simp
  obtain n os where n: "owned a (v_roles (view w)) = {n}" "v_roles (view w) n = Some (os, getClusterRoleRules ac)"
    and m: "\<exists>m \<in> owned a (v_clusterBindings (view w)). rr_name (snd (snd (the (v_clusterBindings (view w) m)))) = n"
    using assms(1) unfolding account_settled_def a Let_def by blast
  have lr: "lists_owned role_name role_item a (v_roles (view w)) rs" by (rule Roles_ok [OF assms(5)])
  have lc: "lists_owned clusterBinding_name binding_item a (v_clusterBindings (view w)) cs" by (rule ClusterBindings_ok [OF assms(6)])
  have lb: "lists_owned binding_name binding_item a (v_bindings (view w)) bs" by (rule Bindings_ok [OF assms(4)])
  have "card (set (map role_name rs)) = 1" "distinct (map role_name rs)"
    using lr n(1) by (simp_all add: lists_owned_def)
  then have "length rs = 1" by (metis distinct_card length_map)
  then obtain r where r: "rs = [r]" by (cases rs) auto
  have name: "role_name r = n" using lr n(1) r by (simp add: lists_owned_def)
  have item: "v_roles (view w) (role_name r) = Some (role_item r)" using lr r by (simp add: lists_owned_def)
  have rn: "role_name r = n" "clr_rules r = getClusterRoleRules ac"
    using item n(2) unfolding name by (simp_all add: role_item_def name)
  have "\<forall>b \<in> set bs. rbb_subjects b = acs_subjects (ac_spec ac)"
  proof
    fix b assume "b \<in> set bs"
    then have "binding_name b \<in> owned a (v_bindings (view w))" "v_bindings (view w) (binding_name b) = Some (binding_item b)"
      using lb by (auto simp: lists_owned_def)
    moreover have "\<forall>m \<in> owned a (v_bindings (view w)). fst (snd (the (v_bindings (view w) m))) = acs_subjects (ac_spec ac)"
      using assms(1) unfolding account_settled_def Let_def a by blast
    ultimately show "rbb_subjects b = acs_subjects (ac_spec ac)" by (auto simp: binding_item_def)
  qed
  then have 1: "syncRoleBindings C w ac = (w, None)"
    using assms(4) by (simp add: syncRoleBindings_def a sync_subjects_settled)
  have 2: "ensure_cluster_role C w ac = (w, Inr [r])" using assms(5) r rn(2) by (simp add: ensure_cluster_role_def a)
  have cs: "binding_item c = the (v_clusterBindings (view w) (clusterBinding_name c)) \<and> rbb_subjects c = acs_subjects (ac_spec ac)"
    if "c \<in> set cs" for c
  proof -
    have "clusterBinding_name c \<in> owned a (v_clusterBindings (view w))"
      "v_clusterBindings (view w) (clusterBinding_name c) = Some (binding_item c)"
      using lc that by (auto simp: lists_owned_def)
    moreover have "\<forall>m \<in> owned a (v_clusterBindings (view w)). fst (snd (the (v_clusterBindings (view w) m))) = acs_subjects (ac_spec ac)"
      using assms(1) unfolding account_settled_def Let_def a by blast
    ultimately show ?thesis by (auto simp: binding_item_def)
  qed
  obtain c where "c \<in> set cs" "rr_name (rbb_roleRef c) = n"
    using m cs lc unfolding lists_owned_def by (metis (no_types, lifting) binding_item_def image_iff snd_conv)
  then have "list_ex (\<lambda>crb. rr_name (rbb_roleRef crb) = n) cs" by (auto simp: list_ex_iff)
  then have 3: "sync_cluster_role_bindings C w ac n = (w, None)"
    using assms(6) cs by (simp add: sync_cluster_role_bindings_def a sync_subjects_settled)
  show ?thesis using assms(2,3) 1 2 3 rn(1)
    by (simp add: account_Reconcile_def syncClusterRoles_def a role_name_def Let_def)
qed

end

section \<open>A world of objects by name\<close>

record account_world =
  aw_accounts :: "(string \<times> account) list"
  aw_namespaces :: "namespace list"
  aw_roles :: "(string \<times> cluster_role) list"
  aw_clusterBindings :: "(string \<times> rbac_binding) list"
  aw_bindings :: "(object_name \<times> rbac_binding) list"
  aw_revision :: nat

definition named_role :: "string \<Rightarrow> cluster_role \<Rightarrow> cluster_role" where
  "named_role n r = r\<lparr>clr_meta := (clr_meta r)\<lparr>om_name := n\<rparr>\<rparr>"

fun named_binding :: "object_name \<Rightarrow> rbac_binding \<Rightarrow> rbac_binding" where
  "named_binding (ObjectName ns n) b = b\<lparr>rbb_meta := (rbb_meta b)\<lparr>om_namespace := ns, om_name := n\<rparr>\<rparr>"

definition named_cluster_binding :: "string \<Rightarrow> rbac_binding \<Rightarrow> rbac_binding" where
  "named_cluster_binding n = named_binding (ObjectName [] n)"

lemma named_simps [simp]:
  "role_name (named_role n r) = n" "clr_rules (named_role n r) = clr_rules r" "role_item (named_role n r) = role_item r"
  "binding_name (named_binding k b) = k" "binding_item (named_binding k b) = binding_item b"
  "clusterBinding_name (named_cluster_binding n b) = n" "binding_item (named_cluster_binding n b) = binding_item b"
  by (cases k; simp add: named_cluster_binding_def named_role_def role_name_def role_item_def binding_name_def binding_item_def clusterBinding_name_def
      index_by_controller_def GetControllerOf_def)+

definition objects_of :: "('n \<Rightarrow> 'o \<Rightarrow> 'o) \<Rightarrow> ('n \<times> 'o) list \<Rightarrow> 'o list" where
  "objects_of rename m = map (\<lambda>k. rename k (the (map_of m k))) (remdups (map fst m))"

definition items_of :: "('o \<Rightarrow> 'i) \<Rightarrow> ('n \<times> 'o) list \<Rightarrow> 'n \<Rightarrow> 'i option" where
  "items_of item m = (\<lambda>n. map_option item (map_of m n))"

lemma objects_of_lists_owned:
  assumes "\<And>k x. name (rename k x) = k" "\<And>k x. item (rename k x) = item x"
  shows "lists_owned name item a (items_of item m) (filter (\<lambda>x. a \<in> set (fst (item x))) (objects_of rename m))"
proof -
  have o: "x \<in> set (objects_of rename m) \<longleftrightarrow> (\<exists>k z. map_of m k = Some z \<and> x = rename k z)" for x
    using map_of_conv_key [of m] by (force simp: objects_of_def)
  have "map name (objects_of rename m) = remdups (map fst m)" using assms(1) by (simp add: objects_of_def comp_def)
  then have "distinct (map name (filter (\<lambda>x. a \<in> set (fst (item x))) (objects_of rename m)))"
    using distinct_map_filter [of name "objects_of rename m"] by simp
  moreover have "items_of item m (name x) = Some (item x)" if "x \<in> set (objects_of rename m)" for x
    using that assms unfolding o by (auto simp: items_of_def)
  moreover have "name ` set (filter (\<lambda>x. a \<in> set (fst (item x))) (objects_of rename m)) = owned a (items_of item m)"
  proof (intro set_eqI iffI)
    fix n assume "n \<in> owned a (items_of item m)"
    then obtain z where "map_of m n = Some z" "a \<in> set (fst (item z))" by (auto simp: owned_def items_of_def)
    then have "rename n z \<in> set (filter (\<lambda>x. a \<in> set (fst (item x))) (objects_of rename m))" using o assms(2) by auto
    then show "n \<in> name ` set (filter (\<lambda>x. a \<in> set (fst (item x))) (objects_of rename m))" using assms(1)
      by (intro image_eqI [of _ _ "rename n z"]) auto
  qed (auto simp: o assms owned_def items_of_def simp del: split_paired_Ex)
  ultimately show ?thesis unfolding lists_owned_def by auto
qed

lemma items_of_put: "items_of item (put n x m) = (items_of item m)(n \<mapsto> item x)"
  by (auto simp: items_of_def map_of_put)

lemma items_of_apply: "items_of item m n = map_option item (map_of m n)"
  by (simp add: items_of_def)

lemma items_of_del: "items_of item (del n m) = (items_of item m)(n := None)"
  by (auto simp: items_of_def map_of_del)

text \<open>Creating, updating and deleting an object in a map from names to objects, with the revision naming new ones.\<close>

definition update_object :: "'n \<Rightarrow> 'o \<Rightarrow> ('n \<times> 'o) list \<Rightarrow> gerror + ('n \<times> 'o) list" where
  "update_object n x m = (case map_of m n of None \<Rightarrow> Inl (NotFoundErr ''object'') | Some _ \<Rightarrow> Inr (put n x m))"

definition delete_object :: "'n \<Rightarrow> ('n \<times> 'o) list \<Rightarrow> gerror + ('n \<times> 'o) list" where
  "delete_object n m = (case map_of m n of None \<Rightarrow> Inl (NotFoundErr ''object'') | Some _ \<Rightarrow> Inr (del n m))"

definition create_object :: "'n \<Rightarrow> 'o \<Rightarrow> ('n \<times> 'o) list \<Rightarrow> gerror + ('n \<times> 'o) list" where
  "create_object n x m = (case map_of m n of None \<Rightarrow> Inr (put n x m) | Some _ \<Rightarrow> Inl (AlreadyExistsErr ''object''))"

definition stored :: "'w \<Rightarrow> gerror + 'm \<Rightarrow> ('m \<Rightarrow> 'w) \<Rightarrow> 'w \<times> gerror option" where
  "stored w r set_field = (case r of Inl err \<Rightarrow> (w, Some err) | Inr m \<Rightarrow> (set_field m, None))"

definition controller_ref :: "account \<Rightarrow> owner_ref" where
  "controller_ref ac = \<lparr>ow_apiVersion = ''config.kiosk.sh/v1alpha1'', ow_kind = ''Account'', ow_name = om_name (ac_meta ac),
     ow_uid = om_uid (ac_meta ac), ow_controller = Some True\<rparr>"

definition SetControllerReference :: "account \<Rightarrow> obj_meta \<Rightarrow> gerror + obj_meta" where
  "SetControllerReference ac m =
    (case GetControllerOf m of
       Some r \<Rightarrow> Inl (OtherErr ''already owned'')
     | None \<Rightarrow> Inr (m\<lparr>om_ownerReferences := om_ownerReferences m @ [controller_ref ac]\<rparr>))"

definition account_world_client :: "account_world reconcile_client" where
  "account_world_client = \<lparr>
     rc_GetAccount = \<lambda>w a. (case map_of (aw_accounts w) a of
        None \<Rightarrow> Inl (NotFoundErr a) | Some ac \<Rightarrow> Inr (ac\<lparr>ac_meta := (ac_meta ac)\<lparr>om_name := a\<rparr>\<rparr>)),
     rc_ListNamespaces = \<lambda>w a. Inr (filter (\<lambda>n. a \<in> set (index_Namespace n)) (aw_namespaces w)),
     rc_ListRoleBindings = \<lambda>w a. Inr (filter (\<lambda>x. a \<in> set (fst (binding_item x))) (objects_of named_binding (aw_bindings w))),
     rc_ListClusterRoles = \<lambda>w a. Inr (filter (\<lambda>x. a \<in> set (fst (role_item x))) (objects_of named_role (aw_roles w))),
     rc_ListClusterRoleBindings = \<lambda>w a. Inr (filter (\<lambda>x. a \<in> set (fst (binding_item x)))
        (objects_of named_cluster_binding (aw_clusterBindings w))),
     rc_UpdateRoleBinding = \<lambda>w b. stored w (update_object (binding_name b) b (aw_bindings w)) (\<lambda>m. w\<lparr>aw_bindings := m\<rparr>),
     rc_UpdateClusterRole = \<lambda>w r. stored w (update_object (role_name r) r (aw_roles w)) (\<lambda>m. w\<lparr>aw_roles := m\<rparr>),
     rc_DeleteClusterRole = \<lambda>w r. stored w (delete_object (role_name r) (aw_roles w)) (\<lambda>m. w\<lparr>aw_roles := m\<rparr>),
     rc_CreateClusterRole = \<lambda>w r.
       (let n = generated_name (clr_meta r) (aw_revision w) in
        case create_object n r (aw_roles w) of
          Inl err \<Rightarrow> (w, Inl err)
        | Inr m \<Rightarrow> (w\<lparr>aw_roles := m, aw_revision := Suc (aw_revision w)\<rparr>, Inr (named_role n r))),
     rc_UpdateClusterRoleBinding = \<lambda>w b. stored w (update_object (clusterBinding_name b) b (aw_clusterBindings w))
        (\<lambda>m. w\<lparr>aw_clusterBindings := m\<rparr>),
     rc_DeleteClusterRoleBinding = \<lambda>w b. stored w (delete_object (clusterBinding_name b) (aw_clusterBindings w))
        (\<lambda>m. w\<lparr>aw_clusterBindings := m\<rparr>),
     rc_CreateClusterRoleBinding = \<lambda>w b.
       (let n = generated_name (rbb_meta b) (aw_revision w) in
        case create_object n b (aw_clusterBindings w) of
          Inl err \<Rightarrow> (w, Inl err)
        | Inr m \<Rightarrow> (w\<lparr>aw_clusterBindings := m, aw_revision := Suc (aw_revision w)\<rparr>, Inr (named_cluster_binding n b))),
     rc_UpdateStatus = \<lambda>w ac.
       (case map_of (aw_accounts w) (om_name (ac_meta ac)) of
          None \<Rightarrow> (w, Some (NotFoundErr (om_name (ac_meta ac))))
        | Some live \<Rightarrow> (w\<lparr>aw_accounts := put (om_name (ac_meta ac)) (live\<lparr>ac_status := ac_status ac\<rparr>) (aw_accounts w),
            aw_revision := Suc (aw_revision w)\<rparr>, None)),
     rc_SetControllerReference = SetControllerReference\<rparr>"

definition aw_spaces :: "namespace list \<Rightarrow> string \<Rightarrow> string list option" where
  "aw_spaces ns n = (case filter (\<lambda>x. om_name (ns_meta x) = n) ns of [] \<Rightarrow> None | xs \<Rightarrow> Some (concat (map index_Namespace xs)))"

definition aw_view :: "account_world \<Rightarrow> account_rbac" where
  "aw_view w = \<lparr>v_roles = items_of role_item (aw_roles w), v_clusterBindings = items_of binding_item (aw_clusterBindings w),
     v_bindings = items_of binding_item (aw_bindings w), v_spaces = aw_spaces (aw_namespaces w),
     v_status = items_of ac_status (aw_accounts w)\<rparr>"

lemma aw_spaces_image:
  "(\<lambda>n. om_name (ns_meta n)) ` set (filter (\<lambda>n. a \<in> set (index_Namespace n)) ns) =
   {n. \<exists>ks. aw_spaces ns n = Some ks \<and> a \<in> set ks}"
proof -
  have "(\<exists>ks. aw_spaces ns n = Some ks \<and> a \<in> set ks) \<longleftrightarrow> (\<exists>x \<in> set ns. om_name (ns_meta x) = n \<and> a \<in> set (index_Namespace x))" for n
  proof (cases "filter (\<lambda>x. om_name (ns_meta x) = n) ns")
    case Nil
    then show ?thesis by (auto simp: aw_spaces_def filter_empty_conv)
  next
    case (Cons y ys)
    have "aw_spaces ns n = Some (concat (map index_Namespace (filter (\<lambda>x. om_name (ns_meta x) = n) ns)))"
      by (simp add: aw_spaces_def Cons)
    then show ?thesis by auto
  qed
  then show ?thesis by auto
qed

lemma stored_ok: "stored w r f = (w', None) \<longleftrightarrow> (\<exists>m. r = Inr m \<and> w' = f m)"
  by (cases r) (auto simp: stored_def)

lemma index_SetController: "SetControllerReference ac m = Inr m' \<Longrightarrow> index_by_controller m' = [om_name (ac_meta ac)]"
proof -
  assume s: "SetControllerReference ac m = Inr m'"
  then have "find (\<lambda>r. ow_controller r = Some True) (om_ownerReferences m) = None"
    "m' = m\<lparr>om_ownerReferences := om_ownerReferences m @ [controller_ref ac]\<rparr>"
    by (auto simp: SetControllerReference_def GetControllerOf_def split: option.splits)
  moreover have "find P xs = None \<Longrightarrow> find P (xs @ ys) = find P ys" for P :: "owner_ref \<Rightarrow> bool" and xs ys
    by (induction xs) (auto split: if_splits)
  ultimately show ?thesis by (simp add: index_by_controller_def GetControllerOf_def controller_ref_def)
qed

interpretation accounts: rbac_store account_world_client aw_view
proof
  fix w a ns
  assume "rc_ListNamespaces account_world_client w a = Inr ns"
  then show "(\<lambda>n. om_name (ns_meta n)) ` set ns = {n. \<exists>ks. v_spaces (aw_view w) n = Some ks \<and> a \<in> set ks}"
    using aw_spaces_image [of a "aw_namespaces w"] by (simp add: account_world_client_def aw_view_def)
qed (auto simp: account_world_client_def aw_view_def items_of_put items_of_del stored_ok update_object_def delete_object_def
    create_object_def Let_def objects_of_lists_owned index_SetController items_of_apply split: option.splits)

section \<open>Who may see the account\<close>

text \<open>The bindings and roles as the authorizer of the API server reads them.\<close>

definition aw_resolver :: "account_world \<Rightarrow> default_rule_resolver" where
  "aw_resolver w = \<lparr>dr_ListAll = False, dr_Client = store_client \<lparr>stat_roles = [],
     stat_roleBindings = map (\<lambda>b. \<lparr>bn_namespace = om_namespace (rbb_meta b), bn_name = om_name (rbb_meta b),
        bn_subjects = rbb_subjects b, bn_roleRef = rbb_roleRef b\<rparr>) (objects_of named_binding (aw_bindings w)),
     stat_clusterRoles = map (\<lambda>r. \<lparr>ro_namespace = [], ro_name = role_name r, ro_rules = clr_rules r\<rparr>)
        (objects_of named_role (aw_roles w)),
     stat_clusterRoleBindings = map (\<lambda>b. \<lparr>bn_namespace = [], bn_name = om_name (rbb_meta b),
        bn_subjects = rbb_subjects b, bn_roleRef = rbb_roleRef b\<rparr>) (objects_of named_cluster_binding (aw_clusterBindings w))\<rparr>\<rparr>"

text \<open>A request for an object of the tenancy API group.\<close>

definition tenancy_request :: "user_info \<Rightarrow> string \<Rightarrow> string \<Rightarrow> string \<Rightarrow> auth_attributes" where
  "tenancy_request user verb resource name = \<lparr>aa_user = user, aa_verb = verb, aa_namespace = [], aa_apiGroup = tenancy_group,
     aa_resource = resource, aa_subresource = [], aa_name = name, aa_path = [], aa_isResourceRequest = True\<rparr>"

lemma objects_of_item:
  assumes "\<And>k x. name (rename k x) = k" "\<And>k x. item (rename k x) = item x" "items_of item m n = Some i"
  shows "\<exists>x \<in> set (objects_of rename m). name x = n \<and> item x = i"
proof -
  obtain z where "map_of m n = Some z" "item z = i" using assms(3) by (auto simp: items_of_apply)
  then show ?thesis using assms(1,2) map_of_conv_key [of m n]
    by (intro bexI [of _ "rename n z"]) (auto simp: objects_of_def intro!: image_eqI [of _ _ n])
qed

lemma find_role:
  assumes "items_of role_item m n = Some (os, rules)"
  shows "find (\<lambda>r. ro_name r = n) (map (\<lambda>r. \<lparr>ro_namespace = [], ro_name = role_name r, ro_rules = clr_rules r\<rparr>) (objects_of named_role m))
    = Some \<lparr>ro_namespace = [], ro_name = n, ro_rules = rules\<rparr>"
proof -
  obtain z where z: "map_of m n = Some z" "clr_rules z = rules" using assms by (auto simp: items_of_apply role_item_def)
  have "n \<in> set ks \<Longrightarrow> find (\<lambda>r. ro_name r = n) (map (\<lambda>r. \<lparr>ro_namespace = [], ro_name = role_name r, ro_rules = clr_rules r\<rparr>)
      (map (\<lambda>k. named_role k (the (map_of m k))) ks)) = Some \<lparr>ro_namespace = [], ro_name = n, ro_rules = rules\<rparr>" for ks
    by (induction ks) (auto simp: z)
  moreover have "n \<in> set (remdups (map fst m))" using z(1) map_of_conv_key [of m n] by simp
  ultimately show ?thesis by (simp add: objects_of_def del: map_map)
qed

lemma settled_grants:
  assumes "account_settled (aw_view w) ac" "IsUserPartOfAccount user ac"
    "list_all (\<lambda>b. rr_kind (rbb_roleRef (snd b)) = ''ClusterRole'') (aw_clusterBindings w)"
    and "aa_user a = user" "RulesAllow a (getClusterRoleRules ac)"
  shows "fst (Authorize (aw_resolver w) a) = DecisionAllow"
proof -
  let ?cr = "items_of role_item (aw_roles w)" and ?cb = "items_of binding_item (aw_clusterBindings w)"
  obtain n os m i where n: "?cr n = Some (os, getClusterRoleRules ac)" and m: "m \<in> owned (om_name (ac_meta ac)) ?cb"
    "?cb m = Some i" "rr_name (snd (snd i)) = n" "fst (snd i) = acs_subjects (ac_spec ac)"
    using assms(1) unfolding account_settled_def Let_def aw_view_def account_rbac.simps
    by (auto simp: owned_def simp del: split_paired_Ex split_paired_All)
  obtain b where b: "b \<in> set (objects_of named_cluster_binding (aw_clusterBindings w))" "binding_item b = i"
    using objects_of_item [of clusterBinding_name named_cluster_binding binding_item, OF _ _ m(2)] by auto
  have kind: "rr_kind (rbb_roleRef b) = ''ClusterRole''"
  proof -
    obtain k z where "map_of (aw_clusterBindings w) k = Some z" "b = named_cluster_binding k z"
      using b(1) map_of_conv_key [of "aw_clusterBindings w"] by (force simp: objects_of_def)
    then show ?thesis using assms(3) map_of_SomeD by (force simp: list_all_iff named_cluster_binding_def)
  qed
  obtain s where s: "s \<in> set (acs_subjects (ac_spec ac))" "appliesToUser user s []"
    using assms(2) by (auto simp: IsUserPartOfAccount_iff)
  obtain rule where rule: "rule \<in> set (getClusterRoleRules ac)" "RuleAllows a rule"
    using assms(5) by (auto simp: RulesAllow_def)
  have "kiosk_GetRoleReferenceRules (aw_resolver w) (rbb_roleRef b) [] = Inr (getClusterRoleRules ac)"
    using find_role [OF n] kind b(2) m(3)
    by (auto simp: kiosk_GetRoleReferenceRules_def aw_resolver_def store_client_def binding_item_def)
  then have "rule \<in> set (event_rules (kiosk_events (aw_resolver w) user (aa_namespace a)))"
    unfolding aw_resolver_def store.kiosk_rules
  proof (intro disjI1 bexI [of _ "\<lparr>bn_namespace = [], bn_name = om_name (rbb_meta b), bn_subjects = rbb_subjects b,
      bn_roleRef = rbb_roleRef b\<rparr>"] conjI exI)
    show "\<exists>s \<in> set (bn_subjects \<lparr>bn_namespace = [], bn_name = om_name (rbb_meta b), bn_subjects = rbb_subjects b,
      bn_roleRef = rbb_roleRef b\<rparr>). appliesToUser user s []" using s m(4) b(2) by (auto simp: binding_item_def)
  qed (use rule(1) b(1) in auto)
  then show ?thesis using rule(2) assms(4) by (auto simp: Authorize_events RulesAllow_def)
qed

section \<open>Properties\<close>

text \<open>An account with a space, two cluster roles, an outdated role binding, and a cluster role of nobody.\<close>

definition ex_member :: subject where
  "ex_member = \<lparr>sj_kind = UserKind, sj_apiGroup = ''rbac.authorization.k8s.io'', sj_name = ''jane'', sj_namespace = []\<rparr>"

definition ex_acme :: account where
  "ex_acme = \<lparr>ac_meta = empty_meta\<lparr>om_name := ''acme'', om_uid := ''1''\<rparr>,
     ac_spec = \<lparr>acs_space = \<lparr>as_clusterRole = None, as_limit = None, as_templateInstances = [], as_spaceTemplate = empty_meta\<rparr>,
       acs_subjects = [ex_member]\<rparr>, ac_status = []\<rparr>"

definition ex_owned :: obj_meta where
  "ex_owned = empty_meta\<lparr>om_ownerReferences := [controller_ref ex_acme]\<rparr>"

definition ex_account_world :: account_world where
  "ex_account_world = \<lparr>aw_accounts = [(''acme'', ex_acme)],
     aw_namespaces = [\<lparr>ns_meta = empty_meta\<lparr>om_name := ''s'', om_labels := [(SpaceLabelAccount, ''acme'')]\<rparr>,
       ns_finalizers = [], ns_phase = []\<rparr>],
     aw_roles = [(''r1'', \<lparr>clr_meta = ex_owned, clr_rules = []\<rparr>), (''r2'', \<lparr>clr_meta = ex_owned, clr_rules = []\<rparr>),
       (''view'', \<lparr>clr_meta = empty_meta, clr_rules = []\<rparr>)],
     aw_clusterBindings = [],
     aw_bindings = [(ObjectName ''s'' ''b'', \<lparr>rbb_meta = ex_owned, rbb_subjects = [],
       rbb_roleRef = \<lparr>rr_apiGroup = [], rr_kind = ''ClusterRole'', rr_name = ''admin''\<rparr>\<rparr>)],
     aw_revision = 7\<rparr>"

definition ex_reconciled :: account_world where
  "ex_reconciled = fst (account_Reconcile account_world_client ex_account_world ''acme'')"

lemma ex_reconciled_ok:
  "snd (account_Reconcile account_world_client ex_account_world ''acme'') = None"
  "rc_GetAccount account_world_client ex_account_world ''acme'' = Inr ex_acme"
  "list_all (\<lambda>b. rr_kind (rbb_roleRef (snd b)) = ''ClusterRole'') (aw_clusterBindings ex_reconciled)"
  "IsUserPartOfAccount ex_user ex_acme"
  "rc_GetAccount account_world_client ex_reconciled ''acme'' = Inr (ex_acme\<lparr>ac_status := [''s'']\<rparr>)"
  "map (\<lambda>n. om_name (ns_meta n)) (filter (\<lambda>n. ''acme'' \<in> set (index_Namespace n)) (aw_namespaces ex_reconciled)) = [''s'']"
  by code_simp+

lemma ex_reconciles: "account_Reconcile account_world_client ex_account_world ''acme'' = (ex_reconciled, None)"
  using ex_reconciled_ok(1) by (simp add: ex_reconciled_def prod_eq_iff)

text \<open>C24. A reconciliation without an error settles the account: it owns one cluster role, which carries its rules and is
  bound, all its bindings name its members, its status lists its namespaces; and what belongs to others is untouched.\<close>

theorem account_Reconcile_establishes:
  assumes "account_Reconcile account_world_client w a = (w', None)" "rc_GetAccount account_world_client w a = Inr ac"
  shows "account_settled (aw_view w') ac \<and> others_untouched (aw_view w) (aw_view w') a"
  using assms by (rule accounts.Reconcile_establishes)

theorem account_Reconcile_establishes_witness:
  "account_settled (aw_view ex_reconciled) ex_acme \<and> others_untouched (aw_view ex_account_world) (aw_view ex_reconciled) ''acme''"
  using account_Reconcile_establishes [OF ex_reconciles ex_reconciled_ok(2)] .

text \<open>C25. After a reconciliation without an error the members of the account see it: the authorizer of the API server
  allows them to get the account, to list accounts and spaces, and to ask for any space. Cluster role bindings refer to
  cluster roles, as the API server enforces.\<close>

theorem account_Reconcile_grants:
  assumes "account_Reconcile account_world_client w a = (w', None)" "rc_GetAccount account_world_client w a = Inr ac"
    and "IsUserPartOfAccount user ac"
    and "list_all (\<lambda>b. rr_kind (rbb_roleRef (snd b)) = ''ClusterRole'') (aw_clusterBindings w')"
  shows "fst (Authorize (aw_resolver w') (tenancy_request user ''get'' ''accounts'' a)) = DecisionAllow
    \<and> fst (Authorize (aw_resolver w') (tenancy_request user ''list'' ''accounts'' [])) = DecisionAllow
    \<and> fst (Authorize (aw_resolver w') (tenancy_request user ''list'' ''spaces'' [])) = DecisionAllow
    \<and> fst (Authorize (aw_resolver w') (tenancy_request user ''get'' ''spaces'' s)) = DecisionAllow"
proof -
  have "account_settled (aw_view w') ac" using accounts.Reconcile_establishes [OF assms(1,2)] by blast
  note allowed = settled_grants [OF this assms(3,4)]
  have "om_name (ac_meta ac) = a" using accounts.Account_ok [OF assms(2)] by simp
  then show ?thesis
    by (intro conjI allowed) (simp_all add: tenancy_request_def RulesAllow_def getClusterRoleRules_def RuleAllows_def
      VerbMatches_def APIGroupMatches_def ResourceMatches_def ResourceNameMatches_def combined_resource_def empty_rule_def tenancy_group_def)
qed

theorem account_Reconcile_grants_witness:
  "fst (Authorize (aw_resolver ex_reconciled) (tenancy_request ex_user ''get'' ''accounts'' ''acme'')) = DecisionAllow"
  using account_Reconcile_grants [OF ex_reconciles ex_reconciled_ok(2,4,3)] by blast

text \<open>A reconciliation that has nothing to do writes nevertheless: in a settled state whose status is the list of the
  namespaces already, nothing changes, but the status is sent to the API server again, because the comparison with the
  old status compares a pointer to a pointer with a pointer and never holds.\<close>

lemma account_Reconcile_rewrites_status:
  assumes "account_settled (aw_view w) ac" "rc_GetAccount account_world_client w a = Inr ac"
    and "ac_status ac = map (\<lambda>n. om_name (ns_meta n)) (filter (\<lambda>n. a \<in> set (index_Namespace n)) (aw_namespaces w))"
  shows "aw_view (fst (account_Reconcile account_world_client w a)) = aw_view w
    \<and> aw_revision (fst (account_Reconcile account_world_client w a)) = Suc (aw_revision w)"
proof -
  let ?C = account_world_client
  obtain ns bs rs cs where l: "rc_ListNamespaces ?C w a = Inr ns" "rc_ListRoleBindings ?C w a = Inr bs"
    "rc_ListClusterRoles ?C w a = Inr rs" "rc_ListClusterRoleBindings ?C w a = Inr cs"
    by (simp add: account_world_client_def)
  have "map (\<lambda>n. om_name (ns_meta n)) ns = ac_status ac" using l(1) assms(3) by (simp add: account_world_client_def)
  then have "account_Reconcile ?C w a = rc_UpdateStatus ?C w ac" using accounts.settled_writes_status [OF assms(1,2) l] by simp
  then show ?thesis using assms(2)
    by (auto simp: account_world_client_def aw_view_def items_of_put items_of_apply split: option.splits)
qed

theorem account_Reconcile_rewrites_status_witness:
  "aw_revision (fst (account_Reconcile account_world_client ex_reconciled ''acme'')) = Suc (aw_revision ex_reconciled)"
proof -
  have "account_settled (aw_view ex_reconciled) (ex_acme\<lparr>ac_status := [''s'']\<rparr>)"
    using accounts.Reconcile_establishes [OF ex_reconciles ex_reconciled_ok(2)]
    unfolding account_settled_def getClusterRoleRules_def by simp
  then show ?thesis using account_Reconcile_rewrites_status [OF _ ex_reconciled_ok(5)] ex_reconciled_ok(6) by simp
qed

text \<open>Namespace events wake exactly the accounts whose namespaces they change: a new or a deleted namespace its
  account, an update the accounts that lose or gain the namespace, and none where the account stays.\<close>

lemma namespace_events_exact:
  "set (handle_namespace_event (NamespaceCreated (ns_meta n)) q) = set q \<union> set (index_Namespace n)
   \<and> set (handle_namespace_event (NamespaceDeleted (ns_meta n)) q) = set q \<union> set (index_Namespace n)
   \<and> set (handle_namespace_event (NamespaceUpdated (ns_meta old) (ns_meta new)) q) =
       set q \<union> (set (index_Namespace old) - set (index_Namespace new)) \<union> (set (index_Namespace new) - set (index_Namespace old))"
  by (auto simp: handleEvent_def index_Namespace_def label_value_def GetAccountFromNamespace_def split: option.splits if_splits)

end
