(* ===== verification/WatchRegistry.thy ===== *)
theory WatchRegistry
  imports Spaces
begin

text \<open>
  The registries through which the API server watches namespaces and accounts (\<open>pkg/watch/watch.go\<close>), with stopping
  the watchers (\<open>Stop\<close> and the sending in \<open>Observe\<close> of \<open>pkg/apiserver/registry/space/watcher.go\<close> and of
  \<open>account/watcher.go\<close>), as a state machine: one thread of the informer delivers the events, every client reads its
  channel until it stops its watcher. Delivery is exact as long as clients read; a client that stops at the wrong
  moment blocks the registry for good.
\<close>

section \<open>The operations of the registry\<close>

type_synonym watch_registry = "nat list"

definition NewWatchRegistry :: watch_registry where "NewWatchRegistry = []"

definition Subscribe :: "watch_registry \<Rightarrow> nat \<Rightarrow> watch_registry" where
  "Subscribe r watcher = r @ [watcher]"

definition Unsubscribe :: "watch_registry \<Rightarrow> nat \<Rightarrow> watch_registry" where
  "Unsubscribe r watcher = fold (\<lambda>w newWatcher. if w \<noteq> watcher then newWatcher @ [w] else newWatcher) r []"

text \<open>
  What the informer passes to the handler: the last known state of a deleted object may come wrapped, and what is no
  runtime object is \<open>None\<close>.
\<close>

datatype 'o notification =
    Added "'o option"
  | Updated "'o option" "'o option"
  | Deleted "'o option"
  | DeletedFinalStateUnknown "'o option"

definition OnAdd :: "'o option \<Rightarrow> (watch_type \<times> 'o) option" where
  "OnAdd obj = (case obj of None \<Rightarrow> None | Some runtimeObj \<Rightarrow> Some (WAdded, runtimeObj))"

definition OnUpdate :: "'o option \<Rightarrow> 'o option \<Rightarrow> (watch_type \<times> 'o) option" where
  "OnUpdate oldObj newObj = (case newObj of None \<Rightarrow> None | Some runtimeObj \<Rightarrow> Some (WModified, runtimeObj))"

definition OnDelete :: "'o option \<Rightarrow> (watch_type \<times> 'o) option" where
  "OnDelete obj = (case obj of None \<Rightarrow> None | Some runtimeObj \<Rightarrow> Some (WDeleted, runtimeObj))"

fun notified :: "'o notification \<Rightarrow> (watch_type \<times> 'o) option" where
  "notified (Added obj) = OnAdd obj"
| "notified (Updated oldObj newObj) = OnUpdate oldObj newObj"
| "notified (Deleted obj) = OnDelete obj"
| "notified (DeletedFinalStateUnknown obj) = OnDelete obj"

lemma Unsubscribe_filter: "Unsubscribe r i = filter (\<lambda>w. w \<noteq> i) r"
  unfolding Unsubscribe_def by (simp add: fold_filter_append)

section \<open>The threads\<close>

text \<open>
  The informer is idle, or has the read lock of the registry and still has to call \<open>Observe\<close> of some watchers, or holds
  in addition the read lock of a watcher and is about to send on its channel, which has no buffer.
\<close>

datatype 'e informer =
    InformerIdle
  | InformerAt 'e "nat list"
  | InformerSending 'e nat "nat list"

text \<open>
  A client has not subscribed yet, reads its channel, has called \<open>Stop\<close> and waits for the lock of its watcher, has this
  lock and waits for the lock of the registry, or is done.
\<close>

datatype client_phase = NotSubscribed | Reading | StopCalled | StopLocked | StopDone

text \<open>The events published while a watcher is subscribed are recorded for the statements only.\<close>

record ('e, 'x) watch_state =
  ws_registry :: watch_registry
  ws_informer :: "'e informer"
  ws_client :: "nat \<Rightarrow> client_phase"
  ws_closed :: "nat \<Rightarrow> bool"
  ws_received :: "nat \<Rightarrow> 'x list"
  ws_published :: "nat \<Rightarrow> 'e list"

definition watch_init :: "('e, 'x) watch_state" where
  "watch_init = \<lparr>ws_registry = NewWatchRegistry, ws_informer = InformerIdle, ws_client = \<lambda>_. NotSubscribed,
     ws_closed = \<lambda>_. False, ws_received = \<lambda>_. [], ws_published = \<lambda>_. []\<rparr>"

text \<open>The watcher whose read lock the informer has.\<close>

fun sending_to :: "'e informer \<Rightarrow> nat option" where
  "sending_to (InformerSending e i ws) = Some i"
| "sending_to _ = None"

text \<open>
  The write lock of the registry is only free while the informer is idle. \<open>Observe\<close> passes over an event that the
  watcher may not see or does not select, and takes the read lock of the watcher otherwise.
\<close>

inductive watch_step ::
  "(nat \<Rightarrow> watch_type \<times> 'o \<Rightarrow> 'x option) \<Rightarrow> (watch_type \<times> 'o, 'x) watch_state \<Rightarrow> (watch_type \<times> 'o, 'x) watch_state \<Rightarrow> bool"
  for observe
where
  step_subscribe: "ws_informer s = InformerIdle \<Longrightarrow> ws_client s i = NotSubscribed \<Longrightarrow>
     watch_step observe s (s\<lparr>ws_registry := Subscribe (ws_registry s) i, ws_client := (ws_client s)(i := Reading)\<rparr>)"
| step_notify: "ws_informer s = InformerIdle \<Longrightarrow> notified n = Some e \<Longrightarrow>
     watch_step observe s (s\<lparr>ws_informer := InformerAt e (ws_registry s),
       ws_published := (\<lambda>i. if i \<in> set (ws_registry s) then ws_published s i @ [e] else ws_published s i)\<rparr>)"
| step_pass_over: "ws_informer s = InformerAt e (i # ws) \<Longrightarrow> observe i e = None \<Longrightarrow>
     watch_step observe s (s\<lparr>ws_informer := InformerAt e ws\<rparr>)"
| step_read_lock: "ws_informer s = InformerAt e (i # ws) \<Longrightarrow> observe i e \<noteq> None \<Longrightarrow> ws_client s i \<noteq> StopLocked \<Longrightarrow>
     watch_step observe s (s\<lparr>ws_informer := InformerSending e i ws\<rparr>)"
| step_send: "ws_informer s = InformerSending e i ws \<Longrightarrow> observe i e = Some x \<Longrightarrow> ws_client s i = Reading \<Longrightarrow>
     watch_step observe s (s\<lparr>ws_informer := InformerAt e ws, ws_received := (ws_received s)(i := ws_received s i @ [x])\<rparr>)"
| step_finish: "ws_informer s = InformerAt e [] \<Longrightarrow> watch_step observe s (s\<lparr>ws_informer := InformerIdle\<rparr>)"
| step_stop: "ws_client s i = Reading \<Longrightarrow> watch_step observe s (s\<lparr>ws_client := (ws_client s)(i := StopCalled)\<rparr>)"
| step_lock: "ws_client s i = StopCalled \<Longrightarrow> sending_to (ws_informer s) \<noteq> Some i \<Longrightarrow>
     watch_step observe s (s\<lparr>ws_client := (ws_client s)(i := StopLocked)\<rparr>)"
| step_unsubscribe: "ws_client s i = StopLocked \<Longrightarrow> ws_informer s = InformerIdle \<Longrightarrow>
     watch_step observe s (s\<lparr>ws_registry := Unsubscribe (ws_registry s) i, ws_closed := (ws_closed s)(i := True),
       ws_client := (ws_client s)(i := StopDone)\<rparr>)"

inductive_cases watch_stepE: "watch_step observe s s'"

inductive watch_reachable ::
  "(nat \<Rightarrow> watch_type \<times> 'o \<Rightarrow> 'x option) \<Rightarrow> (watch_type \<times> 'o, 'x) watch_state \<Rightarrow> bool" for observe
where
  watch_start: "watch_reachable observe watch_init"
| watch_more: "watch_reachable observe s \<Longrightarrow> watch_step observe s s' \<Longrightarrow> watch_reachable observe s'"

abbreviation watch_steps where "watch_steps observe \<equiv> (watch_step observe)\<^sup>*\<^sup>*"

lemma watch_reachable_steps: "watch_steps observe s s' \<Longrightarrow> watch_reachable observe s \<Longrightarrow> watch_reachable observe s'"
  by (induction rule: rtranclp_induct) (auto intro: watch_more)

section \<open>The invariant\<close>

text \<open>The watchers that are still to see the event under way, and what is pending for one of them.\<close>

fun under_way :: "'e informer \<Rightarrow> nat list" where
  "under_way InformerIdle = []"
| "under_way (InformerAt e ws) = ws"
| "under_way (InformerSending e i ws) = i # ws"

fun current_event :: "'e informer \<Rightarrow> 'e option" where
  "current_event InformerIdle = None"
| "current_event (InformerAt e ws) = Some e"
| "current_event (InformerSending e i ws) = Some e"

definition pending :: "('e, 'x) watch_state \<Rightarrow> nat \<Rightarrow> 'e list" where
  "pending s i = (case current_event (ws_informer s) of
     None \<Rightarrow> [] | Some e \<Rightarrow> if i \<in> set (under_way (ws_informer s)) then [e] else [])"

definition watch_inv :: "(nat \<Rightarrow> watch_type \<times> 'o \<Rightarrow> 'x option) \<Rightarrow> (watch_type \<times> 'o, 'x) watch_state \<Rightarrow> bool" where
  "watch_inv observe s \<longleftrightarrow>
    distinct (ws_registry s) \<and> distinct (under_way (ws_informer s)) \<and> set (under_way (ws_informer s)) \<subseteq> set (ws_registry s)
    \<and> (\<forall>i. i \<in> set (ws_registry s) \<longleftrightarrow> ws_client s i \<in> {Reading, StopCalled, StopLocked})
    \<and> (\<forall>i. ws_closed s i \<longleftrightarrow> ws_client s i = StopDone)
    \<and> (\<forall>e i ws. ws_informer s = InformerSending e i ws \<longrightarrow> observe i e \<noteq> None \<and> ws_client s i \<noteq> StopLocked)
    \<and> (\<forall>i. ws_received s i @ List.map_filter (observe i) (pending s i) = List.map_filter (observe i) (ws_published s i))"

lemma pending_cong: "ws_informer s' = ws_informer s \<Longrightarrow> pending s' = pending s"
  by (auto simp: pending_def split: option.splits)

lemma map_filter_append: "List.map_filter f (xs @ ys) = List.map_filter f xs @ List.map_filter f ys"
  by (simp add: List.map_filter_def)

lemma map_filter_one: "List.map_filter f [x] = (case f x of None \<Rightarrow> [] | Some y \<Rightarrow> [y])"
  by (simp add: List.map_filter_def split: option.splits)

lemma watch_inv_init: "watch_inv observe watch_init"
  by (simp add: watch_inv_def watch_init_def NewWatchRegistry_def pending_def)

lemma watch_inv_client:
  assumes "watch_inv observe s" "ws_client s i \<in> {Reading, StopCalled}" "p \<in> {StopCalled, StopLocked}"
    and "p = StopLocked \<Longrightarrow> sending_to (ws_informer s) \<noteq> Some i"
  shows "watch_inv observe (s\<lparr>ws_client := (ws_client s)(i := p)\<rparr>)" (is "watch_inv observe ?t")
proof -
  note inv = assms(1) [unfolded watch_inv_def]
  have member: "j \<in> set (ws_registry s) \<longleftrightarrow> ws_client s j \<in> {Reading, StopCalled, StopLocked}" for j using inv by blast
  have closed: "ws_closed s j \<longleftrightarrow> ws_client s j = StopDone" for j using inv by blast
  have sending: "ws_informer s = InformerSending e j ws \<Longrightarrow> observe j e \<noteq> None \<and> ws_client s j \<noteq> StopLocked" for e j ws
    using inv by blast
  have "(\<forall>j. j \<in> set (ws_registry ?t) \<longleftrightarrow> ws_client ?t j \<in> {Reading, StopCalled, StopLocked})"
    using member assms(2,3) by auto
  moreover have "\<forall>j. ws_closed ?t j \<longleftrightarrow> ws_client ?t j = StopDone" using closed assms(2,3) by auto
  moreover have "observe j e \<noteq> None \<and> ws_client ?t j \<noteq> StopLocked" if "ws_informer ?t = InformerSending e j ws" for e j ws
  proof -
    have "ws_informer s = InformerSending e j ws" using that by simp
    then show ?thesis using sending [of e j ws] assms(3,4) by auto
  qed
  moreover have "pending ?t = pending s" by (rule pending_cong) simp
  ultimately show ?thesis using inv unfolding watch_inv_def by simp
qed

lemma watch_inv_step:
  assumes "watch_inv observe s" "watch_step observe s s'"
  shows "watch_inv observe s'"
  using assms(2)
proof (cases rule: watch_step.cases)
  case (step_subscribe i)
  then have "i \<notin> set (ws_registry s)" using assms(1) by (auto simp: watch_inv_def)
  then show ?thesis using step_subscribe assms(1) by (auto simp: watch_inv_def Subscribe_def pending_def)
next
  case (step_notify n e)
  then show ?thesis using assms(1) by (auto simp: watch_inv_def pending_def map_filter_append)
next
  case (step_pass_over e i ws)
  have "ws_received s j @ List.map_filter (observe j) (pending s' j) = List.map_filter (observe j) (ws_published s j)" for j
    using step_pass_over assms(1) by (auto simp: watch_inv_def pending_def map_filter_one dest: spec [of _ j] split: if_splits)
  then show ?thesis using step_pass_over assms(1) by (auto simp: watch_inv_def)
next
  case (step_read_lock e i ws)
  have "pending s' = pending s" using step_read_lock by (simp add: pending_def fun_eq_iff)
  then show ?thesis using step_read_lock assms(1) by (auto simp: watch_inv_def)
next
  case (step_send e i ws x)
  have "ws_received s' j @ List.map_filter (observe j) (pending s' j) = List.map_filter (observe j) (ws_published s j)" for j
    using step_send assms(1) by (auto simp: watch_inv_def pending_def map_filter_one dest: spec [of _ j] split: if_splits)
  then show ?thesis using step_send assms(1) by (auto simp: watch_inv_def)
next
  case (step_finish e)
  then show ?thesis using assms(1) by (auto simp: watch_inv_def pending_def)
next
  case (step_stop i)
  then show ?thesis using watch_inv_client [OF assms(1), of i StopCalled] by simp
next
  case (step_lock i)
  then show ?thesis using watch_inv_client [OF assms(1), of i StopLocked] by simp
next
  case (step_unsubscribe i)
  then show ?thesis using assms(1) by (auto simp: watch_inv_def pending_def Unsubscribe_filter)
qed

lemma watch_reachable_inv: "watch_reachable observe s \<Longrightarrow> watch_inv observe s"
  by (induction rule: watch_reachable.induct) (auto intro: watch_inv_init watch_inv_step)

section \<open>Delivery while the clients read\<close>

text \<open>The informer comes past a watcher whose client reads.\<close>

lemma delivery_moves:
  assumes "ws_informer s = InformerAt e (i # ws)" "ws_client s i = Reading"
  shows "\<exists>t. watch_steps observe s t \<and> ws_informer t = InformerAt e ws \<and> ws_registry t = ws_registry s
      \<and> ws_client t = ws_client s \<and> ws_published t = ws_published s"
proof (cases "observe i e")
  case None
  then show ?thesis using watch_step.step_pass_over [of s e i ws observe] assms(1)
    by (intro exI [of _ "s\<lparr>ws_informer := InformerAt e ws\<rparr>"]) auto
next
  case (Some x)
  let ?t = "s\<lparr>ws_informer := InformerSending e i ws\<rparr>"
  let ?u = "?t\<lparr>ws_informer := InformerAt e ws, ws_received := (ws_received ?t)(i := ws_received ?t i @ [x])\<rparr>"
  have "watch_step observe s ?t" using assms Some by (intro watch_step.step_read_lock) auto
  moreover have "watch_step observe ?t ?u" using assms Some by (intro watch_step.step_send) auto
  ultimately have "watch_steps observe s ?u" by (meson converse_rtranclp_into_rtranclp r_into_rtranclp)
  then show ?thesis by (intro exI [of _ ?u]) simp
qed

text \<open>From the point where the informer calls \<open>Observe\<close> on a list of reading clients it runs to its end.\<close>

lemma delivery_finishes:
  assumes "ws_informer s = InformerAt e ws" "\<forall>i \<in> set ws. ws_client s i = Reading"
  shows "\<exists>s'. watch_steps observe s s' \<and> ws_informer s' = InformerIdle \<and> ws_registry s' = ws_registry s
    \<and> ws_client s' = ws_client s \<and> ws_published s' = ws_published s"
  using assms
proof (induction ws arbitrary: s)
  case Nil
  then show ?case using watch_step.step_finish [of s e observe] by (intro exI [of _ "s\<lparr>ws_informer := InformerIdle\<rparr>"]) auto
next
  case (Cons i ws)
  have "\<exists>t. watch_steps observe s t \<and> ws_informer t = InformerAt e ws \<and> ws_registry t = ws_registry s
      \<and> ws_client t = ws_client s \<and> ws_published t = ws_published s"
    by (rule delivery_moves) (use Cons.prems in auto)
  then obtain t where t: "watch_steps observe s t" "ws_informer t = InformerAt e ws" "ws_registry t = ws_registry s"
    "ws_client t = ws_client s" "ws_published t = ws_published s" by blast
  then obtain s' where "watch_steps observe t s'" "ws_informer s' = InformerIdle" "ws_registry s' = ws_registry t"
    "ws_client s' = ws_client t" "ws_published s' = ws_published t"
    using Cons.IH [of t] Cons.prems(2) by auto
  then show ?case using t by (intro exI [of _ s']) (auto intro: rtranclp_trans)
qed

section \<open>Clients that stop\<close>

text \<open>The informer waits for somebody to receive, and the only client that could waits for the informer; or the two wait
  for each other's lock.\<close>

definition blocked :: "(nat \<Rightarrow> watch_type \<times> 'o \<Rightarrow> 'x option) \<Rightarrow> (watch_type \<times> 'o, 'x) watch_state \<Rightarrow> bool" where
  "blocked observe s \<longleftrightarrow>
    (\<exists>e i ws. ws_informer s = InformerSending e i ws \<and> ws_client s i = StopCalled)
    \<or> (\<exists>e i ws. ws_informer s = InformerAt e (i # ws) \<and> observe i e \<noteq> None \<and> ws_client s i = StopLocked)"

text \<open>Nothing is delivered any more, and nobody can subscribe or unsubscribe.\<close>

definition same_delivery :: "('e, 'x) watch_state \<Rightarrow> ('e, 'x) watch_state \<Rightarrow> bool" where
  "same_delivery s s' \<longleftrightarrow> ws_informer s' = ws_informer s \<and> ws_received s' = ws_received s \<and> ws_registry s' = ws_registry s"

lemma blocked_step: "blocked observe s \<Longrightarrow> watch_step observe s s' \<Longrightarrow> blocked observe s' \<and> same_delivery s s'"
proof -
  assume b: "blocked observe s" and step: "watch_step observe s s'"
  have same: "same_delivery s s'" using b unfolding blocked_def
    by (elim disjE exE conjE) (rule watch_stepE [OF step]; auto simp: same_delivery_def)+
  have called: "ws_client s' i = StopCalled" if "ws_informer s = InformerSending e i ws" "ws_client s i = StopCalled" for e i ws
    using that by (rule_tac watch_stepE [OF step]) auto
  have locked: "ws_client s' i = StopLocked" if "ws_informer s = InformerAt e (i # ws)" "ws_client s i = StopLocked" for e i ws
    using that by (rule_tac watch_stepE [OF step]) auto
  show ?thesis using b same called locked unfolding blocked_def same_delivery_def by metis
qed

lemma blocked_for_good: "watch_steps observe s s' \<Longrightarrow> blocked observe s \<Longrightarrow> blocked observe s' \<and> same_delivery s s'"
proof (induction rule: rtranclp_induct)
  case (step t u)
  then show ?case using blocked_step [of observe t u] by (auto simp: same_delivery_def)
qed (simp add: same_delivery_def)

section \<open>Properties\<close>

text \<open>Jane watches the spaces after hers has been created.\<close>

definition ex_observe :: "nat \<Rightarrow> watch_type \<times> namespace option \<Rightarrow> (watch_type \<times> space) option" where
  "ex_observe i = watcher_Observe (sc_Resolver world_space_client (fst (ex_created Deployed))) \<lparr>wt_user = ex_user, wt_selector = None\<rparr>"

definition ex_subscribed :: "(watch_type \<times> namespace option, watch_type \<times> space) watch_state" where
  "ex_subscribed = watch_init\<lparr>ws_registry := Subscribe NewWatchRegistry 0, ws_client := (\<lambda>_. NotSubscribed)(0 := Reading)\<rparr>"

definition ex_notified :: "(watch_type \<times> namespace option, watch_type \<times> space) watch_state" where
  "ex_notified = ex_subscribed\<lparr>ws_informer := InformerAt (WAdded, Some ex_ns_s) [0],
     ws_published := \<lambda>i. if i \<in> set [0] then ws_published ex_subscribed i @ [(WAdded, Some ex_ns_s)] else ws_published ex_subscribed i\<rparr>"

definition ex_sending :: "(watch_type \<times> namespace option, watch_type \<times> space) watch_state" where
  "ex_sending = ex_notified\<lparr>ws_informer := InformerSending (WAdded, Some ex_ns_s) 0 []\<rparr>"

lemma ex_observe_some: "ex_observe i (WAdded, Some ex_ns_s) = Some (WAdded, ConvertNamespace ex_ns_s)"
proof -
  have "watcher_Observe (sc_Resolver world_space_client (fst (ex_created Deployed))) \<lparr>wt_user = ex_user, wt_selector = None\<rparr>
      (WAdded, Some ex_ns_s) = Some (WAdded, ConvertNamespace ex_ns_s)" by code_simp
  then show ?thesis by (simp add: ex_observe_def)
qed

lemma subscribed_reachable: "watch_reachable observe (watch_init\<lparr>ws_registry := Subscribe NewWatchRegistry i, ws_client := (\<lambda>_. NotSubscribed)(i := Reading)\<rparr>)"
  using watch_more [OF watch_start watch_step.step_subscribe [of watch_init i observe]] by (simp add: watch_init_def)

lemma notified_reachable:
  fixes observe :: "nat \<Rightarrow> watch_type \<times> 'o \<Rightarrow> 'x option"
  assumes "watch_reachable observe s" "ws_informer s = InformerIdle" "notified n = Some e"
  shows "watch_reachable observe (s\<lparr>ws_informer := InformerAt e (ws_registry s),
       ws_published := (\<lambda>i. if i \<in> set (ws_registry s) then ws_published s i @ [e] else ws_published s i)\<rparr>)"
  using watch_more [OF assms(1) watch_step.step_notify [OF assms(2,3)]] .

lemma ex_notified_reachable: "watch_reachable ex_observe ex_notified"
proof -
  have "watch_reachable ex_observe ex_subscribed" unfolding ex_subscribed_def by (rule subscribed_reachable)
  from notified_reachable [OF this, of "Added (Some (Some ex_ns_s))" "(WAdded, Some ex_ns_s)"] show ?thesis
    by (simp add: ex_notified_def ex_subscribed_def watch_init_def OnAdd_def Subscribe_def NewWatchRegistry_def)
qed

lemma ex_sending_reachable: "watch_reachable ex_observe ex_sending"
proof -
  have "watch_step ex_observe ex_notified (ex_notified\<lparr>ws_informer := InformerSending (WAdded, Some ex_ns_s) 0 []\<rparr>)"
    by (rule watch_step.step_read_lock) (simp_all add: ex_notified_def ex_subscribed_def ex_observe_some)
  then show ?thesis unfolding ex_sending_def by (rule watch_more [OF ex_notified_reachable])
qed

text \<open>C26. Delivery is exact: at every moment a watcher has received, in order and once each, precisely what it may see and
  has selected of the events published while it was subscribed, save an event that is still on its way to it.\<close>

theorem watch_delivery_exact:
  assumes "watch_reachable observe s"
  shows "ws_received s i @ List.map_filter (observe i) (pending s i) = List.map_filter (observe i) (ws_published s i)
    \<and> (ws_informer s = InformerIdle \<longrightarrow> ws_received s i = List.map_filter (observe i) (ws_published s i))"
proof -
  have r: "ws_received s i @ List.map_filter (observe i) (pending s i) = List.map_filter (observe i) (ws_published s i)"
    using watch_reachable_inv [OF assms] unfolding watch_inv_def by blast
  moreover have "ws_informer s = InformerIdle \<Longrightarrow> pending s i = []" by (simp add: pending_def)
  ultimately show ?thesis by auto
qed

theorem watch_delivery_exact_witness:
  "ws_received ex_notified 0 @ List.map_filter (ex_observe 0) (pending ex_notified 0) = [(WAdded, ConvertNamespace ex_ns_s)]"
  using watch_delivery_exact [OF ex_notified_reachable, of 0]
  by (simp add: ex_notified_def ex_subscribed_def watch_init_def map_filter_one ex_observe_some)

text \<open>Nothing is ever sent on a closed channel, and no channel is closed twice: the channel of the watcher the informer
  sends to is open, and so is that of a watcher that is about to be closed.\<close>

lemma watch_channels_open:
  assumes "watch_reachable observe s" "sending_to (ws_informer s) = Some i \<or> ws_client s i = StopLocked"
  shows "\<not> ws_closed s i"
proof -
  note inv = watch_reachable_inv [OF assms(1), unfolded watch_inv_def]
  have closed: "ws_closed s i \<longleftrightarrow> ws_client s i = StopDone" using inv by blast
  have "i \<in> set (ws_registry s)" if "sending_to (ws_informer s) = Some i"
    using that inv by (cases "ws_informer s") auto
  then have "ws_client s i \<in> {Reading, StopCalled, StopLocked}" using assms(2) inv by blast
  then show ?thesis using closed by auto
qed

theorem watch_channels_open_witness: "\<not> ws_closed ex_sending 0"
  using watch_channels_open [OF ex_sending_reachable, of 0] by (simp add: ex_sending_def)

text \<open>As long as no client is stopping, every event arrives: from every reachable state the informer can go on until
  each watcher has all that was published for it.\<close>

lemma watch_delivers:
  assumes "watch_reachable observe s" "\<forall>i. ws_client s i \<noteq> StopCalled \<and> ws_client s i \<noteq> StopLocked"
  shows "\<exists>s'. watch_steps observe s s' \<and> ws_informer s' = InformerIdle
    \<and> (\<forall>i. ws_received s' i = List.map_filter (observe i) (ws_published s i))"
proof -
  have exact: "ws_received s' i = List.map_filter (observe i) (ws_published s' i)"
    if "watch_steps observe s s'" "ws_informer s' = InformerIdle" for s' i
    using watch_reachable_inv [OF watch_reachable_steps [OF that(1) assms(1)]] that(2)
    by (auto simp: watch_inv_def pending_def)
  have reads: "ws_client s i = Reading" if "i \<in> set (under_way (ws_informer s))" for i
    using that assms(2) watch_reachable_inv [OF assms(1)] unfolding watch_inv_def by blast
  have "\<exists>s'. watch_steps observe s s' \<and> ws_informer s' = InformerIdle \<and> ws_published s' = ws_published s"
  proof (cases "ws_informer s")
    case InformerIdle
    then show ?thesis by blast
  next
    case (InformerAt e ws)
    then show ?thesis using delivery_finishes [of s e ws observe] reads by auto
  next
    case (InformerSending e i ws)
    have "observe i e \<noteq> None" using watch_reachable_inv [OF assms(1)] InformerSending unfolding watch_inv_def by blast
    then obtain x where x: "observe i e = Some x" by auto
    let ?t = "s\<lparr>ws_informer := InformerAt e ws, ws_received := (ws_received s)(i := ws_received s i @ [x])\<rparr>"
    have "watch_step observe s ?t" using InformerSending x reads by (intro watch_step.step_send) auto
    moreover obtain s' where "watch_steps observe ?t s'" "ws_informer s' = InformerIdle" "ws_published s' = ws_published ?t"
      using delivery_finishes [of ?t e ws observe] reads InformerSending by auto
    ultimately show ?thesis by (intro exI [of _ s']) (auto intro: converse_rtranclp_into_rtranclp)
  qed
  then show ?thesis using exact by metis
qed

theorem watch_delivers_witness:
  "\<exists>s'. watch_steps ex_observe ex_sending s' \<and> ws_informer s' = InformerIdle
    \<and> ws_received s' 0 = [(WAdded, ConvertNamespace ex_ns_s)]"
proof -
  have "\<forall>i. ws_client ex_sending i \<noteq> StopCalled \<and> ws_client ex_sending i \<noteq> StopLocked"
    by (simp add: ex_sending_def ex_notified_def ex_subscribed_def)
  moreover have "List.map_filter (ex_observe 0) (ws_published ex_sending 0) = [(WAdded, ConvertNamespace ex_ns_s)]"
    by (simp add: ex_sending_def ex_notified_def ex_subscribed_def watch_init_def map_filter_one ex_observe_some)
  ultimately show ?thesis using watch_delivers [OF ex_sending_reachable] by metis
qed

text \<open>The watchers before a given one are served while their clients read.\<close>

lemma delivery_reaches:
  assumes "ws_informer s = InformerAt e (us @ i # ws)" "\<forall>j \<in> set us. ws_client s j = Reading"
  shows "\<exists>t. watch_steps observe s t \<and> ws_informer t = InformerAt e (i # ws) \<and> ws_client t = ws_client s"
  using assms
proof (induction us arbitrary: s)
  case Nil
  then show ?case by auto
next
  case (Cons j us)
  have "\<exists>t. watch_steps observe s t \<and> ws_informer t = InformerAt e (us @ i # ws) \<and> ws_client t = ws_client s"
    using delivery_moves [of s e j "us @ i # ws" observe] Cons.prems by auto
  then obtain t where t: "watch_steps observe s t" "ws_informer t = InformerAt e (us @ i # ws)" "ws_client t = ws_client s" by blast
  then obtain u where "watch_steps observe t u" "ws_informer u = InformerAt e (i # ws)" "ws_client u = ws_client t"
    using Cons.IH [of t] Cons.prems(2) by auto
  then show ?case using t by (intro exI [of _ u]) (auto intro: rtranclp_trans)
qed

text \<open>The client of the watcher the informer waits for stays where it is.\<close>

lemma stuck_client:
  assumes "watch_steps observe t u"
    and "ws_informer t = InformerSending e i ws \<and> ws_client t i = StopCalled
      \<or> ws_informer t = InformerAt e (i # ws) \<and> observe i e \<noteq> None \<and> ws_client t i = StopLocked"
  shows "same_delivery t u \<and> ws_client u i = ws_client t i"
  using assms(1)
proof (induction rule: rtranclp_induct)
  case (step u v)
  have b: "blocked observe u"
    using step.IH assms(2) unfolding blocked_def same_delivery_def by metis
  have "ws_client v i = ws_client u i"
    by (rule watch_stepE [OF step.hyps(2)]) (use step.IH assms(2) in \<open>auto simp: same_delivery_def\<close>)
  then show ?case using blocked_step [OF b step.hyps(2)] step.IH by (auto simp: same_delivery_def)
qed (simp add: same_delivery_def)

text \<open>C27. A client that stops while the informer is sending to it blocks the registry for good. From every reachable state
  in which the informer is idle and nobody is stopping, whatever is published next that a reading watcher is to see,
  the informer can come to be sending to it when its client stops; from then on, whatever the threads do, the client
  does not get the lock of its watcher, the informer does not move, no watcher receives anything more, and nobody
  subscribes or unsubscribes. The same holds for a client that stops just before the informer reaches its watcher, where
  the two wait for each other's lock.\<close>

theorem watch_stop_blocks:
  assumes "watch_reachable observe s" "ws_informer s = InformerIdle"
    and "\<forall>j. ws_client s j \<noteq> StopCalled \<and> ws_client s j \<noteq> StopLocked"
    and "ws_client s i = Reading" "notified n = Some e" "observe i e = Some x"
  shows "(\<exists>t ws. watch_steps observe s t \<and> ws_informer t = InformerSending e i ws \<and> ws_client t i = StopCalled
      \<and> (\<forall>u. watch_steps observe t u \<longrightarrow> same_delivery t u \<and> ws_client u i = StopCalled))
    \<and> (\<exists>t ws. watch_steps observe s t \<and> ws_informer t = InformerAt e (i # ws) \<and> ws_client t i = StopLocked
      \<and> (\<forall>u. watch_steps observe t u \<longrightarrow> same_delivery t u \<and> ws_client u i = StopLocked))"
proof -
  have member: "j \<in> set (ws_registry s) \<longleftrightarrow> ws_client s j = Reading" for j
    using watch_reachable_inv [OF assms(1)] assms(3) unfolding watch_inv_def by blast
  obtain us ws where r: "ws_registry s = us @ i # ws" using member [of i] assms(4) by (meson split_list)
  define s1 where "s1 = s\<lparr>ws_informer := InformerAt e (ws_registry s),
    ws_published := (\<lambda>j. if j \<in> set (ws_registry s) then ws_published s j @ [e] else ws_published s j)\<rparr>"
  have 1: "watch_step observe s s1" unfolding s1_def by (rule watch_step.step_notify [OF assms(2,5)])
  obtain s2 where s2: "watch_steps observe s1 s2" "ws_informer s2 = InformerAt e (i # ws)" "ws_client s2 = ws_client s"
    using delivery_reaches [of s1 e us i ws observe] member r by (auto simp: s1_def)
  have 2: "watch_steps observe s s2" by (rule converse_rtranclp_into_rtranclp [OF 1 s2(1)])
  have c2: "ws_client s2 i = Reading" using s2(3) assms(4) by simp
  define s3 where "s3 = s2\<lparr>ws_informer := InformerSending e i ws\<rparr>"
  define s4 where "s4 = s3\<lparr>ws_client := (ws_client s3)(i := StopCalled)\<rparr>"
  have "watch_step observe s2 s3" unfolding s3_def using s2(2) c2 assms(6) by (intro watch_step.step_read_lock) auto
  moreover have "watch_step observe s3 s4" unfolding s4_def using c2 by (intro watch_step.step_stop) (simp add: s3_def)
  ultimately have 4: "watch_steps observe s s4" using 2 by (meson rtranclp.rtrancl_into_rtrancl)
  define t3 where "t3 = s2\<lparr>ws_client := (ws_client s2)(i := StopCalled)\<rparr>"
  define t4 where "t4 = t3\<lparr>ws_client := (ws_client t3)(i := StopLocked)\<rparr>"
  have "watch_step observe s2 t3" unfolding t3_def using c2 by (intro watch_step.step_stop) simp
  moreover have "watch_step observe t3 t4" unfolding t4_def using s2(2) by (intro watch_step.step_lock) (simp_all add: t3_def)
  ultimately have 5: "watch_steps observe s t4" using 2 by (meson rtranclp.rtrancl_into_rtrancl)
  have f: "ws_informer s4 = InformerSending e i ws" "ws_client s4 i = StopCalled" by (simp_all add: s4_def s3_def)
  have g: "ws_informer t4 = InformerAt e (i # ws)" "ws_client t4 i = StopLocked" using s2(2) by (simp_all add: t4_def t3_def)
  have "same_delivery s4 u \<and> ws_client u i = StopCalled" if "watch_steps observe s4 u" for u
    using stuck_client [OF that, of e i ws] f by simp
  moreover have "same_delivery t4 u \<and> ws_client u i = StopLocked" if "watch_steps observe t4 u" for u
    using stuck_client [OF that, of e i ws] g assms(6) by simp
  ultimately show ?thesis using 4 5 f g by blast
qed

theorem watch_stop_blocks_witness:
  "\<exists>t ws. watch_steps ex_observe ex_subscribed t \<and> ws_informer t = InformerSending (WAdded, Some ex_ns_s) 0 ws
    \<and> ws_client t 0 = StopCalled"
proof -
  have r: "watch_reachable ex_observe ex_subscribed" unfolding ex_subscribed_def by (rule subscribed_reachable)
  have c: "ws_informer ex_subscribed = InformerIdle" "\<forall>j. ws_client ex_subscribed j \<noteq> StopCalled \<and> ws_client ex_subscribed j \<noteq> StopLocked"
    "ws_client ex_subscribed 0 = Reading" by (simp_all add: ex_subscribed_def watch_init_def)
  have n: "notified (Added (Some (Some ex_ns_s))) = Some (WAdded, Some ex_ns_s)" by (simp add: OnAdd_def)
  show ?thesis using watch_stop_blocks [OF r c n ex_observe_some] by blast
qed

end
