(* ===== verification/CacheClient.thy ===== *)
theory CacheClient
  imports AccountQuota
begin

text \<open>
  The client of the manager whose writes wait for the cache (\<open>pkg/manager/blockingcacheclient/client.go\<close>): after a
  write it polls the cache until the write is seen. What it waits for is a comparison of resource versions as strings,
  which is right for versions of the same length and wrong where a digit is added. The client it wraps is a parameter.
\<close>

section \<open>Blocking writes\<close>

text \<open>
  \<open>Get\<close> reads the cache; the time between two polls passes before a read. \<open>cc_Registered\<close> says that the scheme
  knows the type of an object, \<open>cc_NotRegistered\<close> is \<open>runtime.IsNotRegisteredError\<close>. A write returns the object as
  the API server returned it.
\<close>

record ('w, 'o) cached_client =
  cc_Unstructured :: "'o \<Rightarrow> bool"
  cc_Accessor :: "'o \<Rightarrow> gerror + obj_meta"
  cc_Registered :: "'o \<Rightarrow> bool"
  cc_NotRegistered :: "gerror \<Rightarrow> bool"
  cc_Get :: "'o \<Rightarrow> string \<Rightarrow> string \<Rightarrow> 'w \<Rightarrow> (gerror + 'o) \<times> 'w"
  cc_Create :: "'o \<Rightarrow> 'w \<Rightarrow> (gerror + 'o) \<times> 'w"
  cc_Patch :: "'o \<Rightarrow> 'w \<Rightarrow> (gerror + 'o) \<times> 'w"
  cc_Update :: "'o \<Rightarrow> 'w \<Rightarrow> (gerror + 'o) \<times> 'w"
  cc_Delete :: "'o \<Rightarrow> 'w \<Rightarrow> (gerror + 'o) \<times> 'w"
  cc_StatusUpdate :: "'o \<Rightarrow> 'w \<Rightarrow> (gerror + 'o) \<times> 'w"
  cc_StatusPatch :: "'o \<Rightarrow> 'w \<Rightarrow> (gerror + 'o) \<times> 'w"

text \<open>Two seconds in steps of 10 milliseconds.\<close>

definition cache_ticks :: nat where "cache_ticks = 200"

definition cache_poll ::
  "('w, 'o) cached_client \<Rightarrow> 'o \<Rightarrow> (obj_meta \<Rightarrow> 'w \<Rightarrow> (gerror + unit option) \<times> 'w) \<Rightarrow> 'w \<Rightarrow> (gerror + unit) \<times> 'w"
where
  "cache_poll c obj condition w =
    (if cc_Unstructured c obj then (Inr (), w)
     else case cc_Accessor c obj of
       Inl err \<Rightarrow> (Inl err, w)
     | Inr accessor \<Rightarrow>
         if \<not> cc_Registered c obj then (Inr (), w)
         else PollImmediate cache_ticks (condition accessor) w)"

definition answer :: "bool \<Rightarrow> gerror + unit option" where
  "answer b = Inr (if b then Some () else None)"

definition created_seen :: "('w, 'o) cached_client \<Rightarrow> 'o \<Rightarrow> obj_meta \<Rightarrow> 'w \<Rightarrow> (gerror + unit option) \<times> 'w" where
  "created_seen c obj old w =
    (case cc_Get c obj (om_namespace old) (om_name old) w of
       (Inl err, w) \<Rightarrow>
         (if cc_NotRegistered c err then answer True
          else if \<not> IsNotFound err then Inl err
          else answer False, w)
     | (Inr newObj, w) \<Rightarrow> (answer True, w))"

definition changed_seen ::
  "(obj_meta \<Rightarrow> obj_meta \<Rightarrow> bool) \<Rightarrow> ('w, 'o) cached_client \<Rightarrow> 'o \<Rightarrow> obj_meta \<Rightarrow> 'w \<Rightarrow> (gerror + unit option) \<times> 'w"
where
  "changed_seen seen c obj old w =
    (case cc_Get c obj (om_namespace old) (om_name old) w of
       (Inl err, w) \<Rightarrow>
         (if cc_NotRegistered c err then answer True
          else if \<not> IsNotFound err then Inl err
          else answer True, w)
     | (Inr newObj, w) \<Rightarrow>
         (case cc_Accessor c newObj of
            Inl err \<Rightarrow> (Inl err, w)
          | Inr newAccessor \<Rightarrow> (answer (seen old newAccessor), w)))"

text \<open>Strings are compared by their bytes.\<close>

definition update_seen :: "obj_meta \<Rightarrow> obj_meta \<Rightarrow> bool" where
  "update_seen old new \<longleftrightarrow> om_uid old \<noteq> om_uid new \<or> om_resourceVersion new \<ge> om_resourceVersion old"

definition delete_seen :: "obj_meta \<Rightarrow> obj_meta \<Rightarrow> bool" where
  "delete_seen old new \<longleftrightarrow> om_uid old \<noteq> om_uid new \<or> om_deletionTimestamp new \<noteq> None"

definition blockCreate :: "('w, 'o) cached_client \<Rightarrow> 'o \<Rightarrow> 'w \<Rightarrow> (gerror + unit) \<times> 'w" where
  "blockCreate c obj = cache_poll c obj (created_seen c obj)"

definition blockUpdate :: "('w, 'o) cached_client \<Rightarrow> 'o \<Rightarrow> 'w \<Rightarrow> (gerror + unit) \<times> 'w" where
  "blockUpdate c obj = cache_poll c obj (changed_seen update_seen c obj)"

definition blockDelete :: "('w, 'o) cached_client \<Rightarrow> 'o \<Rightarrow> 'w \<Rightarrow> (gerror + unit) \<times> 'w" where
  "blockDelete c obj = cache_poll c obj (changed_seen delete_seen c obj)"

definition then_block ::
  "(gerror + 'o) \<times> 'w \<Rightarrow> ('o \<Rightarrow> 'w \<Rightarrow> (gerror + unit) \<times> 'w) \<Rightarrow> (gerror + 'o) \<times> 'w"
where
  "then_block r block =
    (case r of
       (Inl err, w) \<Rightarrow> (Inl err, w)
     | (Inr obj, w) \<Rightarrow>
         (case block obj w of
            (Inl err, w) \<Rightarrow> (Inl err, w)
          | (Inr _, w) \<Rightarrow> (Inr obj, w)))"

definition CacheClient_Create :: "('w, 'o) cached_client \<Rightarrow> 'o \<Rightarrow> 'w \<Rightarrow> (gerror + 'o) \<times> 'w" where
  "CacheClient_Create c obj w = then_block (cc_Create c obj w) (blockCreate c)"

definition CacheClient_Patch :: "('w, 'o) cached_client \<Rightarrow> 'o \<Rightarrow> 'w \<Rightarrow> (gerror + 'o) \<times> 'w" where
  "CacheClient_Patch c obj w = then_block (cc_Patch c obj w) (blockUpdate c)"

definition CacheClient_Update :: "('w, 'o) cached_client \<Rightarrow> 'o \<Rightarrow> 'w \<Rightarrow> (gerror + 'o) \<times> 'w" where
  "CacheClient_Update c obj w = then_block (cc_Update c obj w) (blockUpdate c)"

definition CacheClient_Delete :: "('w, 'o) cached_client \<Rightarrow> 'o \<Rightarrow> 'w \<Rightarrow> (gerror + 'o) \<times> 'w" where
  "CacheClient_Delete c obj w = then_block (cc_Delete c obj w) (blockDelete c)"

definition CacheStatusClient_Update :: "('w, 'o) cached_client \<Rightarrow> 'o \<Rightarrow> 'w \<Rightarrow> (gerror + 'o) \<times> 'w" where
  "CacheStatusClient_Update c obj w = then_block (cc_StatusUpdate c obj w) (blockUpdate c)"

definition CacheStatusClient_Patch :: "('w, 'o) cached_client \<Rightarrow> 'o \<Rightarrow> 'w \<Rightarrow> (gerror + 'o) \<times> 'w" where
  "CacheStatusClient_Patch c obj w = then_block (cc_StatusPatch c obj w) (blockUpdate c)"

section \<open>What has been waited for\<close>

lemma then_block_ok:
  assumes "then_block r block = (Inr x, w')"
  obtains w where "r = (Inr x, w)" "block x w = (Inr (), w')"
proof -
  obtain q w where r: "r = (q, w)" by fastforce
  obtain y where q: "q = Inr y" using assms unfolding r then_block_def by (cases q) simp_all
  obtain b v where b: "block y w = (b, v)" by fastforce
  show thesis
  proof (cases b)
    case (Inl err)
    then show thesis using assms unfolding r q then_block_def by (simp add: b)
  next
    case (Inr u)
    then have "x = y \<and> v = w'" using assms unfolding r q then_block_def by (simp add: b)
    then show thesis using that [of w] r q b Inr by simp
  qed
qed

text \<open>What the cache holds under a name.\<close>

locale cache_reader =
  fixes c :: "('w, 'o) cached_client" and cached :: "'w \<Rightarrow> string \<Rightarrow> string \<Rightarrow> 'o option" and meta :: "'o \<Rightarrow> obj_meta"
  assumes Get_cached: "cc_Get c obj ns n w = (r, w') \<Longrightarrow>
      (case r of Inr x \<Rightarrow> cached w' ns n = Some x
       | Inl e \<Rightarrow> \<not> cc_NotRegistered c e \<and> (IsNotFound e \<longrightarrow> cached w' ns n = None))"
    and Accessor_ok: "cc_Accessor c x = Inr (meta x)"
    and Typed: "\<not> cc_Unstructured c x" "cc_Registered c x"
begin

lemma polled:
  "cache_poll c obj condition w = (Inr (), w') \<Longrightarrow> \<exists>v. condition (meta obj) v = (Inr (Some ()), w')"
  unfolding cache_poll_def using PollImmediate_done [of cache_ticks "condition (meta obj)" w "()" w']
  by (simp add: Accessor_ok Typed)

lemma create_blocks:
  assumes "CacheClient_Create c obj w = (Inr x, w')"
  shows "cached w' (om_namespace (meta x)) (om_name (meta x)) \<noteq> None"
proof -
  obtain w1 where "blockCreate c x w1 = (Inr (), w')"
    using assms unfolding CacheClient_Create_def by (elim then_block_ok)
  then obtain v where v: "created_seen c x (meta x) v = (Inr (Some ()), w')"
    unfolding blockCreate_def using polled by blast
  obtain r u where g: "cc_Get c x (om_namespace (meta x)) (om_name (meta x)) v = (r, u)" by fastforce
  from Get_cached [OF g] show ?thesis using v g
    by (auto simp: created_seen_def answer_def split: sum.splits if_splits)
qed

lemma change_blocks:
  assumes "cache_poll c x (changed_seen seen c x) w1 = (Inr (), w')"
  shows "case cached w' (om_namespace (meta x)) (om_name (meta x)) of None \<Rightarrow> True | Some y \<Rightarrow> seen (meta x) (meta y)"
proof -
  obtain v where v: "changed_seen seen c x (meta x) v = (Inr (Some ()), w')" using assms polled by blast
  obtain r u where g: "cc_Get c x (om_namespace (meta x)) (om_name (meta x)) v = (r, u)" by fastforce
  from Get_cached [OF g] show ?thesis using v g
    by (auto simp: changed_seen_def answer_def Accessor_ok split: sum.splits if_splits)
qed

end

section \<open>Versions as strings and as numbers\<close>

definition version_nat :: "string \<Rightarrow> nat" where
  "version_nat s = foldl (\<lambda>n c. 10 * n + (of_char c - 48)) 0 s"

lemma digit_value: "is_digit c \<Longrightarrow> 48 \<le> (of_char c :: nat) \<and> (of_char c :: nat) \<le> 57"
  by (auto simp: is_digit_def less_eq_char_def)

lemma foldl_digits: "foldl (\<lambda>n c. 10 * n + (of_char c - 48)) a s = a * 10 ^ length s + version_nat s"
proof (induction s arbitrary: a)
  case (Cons c s)
  show ?case using Cons [of "10 * a + (of_char c - 48)"] Cons [of "of_char c - 48"]
    by (simp add: version_nat_def algebra_simps)
qed (simp add: version_nat_def)

lemma version_nat_Cons: "version_nat (c # s) = (of_char c - 48) * 10 ^ length s + version_nat s"
  using foldl_digits [of "of_char c - 48" s] by (simp add: version_nat_def)

lemma version_nat_less: "list_all is_digit s \<Longrightarrow> version_nat s < 10 ^ length s"
proof (induction s)
  case (Cons c s)
  have "(of_char c - 48 :: nat) \<le> 9" using Cons.prems digit_value by fastforce
  then have "(of_char c - 48 :: nat) * 10 ^ length s \<le> 9 * 10 ^ length s" by (rule mult_right_mono) simp
  moreover have "version_nat s < 10 ^ length s" using Cons by simp
  ultimately have "(of_char c - 48 :: nat) * 10 ^ length s + version_nat s < 10 * 10 ^ length s" by linarith
  then show ?case by (simp add: version_nat_Cons)
qed (simp add: version_nat_def)

lemma version_order:
  "length a = length b \<Longrightarrow> list_all is_digit a \<Longrightarrow> list_all is_digit b \<Longrightarrow> a \<le> b \<Longrightarrow> version_nat a \<le> version_nat b"
proof (induction a b rule: list_induct2)
  case (Cons c a d b)
  show ?case
  proof (cases "c = d")
    case True
    then show ?thesis using Cons by (simp add: version_nat_Cons)
  next
    case False
    then have "c < d" using Cons.prems by simp
    then have "(of_char c - 48 :: nat) + 1 \<le> of_char d - 48"
      using digit_value [of c] digit_value [of d] Cons.prems by (simp add: less_char_def)
    then have "((of_char c - 48 :: nat) + 1) * 10 ^ length b \<le> (of_char d - 48) * 10 ^ length b" by (rule mult_right_mono) simp
    moreover have "version_nat a < 10 ^ length b" using version_nat_less [of a] Cons by simp
    ultimately show ?thesis using Cons.hyps by (simp add: version_nat_Cons)
  qed
qed simp

text \<open>The version that the server writes for a number.\<close>

lemma string_of_nat_digits: "list_all is_digit (string_of_nat n)"
proof (induction n rule: string_of_nat.induct)
  case (1 n)
  have "is_digit (char_of (48 + k))" if "k < 10" for k :: nat
    using that by (simp add: is_digit_def less_eq_char_def)
  then show ?case using 1 by (simp add: string_of_nat.simps [of n])
qed

lemma version_nat_string: "version_nat (string_of_nat n) = n"
proof (induction n rule: string_of_nat.induct)
  case (1 n)
  have "version_nat (s @ [char_of (48 + k)]) = 10 * version_nat s + k" if "k < 10" for s and k :: nat
    using that by (simp add: version_nat_def)
  from this [of _ "[]"] this [of "n mod 10" "string_of_nat (n div 10)"] show ?case
    using 1 by (simp add: string_of_nat.simps [of n]) (simp add: version_nat_def)
qed

lemma string_of_nat_leading:
  assumes "length (string_of_nat m) = l + d" "0 < l"
  shows "\<exists>suf. string_of_nat m = string_of_nat (m div 10 ^ d) @ suf \<and> length suf = d"
  using assms
proof (induction d arbitrary: m)
  case (Suc d)
  then have "\<not> m < 10" by (auto simp: string_of_nat.simps [of m])
  then have m: "string_of_nat m = string_of_nat (m div 10) @ [char_of (48 + m mod 10)]" by (simp add: string_of_nat.simps [of m])
  obtain suf where "string_of_nat (m div 10) = string_of_nat (m div 10 div 10 ^ d) @ suf" "length suf = d"
    using Suc.IH [of "m div 10"] Suc.prems m by auto
  then show ?case using m by (intro exI [of _ "suf @ [char_of (48 + m mod 10)]"]) (simp add: div_mult2_eq)
qed simp

lemma append_less: "length a = length b \<Longrightarrow> (a :: string) < b \<Longrightarrow> a @ x < b"
  by (induction a b rule: list_induct2) auto

text \<open>A version with more digits is the smaller string if its leading digits are less than the version with fewer.\<close>

lemma longer_version_less:
  assumes "length (string_of_nat m) = length (string_of_nat n) + d" "m div 10 ^ d < n"
  shows "string_of_nat m < string_of_nat n"
proof -
  have "0 < length (string_of_nat n)" by (simp add: string_of_nat.simps [of n])
  then obtain suf where m: "string_of_nat m = string_of_nat (m div 10 ^ d) @ suf" "length suf = d"
    using string_of_nat_leading [OF assms(1)] by blast
  then have len: "length (string_of_nat n) = length (string_of_nat (m div 10 ^ d))" using assms(1) by simp
  have "\<not> string_of_nat n \<le> string_of_nat (m div 10 ^ d)"
    using version_order [OF len string_of_nat_digits string_of_nat_digits] assms(2) by (auto simp: version_nat_string)
  then show ?thesis using append_less [of "string_of_nat (m div 10 ^ d)" "string_of_nat n" suf] len m(1) by simp
qed

section \<open>The client over a lagging cache\<close>

definition cache_key :: "string \<Rightarrow> string \<Rightarrow> string" where
  "cache_key ns n = ns @ ''/'' @ n"

definition meta_key :: "obj_meta \<Rightarrow> string" where
  "meta_key m = cache_key (om_namespace m) (om_name m)"

definition with_version :: "nat \<Rightarrow> obj_meta \<Rightarrow> obj_meta" where
  "with_version r m = m\<lparr>om_resourceVersion := string_of_nat r\<rparr>"

definition cached_Get :: "string \<Rightarrow> obj_meta api_store \<Rightarrow> (gerror + obj_meta) \<times> obj_meta api_store" where
  "cached_Get k st = (case store_Get k st of (None, st) \<Rightarrow> (Inl (NotFoundErr k), st) | (Some x, st) \<Rightarrow> (Inr x, st))"

definition stored_Create :: "obj_meta \<Rightarrow> obj_meta api_store \<Rightarrow> (gerror + obj_meta) \<times> obj_meta api_store" where
  "stored_Create m st =
    (let r = Suc (as_revision st); x = with_version r m in
     case map_of (as_objects st) (meta_key m) of
       Some _ \<Rightarrow> (Inl (AlreadyExistsErr (meta_key m)), st)
     | None \<Rightarrow> (Inr x, st\<lparr>as_objects := put (meta_key m) x (as_objects st), as_revision := r\<rparr>))"

definition stored_Update :: "obj_meta \<Rightarrow> obj_meta api_store \<Rightarrow> (gerror + obj_meta) \<times> obj_meta api_store" where
  "stored_Update m st = store_Update om_resourceVersion (\<lambda>r old new. with_version r new) (meta_key m) m st"

definition stored_Delete :: "obj_meta \<Rightarrow> obj_meta api_store \<Rightarrow> (gerror + obj_meta) \<times> obj_meta api_store" where
  "stored_Delete m st =
    (case map_of (as_objects st) (meta_key m) of
       None \<Rightarrow> (Inl (NotFoundErr (meta_key m)), st)
     | Some _ \<Rightarrow> (Inr m, st\<lparr>as_objects := del (meta_key m) (as_objects st), as_revision := Suc (as_revision st)\<rparr>))"

definition lagging_client :: "(obj_meta api_store, obj_meta) cached_client" where
  "lagging_client = \<lparr>cc_Unstructured = \<lambda>_. False, cc_Accessor = Inr, cc_Registered = \<lambda>_. True, cc_NotRegistered = \<lambda>_. False,
     cc_Get = \<lambda>_ ns n. cached_Get (cache_key ns n), cc_Create = stored_Create, cc_Patch = stored_Update, cc_Update = stored_Update,
     cc_Delete = stored_Delete, cc_StatusUpdate = stored_Update, cc_StatusPatch = stored_Update\<rparr>"

interpretation lagging: cache_reader lagging_client "\<lambda>st ns n. map_of (as_cache st) (cache_key ns n)" id
  by unfold_locales
    (auto simp: lagging_client_def cached_Get_def store_Get_def Let_def split: option.splits)

section \<open>Properties\<close>

text \<open>What the client of the manager has written, the manager reads: after a creation the cache holds the object; after
  a deletion it does not, or holds another object or one that is being deleted; and after an update it holds no older
  version of the object, as long as both versions have the same number of digits.\<close>

lemma CacheClient_sees_writes:
  "(\<forall>st'. CacheClient_Create lagging_client m st = (Inr x, st') \<longrightarrow> map_of (as_cache st') (meta_key x) \<noteq> None)
   \<and> (\<forall>st' y. CacheClient_Delete lagging_client m st = (Inr x, st') \<longrightarrow> map_of (as_cache st') (meta_key x) = Some y
        \<longrightarrow> om_uid y \<noteq> om_uid x \<or> om_deletionTimestamp y \<noteq> None)
   \<and> (\<forall>st' y. CacheClient_Update lagging_client m st = (Inr x, st') \<longrightarrow> map_of (as_cache st') (meta_key x) = Some y
        \<longrightarrow> om_uid y = om_uid x \<longrightarrow> length (om_resourceVersion y) = length (om_resourceVersion x)
        \<longrightarrow> list_all is_digit (om_resourceVersion y) \<longrightarrow> list_all is_digit (om_resourceVersion x)
        \<longrightarrow> version_nat (om_resourceVersion x) \<le> version_nat (om_resourceVersion y))"
proof (intro conjI allI impI)
  fix st'
  assume "CacheClient_Create lagging_client m st = (Inr x, st')"
  from lagging.create_blocks [OF this] show "map_of (as_cache st') (meta_key x) \<noteq> None" by (simp add: meta_key_def)
next
  fix st' y
  assume d: "CacheClient_Delete lagging_client m st = (Inr x, st')" and y: "map_of (as_cache st') (meta_key x) = Some y"
  obtain w1 where "blockDelete lagging_client x w1 = (Inr (), st')"
    using d unfolding CacheClient_Delete_def by (elim then_block_ok)
  from lagging.change_blocks [OF this [unfolded blockDelete_def]] y
  show "om_uid y \<noteq> om_uid x \<or> om_deletionTimestamp y \<noteq> None" by (auto simp: meta_key_def delete_seen_def)
next
  fix st' y
  assume u: "CacheClient_Update lagging_client m st = (Inr x, st')" and y: "map_of (as_cache st') (meta_key x) = Some y"
    and uid: "om_uid y = om_uid x" and len: "length (om_resourceVersion y) = length (om_resourceVersion x)"
    and digits: "list_all is_digit (om_resourceVersion y)" "list_all is_digit (om_resourceVersion x)"
  obtain w1 where "blockUpdate lagging_client x w1 = (Inr (), st')"
    using u unfolding CacheClient_Update_def by (elim then_block_ok)
  from lagging.change_blocks [OF this [unfolded blockUpdate_def]] y uid
  have "om_resourceVersion x \<le> om_resourceVersion y" by (simp add: meta_key_def update_seen_def)
  then show "version_nat (om_resourceVersion x) \<le> version_nat (om_resourceVersion y)"
    using version_order [OF len [symmetric] digits(2,1)] by simp
qed

text \<open>The ninth revision, and a cache that does not get the news.\<close>

definition ex_cached :: obj_meta where
  "ex_cached = empty_meta\<lparr>om_name := ''a'', om_uid := ''u'', om_resourceVersion := ''9''\<rparr>"

definition ex_lagging :: "string list list \<Rightarrow> obj_meta api_store" where
  "ex_lagging lag = \<lparr>as_objects = [(''/a'', ex_cached)], as_cache = [(''/a'', ex_cached)], as_lag = lag, as_revision = 9\<rparr>"

theorem CacheClient_sees_writes_witness:
  "map_of (as_cache (snd (CacheClient_Create lagging_client (ex_cached\<lparr>om_name := ''b''\<rparr>) (ex_lagging [[], [''/b'']])))) ''/b'' \<noteq> None"
proof -
  let ?r = "CacheClient_Create lagging_client (ex_cached\<lparr>om_name := ''b''\<rparr>) (ex_lagging [[], [''/b'']])"
  have "fst ?r = Inr (ex_cached\<lparr>om_name := ''b'', om_resourceVersion := ''10''\<rparr>)" by code_simp
  then have r: "?r = (Inr (ex_cached\<lparr>om_name := ''b'', om_resourceVersion := ''10''\<rparr>), snd ?r)" by (metis prod.collapse)
  have k: "meta_key (ex_cached\<lparr>om_name := ''b'', om_resourceVersion := ''10''\<rparr>) = ''/b''"
    by (simp add: meta_key_def cache_key_def ex_cached_def empty_meta_def)
  show ?thesis using CacheClient_sees_writes r unfolding k [symmetric] by metis
qed

text \<open>C28. Versions are compared as strings, so an update can return before the cache has it: whenever the new version has
  more digits than the old one and its leading digits make a smaller number than the old version, as in the step from 9
  to 10 or from 99 to 100, the client returns at the first look at the cache, which still holds the old object.\<close>

theorem CacheClient_Update_stale:
  assumes "map_of (as_objects st) (meta_key m) = Some old" "map_of (as_cache st) (meta_key m) = Some old" "as_lag st = []"
    and "om_uid m = om_uid old" "om_resourceVersion m = om_resourceVersion old" "om_resourceVersion old = string_of_nat v"
    and "length (string_of_nat (Suc (as_revision st))) = length (string_of_nat v) + d" "Suc (as_revision st) div 10 ^ d < v"
  shows "\<exists>st'. CacheClient_Update lagging_client m st = (Inr (with_version (Suc (as_revision st)) m), st')
    \<and> map_of (as_objects st') (meta_key m) = Some (with_version (Suc (as_revision st)) m)
    \<and> map_of (as_cache st') (meta_key m) = Some old"
proof -
  let ?x = "with_version (Suc (as_revision st)) m"
  let ?st = "st\<lparr>as_objects := put (meta_key m) ?x (as_objects st), as_revision := Suc (as_revision st)\<rparr>"
  have u: "cc_Update lagging_client m st = (Inr ?x, ?st)"
    using assms by (simp add: lagging_client_def stored_Update_def store_Update_def Let_def)
  have k: "cache_key (om_namespace ?x) (om_name ?x) = meta_key m" by (simp add: meta_key_def with_version_def)
  have "cached_Get (meta_key m) ?st = (Inr old, ?st)" using assms(2,3) by (simp add: cached_Get_def store_Get_def store_tick_def)
  moreover have "update_seen ?x old"
    using longer_version_less [OF assms(7,8), THEN less_imp_le] assms(6) by (simp add: update_seen_def with_version_def)
  ultimately have "changed_seen update_seen lagging_client ?x ?x ?st = (Inr (Some ()), ?st)"
    using k by (simp add: changed_seen_def lagging_client_def answer_def)
  then have "blockUpdate lagging_client ?x ?st = (Inr (), ?st)"
    by (simp add: blockUpdate_def cache_poll_def lagging_client_def PollImmediate.simps [of cache_ticks])
  then have "CacheClient_Update lagging_client m st = (Inr ?x, ?st)"
    unfolding CacheClient_Update_def u by (simp add: then_block_def)
  then show ?thesis using assms(2) by (intro exI [of _ ?st]) (simp add: map_of_put)
qed

theorem CacheClient_Update_stale_witness:
  "\<exists>st'. CacheClient_Update lagging_client ex_cached (ex_lagging []) = (Inr (ex_cached\<lparr>om_resourceVersion := ''10''\<rparr>), st')
    \<and> map_of (as_cache st') ''/a'' = Some ex_cached"
proof -
  have v: "string_of_nat (Suc (as_revision (ex_lagging []))) = ''10''" "om_resourceVersion ex_cached = ''9''"
    "meta_key ex_cached = ''/a''" "as_revision (ex_lagging []) = 9" by code_simp+
  have s: "string_of_nat (Suc 9) = ''10''" by code_simp
  have o: "om_resourceVersion ex_cached = string_of_nat 9" "length (string_of_nat (Suc (as_revision (ex_lagging [])))) = length (string_of_nat 9) + 1"
    by code_simp+
  have d: "Suc (as_revision (ex_lagging [])) div 10 ^ 1 < 9" by (simp add: v(4))
  show ?thesis
    using CacheClient_Update_stale [of "ex_lagging []" ex_cached ex_cached, OF _ _ _ refl refl o d] s v
    by (auto simp: ex_lagging_def with_version_def)
qed

end
