(* ===== verification/Accounts.thy ===== *)
theory Accounts
  imports Spaces CacheClient
begin

text \<open>
  The accounts of the aggregated API server (\<open>pkg/apiserver/registry/account\<close>): the conversion between the accounts of
  the tenancy API and those of the config API, the operations of the REST storage, and what a watcher is shown. The client
  is a parameter; between the read and the write of an operation other processes act in \<open>rc_Tick\<close>.
\<close>

section \<open>Conversion\<close>

text \<open>
  The two types have the same fields, and the conversion goes through their JSON form, which keeps every field the model
  has. It fails only where the encoding does.
\<close>

record tenancy_account =
  ta_meta :: obj_meta
  ta_spec :: account_spec
  ta_status :: "string list"

definition ConvertConfigAccount :: "account \<Rightarrow> tenancy_account" where
  "ConvertConfigAccount configAccount =
    \<lparr>ta_meta = ac_meta configAccount, ta_spec = ac_spec configAccount, ta_status = ac_status configAccount\<rparr>"

definition ConvertTenancyAccount :: "tenancy_account \<Rightarrow> account" where
  "ConvertTenancyAccount originalAccount =
    \<lparr>ac_meta = ta_meta originalAccount, ac_spec = ta_spec originalAccount, ac_status = ta_status originalAccount\<rparr>"

lemma Convert_inverse [simp]:
  "ConvertConfigAccount (ConvertTenancyAccount t) = t" "ConvertTenancyAccount (ConvertConfigAccount a) = a"
  by (simp_all add: ConvertConfigAccount_def ConvertTenancyAccount_def)

section \<open>The storage\<close>

text \<open>The writes return the object as the API server has stored it.\<close>

record 'w account_rest_client =
  rc_Resolver :: "'w \<Rightarrow> default_rule_resolver"
  rc_List :: "'w \<Rightarrow> ((string \<times> string) list \<Rightarrow> bool) \<Rightarrow> gerror + account list"
  rc_Get :: "'w \<Rightarrow> string \<Rightarrow> gerror + account"
  rc_Create :: "'w \<Rightarrow> account \<Rightarrow> 'w \<times> (gerror + account)"
  rc_Update :: "'w \<Rightarrow> account \<Rightarrow> 'w \<times> (gerror + account)"
  rc_Delete :: "'w \<Rightarrow> account \<Rightarrow> 'w \<times> gerror option"
  rc_Tick :: "'w \<Rightarrow> 'w"

definition tenancy_accounts :: group_version_resource where
  "tenancy_accounts = \<lparr>gvr_group = ''tenancy.kiosk.sh'', gvr_version = ''v1alpha1'', gvr_resource = ''accounts''\<rparr>"

text \<open>As with spaces, the filter works on the metadata of the accounts, whose names are distinct.\<close>

definition account_List ::
  "'w account_rest_client \<Rightarrow> 'w \<Rightarrow> gerror + auth_attributes \<Rightarrow> ((string \<times> string) list \<Rightarrow> bool) \<Rightarrow> gerror + tenancy_account list"
where
  "account_List C w attributes selector =
    (let accounts = (case rc_List C w selector of Inl err \<Rightarrow> [] | Inr xs \<Rightarrow> xs) in
     case filter_List (Authorize (rc_Resolver C w)) attributes tenancy_accounts
         (case rc_List C w selector of Inl err \<Rightarrow> Inl err | Inr xs \<Rightarrow> Inr (map ac_meta xs)) of
       Inl err \<Rightarrow> Inl err
     | Inr metas \<Rightarrow> Inr (map ConvertConfigAccount (List.map_filter (\<lambda>m. find (\<lambda>n. ac_meta n = m) accounts) metas)))"

definition account_Get :: "'w account_rest_client \<Rightarrow> 'w \<Rightarrow> string \<Rightarrow> gerror + tenancy_account" where
  "account_Get C w name =
    (case rc_Get C w name of
       Inl err \<Rightarrow> Inl (if IsNotFound err then NotFoundErr name else err)
     | Inr configAccount \<Rightarrow> Inr (ConvertConfigAccount configAccount))"

text \<open>An object that is not an account is \<open>None\<close>, as is a validation that is not given.\<close>

definition account_Create ::
  "'w account_rest_client \<Rightarrow> 'w \<Rightarrow> tenancy_account option \<Rightarrow> (tenancy_account \<Rightarrow> gerror option) option \<Rightarrow> 'w \<times> (gerror + tenancy_account)"
where
  "account_Create C w obj createValidation =
    (case obj of
       None \<Rightarrow> (w, Inl (OtherErr ''not an account''))
     | Some account \<Rightarrow>
         (case (case createValidation of None \<Rightarrow> None | Some validate \<Rightarrow> validate account) of
            Some err \<Rightarrow> (w, Inl err)
          | None \<Rightarrow>
              (case rc_Create C (rc_Tick C w) (ConvertTenancyAccount account) of
                 (w, Inl err) \<Rightarrow> (w, Inl err)
               | (w, Inr configAccount) \<Rightarrow> (w, Inr (ConvertConfigAccount configAccount)))))"

definition account_Update ::
  "'w account_rest_client \<Rightarrow> 'w \<Rightarrow> string \<Rightarrow> (tenancy_account \<Rightarrow> gerror + tenancy_account option)
    \<Rightarrow> (tenancy_account \<Rightarrow> tenancy_account \<Rightarrow> gerror option) option \<Rightarrow> 'w \<times> (gerror + tenancy_account)"
where
  "account_Update C w name updatedObject updateValidation =
    (case account_Get C w name of
       Inl err \<Rightarrow> (w, Inl err)
     | Inr oldObj \<Rightarrow>
         (case updatedObject oldObj of
            Inl err \<Rightarrow> (w, Inl err)
          | Inr None \<Rightarrow> (w, Inl (OtherErr ''New object is not an account''))
          | Inr (Some newAccount) \<Rightarrow>
              (case (case updateValidation of None \<Rightarrow> None | Some validate \<Rightarrow> validate newAccount oldObj) of
                 Some err \<Rightarrow> (w, Inl err)
               | None \<Rightarrow>
                   (case rc_Update C (rc_Tick C w) (ConvertTenancyAccount newAccount) of
                      (w, Inl err) \<Rightarrow> (w, Inl err)
                    | (w, Inr newConfigAccount) \<Rightarrow> (w, Inr newAccount)))))"

definition account_Delete ::
  "'w account_rest_client \<Rightarrow> 'w \<Rightarrow> string \<Rightarrow> (tenancy_account \<Rightarrow> gerror option) option \<Rightarrow> 'w \<times> (gerror + tenancy_account)"
where
  "account_Delete C w name deleteValidation =
    (case rc_Get C w name of
       Inl err \<Rightarrow> (w, Inl err)
     | Inr configAccount \<Rightarrow>
         (case (case deleteValidation of None \<Rightarrow> None | Some validate \<Rightarrow> validate (ConvertConfigAccount configAccount)) of
            Some err \<Rightarrow> (w, Inl err)
          | None \<Rightarrow>
              (case rc_Delete C (rc_Tick C w) configAccount of
                 (w, Some err) \<Rightarrow> (w, Inl err)
               | (w, None) \<Rightarrow> (w, Inr (ConvertConfigAccount configAccount)))))"

section \<open>Watching\<close>

definition account_Observe ::
  "default_rule_resolver \<Rightarrow> watcher \<Rightarrow> watch_type \<times> account option \<Rightarrow> (watch_type \<times> tenancy_account) option"
where
  "account_Observe r w ev =
    (case ev of
       (type, None) \<Rightarrow> None
     | (type, Some configAccount) \<Rightarrow>
         (let tenancyAccount = ConvertConfigAccount configAccount in
          case Authorize r \<lparr>aa_user = wt_user w, aa_verb = ''get'', aa_namespace = [], aa_apiGroup = gvr_group tenancy_accounts,
                 aa_resource = ''accounts'', aa_subresource = [], aa_name = om_name (ta_meta tenancyAccount), aa_path = [],
                 aa_isResourceRequest = True\<rparr> of
            (decision, _, err) \<Rightarrow>
              if err \<noteq> None \<or> decision \<noteq> DecisionAllow then None
              else if (case wt_selector w of None \<Rightarrow> False | Some sel \<Rightarrow> \<not> sel (om_labels (ta_meta tenancyAccount))) then None
              else Some (type, tenancyAccount)))"

definition account_Watch :: "user_info option \<Rightarrow> ((string \<times> string) list \<Rightarrow> bool) option option \<Rightarrow> gerror + watcher" where
  "account_Watch user options =
    (case user of
       None \<Rightarrow> Inl (OtherErr ''user is missing in context'')
     | Some userInfo \<Rightarrow> Inr \<lparr>wt_user = userInfo, wt_selector = (case options of None \<Rightarrow> None | Some sel \<Rightarrow> sel)\<rparr>)"

section \<open>What the storage relies on\<close>

definition ac_name :: "account \<Rightarrow> string" where
  "ac_name a = om_name (ac_meta a)"

definition ac_version :: "account \<Rightarrow> string" where
  "ac_version a = om_resourceVersion (ac_meta a)"

text \<open>
  The laws of the API server over a view of the accounts by name: reads are current, a write of an object that carries
  a version succeeds on that version only, a new version is a new string, and what other processes write gets a version
  that was not given out before (\<open>issued\<close>).
\<close>

locale account_store =
  fixes C :: "'w account_rest_client" and view :: "'w \<Rightarrow> string \<Rightarrow> account option" and W :: "'w \<Rightarrow> bool"
    and issued :: "'w \<Rightarrow> string \<Rightarrow> bool"
  assumes view_wf: "W w \<Longrightarrow> view w n = Some a \<Longrightarrow> ac_name a = n \<and> ac_version a \<noteq> []"
    and get_law: "W w \<Longrightarrow> rc_Get C w n = (case view w n of None \<Rightarrow> Inl (NotFoundErr n) | Some a \<Rightarrow> Inr a)"
    and create_law: "W w \<Longrightarrow> rc_Create C w a = (w', Inr b) \<Longrightarrow>
      W w' \<and> view w (ac_name a) = None \<and> view w' = (view w)(ac_name a \<mapsto> b) \<and> ac_spec b = ac_spec a"
    and create_exists: "W w \<Longrightarrow> view w (ac_name a) = Some old \<Longrightarrow> rc_Create C w a = (w, Inl (AlreadyExistsErr (ac_name a)))"
    and update_law: "W w \<Longrightarrow> rc_Update C w a = (w', Inr b) \<Longrightarrow>
      W w' \<and> (\<exists>old. view w (ac_name a) = Some old \<and> (ac_version a = [] \<or> ac_version a = ac_version old))
      \<and> view w' = (view w)(ac_name a \<mapsto> b) \<and> ac_spec b = ac_spec a \<and> ac_version b \<noteq> ac_version a"
    and update_conflict: "W w \<Longrightarrow> view w (ac_name a) = Some old \<Longrightarrow> ac_version a \<noteq> [] \<Longrightarrow> ac_version a \<noteq> ac_version old \<Longrightarrow>
      rc_Update C w a = (w, Inl (ConflictErr (ac_name a)))"
    and delete_law: "W w \<Longrightarrow> rc_Delete C w a = (w', None) \<Longrightarrow>
      W w' \<and> (\<forall>n. n \<noteq> ac_name a \<longrightarrow> view w' n = view w n)
      \<and> (\<forall>x. view w' (ac_name a) = Some x \<longrightarrow> om_deletionTimestamp (ac_meta x) \<noteq> None)"
    and tick_law: "W w \<Longrightarrow> W (rc_Tick C w)"
    and view_issued: "W w \<Longrightarrow> view w n = Some a \<Longrightarrow> issued w (ac_version a)"
    and tick_version: "W w \<Longrightarrow> view (rc_Tick C w) n = Some cur \<Longrightarrow> issued w (ac_version cur) \<Longrightarrow> view w n = Some cur"
begin

text \<open>An update that is sent with a version replaces exactly what was read.\<close>

lemma update_replaces:
  assumes "W w" "account_Update C w name upd val = (w', Inr a)"
    and "om_name (ta_meta a) = name" "om_resourceVersion (ta_meta a) \<noteq> []" "issued w (om_resourceVersion (ta_meta a))"
  shows "\<exists>old b. view w name = Some old \<and> view (rc_Tick C w) name = Some old
    \<and> ac_version old = om_resourceVersion (ta_meta a)
    \<and> upd (ConvertConfigAccount old) = Inr (Some a)
    \<and> (\<forall>v. val = Some v \<longrightarrow> v a (ConvertConfigAccount old) = None)
    \<and> W w' \<and> view w' = (view (rc_Tick C w))(name \<mapsto> b) \<and> ac_spec b = ta_spec a
    \<and> ac_version b \<noteq> om_resourceVersion (ta_meta a)"
proof -
  from assms(1,2) obtain old b where old: "view w name = Some old" and upd: "upd (ConvertConfigAccount old) = Inr (Some a)"
    and val: "\<forall>v. val = Some v \<longrightarrow> v a (ConvertConfigAccount old) = None"
    and b: "rc_Update C (rc_Tick C w) (ConvertTenancyAccount a) = (w', Inr b)"
    by (auto simp: account_Update_def account_Get_def get_law split: option.splits sum.splits prod.splits)
  have id: "ac_name (ConvertTenancyAccount a) = name" "ac_version (ConvertTenancyAccount a) = om_resourceVersion (ta_meta a)"
    "ac_spec (ConvertTenancyAccount a) = ta_spec a"
    using assms(3) by (simp_all add: ConvertTenancyAccount_def ac_name_def ac_version_def)
  note u = update_law [OF tick_law [OF assms(1)] b, unfolded id]
  then obtain cur where cur: "view (rc_Tick C w) name = Some cur" "ac_version cur = om_resourceVersion (ta_meta a)"
    using assms(4) by auto
  have "view w name = Some cur" using tick_version [OF assms(1) cur(1)] cur(2) assms(5) by simp
  with old have "cur = old" by simp
  then show ?thesis using old upd val u cur by auto
qed

text \<open>The answer carries the version that was replaced, so that it cannot be sent back.\<close>

lemma answer_conflicts:
  assumes "W w" "account_Update C w name upd val = (w', Inr a)"
    and "om_name (ta_meta a) = name" "om_resourceVersion (ta_meta a) \<noteq> []" "issued w (om_resourceVersion (ta_meta a))"
    and "rc_Tick C w' = w'"
  shows "account_Update C w' name (\<lambda>_. Inr (Some (a\<lparr>ta_spec := spec\<rparr>))) None = (w', Inl (ConflictErr name))"
proof -
  from update_replaces [OF assms(1-5)] obtain b where W: "W w'"
    and v: "view w' = (view (rc_Tick C w))(name \<mapsto> b)" "ac_version b \<noteq> om_resourceVersion (ta_meta a)" by blast
  let ?a = "ConvertTenancyAccount (a\<lparr>ta_spec := spec\<rparr>)"
  have id: "ac_name ?a = name" "ac_version ?a = om_resourceVersion (ta_meta a)"
    using assms(3) by (simp_all add: ConvertTenancyAccount_def ac_name_def ac_version_def)
  have b: "view w' name = Some b" by (simp add: v(1))
  have "rc_Update C w' ?a = (w', Inl (ConflictErr name))"
    using update_conflict [OF W, of ?a b] b id v(2) assms(4) by simp
  moreover have "account_Get C w' name = Inr (ConvertConfigAccount b)" by (simp add: account_Get_def get_law [OF W] b)
  ultimately show ?thesis by (simp add: account_Update_def assms(6))
qed

end

section \<open>Versions are numbers\<close>

lemma string_of_nat_inj [simp]: "string_of_nat m = string_of_nat n \<longleftrightarrow> m = n"
  using version_nat_string by metis

lemma string_of_nat_not_Nil [simp]: "string_of_nat n \<noteq> []"
  by (subst string_of_nat.simps) simp

section \<open>The client on a store\<close>

text \<open>
  Accounts have a status of their own, which an update of the account leaves as it is. Other processes create, update
  and delete any number of accounts at each tick, with the same rules.
\<close>

datatype account_action = MakeAccount account | PutAccount account | DropAccount account

record accounts_world =
  wa_store :: "account api_store"
  wa_resolver :: default_rule_resolver
  wa_others :: "account_action list list"

definition with_ac_version :: "nat \<Rightarrow> account \<Rightarrow> account" where
  "with_ac_version r a = a\<lparr>ac_meta := (ac_meta a)\<lparr>om_resourceVersion := string_of_nat r\<rparr>\<rparr>"

definition account_merge :: "nat \<Rightarrow> account \<Rightarrow> account \<Rightarrow> account" where
  "account_merge r old new = with_ac_version r (new\<lparr>ac_status := ac_status old\<rparr>)"

definition account_put :: "account \<Rightarrow> account api_store \<Rightarrow> (gerror + account) \<times> account api_store" where
  "account_put a st = store_Update ac_version account_merge (ac_name a) a st"

definition account_make :: "account \<Rightarrow> account api_store \<Rightarrow> (gerror + account) \<times> account api_store" where
  "account_make a st =
    (case map_of (as_objects st) (ac_name a) of
       Some _ \<Rightarrow> (Inl (AlreadyExistsErr (ac_name a)), st)
     | None \<Rightarrow> let r = Suc (as_revision st); b = with_ac_version r a in
         (Inr b, st\<lparr>as_objects := put (ac_name a) b (as_objects st), as_revision := r\<rparr>))"

definition account_drop :: "account \<Rightarrow> account api_store \<Rightarrow> gerror option \<times> account api_store" where
  "account_drop a st =
    (case map_of (as_objects st) (ac_name a) of
       None \<Rightarrow> (Some (NotFoundErr (ac_name a)), st)
     | Some _ \<Rightarrow> (None, st\<lparr>as_objects := del (ac_name a) (as_objects st)\<rparr>))"

fun account_act :: "account_action \<Rightarrow> account api_store \<Rightarrow> account api_store" where
  "account_act (MakeAccount a) st = snd (account_make a st)"
| "account_act (PutAccount a) st = snd (account_put a st)"
| "account_act (DropAccount a) st = snd (account_drop a st)"

definition others_write :: "accounts_world \<Rightarrow> accounts_world" where
  "others_write w =
    (case wa_others w of
       [] \<Rightarrow> w
     | acts # rest \<Rightarrow> w\<lparr>wa_others := rest, wa_store := fold account_act acts (wa_store w)\<rparr>)"

definition accounts_client :: "accounts_world account_rest_client" where
  "accounts_client = \<lparr>
     rc_Resolver = wa_resolver,
     rc_List = (\<lambda>w sel. Inr (filter (\<lambda>a. sel (om_labels (ac_meta a))) (map snd (as_objects (wa_store w))))),
     rc_Get = (\<lambda>w n. case map_of (as_objects (wa_store w)) n of None \<Rightarrow> Inl (NotFoundErr n) | Some a \<Rightarrow> Inr a),
     rc_Create = (\<lambda>w a. case account_make a (wa_store w) of (r, st) \<Rightarrow> (w\<lparr>wa_store := st\<rparr>, r)),
     rc_Update = (\<lambda>w a. case account_put a (wa_store w) of (r, st) \<Rightarrow> (w\<lparr>wa_store := st\<rparr>, r)),
     rc_Delete = (\<lambda>w a. case account_drop a (wa_store w) of (r, st) \<Rightarrow> (w\<lparr>wa_store := st\<rparr>, r)),
     rc_Tick = others_write\<rparr>"

text \<open>Every account is stored under its name, with a version that has been given out.\<close>

definition versioned :: "nat \<Rightarrow> string \<Rightarrow> account \<Rightarrow> bool" where
  "versioned limit k a \<longleftrightarrow> ac_name a = k \<and> (\<exists>r \<le> limit. ac_version a = string_of_nat r)"

definition accounts_ok :: "accounts_world \<Rightarrow> bool" where
  "accounts_ok w \<longleftrightarrow> all_entries (versioned (as_revision (wa_store w))) (as_objects (wa_store w))"

lemma ac_simps [simp]:
  "ac_name (with_ac_version r a) = ac_name a" "ac_version (with_ac_version r a) = string_of_nat r"
  "ac_spec (with_ac_version r a) = ac_spec a" "ac_name (account_merge r old a) = ac_name a"
  "ac_version (account_merge r old a) = string_of_nat r" "ac_spec (account_merge r old a) = ac_spec a"
  by (simp_all add: with_ac_version_def account_merge_def ac_name_def ac_version_def)

lemma versioned_mono: "versioned limit k a \<Longrightarrow> versioned (Suc limit) k a"
  by (auto simp: versioned_def le_Suc_eq)

lemma all_entries_mono: "all_entries Q m \<Longrightarrow> (\<And>k x. Q k x \<Longrightarrow> R k x) \<Longrightarrow> all_entries R m"
  by (auto simp: all_entries_def)

lemma versioned_new: "ac_name b = k \<Longrightarrow> ac_version b = string_of_nat limit \<Longrightarrow> versioned limit k b"
  by (auto simp: versioned_def)

lemma accounts_ok_put:
  assumes "all_entries (versioned limit) m" "ac_name b = k" "ac_version b = string_of_nat (Suc limit)"
  shows "all_entries (versioned (Suc limit)) (put k b m)"
  by (rule all_entries_put [OF all_entries_mono [OF assms(1) versioned_mono]]) (simp_all add: versioned_new assms)

text \<open>A write changes one account, to one with a new version.\<close>

lemma account_put_cases:
  assumes "account_put a st = (r, st')" "all_entries (versioned (as_revision st)) (as_objects st)"
  obtains e where "r = Inl e" "st' = st"
  | old b where "map_of (as_objects st) (ac_name a) = Some old" "ac_version a = [] \<or> ac_version a = ac_version old"
      "r = Inr b" "map_of (as_objects st') = (map_of (as_objects st))(ac_name a \<mapsto> b)" "ac_spec b = ac_spec a"
      "ac_version b = string_of_nat (as_revision st')" "as_revision st' = Suc (as_revision st)"
      "all_entries (versioned (as_revision st')) (as_objects st')"
  using assms(1) unfolding account_put_def
proof (cases rule: store_Update_cases)
  case (1 e)
  then show thesis using that(1) by blast
next
  case (2 old x)
  have "all_entries (versioned (as_revision st')) (as_objects st')"
    using accounts_ok_put [OF assms(2), of x "ac_name a"] 2 by simp
  moreover have "map_of (as_objects st') = (map_of (as_objects st))(ac_name a \<mapsto> x)"
    using 2 by (auto simp: fun_eq_iff map_of_put)
  ultimately show thesis using that(2) [of old x] 2 by simp
qed

abbreviation stored_account :: "accounts_world \<Rightarrow> string \<Rightarrow> account option" where
  "stored_account w \<equiv> map_of (as_objects (wa_store w))"

lemma accounts_ok_lookup: "accounts_ok w \<Longrightarrow> stored_account w n = Some a \<Longrightarrow>
    ac_name a = n \<and> (\<exists>r \<le> as_revision (wa_store w). ac_version a = string_of_nat r)"
  unfolding accounts_ok_def by (drule all_entries_lookup) (auto simp: versioned_def)

text \<open>A later store: what is in it was there before, or has a version given out since.\<close>

definition store_ok :: "account api_store \<Rightarrow> bool" where
  "store_ok st \<longleftrightarrow> all_entries (versioned (as_revision st)) (as_objects st)"

lemma accounts_ok_store: "accounts_ok w \<longleftrightarrow> store_ok (wa_store w)"
  by (simp add: accounts_ok_def store_ok_def)

definition later :: "account api_store \<Rightarrow> account api_store \<Rightarrow> bool" where
  "later st st' \<longleftrightarrow> store_ok st' \<and> as_revision st \<le> as_revision st'
     \<and> (\<forall>n cur. map_of (as_objects st') n = Some cur \<longrightarrow> map_of (as_objects st) n = Some cur
          \<or> (\<exists>r > as_revision st. ac_version cur = string_of_nat r))"

lemma later_refl: "store_ok st \<Longrightarrow> later st st"
  by (simp add: later_def)

lemma later_trans: "later a b \<Longrightarrow> later b c \<Longrightarrow> later a c"
  unfolding later_def by (metis order_trans order_le_less_trans)

lemma account_make_cases:
  assumes "account_make a st = (r, st')" "store_ok st"
  obtains e where "r = Inl e" "st' = st"
  | b where "map_of (as_objects st) (ac_name a) = None" "r = Inr b" "ac_spec b = ac_spec a"
      "map_of (as_objects st') = (map_of (as_objects st))(ac_name a \<mapsto> b)"
      "ac_version b = string_of_nat (Suc (as_revision st))" "as_revision st' = Suc (as_revision st)" "store_ok st'"
proof (cases "map_of (as_objects st) (ac_name a)")
  case None
  let ?b = "with_ac_version (Suc (as_revision st)) a"
  have st': "r = Inr ?b" "st' = st\<lparr>as_objects := put (ac_name a) ?b (as_objects st), as_revision := Suc (as_revision st)\<rparr>"
    using assms(1) None by (auto simp: account_make_def Let_def)
  have "store_ok st'"
    unfolding st'(2) store_ok_def using accounts_ok_put [of "as_revision st" "as_objects st" ?b "ac_name a"] assms(2)
    by (simp add: store_ok_def)
  then show thesis using that(2) [of ?b] None st' by (simp add: fun_eq_iff map_of_put)
next
  case (Some x)
  then have "r = Inl (AlreadyExistsErr (ac_name a))" "st' = st" using assms(1) by (simp_all add: account_make_def)
  then show thesis by (rule that(1))
qed

lemma account_act_later:
  assumes "store_ok st"
  shows "later st (account_act act st)"
proof (cases act)
  case (MakeAccount a)
  obtain r st' where m: "account_make a st = (r, st')" by (metis surj_pair)
  have "later st st'"
  proof (rule account_make_cases [OF m assms])
    show "st' = st \<Longrightarrow> later st st'" using assms by (simp add: later_refl)
  qed (auto simp: later_def split: if_splits)
  then show ?thesis by (simp add: MakeAccount m)
next
  case (PutAccount a)
  obtain r st' where p: "account_put a st = (r, st')" by (metis surj_pair)
  have "later st st'"
  proof (rule account_put_cases [OF p assms [unfolded store_ok_def]])
    show "st' = st \<Longrightarrow> later st st'" using assms by (simp add: later_refl)
  qed (auto simp: later_def store_ok_def split: if_splits)
  then show ?thesis by (simp add: PutAccount p)
next
  case (DropAccount a)
  have "all_entries (versioned (as_revision st)) (del (ac_name a) (as_objects st))"
    by (rule all_entries_del) (use assms in \<open>simp add: store_ok_def\<close>)
  then show ?thesis using assms
    by (auto simp: DropAccount account_drop_def later_def store_ok_def map_of_del split: option.splits if_splits)
qed

lemma account_acts_later: "store_ok st \<Longrightarrow> later st (fold account_act acts st)"
proof (induction acts arbitrary: st)
  case (Cons act acts)
  note l = account_act_later [OF Cons.prems, of act]
  then have "store_ok (account_act act st)" by (simp add: later_def)
  then show ?case using later_trans [OF l] Cons.IH by simp
qed (simp add: later_refl)

lemma others_write_later: "accounts_ok w \<Longrightarrow> later (wa_store w) (wa_store (others_write w))"
  by (auto simp: others_write_def accounts_ok_store later_refl account_acts_later split: list.splits)

text \<open>The versions that have been given out.\<close>

definition issued_version :: "accounts_world \<Rightarrow> string \<Rightarrow> bool" where
  "issued_version w v \<longleftrightarrow> (\<exists>m \<le> as_revision (wa_store w). v = string_of_nat m)"

interpretation kiosk_accounts: account_store accounts_client stored_account accounts_ok issued_version
proof unfold_locales
  fix w n a assume "accounts_ok w" "stored_account w n = Some a"
  then show "ac_name a = n \<and> ac_version a \<noteq> []" using accounts_ok_lookup by fastforce
next
  fix w a w' b
  assume ok: "accounts_ok w" and "rc_Create accounts_client w a = (w', Inr b)"
  then obtain st where m: "account_make a (wa_store w) = (Inr b, st)" "w' = w\<lparr>wa_store := st\<rparr>"
    by (auto simp: accounts_client_def split: prod.splits)
  from m(1) ok [unfolded accounts_ok_store] show "accounts_ok w' \<and> stored_account w (ac_name a) = None
      \<and> stored_account w' = (stored_account w)(ac_name a \<mapsto> b) \<and> ac_spec b = ac_spec a"
    by (cases rule: account_make_cases) (simp_all add: m(2) accounts_ok_store)
next
  fix w a w' b
  assume ok: "accounts_ok w" and "rc_Update accounts_client w a = (w', Inr b)"
  then obtain st where p: "account_put a (wa_store w) = (Inr b, st)" "w' = w\<lparr>wa_store := st\<rparr>"
    by (auto simp: accounts_client_def split: prod.splits)
  have "all_entries (versioned (as_revision (wa_store w))) (as_objects (wa_store w))" using ok by (simp add: accounts_ok_def)
  with p(1) show "accounts_ok w' \<and> (\<exists>old. stored_account w (ac_name a) = Some old \<and> (ac_version a = [] \<or> ac_version a = ac_version old))
      \<and> stored_account w' = (stored_account w)(ac_name a \<mapsto> b) \<and> ac_spec b = ac_spec a \<and> ac_version b \<noteq> ac_version a"
  proof (cases rule: account_put_cases)
    case (2 old b')
    obtain m where "m \<le> as_revision (wa_store w)" "ac_version old = string_of_nat m"
      using accounts_ok_lookup [OF ok 2(1)] by blast
    then have "ac_version b \<noteq> ac_version a" using 2 by auto
    then show ?thesis using 2 p(2) by (auto simp: accounts_ok_def)
  qed simp
next
  fix w a old
  assume "stored_account w (ac_name a) = Some old" "ac_version a \<noteq> []" "ac_version a \<noteq> ac_version old"
  then show "rc_Update accounts_client w a = (w, Inl (ConflictErr (ac_name a)))"
    by (simp add: accounts_client_def account_put_def store_Update_def)
next
  fix w a w'
  assume ok: "accounts_ok w" and d: "rc_Delete accounts_client w a = (w', None)"
  have w': "w' = w\<lparr>wa_store := (wa_store w)\<lparr>as_objects := del (ac_name a) (as_objects (wa_store w))\<rparr>\<rparr>"
    using d by (auto simp: accounts_client_def account_drop_def split: option.splits)
  have "all_entries (versioned (as_revision (wa_store w))) (del (ac_name a) (as_objects (wa_store w)))"
    by (rule all_entries_del) (use ok in \<open>simp add: accounts_ok_def\<close>)
  then show "accounts_ok w' \<and> (\<forall>n. n \<noteq> ac_name a \<longrightarrow> stored_account w' n = stored_account w n)
      \<and> (\<forall>x. stored_account w' (ac_name a) = Some x \<longrightarrow> om_deletionTimestamp (ac_meta x) \<noteq> None)"
    by (simp add: w' accounts_ok_def map_of_del)
next
  fix w assume "accounts_ok w"
  then show "accounts_ok (rc_Tick accounts_client w)"
    using others_write_later [of w] by (simp add: accounts_client_def accounts_ok_store later_def)
next
  fix w n a assume "accounts_ok w" "stored_account w n = Some a"
  then show "issued_version w (ac_version a)" using accounts_ok_lookup by (fastforce simp: issued_version_def)
next
  fix w n cur
  assume "accounts_ok w" "stored_account (rc_Tick accounts_client w) n = Some cur" "issued_version w (ac_version cur)"
  then show "stored_account w n = Some cur"
    using others_write_later [of w] by (fastforce simp: accounts_client_def later_def issued_version_def)
qed (simp_all add: accounts_client_def account_make_def split: option.splits)

text \<open>The list holds the selected accounts which the authorizer lets the user get.\<close>

lemma account_List_holds:
  fixes w :: accounts_world and att :: auth_attributes
  defines "P m \<equiv> fst (Authorize (wa_resolver w) (object_attributes att tenancy_accounts m)) = DecisionAllow"
  assumes "accounts_ok w" "wf_map (as_objects (wa_store w))" "list_all (\<lambda>(k, x). om_namespace (ac_meta x) = []) (as_objects (wa_store w))"
    and "account_List accounts_client w (Inr att) sel = Inr xs" "stored_account w n = Some a"
  shows "ConvertConfigAccount a \<in> set xs \<longleftrightarrow> sel (om_labels (ac_meta a)) \<and> P (ac_meta a)"
proof -
  define N where "N = filter (\<lambda>x. sel (om_labels (ac_meta x))) (map snd (as_objects (wa_store w)))"
  have e: "(k, x) \<in> set (as_objects (wa_store w)) \<longleftrightarrow> stored_account w k = Some x" for k x
    using assms(3) by simp
  have "x \<in> set N \<longleftrightarrow> (\<exists>k. (k, x) \<in> set (as_objects (wa_store w))) \<and> sel (om_labels (ac_meta x))" for x
    unfolding N_def set_filter set_map by force
  then have N: "x \<in> set N \<longleftrightarrow> stored_account w (ac_name x) = Some x \<and> sel (om_labels (ac_meta x))" for x
    unfolding e using accounts_ok_lookup [OF assms(2)] by blast
  obtain metas where f: "filter_List (Authorize (wa_resolver w)) (Inr att) tenancy_accounts (Inr (map ac_meta N)) = Inr metas"
    and xs: "xs = map ConvertConfigAccount (List.map_filter (\<lambda>m. find (\<lambda>n. ac_meta n = m) N) metas)"
    using assms(5) by (cases "filter_List (Authorize (wa_resolver w)) (Inr att) tenancy_accounts (Inr (map ac_meta N))")
      (simp_all add: account_List_def accounts_client_def N_def)
  have "om_namespace (ac_meta x) = []" if "x \<in> set N" for x
    using that assms(4) by (auto simp: N_def list_all_iff)
  then have "uniform_namespaces tenancy_accounts (map ac_meta N)" by (auto simp: uniform_namespaces_def list_all_iff)
  from filter_List_exact [OF f this] have "mset metas = filter_mset P (mset (map ac_meta N))"
    unfolding P_def by (rule conjunct2)
  moreover have "inj_on ac_meta (set N)" by (rule inj_onI) (metis N ac_name_def option.inject)
  ultimately have "mset (List.map_filter (\<lambda>m. find (\<lambda>n. ac_meta n = m) N) metas) = filter_mset (\<lambda>x. P (ac_meta x)) (mset N)"
    by (rule map_filter_find [rotated])
  from arg_cong [OF this, of set_mset] have "set (List.map_filter (\<lambda>m. find (\<lambda>n. ac_meta n = m) N) metas) = {x \<in> set N. P (ac_meta x)}"
    by auto
  moreover have "inj ConvertConfigAccount" by (rule injI) (metis Convert_inverse(2))
  ultimately have "ConvertConfigAccount a \<in> set xs \<longleftrightarrow> a \<in> set N \<and> P (ac_meta a)"
    by (simp add: xs inj_image_mem_iff)
  then show ?thesis using N [of a] accounts_ok_lookup [OF assms(2,6)] assms(6) by auto
qed

section \<open>Properties\<close>

text \<open>C34. No update is lost: whatever accounts other processes create, write and delete while an account is updated, if an
  update succeeds that is sent under the name of the account with a version given out before the request (the version just
  read, as in a patch, or one that the client has read earlier, as in a put), then the account it has replaced is the very
  one which the request has read, the change was computed from and validated against, and that has the version sent; the
  stored account has the new specification, and no other account is touched. (An update without a version is
  unconditional, as the API server has it.)\<close>

theorem account_Update_exclusive:
  assumes "accounts_ok w" "account_Update accounts_client w name upd val = (w', Inr a)"
    and "om_name (ta_meta a) = name" "m \<le> as_revision (wa_store w)" "om_resourceVersion (ta_meta a) = string_of_nat m"
  shows "\<exists>old b. stored_account w name = Some old \<and> stored_account (others_write w) name = Some old
    \<and> ac_version old = string_of_nat m
    \<and> upd (ConvertConfigAccount old) = Inr (Some a)
    \<and> (\<forall>v. val = Some v \<longrightarrow> v a (ConvertConfigAccount old) = None)
    \<and> stored_account w' = (stored_account (others_write w))(name \<mapsto> b) \<and> ac_spec b = ta_spec a"
proof -
  have "issued_version w (om_resourceVersion (ta_meta a))" using assms(4,5) by (auto simp: issued_version_def)
  then show ?thesis
    using kiosk_accounts.update_replaces [OF assms(1,2,3)] by (simp add: assms(5) accounts_client_def) blast
qed

text \<open>The answer to a successful update is not the stored account: it still has the version that was replaced, so that
  a client that changes the answer and sends it back runs into a conflict, although nobody else has written.\<close>

lemma account_Update_answer_stale:
  assumes "accounts_ok w" "account_Update accounts_client w name upd val = (w', Inr a)" "wa_others w' = []"
    and "om_name (ta_meta a) = name" "m \<le> as_revision (wa_store w)" "om_resourceVersion (ta_meta a) = string_of_nat m"
  shows "account_Update accounts_client w' name (\<lambda>_. Inr (Some (a\<lparr>ta_spec := spec\<rparr>))) None = (w', Inl (ConflictErr name))"
proof -
  have "issued_version w (om_resourceVersion (ta_meta a))" using assms(5,6) by (auto simp: issued_version_def)
  then show ?thesis
    using kiosk_accounts.answer_conflicts [OF assms(1,2,4)] assms(3) by (simp add: assms(6) accounts_client_def others_write_def)
qed

text \<open>C35. The list and the watch of accounts agree: an account of the store is in a list that succeeds exactly if a watcher of
  the same user with the same selector is shown its events.\<close>

theorem account_List_agrees_with_watch:
  assumes "accounts_ok w" "wf_map (as_objects (wa_store w))" "list_all (\<lambda>(k, x). om_namespace (ac_meta x) = []) (as_objects (wa_store w))"
    and "account_List accounts_client w (Inr \<lparr>aa_user = u, aa_verb = ''list'', aa_namespace = [], aa_apiGroup = grp, aa_resource = res,
       aa_subresource = [], aa_name = nm, aa_path = p, aa_isResourceRequest = True\<rparr>) sel = Inr xs"
    and "stored_account w n = Some a"
  shows "ConvertConfigAccount a \<in> set xs \<longleftrightarrow>
    account_Observe (wa_resolver w) \<lparr>wt_user = u, wt_selector = Some sel\<rparr> (ty, Some a) = Some (ty, ConvertConfigAccount a)"
proof -
  let ?a = "\<lparr>aa_user = u, aa_verb = ''get'', aa_namespace = [], aa_apiGroup = gvr_group tenancy_accounts, aa_resource = ''accounts'',
    aa_subresource = [], aa_name = ac_name a, aa_path = [], aa_isResourceRequest = True\<rparr>"
  have "om_namespace (ac_meta a) = []" using assms(3,5) by (auto simp: list_all_iff dest: map_of_SomeD)
  then have "ConvertConfigAccount a \<in> set xs \<longleftrightarrow>
      sel (om_labels (ac_meta a)) \<and> fst (Authorize (wa_resolver w) (?a\<lparr>aa_path := p @ ''/'' @ ac_name a\<rparr>)) = DecisionAllow"
    unfolding account_List_holds [OF assms] by (simp add: object_attributes_def ac_name_def tenancy_accounts_def)
  moreover have "fst (Authorize (wa_resolver w) (?a\<lparr>aa_path := p @ ''/'' @ ac_name a\<rparr>)) = fst (Authorize (wa_resolver w) ?a)"
    by (rule Authorize_path) simp
  moreover have "Authorize r b = (d, m, Some e) \<Longrightarrow> False" for r b d m e by (simp add: Authorize_def Let_def split: if_splits)
  ultimately show ?thesis
    by (auto simp: account_Observe_def Let_def ConvertConfigAccount_def ac_name_def split: prod.splits)
qed

definition ex_stored :: "string \<Rightarrow> account" where
  "ex_stored n = ex_account\<lparr>ac_meta := empty_meta\<lparr>om_name := n, om_resourceVersion := ''7''\<rparr>\<rparr>"

definition ex_accounts :: "account_action list list \<Rightarrow> accounts_world" where
  "ex_accounts others = \<lparr>wa_store = \<lparr>as_objects = [(''acme'', ex_stored ''acme''), (''other'', ex_stored ''other'')],
       as_cache = [], as_lag = [], as_revision = 9\<rparr>,
     wa_resolver = sc_Resolver world_space_client (ex_space_world Deployed), wa_others = others\<rparr>"

text \<open>A put of the account with the version 7, which the client has read earlier.\<close>

definition ex_sent :: tenancy_account where
  "ex_sent = (ConvertConfigAccount (ex_stored ''acme''))\<lparr>ta_spec := (ta_spec (ConvertConfigAccount (ex_stored ''acme'')))\<lparr>acs_subjects := []\<rparr>\<rparr>"

lemma not_isl_Inr: "\<not> isl r \<Longrightarrow> \<exists>x. r = Inr x"
  by (cases r) simp_all

lemma ex_accounts_ok: "accounts_ok (ex_accounts others)"
proof -
  have "string_of_nat 7 = ''7''" by code_simp
  then have "versioned 9 n (ex_stored n)" for n
    by (auto simp: versioned_def ex_stored_def ac_name_def ac_version_def intro: exI [of _ 7])
  then show ?thesis by (simp add: accounts_ok_def ex_accounts_def all_entries_def)
qed

lemma ex_sent_version: "om_name (ta_meta ex_sent) = ''acme''" "om_resourceVersion (ta_meta ex_sent) = string_of_nat 7"
  "7 \<le> as_revision (wa_store (ex_accounts others))"
proof -
  have "string_of_nat 7 = ''7''" by code_simp
  then show "om_resourceVersion (ta_meta ex_sent) = string_of_nat 7"
    by (simp add: ex_sent_def ConvertConfigAccount_def ex_stored_def)
qed (simp_all add: ex_sent_def ConvertConfigAccount_def ex_stored_def ex_accounts_def)

text \<open>Somebody else writes the other account in the meantime, removes it and creates it again.\<close>

definition ex_update where
  "ex_update = account_Update accounts_client
     (ex_accounts [[PutAccount (ex_stored ''other''), DropAccount (ex_stored ''other''), MakeAccount (ex_stored ''other'')]])
     ''acme'' (\<lambda>_. Inr (Some ex_sent)) None"

lemma ex_update_ok: "snd ex_update = Inr ex_sent" "wa_others (fst ex_update) = []"
  by code_simp+

lemma ex_update_eq: "account_Update accounts_client
     (ex_accounts [[PutAccount (ex_stored ''other''), DropAccount (ex_stored ''other''), MakeAccount (ex_stored ''other'')]])
     ''acme'' (\<lambda>_. Inr (Some ex_sent)) None = (fst ex_update, Inr ex_sent)"
  using ex_update_ok(1) by (metis ex_update_def prod.collapse)

theorem account_Update_exclusive_witness:
  "\<exists>b. stored_account (fst ex_update) ''acme'' = Some b \<and> acs_subjects (ac_spec b) = []"
  using account_Update_exclusive [OF ex_accounts_ok ex_update_eq ex_sent_version(1,3,2)]
  by (auto simp: ex_sent_def)

theorem account_Update_answer_stale_witness:
  "snd (account_Update accounts_client (fst ex_update) ''acme'' (\<lambda>_. Inr (Some (ex_sent\<lparr>ta_spec := ta_spec ex_sent\<rparr>))) None)
     = Inl (ConflictErr ''acme'')"
  using account_Update_answer_stale [OF ex_accounts_ok ex_update_eq ex_update_ok(2) ex_sent_version(1,3,2), of "ta_spec ex_sent"]
  by simp

definition ex_listed where
  "ex_listed = account_List accounts_client (ex_accounts []) (Inr ((ex_attributes ''list'' [])\<lparr>aa_resource := ''accounts''\<rparr>)) (\<lambda>_. True)"

theorem account_List_agrees_with_watch_witness:
  "\<exists>xs. ex_listed = Inr xs \<and> (ConvertConfigAccount (ex_stored ''acme'') \<in> set xs \<longleftrightarrow>
    account_Observe (wa_resolver (ex_accounts [])) \<lparr>wt_user = ex_user, wt_selector = Some (\<lambda>_. True)\<rparr> (WAdded, Some (ex_stored ''acme''))
      = Some (WAdded, ConvertConfigAccount (ex_stored ''acme'')))"
proof -
  have "\<not> isl ex_listed" by code_simp
  then obtain xs where xs: "ex_listed = Inr xs" using not_isl_Inr by blast
  have l: "account_List accounts_client (ex_accounts []) (Inr \<lparr>aa_user = ex_user, aa_verb = ''list'', aa_namespace = [],
      aa_apiGroup = ''tenancy.kiosk.sh'', aa_resource = ''accounts'', aa_subresource = [], aa_name = [], aa_path = ''/spaces'',
      aa_isResourceRequest = True\<rparr>) (\<lambda>_. True) = Inr xs"
    using xs by (simp add: ex_listed_def ex_attributes_def)
  have w: "wf_map (as_objects (wa_store (ex_accounts [])))"
    "list_all (\<lambda>(k, x). om_namespace (ac_meta x) = []) (as_objects (wa_store (ex_accounts [])))"
    "stored_account (ex_accounts []) ''acme'' = Some (ex_stored ''acme'')"
    by (simp_all add: ex_accounts_def ex_stored_def empty_meta_def)
  show ?thesis using account_List_agrees_with_watch [OF ex_accounts_ok w(1,2) l w(3), of WAdded] xs by blast
qed

end
