(* ===== verification/Webhooks.thy ===== *)
theory Webhooks
  imports Validation AccountAdmission
begin

text \<open>
  The admission webhooks (\<open>pkg/manager/webhooks\<close>): the validator of the config API decodes the objects of a request and
  hands them to the validation of their kind, the quota webhook converts a request into admission attributes and hands
  them to the admission against account quotas. The codecs of apimachinery are parameters; the raw objects of a request
  are strings.
\<close>

section \<open>Requests and responses\<close>

record group_version_kind =
  gk_group :: string
  gk_version :: string
  gk_kind :: string

record admission_user =
  au_name :: string
  au_uid :: string
  au_groups :: "string list"
  au_extra :: "(string \<times> string list) list"

record admission_request =
  ar_kind :: group_version_kind
  ar_resource :: group_version_resource
  ar_subResource :: string
  ar_name :: string
  ar_namespace :: string
  ar_operation :: operation
  ar_userInfo :: admission_user
  ar_object :: string
  ar_oldObject :: string
  ar_dryRun :: "bool option"
  ar_options :: string

datatype denial =
    DecodeDenied gerror
  | FieldsDenied "field_error list"
  | QuotaDenied gerror
  | NotReadyDenied

text \<open>\<open>Panicked\<close> is a failing type assertion; the API server then calls a webhook that does not answer.\<close>

datatype response = Allowed | Denied denial | Errored gerror | Panicked

fun allowed :: "response \<Rightarrow> bool" where
  "allowed Allowed = True"
| "allowed _ = False"

section \<open>Decoding\<close>

text \<open>
  The universal deserializer of a scheme, strict or not, \<open>runtime.IsNotRegisteredError\<close>, and the decoding of YAML into an
  unstructured object.
\<close>

record 'o codec =
  cd_decode :: "string \<Rightarrow> gerror + 'o"
  cd_notRegistered :: "gerror \<Rightarrow> bool"
  cd_unstructured :: "string \<Rightarrow> gerror + 'o"

definition Decode :: "'o codec \<Rightarrow> string \<Rightarrow> gerror + 'o" where
  "Decode d data =
    (case cd_decode d data of
       Inl err \<Rightarrow> if cd_notRegistered d err then cd_unstructured d data else Inl err
     | Inr obj \<Rightarrow> Inr obj)"

text \<open>The decoded objects of the config API.\<close>

datatype config_object =
    AccountObject decoded_account
  | AccountQuotaObject decoded_quota
  | TemplateInstanceObject template_instance_spec
  | OtherConfigObject

text \<open>The decoder gives quantities their machine representation.\<close>

definition decodes_amounts :: "config_object codec \<Rightarrow> bool" where
  "decodes_amounts d \<longleftrightarrow> (\<forall>raw q. Decode d raw = Inr (AccountQuotaObject q) \<longrightarrow> decoded_ok q)"

section \<open>The validator\<close>

definition SchemeGroupVersion :: "string \<times> string" where
  "SchemeGroupVersion = (''config.kiosk.sh'', ''v1alpha1'')"

definition gv_String :: "string \<Rightarrow> string \<Rightarrow> string" where
  "gv_String group_name version = (if length group_name > 0 then group_name @ ''/'' @ version else version)"

text \<open>The switch on the kind; a missing old object stands for a request that creates. \<open>None\<close> is a panic.\<close>

fun validate_kind :: "string \<Rightarrow> config_object \<Rightarrow> config_object option \<Rightarrow> field_error list option" where
  "validate_kind kind obj oldObj =
    (if kind = ''Account'' then
       (case (obj, oldObj) of
          (AccountObject a, None) \<Rightarrow> Some (ValidateAccount a)
        | (AccountObject a, Some (AccountObject old)) \<Rightarrow> Some (ValidateAccountUpdate a old)
        | _ \<Rightarrow> None)
     else if kind = ''AccountQuota'' then
       (case (obj, oldObj) of
          (AccountQuotaObject q, None) \<Rightarrow> Some (ValidateAccountQuota q)
        | (AccountQuotaObject q, Some (AccountQuotaObject old)) \<Rightarrow> Some (ValidateAccountQuotaUpdate q old)
        | _ \<Rightarrow> None)
     else if kind = ''TemplateInstance'' then
       (case (obj, oldObj) of
          (TemplateInstanceObject t, None) \<Rightarrow> Some (ValidateTemplateInstance t)
        | (TemplateInstanceObject t, Some (TemplateInstanceObject old)) \<Rightarrow> Some (ValidateTemplateInstanceUpdate t old)
        | _ \<Rightarrow> None)
     else Some [])"

declare validate_kind.simps [simp del]

definition validator_answer :: "string \<Rightarrow> config_object \<Rightarrow> config_object option \<Rightarrow> response" where
  "validator_answer kind obj oldObj =
    (case validate_kind kind obj oldObj of
       None \<Rightarrow> Panicked
     | Some errs \<Rightarrow> if length errs > 0 then Denied (FieldsDenied errs) else Allowed)"

definition Validator_Handle ::
  "config_object codec \<Rightarrow> config_object codec \<Rightarrow> admission_request \<Rightarrow> response"
where
  "Validator_Handle strictDecoder normalDecoder req =
    (let kind = ar_kind req in
     if gv_String (gk_group kind) (gk_version kind) \<noteq> gv_String (fst SchemeGroupVersion) (snd SchemeGroupVersion) then Allowed
     else if ar_operation req = CreateOp then
       (case Decode strictDecoder (ar_object req) of
          Inl err \<Rightarrow> Denied (DecodeDenied err)
        | Inr obj \<Rightarrow> validator_answer (gk_kind kind) obj None)
     else if ar_operation req = UpdateOp then
       (case Decode strictDecoder (ar_object req) of
          Inl err \<Rightarrow> Denied (DecodeDenied err)
        | Inr obj \<Rightarrow>
            (case Decode normalDecoder (ar_oldObject req) of
               Inl err \<Rightarrow> Errored err
             | Inr oldObj \<Rightarrow> validator_answer (gk_kind kind) obj (Some oldObj)))
     else Errored (OtherErr ''operation not supported''))"

section \<open>Admission attributes\<close>

text \<open>
  The attributes that the quota admission reads, with those it does not. The object of a request that deletes is nil,
  written \<open>OtherObj []\<close>.
\<close>

record request_attributes = attributes +
  ra_kind :: group_version_kind
  ra_resource :: group_version_resource
  ra_options :: "runtime_object option"
  ra_userInfo :: admission_user

text \<open>
  The scheme, an unstructured object of a kind, the decoding of a raw object into an object that was created for it, and
  the conversion of the options.
\<close>

record runtime_scheme =
  rs_New :: "group_version_kind \<Rightarrow> gerror + runtime_object"
  rs_notRegistered :: "gerror \<Rightarrow> bool"
  rs_unstructured :: "group_version_kind \<Rightarrow> runtime_object"
  rs_DecodeRaw :: "string \<Rightarrow> runtime_object \<Rightarrow> gerror + runtime_object"
  rs_StringToUnstructured :: "string \<Rightarrow> gerror + runtime_object"

definition newRuntimeObject :: "runtime_scheme \<Rightarrow> group_version_kind \<Rightarrow> gerror + runtime_object" where
  "newRuntimeObject scheme kind =
    (case rs_New scheme kind of
       Inl err \<Rightarrow> if rs_notRegistered scheme err then Inr (rs_unstructured scheme kind) else Inl err
     | Inr obj \<Rightarrow> Inr obj)"

definition decode_request_object :: "runtime_scheme \<Rightarrow> group_version_kind \<Rightarrow> string \<Rightarrow> gerror + runtime_object" where
  "decode_request_object scheme kind raw =
    (case newRuntimeObject scheme kind of
       Inl err \<Rightarrow> Inl err
     | Inr obj \<Rightarrow> rs_DecodeRaw scheme raw obj)"

text \<open>The object and the old object of a request.\<close>

definition request_objects :: "runtime_scheme \<Rightarrow> admission_request \<Rightarrow> gerror + runtime_object option \<times> runtime_object option" where
  "request_objects scheme req =
    (case ar_operation req of
       CreateOp \<Rightarrow>
         (case decode_request_object scheme (ar_kind req) (ar_object req) of
            Inl err \<Rightarrow> Inl err
          | Inr obj \<Rightarrow> Inr (Some obj, None))
     | UpdateOp \<Rightarrow>
         (case decode_request_object scheme (ar_kind req) (ar_object req) of
            Inl err \<Rightarrow> Inl err
          | Inr obj \<Rightarrow>
              (case decode_request_object scheme (ar_kind req) (ar_oldObject req) of
                 Inl err \<Rightarrow> Inl err
               | Inr oldObj \<Rightarrow> Inr (Some obj, Some oldObj)))
     | DeleteOp \<Rightarrow>
         if length (ar_oldObject req) > 0 then
           (case decode_request_object scheme (ar_kind req) (ar_oldObject req) of
              Inl err \<Rightarrow> Inl err
            | Inr oldObj \<Rightarrow> Inr (None, Some oldObj))
         else Inr (None, None)
     | ConnectOp \<Rightarrow> Inl (OtherErr ''Operation not supported''))"

definition NewAttributeFromRequest :: "runtime_scheme \<Rightarrow> admission_request \<Rightarrow> gerror + request_attributes" where
  "NewAttributeFromRequest scheme req =
    (case request_objects scheme req of
       Inl err \<Rightarrow> Inl err
     | Inr (obj, oldObj) \<Rightarrow> Inr
         \<lparr>at_name = ar_name req, at_namespace = ar_namespace req,
          at_groupResource = \<lparr>gr_group = gvr_group (ar_resource req), gr_resource = gvr_resource (ar_resource req)\<rparr>,
          at_subresource = ar_subResource req, at_operation = ar_operation req,
          at_object = (case obj of Some x \<Rightarrow> x | None \<Rightarrow> OtherObj []), at_oldObject = oldObj,
          at_dryRun = (case ar_dryRun req of None \<Rightarrow> False | Some b \<Rightarrow> b),
          ra_kind = ar_kind req, ra_resource = ar_resource req,
          ra_options = (case rs_StringToUnstructured scheme (ar_options req) of Inl _ \<Rightarrow> None | Inr x \<Rightarrow> Some x),
          ra_userInfo = ar_userInfo req\<rparr>)"

section \<open>The quota webhook\<close>

definition account_Handles :: "operation \<Rightarrow> bool" where
  "account_Handles operation \<longleftrightarrow> operation = CreateOp \<or> operation = UpdateOp"

text \<open>The state of the webhook is that of the admission: its evaluator and what its accessor keeps.\<close>

type_synonym 'w quota_state = "quota_evaluator_config option \<times> 'w aq_access"

definition QuotaValidator_Handle ::
  "runtime_scheme \<Rightarrow> ('w aq_client \<times> quota_configuration \<times> bool) option \<Rightarrow> admission_request \<Rightarrow> 'w quota_state \<Rightarrow>
   response \<times> 'w quota_state"
where
  "QuotaValidator_Handle scheme validator req st =
    (case validator of
       None \<Rightarrow> (Denied NotReadyDenied, st)
     | Some (client, config, synced) \<Rightarrow>
         if account_Handles (ar_operation req) = False then (Allowed, st)
         else
           (case NewAttributeFromRequest scheme req of
              Inl err \<Rightarrow> (Errored err, st)
            | Inr attrs \<Rightarrow>
                (case account_Validate client config synced (attributes.truncate attrs) (fst st) (snd st) of
                   (Some err, evaluator, s) \<Rightarrow> (Denied (QuotaDenied err), evaluator, s)
                 | (None, evaluator, s) \<Rightarrow> (Allowed, evaluator, s))))"

section \<open>The answers of the validator\<close>

lemma answer_account:
  "validator_answer ''Account'' obj oldObj = Allowed \<longleftrightarrow>
    (\<exists>a. obj = AccountObject a \<and> wf_account a
       \<and> (oldObj = None \<or> (\<exists>old. oldObj = Some (AccountObject old) \<and> same_status a old)))"
  by (auto simp: validator_answer_def validate_kind.simps account_accepted_iff
      split: config_object.splits option.splits if_splits)

lemma answer_quota:
  "validator_answer ''AccountQuota'' obj oldObj = Allowed \<longleftrightarrow>
    (\<exists>q. obj = AccountQuotaObject q \<and> ValidateAccountQuota q = []
       \<and> (oldObj = None \<or> (\<exists>old. oldObj = Some (AccountQuotaObject old) \<and> aq_account q = aq_account old)))"
  by (auto simp: validator_answer_def validate_kind.simps ValidateAccountQuotaUpdate_def ValidateImmutableField_def
      ValidateAccountQuota_def split: config_object.splits option.splits if_splits)

lemma answer_instance:
  "validator_answer ''TemplateInstance'' obj oldObj = Allowed \<longleftrightarrow>
    (\<exists>t. obj = TemplateInstanceObject t
       \<and> (oldObj = None \<or> (\<exists>old. oldObj = Some (TemplateInstanceObject old) \<and> tis_template t = tis_template old)))"
  by (auto simp: validator_answer_def validate_kind.simps ValidateTemplateInstanceUpdate_def ValidateImmutableField_def
      ValidateTemplateInstance_def split: config_object.splits option.splits if_splits)

lemma handle_config:
  assumes "gk_group (ar_kind req) = ''config.kiosk.sh''" "gk_version (ar_kind req) = ''v1alpha1''"
  shows "Validator_Handle strict normal req = Allowed \<longleftrightarrow>
    (\<exists>obj. Decode strict (ar_object req) = Inr obj
      \<and> (ar_operation req = CreateOp \<and> validator_answer (gk_kind (ar_kind req)) obj None = Allowed
         \<or> ar_operation req = UpdateOp \<and> (\<exists>old. Decode normal (ar_oldObject req) = Inr old
             \<and> validator_answer (gk_kind (ar_kind req)) obj (Some old) = Allowed)))"
proof -
  have gv: "gv_String (gk_group (ar_kind req)) (gk_version (ar_kind req)) = gv_String (fst SchemeGroupVersion) (snd SchemeGroupVersion)"
    using assms by (simp add: SchemeGroupVersion_def)
  show ?thesis
    by (cases "ar_operation req") (auto simp: Validator_Handle_def Let_def gv split: sum.splits)
qed

lemma handle_account:
  assumes "gk_group (ar_kind req) = ''config.kiosk.sh''" "gk_version (ar_kind req) = ''v1alpha1''" "gk_kind (ar_kind req) = ''Account''"
  shows "Validator_Handle strict normal req = Allowed \<longleftrightarrow>
    (\<exists>a. Decode strict (ar_object req) = Inr (AccountObject a) \<and> wf_account a
      \<and> (ar_operation req = CreateOp \<or> ar_operation req = UpdateOp
           \<and> (\<exists>old. Decode normal (ar_oldObject req) = Inr (AccountObject old) \<and> same_status a old)))"
  unfolding handle_config [OF assms(1,2)] assms(3) answer_account by auto

lemma handle_quota:
  assumes "gk_group (ar_kind req) = ''config.kiosk.sh''" "gk_version (ar_kind req) = ''v1alpha1''" "gk_kind (ar_kind req) = ''AccountQuota''"
  shows "Validator_Handle strict normal req = Allowed \<longleftrightarrow>
    (\<exists>q. Decode strict (ar_object req) = Inr (AccountQuotaObject q) \<and> ValidateAccountQuota q = []
      \<and> (ar_operation req = CreateOp \<or> ar_operation req = UpdateOp
           \<and> (\<exists>old. Decode normal (ar_oldObject req) = Inr (AccountQuotaObject old) \<and> aq_account q = aq_account old)))"
  unfolding handle_config [OF assms(1,2)] assms(3) answer_quota by auto

lemma handle_instance:
  assumes "gk_group (ar_kind req) = ''config.kiosk.sh''" "gk_version (ar_kind req) = ''v1alpha1''" "gk_kind (ar_kind req) = ''TemplateInstance''"
  shows "Validator_Handle strict normal req = Allowed \<longleftrightarrow>
    (\<exists>t. Decode strict (ar_object req) = Inr (TemplateInstanceObject t)
      \<and> (ar_operation req = CreateOp \<or> ar_operation req = UpdateOp
           \<and> (\<exists>old. Decode normal (ar_oldObject req) = Inr (TemplateInstanceObject old) \<and> tis_template t = tis_template old)))"
  unfolding handle_config [OF assms(1,2)] assms(3) answer_instance by auto

section \<open>What a dry run leaves behind\<close>

lemma store_tick_objects [simp]: "as_objects (store_tick st) = as_objects st"
proof -
  have "as_objects (fold deliver ks st) = as_objects st" for ks and st :: "'a api_store"
    by (induction ks arbitrary: st) (simp_all add: deliver_def)
  then show ?thesis by (simp add: store_tick_def split: list.splits)
qed

abbreviation stored_quotas :: "aq_world aq_access \<Rightarrow> (string \<times> account_quota) list" where
  "stored_quotas s \<equiv> as_objects (kw_quotas (aa_world s))"

lemma ready_account_quotas_stored:
  "ready_account_quotas store_aq_client ns w = (r, w') \<Longrightarrow> as_objects (kw_quotas w') = as_objects (kw_quotas w)"
  by (auto simp: ready_account_quotas_def store_aq_client_def store_Get_def store_List_def Let_def
      split: prod.splits option.splits sum.splits if_splits)

lemma GetQuotas_stored: "stored_quotas (snd (aq_GetQuotas store_aq_client ns s)) = stored_quotas s"
proof -
  obtain r w where p: "PollImmediate poll_ticks (ready_account_quotas store_aq_client ns) (aa_world s) = (r, w)" by fastforce
  have "as_objects (kw_quotas w) = stored_quotas s"
    by (rule PollImmediate_invariant [where W = "\<lambda>w. as_objects (kw_quotas w) = stored_quotas s", OF _ _ p])
      (simp_all add: ready_account_quotas_stored)
  then show ?thesis
    by (simp add: aq_GetQuotas_def waitForReadyAccountQuotaNames_def p split: sum.split prod.split)
qed

text \<open>A batch of dry runs changes no quota, so that nothing is written.\<close>

lemma check_waiters_dry: "list_all (\<lambda>w. at_dryRun (w_attributes w)) ws \<Longrightarrow> \<exists>ws'. check_waiters e qs ws = (qs, False, ws')"
proof (induction ws)
  case (Cons w ws)
  then show ?case by (cases "checkRequest e qs (w_attributes w)") auto
qed simp

lemma checkQuotas_dry: "list_all (\<lambda>w. at_dryRun (w_attributes w)) ws \<Longrightarrow> snd (checkQuotas e acc n qs ws s) = s"
  using check_waiters_dry [of ws e qs] by (subst checkQuotas.simps) auto

lemma checkAttributes_dry:
  assumes "list_all (\<lambda>w. at_dryRun (w_attributes w)) ws"
  shows "snd (checkAttributes e acc ns ws s) = snd (qa_GetQuotas acc ns s)"
  using assms by (simp add: checkAttributes_def Let_def checkQuotas_dry split: sum.split prod.split)

lemma Evaluate_alone_dry:
  assumes "at_dryRun a" "Evaluate_alone acc a e s = (r, e', s')"
  shows "s' = s \<or> s' = snd (qa_GetQuotas acc (at_namespace a) s)"
proof -
  obtain d e1 where en: "Evaluate_enter e a = (d, e1)" by fastforce
  show ?thesis
  proof (cases d)
    case EvAdmit
    then show ?thesis using assms(2) en by (simp add: Evaluate_alone_def)
  next
    case (EvWait w)
    have "at_dryRun (w_attributes w)"
      using Evaluate_enter_waiter [of e a w e1] en EvWait assms(1) by (simp add: newAdmissionWaiter_def)
    then have "snd (checkAttributes e1 acc (at_namespace a) [w] s) = snd (qa_GetQuotas acc (at_namespace a) s)"
      by (intro checkAttributes_dry) simp
    then show ?thesis using assms(2) en EvWait by (auto simp: Evaluate_alone_def split: prod.splits)
  qed
qed

lemma account_Validate_dry:
  assumes "at_dryRun a" "account_Validate store_aq_client config synced a ev s = (r, ev', s')"
  shows "stored_quotas s' = stored_quotas s"
proof (cases "at_subresource a \<noteq> [] \<or> at_namespace a = [] \<or> \<not> synced")
  case True
  then show ?thesis using assms(2) by (auto simp: account_Validate_def split: if_splits)
next
  case False
  then obtain e r1 e1 where "Evaluate_alone (accountQuotaAccessor store_aq_client) a e s = (r1, e1, s')"
    using assms(2) by (auto simp: account_Validate_def Let_def split: prod.splits)
  from Evaluate_alone_dry [OF assms(1) this] show ?thesis
    using GetQuotas_stored [of "at_namespace a" s] by (auto simp: accountQuotaAccessor_def)
qed

section \<open>Properties\<close>

text \<open>C32. The webhook decides about the objects of the config API as their specifications demand: an account is let in exactly
  if it decodes strictly to a well-formed one and an update leaves its status as it was; an account quota only if it decodes strictly to a
  well-formed one and an update leaves the account of the quota as it was, and always if, in addition, its counts do not exceed
  9223372036854775 (where milli values fit into 64 bits); a template instance exactly if it decodes and keeps its template.
  Every other operation on them is refused.\<close>

theorem Validator_Handle_decides:
  assumes "gk_group (ar_kind req) = ''config.kiosk.sh''" "gk_version (ar_kind req) = ''v1alpha1''" "decodes_amounts strict"
  shows "(gk_kind (ar_kind req) = ''Account'' \<longrightarrow>
      (Validator_Handle strict normal req = Allowed \<longleftrightarrow>
        (\<exists>a. Decode strict (ar_object req) = Inr (AccountObject a) \<and> wf_account a
          \<and> (ar_operation req = CreateOp \<or> ar_operation req = UpdateOp
               \<and> (\<exists>old. Decode normal (ar_oldObject req) = Inr (AccountObject old) \<and> same_status a old)))))
    \<and> (gk_kind (ar_kind req) = ''AccountQuota'' \<longrightarrow>
      (Validator_Handle strict normal req = Allowed \<longrightarrow>
        (\<exists>q. Decode strict (ar_object req) = Inr (AccountQuotaObject q) \<and> wf_quota_spec (aq_quota q)
          \<and> (ar_operation req = CreateOp \<or> ar_operation req = UpdateOp
               \<and> (\<exists>old. Decode normal (ar_oldObject req) = Inr (AccountQuotaObject old) \<and> aq_account q = aq_account old))))
      \<and> (\<forall>q. Decode strict (ar_object req) = Inr (AccountQuotaObject q) \<and> wf_quota_spec (aq_quota q) \<and> counts_fit (aq_quota q)
          \<and> (ar_operation req = CreateOp \<or> ar_operation req = UpdateOp
               \<and> (\<exists>old. Decode normal (ar_oldObject req) = Inr (AccountQuotaObject old) \<and> aq_account q = aq_account old))
          \<longrightarrow> Validator_Handle strict normal req = Allowed))
    \<and> (gk_kind (ar_kind req) = ''TemplateInstance'' \<longrightarrow>
      (Validator_Handle strict normal req = Allowed \<longleftrightarrow>
        (\<exists>t. Decode strict (ar_object req) = Inr (TemplateInstanceObject t)
          \<and> (ar_operation req = CreateOp \<or> ar_operation req = UpdateOp
               \<and> (\<exists>old. Decode normal (ar_oldObject req) = Inr (TemplateInstanceObject old) \<and> tis_template t = tis_template old)))))"
proof -
  have d: "decoded_ok q" if "Decode strict raw = Inr (AccountQuotaObject q)" for raw q
    using assms(3) that by (auto simp: decodes_amounts_def)
  show ?thesis
    using handle_account [OF assms(1,2), of strict normal] handle_instance [OF assms(1,2), of strict normal]
      handle_quota [OF assms(1,2), of strict normal] spec_accepted [OF d, of "ar_object req"]
    by (intro conjI impI allI) blast+
qed

definition ex_codec :: "config_object codec" where
  "ex_codec = \<lparr>cd_decode = (\<lambda>raw. if raw = ''wrong'' then Inr (AccountQuotaObject (ex_valid_quota []))
      else if raw = ''right'' then Inr (AccountQuotaObject (ex_valid_quota [''high''])) else Inl (OtherErr ''syntax'')),
     cd_notRegistered = (\<lambda>_. False), cd_unstructured = (\<lambda>_. Inl (OtherErr ''syntax''))\<rparr>"

lemma ex_codec_decodes: "decodes_amounts ex_codec"
  by (auto simp: decodes_amounts_def Decode_def ex_codec_def ex_valid_decoded split: if_splits)

definition ex_quota_request :: "string \<Rightarrow> admission_request" where
  "ex_quota_request raw = \<lparr>ar_kind = \<lparr>gk_group = ''config.kiosk.sh'', gk_version = ''v1alpha1'', gk_kind = ''AccountQuota''\<rparr>,
     ar_resource = \<lparr>gvr_group = ''config.kiosk.sh'', gvr_version = ''v1alpha1'', gvr_resource = ''accountquotas''\<rparr>,
     ar_subResource = [], ar_name = ''q'', ar_namespace = [], ar_operation = UpdateOp,
     ar_userInfo = \<lparr>au_name = ''admin'', au_uid = [], au_groups = [], au_extra = []\<rparr>,
     ar_object = raw, ar_oldObject = ''wrong'', ar_dryRun = None, ar_options = []\<rparr>"

text \<open>A selector without values is refused; the stored quota that lacks them can still be corrected.\<close>

theorem Validator_Handle_decides_witness:
  "Validator_Handle ex_codec ex_codec (ex_quota_request ''right'') = Allowed
   \<and> Validator_Handle ex_codec ex_codec (ex_quota_request ''wrong'') \<noteq> Allowed"
proof -
  have k: "gk_group (ar_kind (ex_quota_request raw)) = ''config.kiosk.sh''" "gk_version (ar_kind (ex_quota_request raw)) = ''v1alpha1''"
    "gk_kind (ar_kind (ex_quota_request raw)) = ''AccountQuota''" for raw
    by (simp_all add: ex_quota_request_def)
  have "Decode ex_codec (ar_object (ex_quota_request ''right'')) = Inr (AccountQuotaObject (ex_valid_quota [''high'']))"
    "Decode ex_codec (ar_object (ex_quota_request ''wrong'')) = Inr (AccountQuotaObject (ex_valid_quota []))"
    "Decode ex_codec (ar_oldObject (ex_quota_request raw)) = Inr (AccountQuotaObject (ex_valid_quota []))" for raw
    by (simp_all add: Decode_def ex_codec_def ex_quota_request_def)
  moreover have "wf_quota_spec (aq_quota (ex_valid_quota [''high'']))" "\<not> wf_quota_spec (aq_quota (ex_valid_quota []))"
    "counts_fit (aq_quota (ex_valid_quota vs))" for vs
    by (rule ex_valid_wf)+
  moreover have "ar_operation (ex_quota_request raw) = UpdateOp" "aq_account (ex_valid_quota vs) = ''acme''" for raw vs
    by (simp_all add: ex_quota_request_def ex_valid_quota_def)
  ultimately show ?thesis
    using Validator_Handle_decides [OF k(1,2) [of "''right''"] ex_codec_decodes, of ex_codec]
      Validator_Handle_decides [OF k(1,2) [of "''wrong''"] ex_codec_decodes, of ex_codec] k(3) by auto
qed

text \<open>C33. A dry run is a rehearsal: whatever a request that is marked as one contains, and whatever the webhook answers, the
  stored account quotas are the same afterwards.\<close>

theorem QuotaValidator_dry_run:
  assumes "ar_dryRun req = Some True"
    and "QuotaValidator_Handle scheme (Some (store_aq_client, config, synced)) req (ev, s) = (r, ev', s')"
  shows "stored_quotas s' = stored_quotas s"
proof (cases "account_Handles (ar_operation req)")
  case False
  then show ?thesis using assms(2) by (simp add: QuotaValidator_Handle_def)
next
  case True
  show ?thesis
  proof (cases "NewAttributeFromRequest scheme req")
    case (Inl err)
    then show ?thesis using assms(2) True by (simp add: QuotaValidator_Handle_def)
  next
    case (Inr attrs)
    have dry: "at_dryRun (attributes.truncate attrs)"
      using Inr assms(1) by (auto simp: NewAttributeFromRequest_def attributes.truncate_def split: sum.splits prod.splits)
    obtain r1 e1 s1 where v: "account_Validate store_aq_client config synced (attributes.truncate attrs) ev s = (r1, e1, s1)"
      by (metis prod_cases3)
    have "s' = s1"
      using assms(2) True Inr v by (auto simp: QuotaValidator_Handle_def split: option.splits)
    then show ?thesis using account_Validate_dry [OF dry v] by simp
  qed
qed

definition ex_scheme :: runtime_scheme where
  "ex_scheme = \<lparr>rs_New = (\<lambda>_. Inr (MetaObj empty_meta)), rs_notRegistered = (\<lambda>_. False), rs_unstructured = (\<lambda>_. MetaObj empty_meta),
     rs_DecodeRaw = (\<lambda>_ obj. Inr obj), rs_StringToUnstructured = (\<lambda>_. Inl (OtherErr ''empty''))\<rparr>"

definition ex_configmap :: "bool option \<Rightarrow> admission_request" where
  "ex_configmap dryRun = (ex_quota_request [])\<lparr>ar_kind := \<lparr>gk_group = [], gk_version = ''v1'', gk_kind = ''ConfigMap''\<rparr>,
     ar_resource := \<lparr>gvr_group = [], gvr_version = ''v1'', gvr_resource = ''configmaps''\<rparr>,
     ar_name := ''x'', ar_namespace := ''ns'', ar_operation := CreateOp, ar_dryRun := dryRun\<rparr>"

definition ex_webhook where
  "ex_webhook dryRun = QuotaValidator_Handle ex_scheme
     (Some (store_aq_client, NewQuotaConfiguration id (\<lambda>_. Inl (OtherErr [])) 0, True)) (ex_configmap dryRun)
     (None, newAccountQuotaAccessor ex_aq_world)"

text \<open>The same request is charged when it is not a dry run.\<close>

theorem QuotaValidator_dry_run_witness:
  "stored_quotas (snd (snd (ex_webhook (Some True)))) = stored_quotas (newAccountQuotaAccessor ex_aq_world)
   \<and> fst (ex_webhook (Some True)) = Allowed
   \<and> map_option total_used (map_of (stored_quotas (snd (snd (ex_webhook None)))) ''q'') = Some [(''count/configmaps'', 2 * 10 ^ 9)]"
proof -
  obtain r ev s where run: "ex_webhook (Some True) = (r, ev, s)" by (metis prod_cases3)
  have "ar_dryRun (ex_configmap (Some True)) = Some True" by (simp add: ex_configmap_def)
  from QuotaValidator_dry_run [OF this run [unfolded ex_webhook_def]]
  have "stored_quotas (snd (snd (ex_webhook (Some True)))) = stored_quotas (newAccountQuotaAccessor ex_aq_world)"
    by (simp add: run)
  moreover have "allowed (fst (ex_webhook (Some True)))" by code_simp
  then have "fst (ex_webhook (Some True)) = Allowed" by (cases "fst (ex_webhook (Some True))") simp_all
  moreover have "map_option total_used (map_of (stored_quotas (snd (snd (ex_webhook None)))) ''q'') = Some [(''count/configmaps'', 2 * 10 ^ 9)]"
    by code_simp
  ultimately show ?thesis by blast
qed

end
