(* ===== verification/Registration.thy ===== *)
theory Registration
  imports Webhooks Certificates
begin

text \<open>
  How kiosk registers itself with the cluster: its custom resource definitions (\<open>pkg/store/crd\<close>, \<open>pkg/apis/crds.go\<close>), its
  API service (\<open>pkg/store/apiservice\<close>) and its webhooks (\<open>pkg/store/validatingwebhookconfiguration\<close>). The clients are
  parameters. What is registered is related to what the handlers of the webhooks accept and do.
\<close>

section \<open>Get, prepare, create or update\<close>

text \<open>A client for objects of the cluster, by name.\<close>

record ('w, 'o) object_client =
  oc_Get :: "'w \<Rightarrow> string \<Rightarrow> gerror + 'o"
  oc_Create :: "'w \<Rightarrow> 'o \<Rightarrow> 'w \<times> gerror option"
  oc_Update :: "'w \<Rightarrow> 'o \<Rightarrow> 'w \<times> gerror option"

section \<open>The webhooks\<close>

record service_reference =
  sv_namespace :: string
  sv_name :: string
  sv_path :: "string option"

record webhook_rule =
  wr_operations :: "operation list"
  wr_apiGroups :: "string list"
  wr_apiVersions :: "string list"
  wr_resources :: "string list"
  wr_namespacedOnly :: bool

text \<open>The label selector is the list of the labels that must exist.\<close>

record validating_webhook =
  wh_name :: string
  wh_failurePolicy :: string
  wh_sideEffects :: string
  wh_service :: service_reference
  wh_caBundle :: string
  wh_existingLabels :: "string list"
  wh_rules :: "webhook_rule list"
  wh_reviewVersions :: "string list"

record webhook_configuration =
  wc_name :: string
  wc_annotations :: "(string \<times> string) list"
  wc_webhooks :: "validating_webhook list"

definition ValidatingWebhookConfigurationName :: string where "ValidatingWebhookConfigurationName = ''kiosk''"

definition kiosk_webhooks :: "string \<Rightarrow> string \<Rightarrow> validating_webhook list" where
  "kiosk_webhooks namespace caBundleData =
    [\<lparr>wh_name = ''accountquota.kiosk.sh'', wh_failurePolicy = ''Fail'', wh_sideEffects = ''None'',
      wh_service = \<lparr>sv_namespace = namespace, sv_name = WebhookServiceName, sv_path = Some ''/quota''\<rparr>,
      wh_caBundle = caBundleData, wh_existingLabels = [''kiosk.sh/account''],
      wh_rules = [\<lparr>wr_operations = [CreateOp, UpdateOp], wr_apiGroups = [''*''], wr_apiVersions = [''*''], wr_resources = [''*''],
        wr_namespacedOnly = True\<rparr>],
      wh_reviewVersions = [''v1'', ''v1beta1'']\<rparr>,
     \<lparr>wh_name = ''config.kiosk.sh'', wh_failurePolicy = ''Fail'', wh_sideEffects = ''None'',
      wh_service = \<lparr>sv_namespace = namespace, sv_name = WebhookServiceName, sv_path = Some ''/validate''\<rparr>,
      wh_caBundle = caBundleData, wh_existingLabels = [],
      wh_rules = [\<lparr>wr_operations = [CreateOp, UpdateOp], wr_apiGroups = [fst SchemeGroupVersion],
        wr_apiVersions = [snd SchemeGroupVersion], wr_resources = [''*''], wr_namespacedOnly = False\<rparr>],
      wh_reviewVersions = [''v1'', ''v1beta1'']\<rparr>]"

definition prepareValidatingWebhookConfiguration :: "'s system \<Rightarrow> 's \<Rightarrow> webhook_configuration \<Rightarrow> gerror + webhook_configuration" where
  "prepareValidatingWebhookConfiguration S s config =
    (case sy_ReadFile S s (file_in WebhookCertFolder ''ca.crt'') of
       Inl err \<Rightarrow> Inl err
     | Inr caBundleData \<Rightarrow>
         (case CurrentNamespace S s of
            Inl err \<Rightarrow> Inl err
          | Inr namespace \<Rightarrow> Inr (config\<lparr>wc_webhooks := kiosk_webhooks namespace caBundleData,
              wc_annotations := del ''cert-manager.io/inject-ca-from'' (wc_annotations config)\<rparr>)))"

definition EnsureValidatingWebhookConfiguration ::
  "'s system \<Rightarrow> 's \<Rightarrow> ('w, webhook_configuration) object_client \<Rightarrow> 'w \<Rightarrow> 'w \<times> gerror option"
where
  "EnsureValidatingWebhookConfiguration S s C w =
    (case oc_Get C w ValidatingWebhookConfigurationName of
       Inl err \<Rightarrow>
         if IsNotFound err = False then (w, Some err)
         else
           (case prepareValidatingWebhookConfiguration S s
               \<lparr>wc_name = ValidatingWebhookConfigurationName, wc_annotations = [], wc_webhooks = []\<rparr> of
              Inl err \<Rightarrow> (w, Some err)
            | Inr config \<Rightarrow> oc_Create C w config)
     | Inr config \<Rightarrow>
         (case prepareValidatingWebhookConfiguration S s config of
            Inl err \<Rightarrow> (w, Some err)
          | Inr config \<Rightarrow> oc_Update C w config))"

section \<open>The API service\<close>

record api_service =
  ap_name :: string
  ap_annotations :: "(string \<times> string) list"
  ap_service :: "service_reference option"
  ap_group :: string
  ap_version :: string
  ap_caBundle :: string
  ap_groupPriorityMinimum :: int
  ap_versionPriority :: int

definition prepareAPIService :: "'s system \<Rightarrow> 's \<Rightarrow> api_service \<Rightarrow> gerror + api_service" where
  "prepareAPIService S s service =
    (case sy_ReadFile S s (file_in APIServiceCertFolder ''ca.crt'') of
       Inl err \<Rightarrow> Inl err
     | Inr caBundleData \<Rightarrow>
         (case CurrentNamespace S s of
            Inl err \<Rightarrow> Inl err
          | Inr namespace \<Rightarrow> Inr (service\<lparr>
              ap_service := Some \<lparr>sv_namespace = namespace, sv_name = APIServiceName, sv_path = None\<rparr>,
              ap_group := ''tenancy.kiosk.sh'', ap_version := ''v1alpha1'', ap_caBundle := caBundleData,
              ap_groupPriorityMinimum := 10000, ap_versionPriority := 1000,
              ap_annotations := del ''cert-manager.io/inject-ca-from'' (ap_annotations service)\<rparr>)))"

definition api_service_name :: string where "api_service_name = ''v1alpha1'' @ ''.'' @ ''tenancy.kiosk.sh''"

definition EnsureAPIService :: "'s system \<Rightarrow> 's \<Rightarrow> ('w, api_service) object_client \<Rightarrow> 'w \<Rightarrow> 'w \<times> gerror option" where
  "EnsureAPIService S s C w =
    (case oc_Get C w api_service_name of
       Inl err \<Rightarrow>
         if IsNotFound err = False then (w, Some err)
         else
           (case prepareAPIService S s \<lparr>ap_name = api_service_name, ap_annotations = [], ap_service = None, ap_group = [],
               ap_version = [], ap_caBundle = [], ap_groupPriorityMinimum = 0, ap_versionPriority = 0\<rparr> of
              Inl err \<Rightarrow> (w, Some err)
            | Inr service \<Rightarrow> oc_Create C w service)
     | Inr service \<Rightarrow>
         (case prepareAPIService S s service of
            Inl err \<Rightarrow> (w, Some err)
          | Inr service \<Rightarrow> oc_Update C w service))"

section \<open>Custom resource definitions\<close>

record type_definition =
  td_gvk :: group_version_kind
  td_singular :: string
  td_plural :: string
  td_namespaced :: bool

record condition =
  co_type :: string
  co_status :: string

record crd =
  cr_name :: string
  cr_group :: string
  cr_version :: string
  cr_kind :: string
  cr_plural :: string
  cr_singular :: string
  cr_namespaced :: bool
  cr_statusSubresource :: bool
  cr_conditions :: "condition list"

text \<open>The types of \<open>pkg/apis/crds.go\<close>.\<close>

definition config_type :: "string \<Rightarrow> string \<Rightarrow> string \<Rightarrow> bool \<Rightarrow> type_definition" where
  "config_type kind singular plural namespaced =
    \<lparr>td_gvk = \<lparr>gk_group = fst SchemeGroupVersion, gk_version = snd SchemeGroupVersion, gk_kind = kind\<rparr>,
     td_singular = singular, td_plural = plural, td_namespaced = namespaced\<rparr>"

definition config_types :: "type_definition list" where
  "config_types = [config_type ''Account'' ''account'' ''accounts'' False,
     config_type ''AccountQuota'' ''accountquota'' ''accountquotas'' False,
     config_type ''Template'' ''template'' ''templates'' False,
     config_type ''TemplateInstance'' ''templateinstance'' ''templateinstances'' True]"

text \<open>The client of the definitions; \<open>cc_Tick\<close> is the time between two polls, in which the API server establishes definitions.\<close>

record 'w crd_client =
  dc_List :: "'w \<Rightarrow> gerror + crd list"
  dc_Get :: "'w \<Rightarrow> string \<Rightarrow> gerror + crd"
  dc_Create :: "'w \<Rightarrow> crd \<Rightarrow> 'w \<times> gerror option"
  dc_Tick :: "'w \<Rightarrow> 'w"
  dc_ContextErr :: "'w \<Rightarrow> gerror option"

definition is_established :: "crd \<Rightarrow> bool" where
  "is_established d \<longleftrightarrow> list_ex (\<lambda>c. co_type c = ''Established'' \<and> co_status c = ''True'') (cr_conditions d)"

definition GetReadyCRDs :: "'w crd_client \<Rightarrow> 'w \<Rightarrow> gerror + (string \<times> crd) list" where
  "GetReadyCRDs C w =
    (case dc_List C w of
       Inl err \<Rightarrow> Inl err
     | Inr items \<Rightarrow> Inr (fold (\<lambda>d result. if is_established d then put (cr_name d) d result else result) items []))"

definition to_lower :: "string \<Rightarrow> string" where
  "to_lower s = map (\<lambda>c. if CHR ''A'' \<le> c \<and> c \<le> CHR ''Z'' then char_of ((of_char c :: nat) + 32) else c) s"

definition crd_name :: "type_definition \<Rightarrow> string" where
  "crd_name t = to_lower (td_plural t @ ''.'' @ gk_group (td_gvk t))"

definition new_crd :: "type_definition \<Rightarrow> crd" where
  "new_crd t = \<lparr>cr_name = crd_name t, cr_group = gk_group (td_gvk t), cr_version = gk_version (td_gvk t), cr_kind = gk_kind (td_gvk t),
     cr_plural = td_plural t, cr_singular = td_singular t, cr_namespaced = td_namespaced t, cr_statusSubresource = True,
     cr_conditions = []\<rparr>"

text \<open>A definition that is not ready is created; that it exists already is no error.\<close>

definition createCRD :: "'w crd_client \<Rightarrow> 'w \<Rightarrow> type_definition \<Rightarrow> (string \<times> crd) list \<Rightarrow> 'w \<times> (gerror + crd)" where
  "createCRD C w t ready =
    (case map_of ready (crd_name t) of
       Some d \<Rightarrow> (w, Inr d)
     | None \<Rightarrow>
         (case dc_Create C w (new_crd t) of
            (w, None) \<Rightarrow> (w, Inr (new_crd t))
          | (w, Some err) \<Rightarrow> if IsAlreadyExists err then (w, Inr (new_crd t)) else (w, Inl err)))"

text \<open>Every half second for a minute, the first time after half a second.\<close>

definition crd_ticks :: nat where "crd_ticks = 119"

definition crd_ready :: "'w crd_client \<Rightarrow> string \<Rightarrow> 'w \<Rightarrow> (gerror + crd option) \<times> 'w" where
  "crd_ready C crdName w =
    (let w = dc_Tick C w in
     case dc_Get C w crdName of
       Inl err \<Rightarrow> (Inl err, w)
     | Inr d \<Rightarrow>
         if is_established d then (Inr (Some d), w)
         else (case dc_ContextErr C w of Some err \<Rightarrow> (Inl err, w) | None \<Rightarrow> (Inr None, w)))"

definition waitCRD :: "'w crd_client \<Rightarrow> string \<Rightarrow> 'w \<Rightarrow> (gerror + crd) \<times> 'w" where
  "waitCRD C crdName w = PollImmediate crd_ticks (crd_ready C crdName) w"

fun create_all :: "'w crd_client \<Rightarrow> (string \<times> crd) list \<Rightarrow> type_definition list \<Rightarrow> 'w \<Rightarrow> (gerror + (type_definition \<times> crd) list) \<times> 'w" where
  "create_all C ready [] w = (Inr [], w)"
| "create_all C ready (t # types) w =
     (case createCRD C w t ready of
        (w, Inl err) \<Rightarrow> (Inl err, w)
      | (w, Inr d) \<Rightarrow>
          (case create_all C ready types w of
             (Inl err, w) \<Rightarrow> (Inl err, w)
           | (Inr typesStatus, w) \<Rightarrow> (Inr ((t, d) # typesStatus), w)))"

fun wait_all :: "'w crd_client \<Rightarrow> (string \<times> crd) list \<Rightarrow> (type_definition \<times> crd) list \<Rightarrow> 'w \<Rightarrow> (gerror + (type_definition \<times> crd) list) \<times> 'w" where
  "wait_all C ready [] w = (Inr [], w)"
| "wait_all C ready ((t, d) # typesStatus) w =
     (case (case map_of ready (cr_name d) of Some readyCrd \<Rightarrow> (Inr readyCrd, w) | None \<Rightarrow> waitCRD C (cr_name d) w) of
        (Inl err, w) \<Rightarrow> (Inl err, w)
      | (Inr d, w) \<Rightarrow>
          (case wait_all C ready typesStatus w of
             (Inl err, w) \<Rightarrow> (Inl err, w)
           | (Inr typesStatus, w) \<Rightarrow> (Inr ((t, d) # typesStatus), w)))"

text \<open>The types come in the order of the arguments; Go's map of the results has none.\<close>

definition CreateCRDs :: "'w crd_client \<Rightarrow> type_definition list \<Rightarrow> 'w \<Rightarrow> (gerror + (type_definition \<times> crd) list) \<times> 'w" where
  "CreateCRDs C types w =
    (case GetReadyCRDs C w of
       Inl err \<Rightarrow> (Inl err, w)
     | Inr ready \<Rightarrow>
         (case create_all C ready types w of
            (Inl err, w) \<Rightarrow> (Inl err, w)
          | (Inr typesStatus, w) \<Rightarrow>
              (case GetReadyCRDs C w of
                 Inl err \<Rightarrow> (Inl err, w)
               | Inr ready \<Rightarrow> wait_all C ready typesStatus w)))"

section \<open>What registering achieves\<close>

text \<open>Both registrations read an object, prepare it, and create or update it.\<close>

definition ensure_object ::
  "('w, 'o) object_client \<Rightarrow> ('o \<Rightarrow> gerror + 'o) \<Rightarrow> string \<Rightarrow> 'o \<Rightarrow> 'w \<Rightarrow> 'w \<times> gerror option"
where
  "ensure_object C prepare name new w =
    (case oc_Get C w name of
       Inl err \<Rightarrow>
         if IsNotFound err = False then (w, Some err)
         else (case prepare new of Inl err \<Rightarrow> (w, Some err) | Inr x \<Rightarrow> oc_Create C w x)
     | Inr x \<Rightarrow> (case prepare x of Inl err \<Rightarrow> (w, Some err) | Inr x \<Rightarrow> oc_Update C w x))"

lemma ensures_objects:
  "EnsureValidatingWebhookConfiguration S s C w = ensure_object C (prepareValidatingWebhookConfiguration S s)
     ValidatingWebhookConfigurationName \<lparr>wc_name = ValidatingWebhookConfigurationName, wc_annotations = [], wc_webhooks = []\<rparr> w"
  "EnsureAPIService S s D v = ensure_object D (prepareAPIService S s) api_service_name
     \<lparr>ap_name = api_service_name, ap_annotations = [], ap_service = None, ap_group = [], ap_version = [], ap_caBundle = [],
      ap_groupPriorityMinimum = 0, ap_versionPriority = 0\<rparr> v"
  by (simp_all add: EnsureValidatingWebhookConfiguration_def EnsureAPIService_def ensure_object_def)

text \<open>Objects by their names: what is read is there, and a write sets the object of its name only.\<close>

locale named_objects =
  fixes C :: "('w, 'o) object_client" and view :: "'w \<Rightarrow> string \<Rightarrow> 'o option" and name_of :: "'o \<Rightarrow> string"
  assumes get_law: "oc_Get C w n = Inr x \<Longrightarrow> view w n = Some x \<and> name_of x = n"
    and create_law: "oc_Create C w x = (w', None) \<Longrightarrow> view w' = (view w)(name_of x \<mapsto> x)"
    and update_law: "oc_Update C w x = (w', None) \<Longrightarrow> view w' = (view w)(name_of x \<mapsto> x)"
begin

lemma ensures:
  assumes "ensure_object C prepare n new w = (w', None)" "name_of new = n"
    and "\<And>x y. prepare x = Inr y \<Longrightarrow> name_of y = name_of x"
  shows "\<exists>x y. (view w n = Some x \<or> x = new) \<and> prepare x = Inr y \<and> view w' = (view w)(n \<mapsto> y)"
proof (cases "oc_Get C w n")
  case (Inl err)
  then obtain y where y: "prepare new = Inr y" "oc_Create C w y = (w', None)"
    using assms(1) by (auto simp: ensure_object_def split: if_splits sum.splits)
  then show ?thesis using create_law [OF y(2)] assms(2) assms(3) [OF y(1)] by auto
next
  case (Inr x)
  then obtain y where y: "prepare x = Inr y" "oc_Update C w y = (w', None)"
    using assms(1) by (auto simp: ensure_object_def split: sum.splits)
  then show ?thesis using update_law [OF y(2)] get_law [OF Inr] assms(3) [OF y(1)] by auto
qed

end

text \<open>Objects in a list by their names.\<close>

definition stored_objects :: "('o \<Rightarrow> string) \<Rightarrow> ((string \<times> 'o) list, 'o) object_client" where
  "stored_objects name_of = \<lparr>
     oc_Get = (\<lambda>w n. case map_of w n of None \<Rightarrow> Inl (NotFoundErr n) | Some x \<Rightarrow> if name_of x = n then Inr x else Inl (OtherErr n)),
     oc_Create = (\<lambda>w x. case map_of w (name_of x) of None \<Rightarrow> (put (name_of x) x w, None) | Some _ \<Rightarrow> (w, Some (AlreadyExistsErr (name_of x)))),
     oc_Update = (\<lambda>w x. case map_of w (name_of x) of None \<Rightarrow> (w, Some (NotFoundErr (name_of x))) | Some _ \<Rightarrow> (put (name_of x) x w, None))\<rparr>"

lemma stored_objects_laws:
  "oc_Get (stored_objects f) w n = Inr x \<Longrightarrow> map_of w n = Some x \<and> f x = n"
  "oc_Create (stored_objects f) w x = (w', None) \<Longrightarrow> map_of w' = (map_of w)(f x \<mapsto> x)"
  "oc_Update (stored_objects f) w x = (w', None) \<Longrightarrow> map_of w' = (map_of w)(f x \<mapsto> x)"
  by (auto simp: stored_objects_def fun_eq_iff map_of_put split: option.splits if_splits)

interpretation webhook_configs: named_objects "stored_objects wc_name" map_of wc_name
  by unfold_locales (simp_all add: stored_objects_laws)

interpretation api_services: named_objects "stored_objects ap_name" map_of ap_name
  by unfold_locales (simp_all add: stored_objects_laws)

text \<open>
  How the API server consults the webhooks: a request is sent to the webhooks with a matching rule, and admitted if all of
  them allow it, as the failure policy demands. A star matches everything but subresources.
\<close>

definition pattern_matches :: "string list \<Rightarrow> string \<Rightarrow> bool" where
  "pattern_matches patterns x \<longleftrightarrow> ''*'' \<in> set patterns \<or> x \<in> set patterns"

definition rule_matches :: "webhook_rule \<Rightarrow> admission_request \<Rightarrow> bool" where
  "rule_matches r req \<longleftrightarrow> ar_operation req \<in> set (wr_operations r)
     \<and> pattern_matches (wr_apiGroups r) (gvr_group (ar_resource req))
     \<and> pattern_matches (wr_apiVersions r) (gvr_version (ar_resource req))
     \<and> ar_subResource req = [] \<and> pattern_matches (wr_resources r) (gvr_resource (ar_resource req))
     \<and> (wr_namespacedOnly r \<longrightarrow> ar_namespace req \<noteq> [])"

definition admitted ::
  "(string option \<Rightarrow> admission_request \<Rightarrow> response) \<Rightarrow> validating_webhook list \<Rightarrow> admission_request \<Rightarrow> bool"
where
  "admitted handler hooks req \<longleftrightarrow>
    (\<forall>h \<in> set hooks. list_ex (\<lambda>r. rule_matches r req) (wh_rules h) \<longrightarrow> handler (sv_path (wh_service h)) req = Allowed)"

lemma prepare_webhooks_name: "prepareValidatingWebhookConfiguration S s x = Inr y \<Longrightarrow> wc_name y = wc_name x"
  by (auto simp: prepareValidatingWebhookConfiguration_def split: sum.splits)

lemma prepared_webhooks: "prepareValidatingWebhookConfiguration S s x = Inr y \<Longrightarrow> \<exists>ns ca. wc_webhooks y = kiosk_webhooks ns ca"
  by (auto simp: prepareValidatingWebhookConfiguration_def split: sum.splits) blast

lemma admitted_config:
  assumes "admitted handler (kiosk_webhooks ns ca) req" "ar_operation req \<in> {CreateOp, UpdateOp}" "ar_subResource req = []"
    and "gvr_group (ar_resource req) = ''config.kiosk.sh''" "gvr_version (ar_resource req) = ''v1alpha1''"
  shows "handler (Some ''/validate'') req = Allowed"
  using assms by (auto simp: admitted_def kiosk_webhooks_def rule_matches_def pattern_matches_def SchemeGroupVersion_def)

section \<open>What the definitions rely on\<close>

lemma ready_of_lookup:
  assumes "map_of (fold (\<lambda>d result. if is_established d then put (cr_name d) d result else result) items []) n = Some d"
  shows "is_established d \<and> cr_name d = n \<and> d \<in> set items"
proof -
  define Q where "Q n d \<longleftrightarrow> is_established d \<and> cr_name d = n \<and> d \<in> set items" for n d
  have "all_entries Q acc \<Longrightarrow> set xs \<subseteq> set items \<Longrightarrow>
      all_entries Q (fold (\<lambda>d result. if is_established d then put (cr_name d) d result else result) xs acc)" for xs acc
    by (induction xs arbitrary: acc) (simp_all add: all_entries_put Q_def)
  then have "all_entries Q (fold (\<lambda>d result. if is_established d then put (cr_name d) d result else result) items [])"
    by (simp add: all_entries_Nil)
  from all_entries_lookup [OF this assms] show ?thesis by (simp add: Q_def)
qed

text \<open>A definition is read by its name.\<close>

locale crd_api =
  fixes C :: "'w crd_client"
  assumes get_name: "dc_Get C w n = Inr d \<Longrightarrow> cr_name d = n"
begin

lemma ready_ok: "GetReadyCRDs C w = Inr ready \<Longrightarrow> map_of ready n = Some d \<Longrightarrow> is_established d \<and> cr_name d = n"
  by (auto simp: GetReadyCRDs_def split: sum.splits dest: ready_of_lookup)

lemma create_all_names:
  assumes "\<And>n d. map_of ready n = Some d \<Longrightarrow> cr_name d = n" "create_all C ready types w = (Inr ds, w')"
  shows "map fst ds = types \<and> list_all (\<lambda>(t, d). cr_name d = crd_name t) ds"
  using assms(2)
proof (induction types arbitrary: w ds)
  case (Cons t types)
  then obtain d w1 ds1 where d: "createCRD C w t ready = (w1, Inr d)" "create_all C ready types w1 = (Inr ds1, w')" "ds = (t, d) # ds1"
    by (auto split: prod.splits sum.splits)
  have "cr_name d = crd_name t"
    using d(1) assms(1) by (auto simp: createCRD_def new_crd_def split: option.splits prod.splits if_splits)
  then show ?case using Cons.IH [OF d(2)] d(3) by simp
qed simp

lemma wait_established: "waitCRD C n w = (Inr d, w') \<Longrightarrow> is_established d \<and> cr_name d = n"
proof -
  assume "waitCRD C n w = (Inr d, w')"
  then obtain v where "crd_ready C n v = (Inr (Some d), w')" unfolding waitCRD_def by (auto dest: PollImmediate_done)
  then show "is_established d \<and> cr_name d = n"
    using get_name by (auto simp: crd_ready_def Let_def split: sum.splits if_splits option.splits)
qed

lemma wait_all_established:
  assumes "\<And>n d. map_of ready n = Some d \<Longrightarrow> is_established d \<and> cr_name d = n" "wait_all C ready ds w = (Inr es, w')"
    and "list_all (\<lambda>(t, d). cr_name d = crd_name t) ds"
  shows "map fst es = map fst ds \<and> list_all (\<lambda>(t, d). cr_name d = crd_name t \<and> is_established d) es"
  using assms(2,3)
proof (induction ds arbitrary: w es)
  case (Cons x ds)
  obtain t d where x: "x = (t, d)" by fastforce
  from Cons.prems(1) obtain e w1 es1 where
    e: "(case map_of ready (cr_name d) of Some readyCrd \<Rightarrow> (Inr readyCrd, w) | None \<Rightarrow> waitCRD C (cr_name d) w) = (Inr e, w1)"
      "wait_all C ready ds w1 = (Inr es1, w')" "es = (t, e) # es1"
    by (auto simp: x split: prod.splits sum.splits)
  have "is_established e \<and> cr_name e = cr_name d"
    using e(1) assms(1) wait_established by (auto split: option.splits)
  then show ?case using Cons.IH [OF e(2)] Cons.prems(2) e(3) by (simp add: x)
qed simp

lemma CreateCRDs_established:
  assumes "CreateCRDs C types w = (Inr es, w')"
  shows "map fst es = types \<and> list_all (\<lambda>(t, d). cr_name d = crd_name t \<and> is_established d) es"
proof -
  from assms obtain r1 ds w1 r2 where r1: "GetReadyCRDs C w = Inr r1" and ds: "create_all C r1 types w = (Inr ds, w1)"
    and r2: "GetReadyCRDs C w1 = Inr r2" and es: "wait_all C r2 ds w1 = (Inr es, w')"
    by (auto simp: CreateCRDs_def split: sum.splits prod.splits)
  have n: "map fst ds = types \<and> list_all (\<lambda>(t, d). cr_name d = crd_name t) ds"
    using create_all_names [OF _ ds] ready_ok [OF r1] by blast
  show ?thesis using wait_all_established [OF ready_ok [OF r2] es] n by simp
qed

end

section \<open>The definitions on a cluster\<close>

text \<open>A cluster that has established all its definitions after a number of ticks.\<close>

record crd_cluster =
  dw_crds :: "(string \<times> crd) list"
  dw_left :: nat

definition with_conditions :: "crd_cluster \<Rightarrow> crd \<Rightarrow> crd" where
  "with_conditions w d = d\<lparr>cr_conditions := (if dw_left w = 0 then [\<lparr>co_type = ''Established'', co_status = ''True''\<rparr>] else [])\<rparr>"

definition cluster_crds :: "crd_cluster crd_client" where
  "cluster_crds = \<lparr>
     dc_List = (\<lambda>w. Inr (map (\<lambda>(n, d). with_conditions w (d\<lparr>cr_name := n\<rparr>)) (dw_crds w))),
     dc_Get = (\<lambda>w n. case map_of (dw_crds w) n of None \<Rightarrow> Inl (NotFoundErr n) | Some d \<Rightarrow> Inr (with_conditions w (d\<lparr>cr_name := n\<rparr>))),
     dc_Create = (\<lambda>w d. case map_of (dw_crds w) (cr_name d) of
         Some _ \<Rightarrow> (w, Some (AlreadyExistsErr (cr_name d)))
       | None \<Rightarrow> (w\<lparr>dw_crds := put (cr_name d) d (dw_crds w)\<rparr>, None)),
     dc_Tick = (\<lambda>w. w\<lparr>dw_left := dw_left w - 1\<rparr>),
     dc_ContextErr = (\<lambda>_. None)\<rparr>"

interpretation cluster: crd_api cluster_crds
  by unfold_locales (auto simp: cluster_crds_def with_conditions_def split: option.splits)

abbreviation defined :: "crd_cluster \<Rightarrow> string \<Rightarrow> bool" where
  "defined w n \<equiv> map_of (dw_crds w) n \<noteq> None"

lemma cluster_ready: "\<exists>ready. GetReadyCRDs cluster_crds w = Inr ready"
  by (simp add: GetReadyCRDs_def cluster_crds_def)

lemma cluster_create:
  assumes "\<And>n. map_of ready n \<noteq> None \<Longrightarrow> defined w n"
  shows "\<exists>d w'. createCRD cluster_crds w t ready = (w', Inr d) \<and> defined w' (crd_name t) \<and> dw_left w' = dw_left w
    \<and> (\<forall>n. defined w n \<longrightarrow> defined w' n)"
proof (cases "map_of ready (crd_name t)")
  case (Some d)
  then show ?thesis using assms [of "crd_name t"] by (simp add: createCRD_def)
next
  case None
  then show ?thesis by (auto simp: createCRD_def cluster_crds_def new_crd_def map_of_put split: option.splits)
qed

lemma cluster_ready_defined:
  assumes "GetReadyCRDs cluster_crds w = Inr ready" "map_of ready n \<noteq> None"
  shows "defined w n"
proof -
  define items where "items = map (\<lambda>(n, d). with_conditions w (d\<lparr>cr_name := n\<rparr>)) (dw_crds w)"
  obtain d where "map_of ready n = Some d" using assms(2) by blast
  moreover have "ready = fold (\<lambda>d result. if is_established d then put (cr_name d) d result else result) items []"
    using assms(1) by (simp add: GetReadyCRDs_def cluster_crds_def items_def)
  ultimately have "cr_name d = n" "d \<in> set items" using ready_of_lookup [of items n d] by simp_all
  then have "n \<in> fst ` set (dw_crds w)" by (force simp: items_def with_conditions_def)
  then show ?thesis by (simp add: map_of_eq_None_iff)
qed

lemma cluster_create_all:
  assumes "\<And>n. map_of ready n \<noteq> None \<Longrightarrow> defined w n"
  shows "\<exists>ds w'. create_all cluster_crds ready types w = (Inr ds, w') \<and> dw_left w' = dw_left w
    \<and> (\<forall>n. defined w n \<or> n \<in> crd_name ` set types \<longrightarrow> defined w' n)"
  using assms
proof (induction types arbitrary: w)
  case (Cons t types)
  obtain d w1 where d: "createCRD cluster_crds w t ready = (w1, Inr d)" "defined w1 (crd_name t)" "dw_left w1 = dw_left w"
    "\<forall>n. defined w n \<longrightarrow> defined w1 n"
    using cluster_create [OF Cons.prems] by blast
  obtain ds w2 where ds: "create_all cluster_crds ready types w1 = (Inr ds, w2)" "dw_left w2 = dw_left w1"
    "\<forall>n. defined w1 n \<or> n \<in> crd_name ` set types \<longrightarrow> defined w2 n"
    using Cons.IH [of w1] Cons.prems d(4) by blast
  show ?case using d ds by auto
qed simp

lemma cluster_poll:
  "dw_left w \<le> Suc k \<Longrightarrow> defined w n \<Longrightarrow>
   \<exists>d w'. PollImmediate k (crd_ready cluster_crds n) w = (Inr d, w') \<and> dw_left w' \<le> dw_left w \<and> dw_crds w' = dw_crds w"
proof (induction k arbitrary: w)
  case 0
  then show ?case
    by (subst PollImmediate.simps) (auto simp: crd_ready_def cluster_crds_def with_conditions_def is_established_def Let_def)
next
  case (Suc k)
  let ?w = "w\<lparr>dw_left := dw_left w - 1\<rparr>"
  obtain d where d: "map_of (dw_crds w) n = Some d" using Suc.prems(2) by blast
  have r: "crd_ready cluster_crds n w = (Inr (if dw_left w - 1 = 0 then Some (with_conditions ?w (d\<lparr>cr_name := n\<rparr>)) else None), ?w)"
    using d by (simp add: crd_ready_def cluster_crds_def with_conditions_def is_established_def Let_def)
  show ?case
  proof (cases "dw_left w - 1 = 0")
    case True
    then show ?thesis by (subst PollImmediate.simps) (simp add: r)
  next
    case False
    have "dw_left ?w \<le> Suc k" "defined ?w n" using Suc.prems by simp_all
    from Suc.IH [OF this] obtain e w' where
      e: "PollImmediate k (crd_ready cluster_crds n) ?w = (Inr e, w')" "dw_left w' \<le> dw_left ?w" "dw_crds w' = dw_crds ?w" by blast
    have "PollImmediate (Suc k) (crd_ready cluster_crds n) w = (Inr e, w')"
      using False e(1) by (subst PollImmediate.simps) (simp add: r)
    moreover have "dw_left w' \<le> dw_left w" "dw_crds w' = dw_crds w" using e(2,3) by simp_all
    ultimately show ?thesis by blast
  qed
qed

lemma cluster_wait_all:
  assumes "dw_left w \<le> 120" "\<forall>(t, d) \<in> set ds. defined w (cr_name d)"
  shows "\<exists>es w'. wait_all cluster_crds ready ds w = (Inr es, w')"
  using assms
proof (induction ds arbitrary: w)
  case (Cons x ds)
  obtain t d where x: "x = (t, d)" by fastforce
  show ?case
  proof (cases "map_of ready (cr_name d)")
    case (Some e)
    then show ?thesis using Cons.IH [of w] Cons.prems by (auto simp: x)
  next
    case None
    obtain e w1 where e: "waitCRD cluster_crds (cr_name d) w = (Inr e, w1)" "dw_left w1 \<le> dw_left w" "dw_crds w1 = dw_crds w"
      using cluster_poll [of w 119 "cr_name d"] Cons.prems by (auto simp: waitCRD_def crd_ticks_def x)
    have "\<forall>(t, d) \<in> set ds. defined w1 (cr_name d)" using Cons.prems(2) e(3) by auto
    then obtain es w2 where "wait_all cluster_crds ready ds w1 = (Inr es, w2)" using Cons.IH [of w1] Cons.prems(1) e(2) by auto
    then show ?thesis using None e(1) by (simp add: x)
  qed
qed simp

section \<open>Properties\<close>

text \<open>Kiosk gets its types: if the API server establishes definitions within a minute, then the definitions of all types are
  created, waited for and returned, each under the name of its type and established.\<close>

lemma CreateCRDs_succeeds:
  assumes "dw_left w \<le> 120"
  shows "\<exists>es w'. CreateCRDs cluster_crds types w = (Inr es, w') \<and> map fst es = types
    \<and> list_all (\<lambda>(t, d). cr_name d = crd_name t \<and> is_established d) es"
proof -
  obtain r1 where r1: "GetReadyCRDs cluster_crds w = Inr r1" using cluster_ready by blast
  obtain ds w1 where ds: "create_all cluster_crds r1 types w = (Inr ds, w1)" "dw_left w1 = dw_left w"
    "\<forall>n. defined w n \<or> n \<in> crd_name ` set types \<longrightarrow> defined w1 n"
    using cluster_create_all [OF cluster_ready_defined [OF r1]] by blast
  have n: "map fst ds = types \<and> list_all (\<lambda>(t, d). cr_name d = crd_name t) ds"
    using cluster.create_all_names [OF _ ds(1)] cluster.ready_ok [OF r1] by blast
  then have "\<forall>(t, d) \<in> set ds. defined w1 (cr_name d)"
    using ds(3) by (force simp: list_all_iff)
  then obtain r2 es w2 where "GetReadyCRDs cluster_crds w1 = Inr r2" "wait_all cluster_crds r2 ds w1 = (Inr es, w2)"
    using cluster_ready [of w1] cluster_wait_all [of w1 ds] ds(2) assms by metis
  then have "CreateCRDs cluster_crds types w = (Inr es, w2)" using r1 ds(1) by (simp add: CreateCRDs_def)
  then show ?thesis using cluster.CreateCRDs_established by blast
qed

theorem CreateCRDs_succeeds_witness:
  "\<exists>es w'. CreateCRDs cluster_crds config_types \<lparr>dw_crds = [], dw_left = 3\<rparr> = (Inr es, w') \<and> map fst es = config_types"
  using CreateCRDs_succeeds [of "\<lparr>dw_crds = [], dw_left = 3\<rparr>" config_types] by auto

text \<open>C38. From registration to validation: once the webhooks are registered, every request (other than through a subresource)
  that the API server admits to create or update an account quota carries a well-formed one, and an update keeps its account.\<close>

theorem registered_quotas_wf:
  assumes "EnsureValidatingWebhookConfiguration S s (stored_objects wc_name) w = (w', None)"
    and "map_of w' ValidatingWebhookConfigurationName = Some config" "admitted handler (wc_webhooks config) req"
    and "\<And>r. handler (Some ''/validate'') r = Validator_Handle strict normal r"
    and "ar_operation req \<in> {CreateOp, UpdateOp}" "ar_subResource req = []"
    and "ar_resource req = \<lparr>gvr_group = ''config.kiosk.sh'', gvr_version = ''v1alpha1'', gvr_resource = ''accountquotas''\<rparr>"
    and "ar_kind req = \<lparr>gk_group = ''config.kiosk.sh'', gk_version = ''v1alpha1'', gk_kind = ''AccountQuota''\<rparr>"
    and "decodes_amounts strict"
  shows "\<exists>q. Decode strict (ar_object req) = Inr (AccountQuotaObject q) \<and> wf_quota_spec (aq_quota q)
    \<and> (ar_operation req = UpdateOp \<longrightarrow>
        (\<exists>old. Decode normal (ar_oldObject req) = Inr (AccountQuotaObject old) \<and> aq_account q = aq_account old))"
proof -
  obtain x y where y: "prepareValidatingWebhookConfiguration S s x = Inr y" "map_of w' = (map_of w)(ValidatingWebhookConfigurationName \<mapsto> y)"
    using webhook_configs.ensures [OF assms(1) [unfolded ensures_objects(1)] _ prepare_webhooks_name [where S = S and s = s]] by auto
  obtain ns ca where "wc_webhooks config = kiosk_webhooks ns ca" using prepared_webhooks [OF y(1)] assms(2) y(2) by auto
  then have "Validator_Handle strict normal req = Allowed"
    using admitted_config [of handler ns ca req] assms(3-7) by simp
  then show ?thesis
    using handle_quota [of req strict normal] assms(8) spec_accepted(1) assms(9) [unfolded decodes_amounts_def] by auto
qed

definition ex_server :: machine where
  "ex_server = (ex_machine True [])\<lparr>mc_files := put (file_in WebhookCertFolder ''ca.crt'') \<lparr>fi_content = ''ca'', fi_mode = data_mode\<rparr>
     (mc_files (ex_machine True []))\<rparr>"

definition ex_registered where
  "ex_registered = EnsureValidatingWebhookConfiguration machine_system ex_server (stored_objects wc_name) []"

lemma ex_registered_ok:
  "ex_registered = ([(''kiosk'', \<lparr>wc_name = ''kiosk'', wc_annotations = [], wc_webhooks = kiosk_webhooks ''kiosk'' ''ca''\<rparr>)], None)"
proof -
  have "sy_ReadFile machine_system ex_server (file_in WebhookCertFolder ''ca.crt'') = Inr ''ca''"
    "CurrentNamespace machine_system ex_server = Inr ''kiosk''" by code_simp+
  then show ?thesis
    by (simp add: ex_registered_def EnsureValidatingWebhookConfiguration_def stored_objects_def
        prepareValidatingWebhookConfiguration_def ValidatingWebhookConfigurationName_def)
qed

definition ex_handler :: "string option \<Rightarrow> admission_request \<Rightarrow> response" where
  "ex_handler path req = (if path = Some ''/validate'' then Validator_Handle ex_codec ex_codec req else Allowed)"

lemma ex_right_allowed: "Validator_Handle ex_codec ex_codec (ex_quota_request ''right'') = Allowed"
proof -
  have "allowed (Validator_Handle ex_codec ex_codec (ex_quota_request ''right''))" by code_simp
  then show ?thesis by (cases "Validator_Handle ex_codec ex_codec (ex_quota_request ''right'')") simp_all
qed

theorem registered_quotas_wf_witness:
  "\<exists>q. Decode ex_codec (ar_object (ex_quota_request ''right'')) = Inr (AccountQuotaObject q) \<and> wf_quota_spec (aq_quota q)"
proof -
  let ?c = "\<lparr>wc_name = ''kiosk'', wc_annotations = [], wc_webhooks = kiosk_webhooks ''kiosk'' ''ca''\<rparr>"
  have m: "map_of [(''kiosk'', ?c)] ValidatingWebhookConfigurationName = Some ?c"
    by (simp add: ValidatingWebhookConfigurationName_def)
  have a: "admitted ex_handler (wc_webhooks ?c) (ex_quota_request ''right'')"
    using ex_right_allowed by (simp add: admitted_def kiosk_webhooks_def ex_handler_def)
  show ?thesis
    using registered_quotas_wf [OF ex_registered_ok [unfolded ex_registered_def] m a, of ex_codec ex_codec]
    by (auto simp: ex_handler_def ex_quota_request_def ex_codec_decodes)
qed

text \<open>The registration of the quota webhook says that calling it has no side effects, but a call that is not a dry run changes
  the stored quotas: config maps of an account are charged.\<close>

lemma quota_webhook_side_effects:
  "\<exists>h \<in> set (kiosk_webhooks namespace caBundleData). wh_sideEffects h = ''None'' \<and> sv_path (wh_service h) = Some ''/quota''
     \<and> list_ex (\<lambda>r. rule_matches r (ex_configmap None)) (wh_rules h)
     \<and> stored_quotas (snd (snd (ex_webhook None))) \<noteq> stored_quotas (newAccountQuotaAccessor ex_aq_world)"
proof -
  have "map_option total_used (map_of (stored_quotas (snd (snd (ex_webhook None)))) ''q'')
      \<noteq> map_option total_used (map_of (stored_quotas (newAccountQuotaAccessor ex_aq_world)) ''q'')" by code_simp
  then have "stored_quotas (snd (snd (ex_webhook None))) \<noteq> stored_quotas (newAccountQuotaAccessor ex_aq_world)" by metis
  then show ?thesis
    by (simp add: kiosk_webhooks_def rule_matches_def pattern_matches_def ex_configmap_def ex_quota_request_def)
qed

end
