(* ===== verification/Startup.thy ===== *)
theory Startup
  imports Registration QuotaMonitor
begin

text \<open>
  How a process starts (\<open>cmd/kiosk/main.go\<close>, \<open>pkg/leaderelection\<close>, the \<open>Register\<close> functions of the controllers): what is
  done in which order, what ends the process, and what the leader does on top. The parts that start are those of the
  other theories; controller-runtime, the apiserver library and the environment are parameters. The goroutines that serve
  until the process ends are entries of the list of what has been started. What the order achieves is stated on the
  cluster and machine of \<open>Certificates\<close> and \<open>Registration\<close>.
\<close>

section \<open>The quota controller\<close>

text \<open>Periods are in seconds.\<close>

record quota_controller_options =
  qo_ConcurrentResourceQuotaSyncs :: int
  qo_ResourceQuotaSyncPeriod :: int

definition RecommendedDefaultResourceQuotaControllerConfiguration :: "quota_controller_options \<Rightarrow> quota_controller_options" where
  "RecommendedDefaultResourceQuotaControllerConfiguration obj =
    (let obj = (if qo_ConcurrentResourceQuotaSyncs obj = 0 then obj\<lparr>qo_ConcurrentResourceQuotaSyncs := 5\<rparr> else obj)
     in if qo_ResourceQuotaSyncPeriod obj = 0 then obj\<lparr>qo_ResourceQuotaSyncPeriod := 5 * 60\<rparr> else obj)"

text \<open>
  What the controller is made from: the errors of the informers of account quotas and namespaces, the answer of the
  discovery, if there is one to ask, and the factory of the monitors. The controller and its monitors share the registry, to
  which the monitors add evaluators. An error of the first synchronisation of the monitors is only logged.
\<close>

record controller_deps =
  cd_quotaInformer :: "gerror option"
  cd_namespaceInformer :: "gerror option"
  cd_discovery :: "(api_resource list \<times> discovery_error option) option"
  cd_ForResource :: "group_version_resource \<Rightarrow> gerror option"
  cd_lister :: lister_for_resource

definition NewAccountQuotaController ::
  "controller_deps \<Rightarrow> group_resource list \<Rightarrow> quota_registry \<Rightarrow> gerror + quota_controller \<times> quota_monitor option"
where
  "NewAccountQuotaController D ignored registry =
    (case cd_quotaInformer D of
       Some err \<Rightarrow> Inl err
     | None \<Rightarrow>
         (case cd_namespaceInformer D of
            Some err \<Rightarrow> Inl err
          | None \<Rightarrow>
              (let rq = \<lparr>cq_queue = wq_New, cq_missingUsageQueue = wq_New, cq_registry = registry\<rparr> in
               case cd_discovery D of
                 None \<Rightarrow> Inr (rq, None)
               | Some discovery \<Rightarrow>
                   (let qm = \<lparr>qm_monitors = [], qm_running = False, qm_resourceChanges = [], qm_ignoredResources = ignored,
                        qm_registry = registry, qm_closed = []\<rparr> in
                    case GetQuotableResourcesByFunc discovery of
                      (resources, err) \<Rightarrow>
                        (case (case err of None \<Rightarrow> None | Some e \<Rightarrow> if de_group e then None else Some (de_err e)) of
                           Some err \<Rightarrow> Inl err
                         | None \<Rightarrow>
                             (case SyncMonitors (cd_ForResource D) (cd_lister D) (remdups resources) qm of
                                (_, qm) \<Rightarrow> Inr (rq\<lparr>cq_registry := qm_registry qm\<rparr>, Some qm)))))))"

text \<open>The loops of a running controller: without synced caches only the monitors run.\<close>

datatype controller_loop = MonitorLoop | WorkLoop | PriorityLoop | ResyncLoop int

definition controller_Run :: "int \<Rightarrow> int \<Rightarrow> bool \<Rightarrow> (group_version_resource \<Rightarrow> bool) \<Rightarrow> quota_monitor option \<Rightarrow> controller_loop list" where
  "controller_Run workers resyncPeriod informersSynced HasSynced quotaMonitor =
    (case quotaMonitor of None \<Rightarrow> [] | Some qm \<Rightarrow> [MonitorLoop])
    @ (if \<not> (informersSynced \<and> (case quotaMonitor of None \<Rightarrow> True | Some qm \<Rightarrow> IsSynced HasSynced qm)) then []
       else concat (replicate (nat workers) [WorkLoop, PriorityLoop]) @ [ResyncLoop resyncPeriod])"

section \<open>The process\<close>

record server_options =
  so_DisableWebhooks :: bool
  so_ServerSideApply :: bool
  so_CertFile :: string
  so_KeyFile :: string
  so_BindPort :: int

datatype service =
    Webhook string
  | ControllerContext
  | ManagerWith string
  | NamespaceRegistry
  | AccountRegistry
  | ApiServer server_options
  | AccountReconciler
  | TemplateInstanceReconciler
  | AccountQuotaControllerWith int int
  | MonitorSync int

record ('s, 'c, 'h, 'a) process =
  ps_system :: 's
  ps_crds :: 'c
  ps_hooks :: 'h
  ps_services :: 'a
  ps_started :: "service list"

record ('s, 'c, 'h, 'a) clients =
  cl_system :: "'s system"
  cl_crds :: "'c crd_client"
  cl_hooks :: "('h, webhook_configuration) object_client"
  cl_services :: "('a, api_service) object_client"

text \<open>The libraries, by the errors of their calls.\<close>

record libraries =
  lb_GetConfig :: "gerror option"
  lb_NewClient :: "gerror option"
  lb_NewManager :: "gerror option"
  lb_IndexField :: "gerror option"
  lb_NewDecoder :: "gerror option"
  lb_NamespaceInformer :: "gerror option"
  lb_AccountInformer :: "gerror option"
  lb_SetFeatureGate :: "gerror option"
  lb_Atoi :: "string \<Rightarrow> gerror + int"
  lb_RecorderClient :: "gerror option"
  lb_LeaderClient :: "gerror option"
  lb_Hostname :: "gerror + string"
  lb_SetupAccounts :: "gerror option"
  lb_SetupTemplateInstances :: "gerror option"
  lb_controller :: controller_deps
  lb_order :: "(group_resource \<times> resource_name) list \<Rightarrow> (group_resource \<times> resource_name) list"
  lb_now :: int

text \<open>Steps that fail with an error end the process, be it by a panic, a fatal log or an exit.\<close>

definition check :: "gerror option \<Rightarrow> ('s, 'c, 'h, 'a) process \<Rightarrow> ('s, 'c, 'h, 'a) process \<times> gerror option" where
  "check err p = (p, err)"

definition begins :: "service \<Rightarrow> ('s, 'c, 'h, 'a) process \<Rightarrow> ('s, 'c, 'h, 'a) process \<times> gerror option" where
  "begins x p = (p\<lparr>ps_started := ps_started p @ [x]\<rparr>, None)"

definition installCRDS :: "'c crd_client \<Rightarrow> ('s, 'c, 'h, 'a) process \<Rightarrow> ('s, 'c, 'h, 'a) process \<times> gerror option" where
  "installCRDS C p =
    (case CreateCRDs C config_types (ps_crds p) of
       (Inl err, w) \<Rightarrow> (p\<lparr>ps_crds := w\<rparr>, Some err)
     | (Inr _, w) \<Rightarrow> (p\<lparr>ps_crds := w\<rparr>, None))"

text \<open>The webhooks that the manager serves.\<close>

definition webhooks_Register :: "libraries \<Rightarrow> ('s, 'c, 'h, 'a) process \<Rightarrow> ('s, 'c, 'h, 'a) process \<times> gerror option" where
  "webhooks_Register L p = and_then (check (lb_NewDecoder L) p) (\<lambda>p. and_then (begins (Webhook ''/quota'') p) (begins (Webhook ''/validate'')))"

definition controller_context_Start :: "('s, 'c, 'h, 'a) process \<Rightarrow> ('s, 'c, 'h, 'a) process \<times> gerror option" where
  "controller_context_Start p = begins ControllerContext p"

text \<open>The options of the API server, with the files of its certificate and the port from the environment.\<close>

definition tweak_server_options :: "libraries \<Rightarrow> (string \<Rightarrow> string) \<Rightarrow> gerror + server_options" where
  "tweak_server_options L getenv =
    (case (if getenv ''APISERVICE_PORT'' \<noteq> [] then lb_Atoi L (getenv ''APISERVICE_PORT'') else Inr 8443) of
       Inl err \<Rightarrow> Inl err
     | Inr port \<Rightarrow> Inr \<lparr>so_DisableWebhooks = (getenv ''DISABLE_WEBHOOKS'' = ''true''),
         so_ServerSideApply = (getenv ''SERVER_SIDE_APPLY_ENABLED'' = ''true''),
         so_CertFile = file_in APIServiceCertFolder ''tls.crt'', so_KeyFile = file_in APIServiceCertFolder ''tls.key'',
         so_BindPort = port\<rparr>)"

definition start_api_server :: "libraries \<Rightarrow> (string \<Rightarrow> string) \<Rightarrow> ('s, 'c, 'h, 'a) process \<Rightarrow> ('s, 'c, 'h, 'a) process \<times> gerror option" where
  "start_api_server L getenv p =
    and_then (check (if getenv ''SERVER_SIDE_APPLY_ENABLED'' \<noteq> ''true'' then lb_SetFeatureGate L else None) p) (\<lambda>p.
      case tweak_server_options L getenv of
        Inl err \<Rightarrow> (p, Some err)
      | Inr options \<Rightarrow> begins (ApiServer options) p)"

text \<open>The part of \<open>main\<close> after the certificates, up to the election of the leader.\<close>

definition main_serve ::
  "libraries \<Rightarrow> (string \<Rightarrow> string) \<Rightarrow> ('s, 'c, 'h, 'a) clients \<Rightarrow> ('s, 'c, 'h, 'a) process \<Rightarrow> ('s, 'c, 'h, 'a) process \<times> gerror option"
where
  "main_serve L getenv C p =
    and_then (installCRDS (cl_crds C) p) (\<lambda>p.
    and_then (check (lb_NewManager L) p) (\<lambda>p.
    and_then (check (lb_IndexField L) p) (\<lambda>p.
    and_then (webhooks_Register L p) (\<lambda>p.
    and_then (controller_context_Start p) (\<lambda>p.
    and_then (begins (ManagerWith WebhookCertFolder) p) (\<lambda>p.
    and_then (check (lb_NamespaceInformer L) p) (\<lambda>p.
    and_then (begins NamespaceRegistry p) (\<lambda>p.
    and_then (check (lb_AccountInformer L) p) (\<lambda>p.
    and_then (begins AccountRegistry p) (\<lambda>p.
    start_api_server L getenv p))))))))))"

text \<open>\<open>None\<close> is a process that never gets its certificates.\<close>

definition main ::
  "libraries \<Rightarrow> (string \<Rightarrow> string) \<Rightarrow> ('s, 'c, 'h, 'a) clients \<Rightarrow> ('s, 'c, 'h, 'a) process \<Rightarrow> (('s, 'c, 'h, 'a) process \<times> gerror option) option"
where
  "main L getenv C p =
    (case lb_GetConfig L of
       Some err \<Rightarrow> Some (p, Some err)
     | None \<Rightarrow>
         (case lb_NewClient L of
            Some err \<Rightarrow> Some (p, Some err)
          | None \<Rightarrow>
              (case EnsureCertSecrets (cl_system C) (ps_system p) of
                 None \<Rightarrow> None
               | Some (s, Some err) \<Rightarrow> Some (p\<lparr>ps_system := s\<rparr>, Some err)
               | Some (s, None) \<Rightarrow> Some (main_serve L getenv C (p\<lparr>ps_system := s\<rparr>)))))"

section \<open>The leader\<close>

text \<open>The configuration of the election, which is the work of client-go: the config map that is the lock, the identity under
  which the process stands, and the periods in seconds. Losing the lock ends the process.\<close>

record election =
  el_Namespace :: string
  el_Name :: string
  el_Identity :: string
  el_LeaseDuration :: int
  el_RenewDeadline :: int
  el_RetryPeriod :: int

definition StartLeaderElection :: "libraries \<Rightarrow> 's system \<Rightarrow> 's \<Rightarrow> gerror + election" where
  "StartLeaderElection L S s =
    (case lb_RecorderClient L of
       Some err \<Rightarrow> Inl (WrapErr ''create kubernetes client'' err)
     | None \<Rightarrow>
         (case lb_LeaderClient L of
            Some err \<Rightarrow> Inl (WrapErr ''create leader election client'' err)
          | None \<Rightarrow>
              (case lb_Hostname L of
                 Inl err \<Rightarrow> Inl err
               | Inr host \<Rightarrow>
                   (case CurrentNamespace S s of
                      Inl err \<Rightarrow> Inl err
                    | Inr currentNamespace \<Rightarrow>
                        Inr \<lparr>el_Namespace = currentNamespace, el_Name = ''kiosk-controller'',
                          el_Identity = host @ ''-external-kiosk-controller'',
                          el_LeaseDuration = 60, el_RenewDeadline = 40, el_RetryPeriod = 15\<rparr>))))"

text \<open>The periods are those the election demands, with its jitter of 1.2, and processes on different hosts have different identities.\<close>

lemma election_periods:
  "StartLeaderElection L S s = Inr e \<Longrightarrow> el_RenewDeadline e < el_LeaseDuration e \<and> 12 * el_RetryPeriod e < 10 * el_RenewDeadline e"
  by (auto simp: StartLeaderElection_def split: option.splits sum.splits)

lemma election_identities:
  assumes "StartLeaderElection L S s = Inr e" "StartLeaderElection M S s' = Inr f"
  shows "el_Identity e = el_Identity f \<longleftrightarrow> lb_Hostname L = lb_Hostname M"
  using assms by (auto simp: StartLeaderElection_def split: option.splits sum.splits)

definition register_webhooks ::
  "(string \<Rightarrow> string) \<Rightarrow> ('s, 'c, 'h, 'a) clients \<Rightarrow> ('s, 'c, 'h, 'a) process \<Rightarrow> ('s, 'c, 'h, 'a) process \<times> gerror option"
where
  "register_webhooks getenv C p =
    (if getenv ''UPDATE_WEBHOOK'' \<noteq> ''false''
     then (case EnsureValidatingWebhookConfiguration (cl_system C) (ps_system p) (cl_hooks C) (ps_hooks p) of
        (w, r) \<Rightarrow> (p\<lparr>ps_hooks := w\<rparr>, r))
     else (p, None))"

definition register_api_service ::
  "(string \<Rightarrow> string) \<Rightarrow> ('s, 'c, 'h, 'a) clients \<Rightarrow> ('s, 'c, 'h, 'a) process \<Rightarrow> ('s, 'c, 'h, 'a) process \<times> gerror option"
where
  "register_api_service getenv C p =
    (if getenv ''UPDATE_APISERVICE'' \<noteq> ''false''
     then (case EnsureAPIService (cl_system C) (ps_system p) (cl_services C) (ps_services p) of
        (w, r) \<Rightarrow> (p\<lparr>ps_services := w\<rparr>, r))
     else (p, None))"

definition controllers_Register :: "libraries \<Rightarrow> ('s, 'c, 'h, 'a) process \<Rightarrow> ('s, 'c, 'h, 'a) process \<times> gerror option" where
  "controllers_Register L p =
    and_then (check (map_option (WrapErr ''unable to create account controller'') (lb_SetupAccounts L)) p) (\<lambda>p.
    and_then (begins AccountReconciler p) (\<lambda>p.
    and_then (check (map_option (WrapErr ''unable to create template instance controller'') (lb_SetupTemplateInstances L)) p)
      (begins TemplateInstanceReconciler)))"

definition quota_Register :: "libraries \<Rightarrow> ('s, 'c, 'h, 'a) process \<Rightarrow> ('s, 'c, 'h, 'a) process \<times> gerror option" where
  "quota_Register L p =
    (let controllerConfig = RecommendedDefaultResourceQuotaControllerConfiguration
           \<lparr>qo_ConcurrentResourceQuotaSyncs = 0, qo_ResourceQuotaSyncPeriod = 0\<rparr>;
         quotaConfiguration = NewQuotaConfiguration (lb_order L) (cd_lister (lb_controller L)) (lb_now L)
     in case NewAccountQuotaController (lb_controller L) (qc_ignoredResources quotaConfiguration)
          (NewRegistry (qc_evaluators quotaConfiguration)) of
          Inl err \<Rightarrow> (p, Some err)
        | Inr controller \<Rightarrow>
            and_then (begins (AccountQuotaControllerWith (qo_ConcurrentResourceQuotaSyncs controllerConfig)
                (qo_ResourceQuotaSyncPeriod controllerConfig)) p)
              (begins (MonitorSync 30)))"

text \<open>What the process does when it has been elected.\<close>

definition OnStartedLeading ::
  "libraries \<Rightarrow> (string \<Rightarrow> string) \<Rightarrow> ('s, 'c, 'h, 'a) clients \<Rightarrow> ('s, 'c, 'h, 'a) process \<Rightarrow> ('s, 'c, 'h, 'a) process \<times> gerror option"
where
  "OnStartedLeading L getenv C p =
    and_then (register_webhooks getenv C p) (\<lambda>p.
    and_then (register_api_service getenv C p) (\<lambda>p.
    and_then (controllers_Register L p) (quota_Register L)))"

section \<open>What the quota controller starts with\<close>

text \<open>Workers run only if there are monitors whose caches are filled: with no monitor the caches never count as synced.\<close>

lemma no_workers_without_monitors:
  "qm_monitors qm = [] \<Longrightarrow> controller_Run workers period synced HasSynced (Some qm) = [MonitorLoop]"
  by (simp add: controller_Run_def IsSynced_def)

lemma controller_Run_workers:
  assumes "synced" "qm_monitors qm \<noteq> []" "\<forall>(r, m) \<in> set (qm_monitors qm). HasSynced r"
  shows "mset (controller_Run workers period synced HasSynced (Some qm))
    = mset ([MonitorLoop, ResyncLoop period] @ replicate (nat workers) WorkLoop @ replicate (nat workers) PriorityLoop)"
proof -
  have "mset (concat (replicate n [WorkLoop, PriorityLoop])) = mset (replicate n WorkLoop @ replicate n PriorityLoop)" for n
    by (induction n) simp_all
  moreover have "IsSynced HasSynced qm" using assms(2,3) by (auto simp: IsSynced_def list_all_iff)
  ultimately show ?thesis using assms(1) by (simp add: controller_Run_def)
qed

text \<open>A new controller monitors exactly the quotable resources that are not ignored and have an informer; only a discovery that
  fails for more than some groups is an error.\<close>

lemma new_controller_monitors:
  assumes "NewAccountQuotaController D ignored registry = Inr (rq, Some qm)"
  shows "\<exists>discovery. cd_discovery D = Some discovery \<and> cq_registry rq = qm_registry qm
    \<and> (\<forall>r. map_of (qm_monitors qm) r \<noteq> None \<longleftrightarrow> r \<in> set (fst (GetQuotableResourcesByFunc discovery))
        \<and> GroupResourceOf r \<notin> set ignored \<and> cd_ForResource D r = None)"
proof -
  define qm0 where "qm0 = \<lparr>qm_monitors = [], qm_running = False, qm_resourceChanges = [], qm_ignoredResources = ignored,
    qm_registry = registry, qm_closed = []\<rparr>"
  obtain discovery where d: "cd_discovery D = Some discovery"
    using assms by (auto simp: NewAccountQuotaController_def Let_def split: option.splits)
  obtain resources err where g: "GetQuotableResourcesByFunc discovery = (resources, err)" by force
  obtain e where s: "SyncMonitors (cd_ForResource D) (cd_lister D) (remdups resources) qm0 = (e, qm)" and r: "cq_registry rq = qm_registry qm"
    using assms d g by (auto simp: NewAccountQuotaController_def qm0_def Let_def split: option.splits prod.splits if_splits)
  obtain rem cur errs reg where y: "sync_resources (cd_ForResource D) (cd_lister D) ignored (remdups resources) [] [] [] registry = (rem, cur, errs, reg)"
    by (metis prod_cases4)
  have "qm_monitors qm = cur" using s y by (auto simp: SyncMonitors_def qm0_def)
  moreover note sync_resources_spec [OF y]
  ultimately have "map_of (qm_monitors qm) x = (if x \<in> set resources \<and> GroupResourceOf x \<notin> set ignored
      then if cd_ForResource D x = None then Some \<lparr>mo_started = False\<rparr> else None else None)" for x by simp
  then show ?thesis using d g r by (auto split: if_splits)
qed

section \<open>Folders stay apart\<close>

text \<open>Making sure of one secret touches no file outside its folder, whatever the outcome.\<close>

definition files_outside :: "string \<Rightarrow> machine \<Rightarrow> machine \<Rightarrow> bool" where
  "files_outside folder m m' \<longleftrightarrow> mc_root m' = mc_root m
     \<and> (\<forall>p. (\<forall>f. p \<noteq> file_in folder f) \<longrightarrow> map_of (mc_files m') p = map_of (mc_files m) p)"

lemma files_outside_trans: "files_outside folder m m1 \<Longrightarrow> files_outside folder m1 m2 \<Longrightarrow> files_outside folder m m2"
  by (simp add: files_outside_def)

lemma files_outside_same: "mc_files m' = mc_files m \<Longrightarrow> mc_root m' = mc_root m \<Longrightarrow> files_outside folder m m'"
  by (simp add: files_outside_def)

text \<open>An operation that touches no file outside a folder.\<close>

definition keeps_outside :: "string \<Rightarrow> (machine \<Rightarrow> machine \<times> 'r) \<Rightarrow> bool" where
  "keeps_outside folder f \<longleftrightarrow> (\<forall>m. files_outside folder m (fst (f m)))"

lemma keeps_outsideI: "(\<And>m m' r. f m = (m', r) \<Longrightarrow> files_outside folder m m') \<Longrightarrow> keeps_outside folder f"
  unfolding keeps_outside_def by (metis prod.collapse)

lemma keeps_outsideD: "keeps_outside folder f \<Longrightarrow> f m = (m', r) \<Longrightarrow> files_outside folder m m'"
  unfolding keeps_outside_def by (metis fst_conv)

lemma keeps_and_then:
  assumes "keeps_outside folder f" "keeps_outside folder g"
  shows "keeps_outside folder (\<lambda>m. and_then (f m) g)"
proof (rule keeps_outsideI)
  fix m m' r assume r: "and_then (f m) g = (m', r)"
  obtain m1 e where f: "f m = (m1, e)" by fastforce
  show "files_outside folder m m'"
    using r keeps_outsideD [OF assms(1) f] keeps_outsideD [OF assms(2), of m1]
    by (auto simp: and_then_def f split: option.splits intro: files_outside_trans)
qed

lemma keeps_Write: "keeps_outside folder (\<lambda>m. machine_Write m (file_in folder f) c mode)"
  by (rule keeps_outsideI) (auto simp: machine_Write_def files_outside_def map_of_put split: option.splits if_splits)

lemma keeps_same [intro]: "keeps_outside folder (\<lambda>m. (m, r))"
  by (simp add: keeps_outside_def files_outside_same)

lemma machine_files:
  "sy_MkdirAll machine_system m p = (m, None)" "sy_Tick machine_system = others_act" "sy_WriteFile machine_system = machine_Write"
  by (simp_all add: machine_system_def)

lemma keeps_write_files: "keeps_outside folder (write_files machine_system s folder files)"
proof (induction files)
  case Nil
  show ?case unfolding write_files.simps(1) [abs_def] by blast
next
  case (Cons f files)
  have "write_files machine_system s folder (f # files) = (\<lambda>m. and_then (machine_Write m (file_in folder f) (secret_entry s f) data_mode)
      (write_files machine_system s folder files))" by (simp add: fun_eq_iff machine_files)
  then show ?case using keeps_and_then [OF keeps_Write Cons.IH] by simp
qed

lemma keeps_getData: "keeps_outside folder (\<lambda>m. getDataFromSecret machine_system m s folder)"
  using keeps_write_files by (simp add: getDataFromSecret_def machine_files and_then_def)

lemma keeps_writeCert: "keeps_outside folder (\<lambda>m. writeCert machine_system m folder cert key)"
  using keeps_and_then [OF keeps_Write keeps_and_then [OF keeps_Write keeps_Write]]
  by (simp add: writeCert_def machine_files and_then_def)

lemma keeps_generate: "keeps_outside folder (generateCertificate machine_system folder service)"
proof (rule keeps_outsideI)
  fix m m' r assume "generateCertificate machine_system folder service m = (m', r)"
  then show "files_outside folder m m'"
    using keeps_outsideD [OF keeps_writeCert, of m folder _ _ m' r]
    by (auto simp: generateCertificate_def files_outside_same split: option.splits sum.splits if_splits)
qed

lemma secrets_keep:
  "mc_files (fst (sy_CreateSecret machine_system m s)) = mc_files m" "mc_root (fst (sy_CreateSecret machine_system m s)) = mc_root m"
  "mc_files (fst (sy_DeleteSecret machine_system m s)) = mc_files m" "mc_root (fst (sy_DeleteSecret machine_system m s)) = mc_root m"
  by (simp_all add: machine_system_def Let_def split: option.split)

lemma keeps_create:
  assumes "keeps_outside folder cert"
  shows "keeps_outside folder (create_secret machine_system ns n folder cert)"
proof (rule keeps_outsideI)
  fix m m' r assume c: "create_secret machine_system ns n folder cert m = (m', r)"
  obtain m1 e where g: "cert m = (m1, e)" by fastforce
  have "mc_files m' = mc_files m1 \<and> mc_root m' = mc_root m1"
  proof (cases "e = None \<and> (\<exists>data. read_files machine_system m1 folder cert_files [] = Inr data)")
    case True
    then obtain data where "read_files machine_system m1 folder cert_files [] = Inr data" "e = None" by blast
    moreover define s where "s = \<lparr>se_namespace = ns, se_name = n, se_type = ''kubernetes.io/tls'', se_data = Some data\<rparr>"
    moreover obtain m2 e2 where s: "sy_CreateSecret machine_system (others_act m1) s = (m2, e2)" by fastforce
    ultimately have "m' = m2" using c g by (auto simp: create_secret_def machine_files split: option.splits if_splits)
    then show ?thesis using secrets_keep(1,2) [of "others_act m1" s] s by simp
  next
    case False
    then show ?thesis using c g by (auto simp: create_secret_def split: option.splits sum.splits)
  qed
  then show "files_outside folder m m'" using keeps_outsideD [OF assms g] by (simp add: files_outside_def)
qed

lemma keeps_once:
  assumes "keeps_outside folder cert"
  shows "keeps_outside folder (ensure_once machine_system ns n folder cert)"
proof (rule keeps_outsideI)
  fix m m' r assume c: "ensure_once machine_system ns n folder cert m = (m', r)"
  let ?m1 = "others_act m"
  have 1: "files_outside folder m ?m1" by (simp add: files_outside_same)
  have create: "files_outside folder x m'" if "create_secret machine_system ns n folder cert x = (m', r)" for x
    by (rule keeps_outsideD [OF keeps_create [OF assms] that])
  show "files_outside folder m m'"
  proof (cases "sy_GetSecret machine_system ?m1 ns n")
    case (Inl err)
    then have "m' = ?m1 \<or> create_secret machine_system ns n folder cert ?m1 = (m', r)"
      using c by (auto simp: ensure_once_def machine_files Let_def split: if_splits)
    then show ?thesis using 1 create [of ?m1] by (auto intro: files_outside_trans)
  next
    case (Inr s)
    show ?thesis
    proof (cases "isSecretValid s")
      case True
      then obtain e where "getDataFromSecret machine_system ?m1 s folder = (m', e)"
        using c Inr by (auto simp: ensure_once_def machine_files split: prod.splits)
      from keeps_outsideD [OF keeps_getData this] 1 show ?thesis by (auto intro: files_outside_trans)
    next
      case False
      obtain m2 e where d: "sy_DeleteSecret machine_system (others_act ?m1) s = (m2, e)" by fastforce
      have "files_outside folder m m2" using secrets_keep(3,4) [of "others_act ?m1" s] d by (simp add: files_outside_def)
      moreover have "m' = m2 \<or> create_secret machine_system ns n folder cert m2 = (m', r)"
        using c Inr False d by (auto simp: ensure_once_def machine_files split: option.splits)
      ultimately show ?thesis using create [of m2] by (auto intro: files_outside_trans)
    qed
  qed
qed

lemma ensureSecret_outside:
  assumes "ensureSecret D ns n folder cert m = Some x"
  shows "D = machine_system \<Longrightarrow> keeps_outside folder cert \<Longrightarrow> files_outside folder m (fst x)"
  using assms
proof (induction D ns n folder cert m x rule: ensureSecret.raw_induct [rotated, consumes 1, case_names run])
  case (run f D ns n folder cert m x)
  obtain m1 out where once: "ensure_once D ns n folder cert m = (m1, out)" by fastforce
  note k = keeps_outsideD [OF keeps_once [OF run(4)] once [unfolded run(3)]]
  show ?case
  proof (cases out)
    case (Return e)
    then show ?thesis using run(2) once k by auto
  next
    case Retry
    then have "f D ns n folder cert m1 = Some x" using run(2) once by simp
    from files_outside_trans [OF k run(1) [OF this run(3,4)]] show ?thesis .
  qed
qed

section \<open>What a started process has\<close>

text \<open>The files of a folder are those of a valid secret.\<close>

definition serves_secret :: "machine \<Rightarrow> string \<Rightarrow> secret \<Rightarrow> bool" where
  "serves_secret m folder s \<longleftrightarrow> isSecretValid s
    \<and> (\<forall>f \<in> set cert_files. machine_content m (file_in folder f) = Some (secret_entry s f))"

lemma ensured_serves:
  assumes "ensureSecret machine_system ns n folder cert m = Some (m', None)"
  shows "\<exists>s. machine_secret m' ns n = Some s \<and> serves_secret m' folder s"
  using machine.ensure_agrees [OF assms refl] unfolding machine.installed_def serves_secret_def by auto

lemma serves_secret_outside:
  assumes "serves_secret m WebhookCertFolder s" "files_outside APIServiceCertFolder m m'"
  shows "serves_secret m' WebhookCertFolder s"
proof -
  have "file_in WebhookCertFolder f \<noteq> file_in APIServiceCertFolder g" for f g
    by (simp add: file_in_def WebhookCertFolder_def APIServiceCertFolder_def)
  then show ?thesis using assms by (auto simp: serves_secret_def files_outside_def)
qed

text \<open>
  The secrets a start has come by: that of the webhooks is in the cluster when its certificate has been ensured, that of
  the API server at the end.\<close>

definition started_with :: "machine \<Rightarrow> machine \<Rightarrow> secret \<Rightarrow> secret \<Rightarrow> bool" where
  "started_with m m' s t \<longleftrightarrow> (\<exists>ns m1. CurrentNamespace machine_system m = Inr ns
     \<and> ensureSecret machine_system ns WebhookCertSecretName WebhookCertFolder (GenerateWebhookCertificate machine_system) m = Some (m1, None)
     \<and> machine_secret m1 ns WebhookCertSecretName = Some s
     \<and> ensureSecret machine_system ns APIServiceCertSecretName APIServiceCertFolder (GenerateAPIServiceCertificate machine_system) m1 = Some (m', None)
     \<and> machine_secret m' ns APIServiceCertSecretName = Some t)"

lemma EnsureCertSecrets_serves:
  assumes "EnsureCertSecrets machine_system m = Some (m', None)"
  shows "\<exists>s t. started_with m m' s t \<and> serves_secret m' WebhookCertFolder s \<and> serves_secret m' APIServiceCertFolder t"
proof -
  obtain ns where ns: "CurrentNamespace machine_system m = Inr ns"
    using assms by (auto simp: EnsureCertSecrets_def split: sum.splits)
  have c: "sy_CreateNamespace machine_system m ns = (m, Some (AlreadyExistsErr ns))" by (simp add: machine_system_def)
  obtain m1 where m1: "ensureSecret machine_system ns WebhookCertSecretName WebhookCertFolder (GenerateWebhookCertificate machine_system) m = Some (m1, None)"
    and m2: "ensureSecret machine_system ns APIServiceCertSecretName APIServiceCertFolder (GenerateAPIServiceCertificate machine_system) m1 = Some (m', None)"
    using assms ns c by (auto simp: EnsureCertSecrets_def split: option.splits prod.splits)
  obtain s t where st: "machine_secret m1 ns WebhookCertSecretName = Some s" "serves_secret m1 WebhookCertFolder s"
    "machine_secret m' ns APIServiceCertSecretName = Some t" "serves_secret m' APIServiceCertFolder t"
    using ensured_serves [OF m1] ensured_serves [OF m2] by blast
  have "files_outside APIServiceCertFolder m1 m'"
    using ensureSecret_outside [OF m2 refl] keeps_generate by (simp add: GenerateAPIServiceCertificate_def)
  moreover have "started_with m m' s t" using ns m1 m2 st unfolding started_with_def by blast
  ultimately show ?thesis using st serves_secret_outside by blast
qed

text \<open>What is registered carries the CA of the secret that the files come from.\<close>

lemma machine_ReadFile: "sy_ReadFile machine_system m p = Inr c \<Longrightarrow> machine_content m p = Some c"
  using machine.read_law by blast

lemma registered_hooks_ca:
  assumes "EnsureValidatingWebhookConfiguration machine_system m (stored_objects wc_name) w = (w', None)" "serves_secret m WebhookCertFolder s"
  shows "\<exists>config ns. map_of w' ValidatingWebhookConfigurationName = Some config
    \<and> wc_webhooks config = kiosk_webhooks ns (secret_entry s ''ca.crt'')"
proof -
  obtain x y where y: "prepareValidatingWebhookConfiguration machine_system m x = Inr y" "map_of w' = (map_of w)(ValidatingWebhookConfigurationName \<mapsto> y)"
    using webhook_configs.ensures [OF assms(1) [unfolded ensures_objects(1)] _ prepare_webhooks_name [where S = machine_system and s = m]] by auto
  obtain ca ns where "sy_ReadFile machine_system m (file_in WebhookCertFolder ''ca.crt'') = Inr ca" "wc_webhooks y = kiosk_webhooks ns ca"
    using y(1) by (auto simp: prepareValidatingWebhookConfiguration_def split: sum.splits)
  moreover from this(1) have "ca = secret_entry s ''ca.crt''"
    using machine_ReadFile assms(2) by (fastforce simp: serves_secret_def cert_files_def)
  ultimately show ?thesis using y(2) by auto
qed

lemma prepare_service_name: "prepareAPIService S s x = Inr y \<Longrightarrow> ap_name y = ap_name x"
  by (auto simp: prepareAPIService_def split: sum.splits)

lemma registered_service_ca:
  assumes "EnsureAPIService machine_system m (stored_objects ap_name) w = (w', None)" "serves_secret m APIServiceCertFolder t"
  shows "\<exists>service. map_of w' api_service_name = Some service \<and> ap_caBundle service = secret_entry t ''ca.crt''
    \<and> ap_group service = ''tenancy.kiosk.sh''"
proof -
  obtain x y where y: "prepareAPIService machine_system m x = Inr y" "map_of w' = (map_of w)(api_service_name \<mapsto> y)"
    using api_services.ensures [OF assms(1) [unfolded ensures_objects(2)] _ prepare_service_name [where S = machine_system and s = m]] by auto
  obtain ca where "sy_ReadFile machine_system m (file_in APIServiceCertFolder ''ca.crt'') = Inr ca" "ap_caBundle y = ca" "ap_group y = ''tenancy.kiosk.sh''"
    using y(1) by (auto simp: prepareAPIService_def split: sum.splits)
  moreover from this(1) have "ca = secret_entry t ''ca.crt''"
    using machine_ReadFile assms(2) by (fastforce simp: serves_secret_def cert_files_def)
  ultimately show ?thesis using y(2) by auto
qed

text \<open>The clients of a process on a machine in a cluster.\<close>

type_synonym kiosk_process = "(machine, crd_cluster, (string \<times> webhook_configuration) list, (string \<times> api_service) list) process"

definition cluster_clients :: "(machine, crd_cluster, (string \<times> webhook_configuration) list, (string \<times> api_service) list) clients" where
  "cluster_clients = \<lparr>cl_system = machine_system, cl_crds = cluster_crds, cl_hooks = stored_objects wc_name, cl_services = stored_objects ap_name\<rparr>"

lemma check_ok [simp]: "check e p = (p', None) \<longleftrightarrow> e = None \<and> p' = p"
  by (auto simp: check_def)

lemma begins_ok [simp]: "begins x p = (p', e) \<longleftrightarrow> e = None \<and> p' = p\<lparr>ps_started := ps_started p @ [x]\<rparr>"
  by (auto simp: begins_def)

lemma installCRDS_ok:
  "installCRDS C p = (p', None) \<longleftrightarrow> (\<exists>es w. CreateCRDs C config_types (ps_crds p) = (Inr es, w) \<and> p' = p\<lparr>ps_crds := w\<rparr>)"
  by (auto simp: installCRDS_def split: prod.splits sum.splits)

text \<open>A process that serves has come by all the steps before.\<close>

lemma main_serve_ok:
  assumes "main_serve L getenv C p = (p', None)"
  shows "\<exists>es options. CreateCRDs (cl_crds C) config_types (ps_crds p) = (Inr es, ps_crds p') \<and> ps_system p' = ps_system p
    \<and> tweak_server_options L getenv = Inr options
    \<and> ps_started p' = ps_started p @ [Webhook ''/quota'', Webhook ''/validate'', ControllerContext, ManagerWith WebhookCertFolder,
         NamespaceRegistry, AccountRegistry, ApiServer options]"
proof -
  have "\<exists>options. tweak_server_options L getenv = Inr options"
    using assms unfolding main_serve_def and_then_ok start_api_server_def by (cases "tweak_server_options L getenv") auto
  then obtain options where o: "tweak_server_options L getenv = Inr options" by blast
  show ?thesis
    using assms unfolding main_serve_def and_then_ok installCRDS_ok webhooks_Register_def controller_context_Start_def start_api_server_def o
    by auto
qed

lemma register_webhooks_ok:
  assumes "register_webhooks getenv C p = (p', None)"
  shows "p' = p\<lparr>ps_hooks := ps_hooks p'\<rparr> \<and> (getenv ''UPDATE_WEBHOOK'' \<noteq> ''false'' \<longrightarrow>
    EnsureValidatingWebhookConfiguration (cl_system C) (ps_system p) (cl_hooks C) (ps_hooks p) = (ps_hooks p', None))"
  using assms by (auto simp: register_webhooks_def split: prod.splits if_splits)

lemma register_api_service_ok:
  assumes "register_api_service getenv C p = (p', None)"
  shows "p' = p\<lparr>ps_services := ps_services p'\<rparr> \<and> (getenv ''UPDATE_APISERVICE'' \<noteq> ''false'' \<longrightarrow>
    EnsureAPIService (cl_system C) (ps_system p) (cl_services C) (ps_services p) = (ps_services p', None))"
  using assms by (auto simp: register_api_service_def split: prod.splits if_splits)

lemma controllers_Register_ok:
  "controllers_Register L p = (p', None) \<Longrightarrow>
   p' = p\<lparr>ps_started := ps_started p @ [AccountReconciler, TemplateInstanceReconciler]\<rparr>"
  unfolding controllers_Register_def and_then_ok by auto

lemma quota_Register_ok:
  assumes "quota_Register L p = (p', None)"
  shows "p' = p\<lparr>ps_started := ps_started p @ [AccountQuotaControllerWith 5 300, MonitorSync 30]\<rparr>"
  using assms unfolding quota_Register_def Let_def
  by (auto simp: and_then_ok RecommendedDefaultResourceQuotaControllerConfiguration_def split: sum.splits)

lemma leading_ok:
  assumes "OnStartedLeading L getenv C p = (p', None)"
  shows "ps_system p' = ps_system p
    \<and> (getenv ''UPDATE_WEBHOOK'' \<noteq> ''false'' \<longrightarrow>
        EnsureValidatingWebhookConfiguration (cl_system C) (ps_system p) (cl_hooks C) (ps_hooks p) = (ps_hooks p', None))
    \<and> (getenv ''UPDATE_APISERVICE'' \<noteq> ''false'' \<longrightarrow>
        EnsureAPIService (cl_system C) (ps_system p) (cl_services C) (ps_services p) = (ps_services p', None))
    \<and> ps_started p' = ps_started p @ [AccountReconciler, TemplateInstanceReconciler, AccountQuotaControllerWith 5 300, MonitorSync 30]"
proof -
  obtain p1 p2 p3 where p: "register_webhooks getenv C p = (p1, None)" "register_api_service getenv C p1 = (p2, None)"
    "controllers_Register L p2 = (p3, None)" "quota_Register L p3 = (p', None)"
    using assms unfolding OnStartedLeading_def and_then_ok by blast
  note s1 = register_webhooks_ok [OF p(1)] and s2 = register_api_service_ok [OF p(2)]
  have p1: "ps_system p1 = ps_system p" "ps_services p1 = ps_services p" "ps_started p1 = ps_started p"
    by (subst conjunct1 [OF s1], simp)+
  have p2: "ps_system p2 = ps_system p1" "ps_hooks p2 = ps_hooks p1" "ps_started p2 = ps_started p1"
    by (subst conjunct1 [OF s2], simp)+
  have "p' = p2\<lparr>ps_started := ps_started p2 @ [AccountReconciler, TemplateInstanceReconciler, AccountQuotaControllerWith 5 300, MonitorSync 30]\<rparr>"
    using controllers_Register_ok [OF p(3)] quota_Register_ok [OF p(4)] by simp
  then show ?thesis using s1 s2 p1 p2 by simp
qed

section \<open>Definitions that stay\<close>

lemma cluster_createCRD_left:
  "createCRD cluster_crds w t ready = (w', r) \<Longrightarrow> dw_left w' = dw_left w"
  by (auto simp: createCRD_def cluster_crds_def split: option.splits if_splits)

lemma cluster_create_all_left:
  "create_all cluster_crds ready types w = (r, w') \<Longrightarrow> dw_left w' = dw_left w"
proof (induction types arbitrary: w w' r)
  case (Cons t types)
  obtain w1 r1 where c: "createCRD cluster_crds w t ready = (w1, r1)" by fastforce
  obtain r2 w2 where a: "create_all cluster_crds ready types w1 = (r2, w2)" by fastforce
  show ?case using Cons.prems Cons.IH [OF a] cluster_createCRD_left [OF c] by (auto simp: c a split: sum.splits)
qed simp

lemma cluster_poll_keeps:
  "PollImmediate k (crd_ready cluster_crds n) w = (r, w') \<Longrightarrow> dw_crds w' = dw_crds w \<and> dw_left w' \<le> dw_left w
     \<and> (isl r \<or> dw_left w' = 0)"
proof (induction k arbitrary: w)
  case 0
  then show ?case
    by (subst (asm) PollImmediate.simps)
      (auto simp: crd_ready_def cluster_crds_def with_conditions_def is_established_def Let_def split: option.splits if_splits)
next
  case (Suc k)
  obtain x w1 where r: "crd_ready cluster_crds n w = (x, w1)" by fastforce
  have w1: "dw_crds w1 = dw_crds w \<and> dw_left w1 \<le> dw_left w" "\<And>d. x = Inr (Some d) \<Longrightarrow> dw_left w1 = 0"
    using r by (auto simp: crd_ready_def cluster_crds_def with_conditions_def is_established_def Let_def split: option.splits if_splits)
  show ?case using Suc.prems Suc.IH [of w1] w1
    by (subst (asm) PollImmediate.simps) (auto simp: r split: sum.splits option.splits)
qed

lemma cluster_ready_left:
  assumes "GetReadyCRDs cluster_crds w = Inr ready" "map_of ready n = Some d"
  shows "dw_left w = 0"
proof -
  define items where "items = map (\<lambda>(n, d). with_conditions w (d\<lparr>cr_name := n\<rparr>)) (dw_crds w)"
  have "ready = fold (\<lambda>d result. if is_established d then put (cr_name d) d result else result) items []"
    using assms(1) by (simp add: GetReadyCRDs_def cluster_crds_def items_def)
  then have "is_established d" "d \<in> set items" using ready_of_lookup [of items n d] assms(2) by simp_all
  then show ?thesis by (auto simp: items_def with_conditions_def is_established_def split: if_splits)
qed

lemma cluster_wait_all_keeps:
  "wait_all cluster_crds ready ds w = (Inr es, w') \<Longrightarrow> dw_crds w' = dw_crds w \<and> dw_left w' \<le> dw_left w
    \<and> (ds \<noteq> [] \<longrightarrow> (\<exists>n d. map_of ready n = Some d) \<or> dw_left w' = 0)"
proof (induction ds arbitrary: w es)
  case (Cons x ds)
  obtain t d where x: "x = (t, d)" by fastforce
  from Cons.prems obtain e w1 es1 where
    e: "(case map_of ready (cr_name d) of Some readyCrd \<Rightarrow> (Inr readyCrd, w) | None \<Rightarrow> waitCRD cluster_crds (cr_name d) w) = (Inr e, w1)"
      "wait_all cluster_crds ready ds w1 = (Inr es1, w')"
    by (auto simp: x split: prod.splits sum.splits)
  note IH = Cons.IH [OF e(2)]
  show ?case
  proof (cases "map_of ready (cr_name d)")
    case None
    then have "waitCRD cluster_crds (cr_name d) w = (Inr e, w1)" using e(1) by simp
    from cluster_poll_keeps [OF this [unfolded waitCRD_def]] IH show ?thesis by auto
  next
    case (Some c)
    then show ?thesis using e(1) IH by auto
  qed
qed simp

text \<open>Once the types have been created and waited for, they are defined and established in the cluster.\<close>

lemma cluster_types_established:
  assumes "CreateCRDs cluster_crds types w = (Inr es, w')" "t \<in> set types"
  shows "\<exists>d. dc_Get cluster_crds w' (crd_name t) = Inr d \<and> is_established d"
proof -
  from assms(1) obtain r1 ds w1 r2 where r1: "GetReadyCRDs cluster_crds w = Inr r1" and ds: "create_all cluster_crds r1 types w = (Inr ds, w1)"
    and r2: "GetReadyCRDs cluster_crds w1 = Inr r2" and es: "wait_all cluster_crds r2 ds w1 = (Inr es, w')"
    by (auto simp: CreateCRDs_def split: sum.splits prod.splits)
  have "\<forall>n. n \<in> crd_name ` set types \<longrightarrow> defined w1 n"
    using cluster_create_all [where ready = r1 and w = w and types = types] cluster_ready_defined [OF r1] ds by fastforce
  then obtain d where d: "map_of (dw_crds w1) (crd_name t) = Some d" using assms(2) by blast
  note k = cluster_wait_all_keeps [OF es]
  have "map fst ds = types" using cluster.create_all_names [OF _ ds] cluster.ready_ok [OF r1] by blast
  then have "ds \<noteq> []" using assms(2) by auto
  then have "dw_left w' = 0" using k cluster_ready_left [OF r2] by auto
  then have "dc_Get cluster_crds w' (crd_name t) = Inr (with_conditions w' (d\<lparr>cr_name := crd_name t\<rparr>))
      \<and> is_established (with_conditions w' (d\<lparr>cr_name := crd_name t\<rparr>))"
    using d k by (simp add: cluster_crds_def with_conditions_def is_established_def)
  then show ?thesis by blast
qed

definition types_established :: "crd_cluster \<Rightarrow> bool" where
  "types_established w \<longleftrightarrow> (\<forall>t \<in> set config_types. \<exists>d. dc_Get cluster_crds w (crd_name t) = Inr d \<and> is_established d)"

section \<open>Properties\<close>

text \<open>C40. A process that has become the leader is fit to serve. When \<open>main\<close> has come to the end of its start, every type is
  defined and established; and when it has then been elected, with neither \<open>UPDATE_WEBHOOK\<close> nor \<open>UPDATE_APISERVICE\<close> set to
  \<open>false\<close>, whatever other processes have meanwhile done to the registrations and the secrets, the registered webhooks and the
  API service carry the CA of the very secret whose certificate and key are in the files that the webhook server and the API
  server were started with; and these are the secrets that were in the cluster when \<open>main\<close> ensured the certificate of each server.\<close>

theorem started_trusted:
  assumes "main L getenv cluster_clients p = Some (p1, None)"
    and "OnStartedLeading L getenv cluster_clients p2 = (p3, None)"
    and "mc_files (ps_system p2) = mc_files (ps_system p1)"
    and "getenv ''UPDATE_WEBHOOK'' \<noteq> ''false''" "getenv ''UPDATE_APISERVICE'' \<noteq> ''false''"
  shows "types_established (ps_crds p1)
    \<and> (\<exists>s t. started_with (ps_system p) (ps_system p1) s t
        \<and> serves_secret (ps_system p3) WebhookCertFolder s \<and> ManagerWith WebhookCertFolder \<in> set (ps_started p1)
        \<and> (\<exists>ns config. map_of (ps_hooks p3) ValidatingWebhookConfigurationName = Some config
             \<and> wc_webhooks config = kiosk_webhooks ns (secret_entry s ''ca.crt''))
        \<and> serves_secret (ps_system p3) APIServiceCertFolder t
        \<and> (\<exists>options. ApiServer options \<in> set (ps_started p1) \<and> so_CertFile options = file_in APIServiceCertFolder ''tls.crt'')
        \<and> (\<exists>service. map_of (ps_services p3) api_service_name = Some service \<and> ap_caBundle service = secret_entry t ''ca.crt''))"
proof -
  obtain m where m: "EnsureCertSecrets machine_system (ps_system p) = Some (m, None)"
    and serve: "main_serve L getenv cluster_clients (p\<lparr>ps_system := m\<rparr>) = (p1, None)"
    using assms(1) by (auto simp: main_def cluster_clients_def split: option.splits)
  obtain es options where s: "CreateCRDs cluster_crds config_types (ps_crds p) = (Inr es, ps_crds p1)" "ps_system p1 = m"
    "tweak_server_options L getenv = Inr options" "ManagerWith WebhookCertFolder \<in> set (ps_started p1)" "ApiServer options \<in> set (ps_started p1)"
    using main_serve_ok [OF serve] by (auto simp: cluster_clients_def)
  have "so_CertFile options = file_in APIServiceCertFolder ''tls.crt''"
    using s(3) by (auto simp: tweak_server_options_def split: sum.splits)
  note s = s this
  obtain a b where ab: "started_with (ps_system p) m a b" "serves_secret m WebhookCertFolder a" "serves_secret m APIServiceCertFolder b"
    using EnsureCertSecrets_serves [OF m] by blast
  have same: "serves_secret (ps_system p2) f x = serves_secret m f x" for f x
    using assms(3) s(2) by (simp add: serves_secret_def)
  note l = leading_ok [OF assms(2)]
  have hooks: "EnsureValidatingWebhookConfiguration machine_system (ps_system p2) (stored_objects wc_name) (ps_hooks p2) = (ps_hooks p3, None)"
    and services: "EnsureAPIService machine_system (ps_system p2) (stored_objects ap_name) (ps_services p2) = (ps_services p3, None)"
    and p3: "ps_system p3 = ps_system p2" using l assms(4,5) by (simp_all add: cluster_clients_def)
  have "types_established (ps_crds p1)"
    unfolding types_established_def using cluster_types_established [OF s(1)] by blast
  then show ?thesis
    using registered_hooks_ca [OF hooks] registered_service_ca [OF services] ab s unfolding p3 same s(2) by blast
qed

section \<open>A process that starts\<close>

definition ex_libraries :: libraries where
  "ex_libraries = \<lparr>lb_GetConfig = None, lb_NewClient = None, lb_NewManager = None, lb_IndexField = None, lb_NewDecoder = None,
     lb_NamespaceInformer = None, lb_AccountInformer = None, lb_SetFeatureGate = None, lb_Atoi = (\<lambda>_. Inr 0), lb_RecorderClient = None, lb_LeaderClient = None,
     lb_Hostname = Inr ''kiosk-0'', lb_SetupAccounts = None, lb_SetupTemplateInstances = None,
     lb_controller = \<lparr>cd_quotaInformer = None, cd_namespaceInformer = None, cd_discovery = None, cd_ForResource = (\<lambda>_. None),
       cd_lister = (\<lambda>_. Inl (OtherErr []))\<rparr>,
     lb_order = id, lb_now = 0\<rparr>"

definition ex_certs :: "nat \<Rightarrow> machine" where
  "ex_certs n = (let w = fst (ensure_once machine_system ''kiosk'' WebhookCertSecretName WebhookCertFolder
        (GenerateWebhookCertificate machine_system) (ex_machine True []))
     in if n = 1 then w
        else fst (ensure_once machine_system ''kiosk'' APIServiceCertSecretName APIServiceCertFolder
          (GenerateAPIServiceCertificate machine_system) w))"

definition ex_process :: "machine \<Rightarrow> crd_cluster \<Rightarrow> service list \<Rightarrow> kiosk_process" where
  "ex_process m w started = \<lparr>ps_system = m, ps_crds = w, ps_hooks = [], ps_services = [], ps_started = started\<rparr>"

lemma ex_certs_ok: "EnsureCertSecrets machine_system (ex_machine True []) = Some (ex_certs 2, None)"
proof -
  have 1: "snd (ensure_once machine_system ''kiosk'' WebhookCertSecretName WebhookCertFolder
      (GenerateWebhookCertificate machine_system) (ex_machine True [])) = Return None" by code_simp
  have 2: "snd (ensure_once machine_system ''kiosk'' APIServiceCertSecretName APIServiceCertFolder
      (GenerateAPIServiceCertificate machine_system) (ex_certs 1)) = Return None" by code_simp
  have "ensureSecret machine_system ''kiosk'' WebhookCertSecretName WebhookCertFolder
      (GenerateWebhookCertificate machine_system) (ex_machine True []) = Some (ex_certs 1, None)"
    by (rule ensure_return) (use 1 in \<open>simp add: ex_certs_def prod_eq_iff\<close>)
  moreover have "ensureSecret machine_system ''kiosk'' APIServiceCertSecretName APIServiceCertFolder
      (GenerateAPIServiceCertificate machine_system) (ex_certs 1) = Some (ex_certs 2, None)"
    by (rule ensure_return) (use 2 in \<open>simp add: ex_certs_def prod_eq_iff\<close>)
  moreover have "CurrentNamespace machine_system (ex_machine True []) = Inr ''kiosk''" by code_simp
  moreover have "sy_CreateNamespace machine_system (ex_machine True []) ''kiosk'' = (ex_machine True [], Some (AlreadyExistsErr ''kiosk''))"
    by (simp add: machine_system_def)
  ultimately show ?thesis by (simp add: EnsureCertSecrets_def)
qed

lemma ex_main:
  "\<exists>p1. main ex_libraries (\<lambda>_. []) cluster_clients (ex_process (ex_machine True []) \<lparr>dw_crds = [], dw_left = 3\<rparr> []) = Some (p1, None)
     \<and> ps_system p1 = ex_certs 2 \<and> ps_hooks p1 = [] \<and> ps_services p1 = []"
proof -
  obtain es w where c: "CreateCRDs cluster_crds config_types \<lparr>dw_crds = [], dw_left = 3\<rparr> = (Inr es, w)"
    using CreateCRDs_succeeds [of "\<lparr>dw_crds = [], dw_left = 3\<rparr>" config_types] by auto
  show ?thesis using ex_certs_ok c
    by (simp add: main_def main_serve_def cluster_clients_def ex_libraries_def ex_process_def installCRDS_def and_then_def check_def
        begins_def webhooks_Register_def controller_context_Start_def start_api_server_def tweak_server_options_def)
qed

lemma ex_leading:
  assumes "ps_system p1 = ex_certs 2" "ps_hooks p1 = []" "ps_services p1 = []"
  shows "\<exists>p3. OnStartedLeading ex_libraries (\<lambda>_. []) cluster_clients p1 = (p3, None)"
proof -
  have "snd (EnsureValidatingWebhookConfiguration machine_system (ex_certs 2) (stored_objects wc_name) []) = None"
    "snd (EnsureAPIService machine_system (ex_certs 2) (stored_objects ap_name) []) = None" by code_simp+
  then obtain h a where e: "EnsureValidatingWebhookConfiguration machine_system (ex_certs 2) (stored_objects wc_name) [] = (h, None)"
    "EnsureAPIService machine_system (ex_certs 2) (stored_objects ap_name) [] = (a, None)" by (metis prod.collapse)
  show ?thesis
    by (simp add: OnStartedLeading_def register_webhooks_def register_api_service_def cluster_clients_def assms e and_then_def
        controllers_Register_def check_def begins_def ex_libraries_def quota_Register_def NewAccountQuotaController_def Let_def)
qed

theorem started_trusted_witness:
  "\<exists>(p3 :: kiosk_process) s t. started_with (ex_machine True []) (ex_certs 2) s t \<and> serves_secret (ps_system p3) WebhookCertFolder s
     \<and> (\<exists>ns config. map_of (ps_hooks p3) ValidatingWebhookConfigurationName = Some config
         \<and> wc_webhooks config = kiosk_webhooks ns (secret_entry s ''ca.crt''))"
proof -
  obtain p1 where p1: "main ex_libraries (\<lambda>_. []) cluster_clients (ex_process (ex_machine True []) \<lparr>dw_crds = [], dw_left = 3\<rparr> []) = Some (p1, None)"
    "ps_system p1 = ex_certs 2" "ps_hooks p1 = []" "ps_services p1 = []" using ex_main by blast
  obtain p3 where p3: "OnStartedLeading ex_libraries (\<lambda>_. []) cluster_clients p1 = (p3, None)" using ex_leading [OF p1(2-4)] by blast
  have "([] :: string) \<noteq> ''false''" by simp
  from started_trusted [OF p1(1) p3 refl this this] show ?thesis by (simp add: p1(2) ex_process_def) blast
qed

end
