(* ===== verification/Enforcement.thy ===== *)
theory Enforcement
  imports Spaces Startup
begin

text \<open>
  The parts together: the webhooks as the leader registers them, the handlers behind their paths
  (\<open>pkg/manager/webhooks/register.go\<close>), the API server that consults them, and the account quotas they charge. In a namespace
  that belongs to an account no object is created or changed without the consent of the quota admission, and no sequence of
  requests, in whatever namespaces, takes an account quota over its limits.
\<close>

section \<open>The webhook server\<close>

record 'w webhook_server =
  ws_scheme :: runtime_scheme
  ws_client :: "'w aq_client"
  ws_config :: quota_configuration
  ws_strict :: "config_object codec"
  ws_normal :: "config_object codec"

text \<open>The handlers that are registered by their paths; other paths are not found. Whether the caches of the manager have synced may
  differ from request to request.\<close>

definition serve_webhook ::
  "'w webhook_server \<Rightarrow> bool \<Rightarrow> string option \<Rightarrow> admission_request \<Rightarrow> 'w quota_state \<Rightarrow> response \<times> 'w quota_state"
where
  "serve_webhook S synced path req st =
    (if path = Some ''/quota'' then QuotaValidator_Handle (ws_scheme S) (Some (ws_client S, ws_config S, synced)) req st
     else if path = Some ''/validate'' then (Validator_Handle (ws_strict S) (ws_normal S) req, st)
     else (Errored (OtherErr ''404 page not found''), st))"

section \<open>The API server\<close>

text \<open>
  A request and the labels of its namespace: a webhook is called if one of its rules matches and the namespace has the
  labels it selects. All webhooks that are called have to allow the request.
\<close>

record api_request =
  rt_synced :: bool
  rt_labels :: "(string \<times> string) list"
  rt_request :: admission_request

definition webhook_called :: "validating_webhook \<Rightarrow> api_request \<Rightarrow> bool" where
  "webhook_called h r \<longleftrightarrow> list_ex (\<lambda>rule. rule_matches rule (rt_request r)) (wh_rules h)
     \<and> list_all (\<lambda>l. map_of (rt_labels r) l \<noteq> None) (wh_existingLabels h)"

fun consult :: "'w webhook_server \<Rightarrow> validating_webhook list \<Rightarrow> api_request \<Rightarrow> 'w quota_state \<Rightarrow> bool \<times> 'w quota_state" where
  "consult S [] r st = (True, st)"
| "consult S (h # hooks) r st =
     (if webhook_called h r then
        (case serve_webhook S (rt_synced r) (sv_path (wh_service h)) (rt_request r) st of
           (response, st) \<Rightarrow> (case consult S hooks r st of (ok, st) \<Rightarrow> (response = Allowed \<and> ok, st)))
      else consult S hooks r st)"

text \<open>A sequence of requests, and for each the answer and the state before.\<close>

fun api_requests ::
  "'w webhook_server \<Rightarrow> validating_webhook list \<Rightarrow> api_request list \<Rightarrow> 'w quota_state \<Rightarrow>
   (api_request \<times> bool \<times> 'w quota_state) list \<times> 'w quota_state"
where
  "api_requests S hooks [] st = ([], st)"
| "api_requests S hooks (r # rs) st =
     (case consult S hooks r st of
        (ok, st1) \<Rightarrow> (case api_requests S hooks rs st1 of (log, st2) \<Rightarrow> ((r, ok, st) # log, st2)))"

section \<open>What the requests leave\<close>

text \<open>What holds between requests: the evaluator is set up, and the accessor keeps the books.\<close>

definition books_ok :: "(string \<Rightarrow> resource_list) \<Rightarrow> aq_world quota_state \<Rightarrow> bool" where
  "books_ok H st \<longleftrightarrow> evaluator_ok (fst st) \<and> aq_inv (world_ok H) H (snd st)"

definition kiosk_server :: "aq_world webhook_server \<Rightarrow> bool" where
  "kiosk_server S \<longleftrightarrow> ws_client S = store_aq_client
     \<and> (\<exists>order f now. ws_config S = NewQuotaConfiguration order f now)"

lemma quota_handler_books:
  assumes "books_ok H st" "QuotaValidator_Handle scheme (Some (store_aq_client, NewQuotaConfiguration order f now, synced)) req st = (r, st')"
  shows "books_ok H st'"
proof (cases "account_Handles (ar_operation req) \<and> (\<exists>attrs. NewAttributeFromRequest scheme req = Inr attrs)")
  case False
  then have "st' = st" using assms(2) by (auto simp: QuotaValidator_Handle_def split: sum.splits if_splits)
  then show ?thesis using assms(1) by simp
next
  case True
  then obtain attrs where a: "NewAttributeFromRequest scheme req = Inr attrs" by blast
  obtain r1 e1 s1 where v: "account_Validate store_aq_client (NewQuotaConfiguration order f now) synced (attributes.truncate attrs) (fst st) (snd st)
      = (r1, e1, s1)" by (metis prod_cases3)
  have "st' = (e1, s1)" using assms(2) True a v by (auto simp: QuotaValidator_Handle_def split: option.splits)
  then show ?thesis using aq_store.account_Validate_inv [where H = H, OF _ _ v] assms(1) by (simp add: books_ok_def)
qed

lemma consult_books: "kiosk_server S \<Longrightarrow> books_ok H st \<Longrightarrow> consult S hooks r st = (ok, st') \<Longrightarrow> books_ok H st'"
proof (induction hooks arbitrary: ok st)
  case (Cons h hooks)
  show ?case
  proof (cases "webhook_called h r")
    case True
    obtain a st1 where s: "serve_webhook S (rt_synced r) (sv_path (wh_service h)) (rt_request r) st = (a, st1)" by (metis surj_pair)
    have "books_ok H st1"
      using s Cons.prems(1,2) quota_handler_books by (auto simp: serve_webhook_def kiosk_server_def split: if_splits)
    then show ?thesis using Cons.IH [OF Cons.prems(1)] Cons.prems(3) True s by (auto split: prod.splits)
  next
    case False
    then show ?thesis using Cons by simp
  qed
qed simp

lemma api_requests_books:
  "kiosk_server S \<Longrightarrow> books_ok H st \<Longrightarrow> api_requests S hooks rs st = (log, st') \<Longrightarrow> books_ok H st'"
proof (induction rs arbitrary: st log st')
  case (Cons r rs)
  obtain ok st1 where c: "consult S hooks r st = (ok, st1)" by (metis surj_pair)
  obtain log1 st2 where a: "api_requests S hooks rs st1 = (log1, st2)" by (metis surj_pair)
  show ?case using Cons.IH [OF Cons.prems(1) consult_books [OF Cons.prems(1,2) c] a] Cons.prems(3) by (simp add: c a)
qed simp

lemma api_requests_log: "api_requests S hooks rs st = (log, st') \<Longrightarrow> (r, ok, st1) \<in> set log \<Longrightarrow> fst (consult S hooks r st1) = ok"
  by (induction rs arbitrary: st log) (auto split: prod.splits)

text \<open>The quota webhook is called for every change in a namespace of an account.\<close>

lemma quota_webhook_called:
  assumes "owned_by account x" "rt_labels r = om_labels (ns_meta x)"
    and "ar_operation (rt_request r) \<in> {CreateOp, UpdateOp}" "ar_subResource (rt_request r) = []" "ar_namespace (rt_request r) \<noteq> []"
  shows "webhook_called (hd (kiosk_webhooks ns ca)) r"
  using assms by (simp add: webhook_called_def kiosk_webhooks_def rule_matches_def pattern_matches_def owned_by_def SpaceLabelAccount_def)

lemma consulted_quota:
  assumes "fst (consult S (kiosk_webhooks ns ca) r st)" "webhook_called (hd (kiosk_webhooks ns ca)) r"
  shows "fst (QuotaValidator_Handle (ws_scheme S) (Some (ws_client S, ws_config S, rt_synced r)) (rt_request r) st) = Allowed"
  using assms by (auto simp: kiosk_webhooks_def serve_webhook_def split: prod.splits if_splits)

lemma quota_allowed:
  assumes "fst (QuotaValidator_Handle scheme (Some (client, config, synced)) req st) = Allowed" "ar_operation req \<in> {CreateOp, UpdateOp}"
  shows "\<exists>attrs. NewAttributeFromRequest scheme req = Inr attrs
    \<and> fst (account_Validate client config synced (attributes.truncate attrs) (fst st) (snd st)) = None"
  using assms by (auto simp: QuotaValidator_Handle_def account_Handles_def split: sum.splits prod.splits option.splits if_splits)

section \<open>Properties\<close>

text \<open>C6. Account quotas are enforced: with the webhooks that the leader registers, whatever sequence of requests the API
  server gets, in whatever namespaces and behind whatever cache, every stored account quota stays within its hard limits
  and its namespaces keep adding up to its total. And every request that is let through to create or change an object in a namespace of
  an account, other than through a subresource (the registered rules match none), has been admitted by the quota admission in
  the state of that moment.\<close>

theorem webhooks_enforce_quotas:
  assumes "EnsureValidatingWebhookConfiguration T t (stored_objects wc_name) hs = (hs', None)"
    and "map_of hs' ValidatingWebhookConfigurationName = Some registered"
    and "kiosk_server S" "world_ok H w"
    and "api_requests S (wc_webhooks registered) rs (None, newAccountQuotaAccessor w) = (log, ev, s)"
  shows "(\<forall>n a. map_of (as_objects (kw_quotas (aa_world s))) n = Some a \<longrightarrow>
      balanced a \<and> (\<forall>k h. map_of (H n) k = Some h \<longrightarrow> amount (total_used a) k \<le> h))
    \<and> (\<forall>r st account x. (r, True, st) \<in> set log \<and> owned_by account x \<and> rt_labels r = om_labels (ns_meta x)
        \<and> ar_operation (rt_request r) \<in> {CreateOp, UpdateOp} \<and> ar_subResource (rt_request r) = []
        \<and> ar_namespace (rt_request r) \<noteq> [] \<longrightarrow>
      (\<exists>attrs. NewAttributeFromRequest (ws_scheme S) (rt_request r) = Inr attrs
        \<and> fst (account_Validate store_aq_client (ws_config S) (rt_synced r) (attributes.truncate attrs) (fst st) (snd st)) = None))"
proof -
  obtain c y where y: "prepareValidatingWebhookConfiguration T t c = Inr y" "map_of hs' = (map_of hs)(ValidatingWebhookConfigurationName \<mapsto> y)"
    using webhook_configs.ensures [OF assms(1) [unfolded ensures_objects(1)] _ prepare_webhooks_name [where S = T and s = t]] by auto
  obtain ns ca where hooks: "wc_webhooks registered = kiosk_webhooks ns ca" using prepared_webhooks [OF y(1)] assms(2) y(2) by auto
  have "books_ok H (None, newAccountQuotaAccessor w)"
    using assms(4) by (simp add: books_ok_def evaluator_ok_def aq_inv_def newAccountQuotaAccessor_def all_entries_Nil)
  from api_requests_books [OF assms(3) this assms(5)] have "world_ok H (aa_world s)" by (simp add: books_ok_def aq_inv_def)
  then have named: "named_ok H n a" if "map_of (as_objects (kw_quotas (aa_world s))) n = Some a" for n a
    using that by (auto simp: store_all_def dest: all_entries_lookup)
  have limits: "balanced a \<and> (\<forall>k h. map_of (H n) k = Some h \<longrightarrow> amount (total_used a) k \<le> h)"
    if "map_of (as_objects (kw_quotas (aa_world s))) n = Some a" for n a
    using named [OF that]
    by (auto simp: named_ok_def version_ok_def quota_ok_def within_def convert_quota_def hard_of_def used_of_def total_used_def)
  have "\<exists>attrs. NewAttributeFromRequest (ws_scheme S) (rt_request r) = Inr attrs
        \<and> fst (account_Validate store_aq_client (ws_config S) (rt_synced r) (attributes.truncate attrs) (fst st) (snd st)) = None"
    if log: "(r, True, st) \<in> set log" and called: "owned_by account x" "rt_labels r = om_labels (ns_meta x)"
      "ar_operation (rt_request r) \<in> {CreateOp, UpdateOp}" "ar_subResource (rt_request r) = []" "ar_namespace (rt_request r) \<noteq> []"
    for r st account x
  proof -
    have "fst (consult S (kiosk_webhooks ns ca) r st)" using api_requests_log [OF assms(5) log] by (simp add: hooks)
    from consulted_quota [OF this quota_webhook_called [OF called]] have
      "fst (QuotaValidator_Handle (ws_scheme S) (Some (store_aq_client, ws_config S, rt_synced r)) (rt_request r) st) = Allowed"
      using assms(3) by (simp add: kiosk_server_def)
    from quota_allowed [OF this called(3)] show ?thesis .
  qed
  with limits show ?thesis by blast
qed

text \<open>Two config maps in a space of an account that has room for one.\<close>

definition ex_webhook_server :: "aq_world webhook_server" where
  "ex_webhook_server = \<lparr>ws_scheme = ex_scheme, ws_client = store_aq_client,
     ws_config = NewQuotaConfiguration id (\<lambda>_. Inl (OtherErr [])) 0, ws_strict = ex_codec, ws_normal = ex_codec\<rparr>"

definition ex_api_request :: api_request where
  "ex_api_request = \<lparr>rt_synced = True, rt_labels = om_labels (ns_meta ex_namespace), rt_request = ex_configmap None\<rparr>"

definition ex_requests where
  "ex_requests = api_requests ex_webhook_server (kiosk_webhooks ''kiosk'' ''ca'') [ex_api_request, ex_api_request]
     (None, newAccountQuotaAccessor ex_aq_world)"

lemma ex_requests_answers: "map (fst \<circ> snd) (fst ex_requests) = [True, False]"
  by code_simp

text \<open>The first request is let through, and there is room for no second one.\<close>

theorem webhooks_enforce_quotas_witness:
  "\<exists>log ev s a. ex_requests = (log, ev, s) \<and> map_of (stored_quotas s) ''q'' = Some a \<and> balanced a
    \<and> amount (total_used a) ''count/configmaps'' \<le> 2 * 10 ^ 9
    \<and> (\<exists>attrs. NewAttributeFromRequest ex_scheme (ex_configmap None) = Inr attrs
        \<and> fst (account_Validate store_aq_client (ws_config ex_webhook_server) True (attributes.truncate attrs)
            (fst (snd (snd (hd log)))) (snd (snd (snd (hd log))))) = None)"
proof -
  obtain log ev s where run: "ex_requests = (log, ev, s)" by (metis prod_cases3)
  have "map (fst \<circ> snd) log = [True, False]" using ex_requests_answers unfolding run by simp
  then obtain r st l where log: "log = (r, True, st) # l" by (cases log; cases "hd log") auto
  have r: "r = ex_api_request"
    using run log unfolding ex_requests_def by (auto split: prod.splits)
  let ?c = "\<lparr>wc_name = ''kiosk'', wc_annotations = [], wc_webhooks = kiosk_webhooks ''kiosk'' ''ca''\<rparr>"
  have m: "map_of [(''kiosk'', ?c)] ValidatingWebhookConfigurationName = Some ?c"
    by (simp add: ValidatingWebhookConfigurationName_def)
  have K: "kiosk_server ex_webhook_server" by (auto simp: kiosk_server_def ex_webhook_server_def)
  have W: "world_ok (\<lambda>_. [(''count/configmaps'', 2 * 10 ^ 9)]) ex_aq_world"
    using ex_account_quota_ok by (simp add: store_all_def all_entries_def ex_aq_world_def)
  have R: "api_requests ex_webhook_server (wc_webhooks ?c) [ex_api_request, ex_api_request] (None, newAccountQuotaAccessor ex_aq_world)
      = (log, ev, s)" using run by (simp only: ex_requests_def webhook_configuration.simps)
  have "map_of (stored_quotas (snd (snd ex_requests))) ''q'' \<noteq> None" by code_simp
  then obtain a where a: "map_of (as_objects (kw_quotas (aa_world s))) ''q'' = Some a" unfolding run by auto
  have O: "owned_by ''acme'' ex_namespace" by (simp add: owned_by_def ex_namespace_def)
  have req: "ar_operation (rt_request r) \<in> {CreateOp, UpdateOp}" "ar_subResource (rt_request r) = []"
    "ar_namespace (rt_request r) \<noteq> []" "rt_labels r = om_labels (ns_meta ex_namespace)"
    by (simp_all add: r ex_api_request_def ex_configmap_def ex_quota_request_def)
  have L: "(r, True, st) \<in> set log" by (simp add: log)
  note e = webhooks_enforce_quotas [OF ex_registered_ok [unfolded ex_registered_def] m K W R]
  have "balanced a \<and> amount (total_used a) ''count/configmaps'' \<le> 2 * 10 ^ 9"
    using conjunct1 [OF e, rule_format, OF a] by simp
  moreover have "\<exists>attrs. NewAttributeFromRequest (ws_scheme ex_webhook_server) (rt_request r) = Inr attrs
      \<and> fst (account_Validate store_aq_client (ws_config ex_webhook_server) (rt_synced r) (attributes.truncate attrs) (fst st) (snd st)) = None"
    using conjunct2 [OF e, rule_format, of r st "''acme''" ex_namespace] L O req by blast
  ultimately show ?thesis using a run unfolding r
    by (intro exI [of _ log] exI [of _ ev] exI [of _ s] exI [of _ a]) (simp add: log ex_webhook_server_def ex_api_request_def)
qed

end
