(* ===== verification/Spec2Isabelle.thy ===== *)
theory Spec2Isabelle
  imports Locks RbacBuilders Helpers QuotaMonitor AccountController WatchRegistry CacheClient Accounts Enforcement
begin

text \<open>
  A verification library for kiosk, the multi-tenancy extension for Kubernetes.

  \<^bold>\<open>The program.\<close> A manager process runs the controllers (account quotas, accounts, template instances) and the
  admission webhooks; an aggregated API server serves accounts and spaces to tenants and authorises their
  requests. Both read through cached clients that lag behind the API server and write with optimistic concurrency.
  A space is a namespace with a label that names its account. Creating one checks the account and its limit, creates
  the namespace, applies the templates of the account and waits for them. From then on the objects in the
  namespace are charged to the account quotas of the account: by the quota webhook before they are created, and by the
  controller, which recounts them.

  \<^bold>\<open>Theories.\<close> Foundations:
  \<^item> \<open>Prelude\<close>: errors, strings, Go maps as association lists, lemmas on the loops that build them.
  \<^item> \<open>ApiTypes\<close>, \<open>KioskTypes\<close>: the API objects as records (\<open>pkg/apis\<close>, and the Kubernetes types).
  \<^item> \<open>ApiServer\<close>: resource versions, LRU caches, and a store with optimistic concurrency behind a lagging cache, on
    which the interfaces of the clients are interpreted.
  \<^item> \<open>Quantities\<close>: the machine representation of quantities and their 64-bit milli values (the vendored
    \<open>apimachinery/pkg/api/resource\<close>), on which validation rests, and where they are exact.
  \<^item> \<open>Unstructured\<close>: parsed manifests and the accessors of their metadata.

  Who may do what:
  \<^item> \<open>RbacRules\<close>, \<open>RbacResolve\<close>, \<open>RbacBuilders\<close>: matching, covering and compaction of policy rules, rule resolution,
    the escalation check and the builders of rules and bindings (\<open>kube/pkg/apis/rbac/v1\<close>,
    \<open>kube/pkg/registry/rbac/validation\<close>).
  \<^item> \<open>Authorizer\<close>: the authorizer over indexed bindings, filtered lists, account membership
    (\<open>pkg/authorization\<close>, \<open>pkg/util/subject\<close>, the index functions of \<open>pkg/manager/controllers\<close>).
  \<^item> \<open>AccountController\<close>: the roles and bindings that give an account its spaces
    (\<open>pkg/manager/controllers/account_controller.go\<close>, \<open>pkg/util/clusterrole\<close>).

  Quotas:
  \<^item> \<open>ResourceLists\<close>, \<open>Evaluators\<close>, \<open>PodEvaluator\<close>: resource arithmetic and the evaluators that say what an object is
    charged (\<open>kube/pkg/quota/v1\<close>).
  \<^item> \<open>QuotaAdmission\<close>, \<open>QuotaQueue\<close>, \<open>QuotaAccess\<close>: the decision on a request, batches with retries, the workers as
    a state machine, the accessor of resource quotas (\<open>kube/plugin/pkg/admission/resourcequota\<close>).
  \<^item> \<open>AccountQuota\<close>, \<open>AccountAdmission\<close>: admission against account quotas (\<open>pkg/manager/quota\<close>).
  \<^item> \<open>Locks\<close>: the lock factory, with concurrent calls as a step relation (\<open>pkg/util/locks.go\<close>),
    and the workers that hold its mutexes, which refine the name locks of \<open>AccountAdmission\<close>.
  \<^item> \<open>AccountQuotaController\<close>, \<open>QuotaMonitor\<close>: recalculation of account quotas (\<open>pkg/manager/quota/controller\<close>).

  Templates:
  \<^item> \<open>Parameters\<close>: variables in strings and documents (\<open>pkg/util/parameters\<close>).
  \<^item> \<open>Merge\<close>: the three-way merge of manifests into the cluster (\<open>pkg/manager/merge\<close>).
  \<^item> \<open>TemplateInstances\<close>: the controller of template instances, and the rendering with helm
    (\<open>pkg/manager/controllers/templateinstance_controller.go\<close>, \<open>pkg/manager/helm\<close>, \<open>pkg/util/convert\<close>).

  The API server and the manager around them:
  \<^item> \<open>Spaces\<close>, \<open>Accounts\<close>: the storage of spaces and accounts (\<open>pkg/apiserver/registry\<close>).
  \<^item> \<open>WatchRegistry\<close>: the registries behind watches, with informer and clients as interleaved steps (\<open>pkg/watch\<close>).
  \<^item> \<open>CacheClient\<close>: writes that wait for the cache (\<open>pkg/manager/blockingcacheclient\<close>).
  \<^item> \<open>Validation\<close>, \<open>Webhooks\<close>: the validators of the config API and the two webhooks (\<open>pkg/apis/config/validation\<close>,
    \<open>pkg/manager/webhooks\<close>, \<open>pkg/util/encoding\<close>).
  \<^item> \<open>Certificates\<close>, \<open>Registration\<close>: the certificates of the servers, and their registration with the cluster
    (\<open>pkg/util/secret\<close>, \<open>pkg/util/certhelper\<close>, \<open>pkg/store\<close>).
  \<^item> \<open>Startup\<close>: the order in which a process starts, and what the leader does (\<open>cmd/kiosk\<close>, \<open>pkg/leaderelection\<close>, the
    \<open>Register\<close> functions); what has been registered is tied to the certificates that are served.
  \<^item> \<open>Enforcement\<close>: webhooks, API server and quota admission together: nothing is changed in a space, other than through a
    subresource, without the consent of the quotas (\<open>pkg/manager/webhooks/register.go\<close>).
  \<^item> \<open>Helpers\<close>: comparison of strings, the owning deployment, listers and waits for caches (\<open>pkg/util\<close>).

  \<^bold>\<open>Interfaces.\<close> Each is a locale, with the theory of the provider holding the interpretation.
  \<^item> \<open>evaluator_law\<close> (the four kinds of evaluators), \<open>indexed_client\<close> (the authorizer's cache), \<open>exclusive_queue\<close> (the
    work queue), \<open>accessor_inv\<close> (what batches rely on in an accessor), which follows from \<open>quota_client\<close> and
    \<open>account_client\<close> by \<open>sublocale\<close>; both are interpreted on clients over \<open>api_store\<close>.
  \<^item> \<open>rest_api\<close> (what the merge relies on in the API server; \<open>kube\<close> on a cluster of objects), \<open>instance_client\<close> and
    \<open>ti_invariant\<close> (template instances; \<open>ti_on_cluster\<close>, \<open>ti_specs\<close>), \<open>namespace_store\<close> (\<open>spaces\<close>), \<open>rbac_store\<close>
    (\<open>accounts\<close>), \<open>cache_reader\<close> (\<open>lagging\<close>), \<open>account_store\<close> (\<open>kiosk_accounts\<close>), \<open>secret_store\<close> (\<open>machine\<close>),
    \<open>named_objects\<close> (\<open>webhook_configs\<close>, \<open>api_services\<close>), \<open>crd_api\<close> (\<open>cluster\<close>).

  \<^bold>\<open>What the lemmas show.\<close> For admission: a request is admitted only within the quotas, is charged exactly, and the
  accessor keeps the books consistent. For the queue and the locks: no request is lost, no circle of waiting, one
  mutex for each quota. For authorization: the decision is the one the bindings and roles demand, with or without
  index, and grants never escalate. For the controllers: one reconciliation establishes what the specification asks for
  and the next changes nothing, and failures are recorded. For the storage: what a tenant is given is what he may see, and no update
  is lost. For validation and the webhooks: what is let in is well-formed, and the quotas of the namespaces of accounts
  are never exceeded. The error properties describe where the code does something else than it means to.

  \<^bold>\<open>Conventions.\<close> Go maps are association lists with distinct keys, in one of the orders Go may iterate in. A quantity is
  an integer number of nano units, except where a validator reads it as it is decoded. Every error is a value of \<open>gerror\<close>; its formatted details are left out where the
  code only logs or returns them. A call that may fail returns a sum, \<open>Inl\<close> being the error. Clients, informers,
  clocks, codecs and the file system are parameters, records of functions on a world that the model does not look into.
  The worlds on which the interfaces are interpreted have writes that fail (\<open>sw_faults\<close>) and other processes that write
  between the calls of an operation (\<open>wa_others\<close>, \<open>mc_others\<close>).

  \<^bold>\<open>Bounds.\<close> All are those of the code. \<open>checkQuotas\<close> recurses on its retry counter (three retries); loops that poll
  recurse on the ticks until their timeout: 80 for the quotas to become ready (eight seconds in steps of 100 ms),
  \<open>instance_ticks\<close> 60 and \<open>access_ticks\<close> 5 for a new space, \<open>cache_ticks\<close> 200 for the cache (two seconds in steps of 10 ms),
  \<open>crd_ticks\<close> 119 for the custom resource definitions (a minute in steps of half a second, with the look before the first wait),
  \<open>sync_ticks\<close> 100 for the informers (ten seconds in steps of 100 ms). An LRU cache holds 100 entries. A failed
  template instance asks to be tried again after 300 seconds. \<open>ensureSecret\<close> calls itself without a bound; it is a
  \<open>partial_function\<close> of type \<open>option\<close>, and that it returns is a property. Integers are unbounded except in \<open>Quantities\<close>
  and for the grace period of a pod, where the code can overflow: these wrap around at 64 bits (\<open>wrap64\<close>).

  \<^bold>\<open>Not modelled.\<close> Generated code (deep copies, conversions, OpenAPI, clients, informers and listers); flags, and what
  controller-runtime and the apiserver library do with the handlers they are given; the election of a leader itself, which is a call of client-go;
  logging; gzip compression; the tables of \<open>ConvertToTable\<close>; running helm and other commands, beyond their arguments and output; the fakes for
  tests. The manifest lists these parts with their files.
\<close>

end
